(* ===== verification/Prelude.thy ===== *)
theory Prelude
  imports Main "HOL-Library.Word" "HOL-Library.Monad_Syntax"
begin

text \<open>
  The prelude of the development: the names of the machine types, the errno values the
  C code returns, and the small facts about words, lists and options that the component
  theories share.

  Conventions used everywhere:
  \<^item> an integer of width \<open>w\<close> is a \<open>w word\<close>; \<open>unat\<close> reads it, its arithmetic wraps;
  \<^item> an \<open>int\<close> return code is an \<open>int\<close>, with \<open>- EINVAL\<close> and the like for the errors;
  \<^item> a function whose result is an \<open>option\<close> of a return value uses \<open>None\<close> for undefined
    behaviour of the C code (a NULL dereference or an access out of bounds), so that
    "never \<open>None\<close>" is memory safety;
  \<^item> the machine is LP64 and little endian (the code's \<open>x86_64\<close> target).
\<close>

type_synonym u8 = "8 word"
type_synonym u16 = "16 word"
type_synonym u32 = "32 word"
type_synonym u64 = "64 word"

section \<open>Collections of facts\<close>

named_theorems word_simps \<open>reading sums, differences and casts of words as numbers\<close>
named_theorems bytes_simps \<open>reads and writes of little endian integers\<close>

section \<open>errno\<close>

abbreviation (input) EPERM :: int where "EPERM \<equiv> 1"
abbreviation (input) ENOENT :: int where "ENOENT \<equiv> 2"
abbreviation (input) E2BIG :: int where "E2BIG \<equiv> 7"
abbreviation (input) ENOMEM :: int where "ENOMEM \<equiv> 12"
abbreviation (input) EEXIST :: int where "EEXIST \<equiv> 17"
abbreviation (input) ENODEV :: int where "ENODEV \<equiv> 19"
abbreviation (input) EINVAL :: int where "EINVAL \<equiv> 22"
abbreviation (input) ERANGE :: int where "ERANGE \<equiv> 34"
abbreviation (input) EMSGSIZE :: int where "EMSGSIZE \<equiv> 90"
abbreviation (input) EOPNOTSUPP :: int where "EOPNOTSUPP \<equiv> 95"
abbreviation (input) EUCLEAN :: int where "EUCLEAN \<equiv> 117"

section \<open>Words\<close>

lemma unat_add_small [word_simps]:
  fixes a b :: "'a::len word"
  assumes "unat a + unat b < 2 ^ LENGTH('a)"
  shows "unat (a + b) = unat a + unat b"
  using assms by (simp add: unat_word_ariths(1))

lemma unat_sub_le [word_simps]:
  fixes a b :: "'a::len word"
  assumes "b \<le> a"
  shows "unat (a - b) = unat a - unat b"
  using assms by (simp add: unat_sub)

lemma unat_less: "unat (w :: 'a::len word) < 2 ^ LENGTH('a)"
  by (rule unsigned_less)

lemma unat_of_nat_small [word_simps]:
  "n < 2 ^ LENGTH('a) \<Longrightarrow> unat (of_nat n :: 'a::len word) = n"
  by (simp add: unat_of_nat)

section \<open>Decimal numerals\<close>

text \<open>\<^verbatim>\<open>std::to_string\<close> and \<^verbatim>\<open>%u\<close> of a natural number.\<close>

definition digit_char :: "nat \<Rightarrow> char" where
  "digit_char d = char_of (48 + d)"

fun to_string :: "nat \<Rightarrow> string" where
  "to_string n = (if n < 10 then [digit_char n] else to_string (n div 10) @ [digit_char (n mod 10)])"

declare to_string.simps [simp del]

lemma digit_char_inj: "a < 10 \<Longrightarrow> b < 10 \<Longrightarrow> digit_char a = digit_char b \<Longrightarrow> a = b"
  unfolding digit_char_def by (drule arg_cong [where f = "of_char :: char \<Rightarrow> nat"]) simp

lemma to_string_nonempty: "to_string n \<noteq> []"
  by (subst to_string.simps) simp

lemma to_string_inj: "to_string a = to_string b \<Longrightarrow> a = b"
proof (induction a arbitrary: b rule: to_string.induct)
  case (1 a)
  show ?case
  proof (cases "a < 10 \<or> b < 10")
    case True
    with "1.prems" to_string_nonempty show ?thesis
      by (auto simp: to_string.simps [of a] to_string.simps [of b] append_eq_Cons_conv
          Cons_eq_append_conv split: if_splits dest: digit_char_inj)
  next
    case False
    with "1.prems" have "to_string (a div 10) = to_string (b div 10)"
      and "digit_char (a mod 10) = digit_char (b mod 10)"
      by (auto simp: to_string.simps [of a] to_string.simps [of b])
    with "1.IH" [of "b div 10"] False have "a div 10 = b div 10" and "a mod 10 = b mod 10"
      using digit_char_inj [of "a mod 10" "b mod 10"] by auto
    then show ?thesis by (metis div_mult_mod_eq)
  qed
qed

section \<open>Sizes\<close>

definition PAGE_SIZE :: nat where "PAGE_SIZE = 4096"

definition PAGE_ALIGN :: "nat \<Rightarrow> nat" where
  "PAGE_ALIGN n = (n + PAGE_SIZE - 1) div PAGE_SIZE * PAGE_SIZE"

end
