(* ===== verification/CpuStatKernel.thy ===== *)
theory CpuStatKernel
  imports Prelude
begin

text \<open>
  The kernel module \<^verbatim>\<open>kernel/cpu_stat_module/cpu_stat_collector.c\<close> and the region it shares
  with user space (\<^verbatim>\<open>shared/cpu_stat_shared.h\<close>).

  A collection is the list of the individual stores it makes, in program order
  (\<open>collect_all_writes\<close>): the timer callback as a whole is their composition, and the
  theory \<open>SeqLock\<close> interleaves the same stores with a reader. What the kernel provides
  (the cputime accounting, the clock, the number of CPUs, whether an allocation or the
  registration of the device succeeds) is the argument \<open>kernel_env\<close> or a plain argument.
\<close>

section \<open>The shared region\<close>

definition CPU_STAT_SHARED_VERSION :: u32 where "CPU_STAT_SHARED_VERSION = 1"
definition CPU_STAT_MAX_CPUS :: u32 where "CPU_STAT_MAX_CPUS = 256"

record cpu_stat_shared_raw =
  raw_user :: u64
  raw_nice :: u64
  raw_system :: u64
  raw_idle :: u64
  raw_iowait :: u64
  raw_irq :: u64
  raw_softirq :: u64
  raw_steal :: u64
  raw_guest :: u64
  raw_guest_nice :: u64

record cpu_stat_shared_region =
  rg_version :: u32
  rg_cpu_count :: u32
  rg_seq :: u32
  rg_reserved :: u32
  rg_sample_ns :: u64
  rg_cpus :: "cpu_stat_shared_raw list"

definition zero_raw :: cpu_stat_shared_raw where
  "zero_raw = \<lparr>raw_user = 0, raw_nice = 0, raw_system = 0, raw_idle = 0, raw_iowait = 0,
     raw_irq = 0, raw_softirq = 0, raw_steal = 0, raw_guest = 0, raw_guest_nice = 0\<rparr>"

text \<open>The region after \<^verbatim>\<open>memset(g_shared_region, 0, ...)\<close>.\<close>

definition zero_region :: cpu_stat_shared_region where
  "zero_region = \<lparr>rg_version = 0, rg_cpu_count = 0, rg_seq = 0, rg_reserved = 0,
     rg_sample_ns = 0, rg_cpus = replicate (unat CPU_STAT_MAX_CPUS) zero_raw\<rparr>"

definition region_sizeof :: nat where
  "region_sizeof = 4 * 4 + 8 + 256 * 80"

definition cpu_stat_region_size :: nat where
  "cpu_stat_region_size = PAGE_ALIGN region_sizeof"

section \<open>Stores into the region\<close>

datatype cpu_field =
    F_user | F_nice | F_system | F_idle | F_iowait
  | F_irq | F_softirq | F_steal | F_guest | F_guest_nice

fun put_field :: "cpu_field \<Rightarrow> u64 \<Rightarrow> cpu_stat_shared_raw \<Rightarrow> cpu_stat_shared_raw" where
  "put_field F_user v r = r\<lparr>raw_user := v\<rparr>"
| "put_field F_nice v r = r\<lparr>raw_nice := v\<rparr>"
| "put_field F_system v r = r\<lparr>raw_system := v\<rparr>"
| "put_field F_idle v r = r\<lparr>raw_idle := v\<rparr>"
| "put_field F_iowait v r = r\<lparr>raw_iowait := v\<rparr>"
| "put_field F_irq v r = r\<lparr>raw_irq := v\<rparr>"
| "put_field F_softirq v r = r\<lparr>raw_softirq := v\<rparr>"
| "put_field F_steal v r = r\<lparr>raw_steal := v\<rparr>"
| "put_field F_guest v r = r\<lparr>raw_guest := v\<rparr>"
| "put_field F_guest_nice v r = r\<lparr>raw_guest_nice := v\<rparr>"

fun get_field :: "cpu_field \<Rightarrow> cpu_stat_shared_raw \<Rightarrow> u64" where
  "get_field F_user r = raw_user r"
| "get_field F_nice r = raw_nice r"
| "get_field F_system r = raw_system r"
| "get_field F_idle r = raw_idle r"
| "get_field F_iowait r = raw_iowait r"
| "get_field F_irq r = raw_irq r"
| "get_field F_softirq r = raw_softirq r"
| "get_field F_steal r = raw_steal r"
| "get_field F_guest r = raw_guest r"
| "get_field F_guest_nice r = raw_guest_nice r"

datatype region_write =
    W_seq u32
  | W_version u32
  | W_cpu_count u32
  | W_sample_ns u64
  | W_cpu_zero nat
  | W_cpu nat cpu_field u64

fun apply_write :: "region_write \<Rightarrow> cpu_stat_shared_region \<Rightarrow> cpu_stat_shared_region" where
  "apply_write (W_seq v) r = r\<lparr>rg_seq := v\<rparr>"
| "apply_write (W_version v) r = r\<lparr>rg_version := v\<rparr>"
| "apply_write (W_cpu_count v) r = r\<lparr>rg_cpu_count := v\<rparr>"
| "apply_write (W_sample_ns v) r = r\<lparr>rg_sample_ns := v\<rparr>"
| "apply_write (W_cpu_zero i) r = r\<lparr>rg_cpus := (rg_cpus r)[i := zero_raw]\<rparr>"
| "apply_write (W_cpu i f v) r = r\<lparr>rg_cpus := (rg_cpus r)[i := put_field f v (rg_cpus r ! i)]\<rparr>"

definition apply_writes :: "region_write list \<Rightarrow> cpu_stat_shared_region \<Rightarrow> cpu_stat_shared_region" where
  "apply_writes ws r = fold apply_write ws r"

section \<open>The collector\<close>

datatype cpu_usage_stat =
    CPUTIME_USER | CPUTIME_NICE | CPUTIME_SYSTEM | CPUTIME_SOFTIRQ | CPUTIME_IRQ
  | CPUTIME_IDLE | CPUTIME_IOWAIT | CPUTIME_STEAL | CPUTIME_GUEST | CPUTIME_GUEST_NICE

record kernel_env =
  config_virt_cpu_accounting_gen :: bool
  jiffies_to_usecs :: "u64 \<Rightarrow> u64"
  kcpustat_field :: "cpu_usage_stat \<Rightarrow> nat \<Rightarrow> u64"
  get_cpu_idle_time_us :: "nat \<Rightarrow> u64"
  get_cpu_iowait_time_us :: "nat \<Rightarrow> u64"
  num_possible_cpus :: u32
  ktime_get_ns :: u64

definition cpu_time_units_to_us :: "kernel_env \<Rightarrow> u64 \<Rightarrow> u64" where
  "cpu_time_units_to_us env v =
     (if config_virt_cpu_accounting_gen env then v div 1000 else jiffies_to_usecs env v)"

definition read_cpustat_us :: "kernel_env \<Rightarrow> cpu_usage_stat \<Rightarrow> nat \<Rightarrow> u64" where
  "read_cpustat_us env field cpu = cpu_time_units_to_us env (kcpustat_field env field cpu)"

definition idle_us :: "kernel_env \<Rightarrow> nat \<Rightarrow> u64" where
  "idle_us env cpu =
     (if get_cpu_idle_time_us env cpu = - 1 then read_cpustat_us env CPUTIME_IDLE cpu
      else get_cpu_idle_time_us env cpu)"

definition iowait_us :: "kernel_env \<Rightarrow> nat \<Rightarrow> u64" where
  "iowait_us env cpu =
     (if get_cpu_iowait_time_us env cpu = - 1 then read_cpustat_us env CPUTIME_IOWAIT cpu
      else get_cpu_iowait_time_us env cpu)"

text \<open>The stores of \<^verbatim>\<open>collect_cpu_stat_raw(cpu, &region->cpus[cpu])\<close>, in program order.\<close>

definition collect_cpu_stat_raw :: "kernel_env \<Rightarrow> nat \<Rightarrow> region_write list" where
  "collect_cpu_stat_raw env cpu =
     [W_cpu_zero cpu,
      W_cpu cpu F_user (read_cpustat_us env CPUTIME_USER cpu),
      W_cpu cpu F_nice (read_cpustat_us env CPUTIME_NICE cpu),
      W_cpu cpu F_system (read_cpustat_us env CPUTIME_SYSTEM cpu),
      W_cpu cpu F_irq (read_cpustat_us env CPUTIME_IRQ cpu),
      W_cpu cpu F_softirq (read_cpustat_us env CPUTIME_SOFTIRQ cpu),
      W_cpu cpu F_steal (read_cpustat_us env CPUTIME_STEAL cpu),
      W_cpu cpu F_guest (read_cpustat_us env CPUTIME_GUEST cpu),
      W_cpu cpu F_guest_nice (read_cpustat_us env CPUTIME_GUEST_NICE cpu),
      W_cpu cpu F_idle (idle_us env cpu),
      W_cpu cpu F_iowait (iowait_us env cpu)]"

definition collect_cpu_count :: "kernel_env \<Rightarrow> u32" where
  "collect_cpu_count env = min (num_possible_cpus env) CPU_STAT_MAX_CPUS"

text \<open>The stores between the two updates of \<open>seq\<close>.\<close>

definition collect_body :: "kernel_env \<Rightarrow> region_write list" where
  "collect_body env =
     [W_version CPU_STAT_SHARED_VERSION,
      W_cpu_count (collect_cpu_count env),
      W_sample_ns (ktime_get_ns env)] @
     concat (map (collect_cpu_stat_raw env) [0..<unat (collect_cpu_count env)])"

definition collect_all_writes :: "kernel_env \<Rightarrow> cpu_stat_shared_region \<Rightarrow> region_write list" where
  "collect_all_writes env r =
     (let seq_before = rg_seq r
      in [W_seq (seq_before + 1)] @ collect_body env @ [W_seq (seq_before + 2)])"

definition collect_all_cpu_stats ::
    "kernel_env \<Rightarrow> cpu_stat_shared_region option \<Rightarrow> cpu_stat_shared_region option" where
  "collect_all_cpu_stats env g =
     (case g of None \<Rightarrow> None | Some r \<Rightarrow> Some (apply_writes (collect_all_writes env r) r))"


section \<open>What one collection leaves in the region\<close>

definition raw_of :: "kernel_env \<Rightarrow> nat \<Rightarrow> cpu_stat_shared_raw" where
  "raw_of env cpu =
     \<lparr>raw_user = read_cpustat_us env CPUTIME_USER cpu,
      raw_nice = read_cpustat_us env CPUTIME_NICE cpu,
      raw_system = read_cpustat_us env CPUTIME_SYSTEM cpu,
      raw_idle = idle_us env cpu,
      raw_iowait = iowait_us env cpu,
      raw_irq = read_cpustat_us env CPUTIME_IRQ cpu,
      raw_softirq = read_cpustat_us env CPUTIME_SOFTIRQ cpu,
      raw_steal = read_cpustat_us env CPUTIME_STEAL cpu,
      raw_guest = read_cpustat_us env CPUTIME_GUEST cpu,
      raw_guest_nice = read_cpustat_us env CPUTIME_GUEST_NICE cpu\<rparr>"

lemma apply_writes_Nil [simp]: "apply_writes [] r = r"
  by (simp add: apply_writes_def)

lemma apply_writes_Cons [simp]: "apply_writes (w # ws) r = apply_writes ws (apply_write w r)"
  by (simp add: apply_writes_def)

lemma apply_writes_append [simp]: "apply_writes (us @ ws) r = apply_writes ws (apply_writes us r)"
  by (simp add: apply_writes_def)

lemma length_rg_cpus_write [simp]: "length (rg_cpus (apply_write w r)) = length (rg_cpus r)"
  by (cases w) auto

lemma length_rg_cpus_writes [simp]: "length (rg_cpus (apply_writes ws r)) = length (rg_cpus r)"
  by (induction ws arbitrary: r) auto

lemma apply_collect_raw:
  assumes "cpu < length (rg_cpus r)"
  shows "apply_writes (collect_cpu_stat_raw env cpu) r =
           r\<lparr>rg_cpus := (rg_cpus r)[cpu := raw_of env cpu]\<rparr>"
  using assms by (simp add: collect_cpu_stat_raw_def raw_of_def zero_raw_def)

lemma apply_collect_cpus:
  assumes "n \<le> length (rg_cpus r)"
  shows "apply_writes (concat (map (collect_cpu_stat_raw env) [0..<n])) r =
           r\<lparr>rg_cpus := map (raw_of env) [0..<n] @ drop n (rg_cpus r)\<rparr>"
  using assms
proof (induction n)
  case 0
  then show ?case by simp
next
  case (Suc n)
  let ?xs = "map (raw_of env) [0..<n]"
  have "?xs @ drop n (rg_cpus r) = ?xs @ rg_cpus r ! n # drop (Suc n) (rg_cpus r)"
    using Suc.prems by (simp add: Cons_nth_drop_Suc)
  with Suc show ?case
    by (simp add: apply_collect_raw list_update_append)
qed

lemma unat_MAX_CPUS [simp]: "unat CPU_STAT_MAX_CPUS = 256"
  by (simp add: CPU_STAT_MAX_CPUS_def)

lemma collect_cpu_count_le: "unat (collect_cpu_count env) \<le> 256"
proof -
  have "collect_cpu_count env \<le> CPU_STAT_MAX_CPUS"
    by (simp add: collect_cpu_count_def)
  then show ?thesis by (simp add: word_le_nat_alt)
qed

lemma apply_collect_body:
  assumes "length (rg_cpus r) = 256"
  shows "apply_writes (collect_body env) r =
           r\<lparr>rg_version := CPU_STAT_SHARED_VERSION,
             rg_cpu_count := collect_cpu_count env,
             rg_sample_ns := ktime_get_ns env,
             rg_cpus := map (raw_of env) [0..<unat (collect_cpu_count env)] @
                        drop (unat (collect_cpu_count env)) (rg_cpus r)\<rparr>"
  using assms collect_cpu_count_le [of env]
  by (simp add: collect_body_def apply_collect_cpus)

text \<open>The region a collection that starts from \<open>r\<close> leaves behind.\<close>

definition collected :: "kernel_env \<Rightarrow> cpu_stat_shared_region \<Rightarrow> cpu_stat_shared_region" where
  "collected env r =
     r\<lparr>rg_version := CPU_STAT_SHARED_VERSION,
       rg_cpu_count := collect_cpu_count env,
       rg_seq := rg_seq r + 2,
       rg_sample_ns := ktime_get_ns env,
       rg_cpus := map (raw_of env) [0..<unat (collect_cpu_count env)] @
                  drop (unat (collect_cpu_count env)) (rg_cpus r)\<rparr>"

lemma apply_collect_all:
  assumes "length (rg_cpus r) = 256"
  shows "apply_writes (collect_all_writes env r) r = collected env r"
  using assms by (simp add: collect_all_writes_def collected_def apply_collect_body Let_def)

text \<open>A region a reader accepts: the version, the number of CPUs and an even \<open>seq\<close>.\<close>

definition region_ok :: "cpu_stat_shared_region \<Rightarrow> bool" where
  "region_ok r \<longleftrightarrow> rg_version r = CPU_STAT_SHARED_VERSION \<and> rg_cpu_count r \<noteq> 0 \<and>
     rg_cpu_count r \<le> CPU_STAT_MAX_CPUS \<and> even (unat (rg_seq r)) \<and> length (rg_cpus r) = 256"

lemma even_unat_add2: "even (unat (s + 2 :: u32)) = even (unat s)"
  by (simp add: unat_word_ariths dvd_mod_iff)

lemma collected_ok:
  assumes "length (rg_cpus r) = 256" and "even (unat (rg_seq r))" and "num_possible_cpus env \<noteq> 0"
  shows "region_ok (collected env r)"
proof -
  have "length (rg_cpus (collected env r)) = 256"
    using assms(1) collect_cpu_count_le [of env] by (simp add: collected_def)
  moreover have "collect_cpu_count env \<noteq> 0" and "collect_cpu_count env \<le> CPU_STAT_MAX_CPUS"
    using assms(3) by (auto simp: collect_cpu_count_def CPU_STAT_MAX_CPUS_def min_def)
  ultimately show ?thesis
    using assms(2) by (simp add: region_ok_def collected_def even_unat_add2)
qed

section \<open>The module: load, timer, mmap, unload\<close>

record kmod =
  g_shared_region :: "cpu_stat_shared_region option"
  misc_registered :: bool
  timer_armed :: bool

definition kmod0 :: kmod where
  "kmod0 = \<lparr>g_shared_region = None, misc_registered = False, timer_armed = False\<rparr>"

datatype hrtimer_restart = HRTIMER_NORESTART | HRTIMER_RESTART

definition cpu_stat_timer_callback :: "kernel_env \<Rightarrow> kmod \<Rightarrow> hrtimer_restart \<times> kmod" where
  "cpu_stat_timer_callback env s =
     (HRTIMER_RESTART, s\<lparr>g_shared_region := collect_all_cpu_stats env (g_shared_region s)\<rparr>)"

text \<open>\<open>remap\<close> is what \<^verbatim>\<open>remap_vmalloc_range\<close> returns.\<close>

definition cpu_stat_monitor_mmap :: "kmod \<Rightarrow> nat \<Rightarrow> nat \<Rightarrow> int \<Rightarrow> int" where
  "cpu_stat_monitor_mmap s vm_start vm_end remap =
     (if g_shared_region s = None then - ENODEV
      else if vm_end - vm_start > cpu_stat_region_size then - EINVAL
      else remap)"

text \<open>\<open>vmalloc_ok\<close>: the allocation succeeds; \<open>ret\<close>: what \<^verbatim>\<open>misc_register\<close> returns.\<close>

definition cpu_stat_collector_init :: "kernel_env \<Rightarrow> bool \<Rightarrow> int \<Rightarrow> kmod \<Rightarrow> int \<times> kmod" where
  "cpu_stat_collector_init env vmalloc_ok ret s =
     (if \<not> vmalloc_ok then (- ENOMEM, s\<lparr>g_shared_region := None\<rparr>)
      else let s1 = s\<lparr>g_shared_region := Some zero_region\<rparr>
           in if ret \<noteq> 0 then (ret, s1\<lparr>g_shared_region := None\<rparr>)
              else let s2 = s1\<lparr>misc_registered := True\<rparr>;
                       s3 = s2\<lparr>g_shared_region := collect_all_cpu_stats env (g_shared_region s2)\<rparr>
                   in (0, s3\<lparr>timer_armed := True\<rparr>))"

definition cpu_stat_collector_exit :: "kmod \<Rightarrow> kmod" where
  "cpu_stat_collector_exit s =
     (let s1 = s\<lparr>timer_armed := False\<rparr>;
          s2 = s1\<lparr>misc_registered := False\<rparr>
      in if g_shared_region s2 \<noteq> None then s2\<lparr>g_shared_region := None\<rparr> else s2)"

text \<open>
  The life of the module: it is loaded when it is not loaded (a failed load leaves it
  unloaded), its timer fires while it is armed, and it is unloaded once it is loaded.
  The machine has at least one CPU.
\<close>

inductive kmod_step :: "kmod \<Rightarrow> kmod \<Rightarrow> bool" where
  load: "\<not> misc_registered s \<Longrightarrow> num_possible_cpus env \<noteq> 0 \<Longrightarrow>
     cpu_stat_collector_init env ok ret s = (rc, t) \<Longrightarrow> kmod_step s t"
| tick: "timer_armed s \<Longrightarrow> num_possible_cpus env \<noteq> 0 \<Longrightarrow>
     cpu_stat_timer_callback env s = (rc, t) \<Longrightarrow> kmod_step s t"
| unload: "misc_registered s \<Longrightarrow> kmod_step s (cpu_stat_collector_exit s)"

inductive kmod_reachable :: "kmod \<Rightarrow> bool" where
  start: "kmod_reachable kmod0"
| step: "kmod_reachable s \<Longrightarrow> kmod_step s t \<Longrightarrow> kmod_reachable t"

definition kmod_inv :: "kmod \<Rightarrow> bool" where
  "kmod_inv s \<longleftrightarrow> timer_armed s = misc_registered s \<and>
     (case g_shared_region s of None \<Rightarrow> \<not> misc_registered s
      | Some r \<Rightarrow> misc_registered s \<and> region_ok r)"

lemma zero_region_wf [simp]:
  "length (rg_cpus zero_region) = 256" "rg_seq zero_region = 0"
  by (simp_all add: zero_region_def)

lemma init_inv:
  assumes "kmod_inv s" and "\<not> misc_registered s" and "num_possible_cpus env \<noteq> 0"
    and "cpu_stat_collector_init env ok ret s = (rc, t)"
  shows "kmod_inv t"
proof -
  have "region_ok (collected env zero_region)"
    using assms(3) by (intro collected_ok) simp_all
  then show ?thesis
    using assms(1,2,4)
    by (auto simp: kmod_inv_def cpu_stat_collector_init_def collect_all_cpu_stats_def
        apply_collect_all Let_def split: if_splits option.splits)
qed

lemma tick_inv:
  assumes "kmod_inv s" and "timer_armed s" and "num_possible_cpus env \<noteq> 0"
    and "cpu_stat_timer_callback env s = (rc, t)"
  shows "kmod_inv t"
proof -
  from assms(1,2) obtain r where r: "g_shared_region s = Some r" and ok: "region_ok r"
    by (auto simp: kmod_inv_def split: option.splits)
  from ok have "length (rg_cpus r) = 256" and "even (unat (rg_seq r))"
    by (auto simp: region_ok_def)
  with assms(3) have "region_ok (collected env r)"
    and "apply_writes (collect_all_writes env r) r = collected env r"
    by (auto intro: collected_ok apply_collect_all)
  with assms r show ?thesis
    by (auto simp: kmod_inv_def cpu_stat_timer_callback_def collect_all_cpu_stats_def)
qed

lemma exit_inv: "kmod_inv s \<Longrightarrow> kmod_inv (cpu_stat_collector_exit s)"
  by (auto simp: kmod_inv_def cpu_stat_collector_exit_def Let_def split: option.splits)

lemma kmod_step_inv: "kmod_step s t \<Longrightarrow> kmod_inv s \<Longrightarrow> kmod_inv t"
  by (induction rule: kmod_step.induct) (blast intro: init_inv tick_inv exit_inv)+

lemma kmod0_inv: "kmod_inv kmod0"
  by (simp add: kmod0_def kmod_inv_def)

lemma kmod_reachable_inv: "kmod_reachable s \<Longrightarrow> kmod_inv s"
  by (induction rule: kmod_reachable.induct) (blast intro: kmod0_inv kmod_step_inv)+

section \<open>Properties\<close>

definition one_cpu_env :: kernel_env where
  "one_cpu_env = \<lparr>config_virt_cpu_accounting_gen = True, jiffies_to_usecs = (\<lambda>v. v),
     kcpustat_field = (\<lambda>f cpu. 5000), get_cpu_idle_time_us = (\<lambda>cpu. 9),
     get_cpu_iowait_time_us = (\<lambda>cpu. - 1), num_possible_cpus = 1, ktime_get_ns = 77\<rparr>"

text \<open>At every moment of the module's life (load, failed load, timer ticks, unload) the
  region exists exactly while the device is registered, the timer is armed exactly then, and
  the region has the version, a CPU count between 1 and 256 and an even sequence number; a
  failed load returns an error and leaves nothing behind, an unload releases everything.\<close>

theorem kmod_lifecycle:
  assumes "kmod_reachable s"
  shows "timer_armed s = misc_registered s \<and>
    (case g_shared_region s of None \<Rightarrow> \<not> misc_registered s
     | Some r \<Rightarrow> misc_registered s \<and> region_ok r) \<and>
    cpu_stat_collector_exit s = kmod0 \<and>
    (\<not> misc_registered s \<longrightarrow> ok = False \<or> ret \<noteq> 0 \<longrightarrow>
       snd (cpu_stat_collector_init env ok ret s) = kmod0 \<and>
       fst (cpu_stat_collector_init env ok ret s) \<noteq> 0)"
  using kmod_reachable_inv [OF assms]
  by (cases s) (auto simp: kmod_inv_def kmod0_def cpu_stat_collector_exit_def
      cpu_stat_collector_init_def Let_def split: option.splits)

theorem kmod_lifecycle_witness:
  "\<exists>s r. kmod_reachable s \<and> g_shared_region s = Some r \<and> region_ok r"
proof -
  let ?t = "snd (cpu_stat_collector_init one_cpu_env True 0 kmod0)"
  have "kmod_step kmod0 ?t"
    by (rule load [of _ one_cpu_env True 0 0]) (simp_all add: kmod0_def one_cpu_env_def
        cpu_stat_collector_init_def Let_def)
  with start have r: "kmod_reachable ?t" by (rule step)
  have "g_shared_region ?t \<noteq> None"
    by (simp add: cpu_stat_collector_init_def Let_def collect_all_cpu_stats_def)
  with kmod_lifecycle [OF r, of True 0 one_cpu_env] r show ?thesis by (auto split: option.splits)
qed

end
