(* ===== verification/SeqLock.thy ===== *)
theory SeqLock
  imports CpuStatKernel
begin

text \<open>
  The sequence lock between the timer callback of the kernel module and
  \<^verbatim>\<open>CopyMappedCpuStats\<close> (\<^verbatim>\<open>worker/src/monitor/cpu_stat_monitor.cpp\<close>), which reads the shared
  mapping with no lock. Each store of the writer and each field that \<^verbatim>\<open>memcpy\<close> copies is a
  step of its own, and the steps interleave freely; \<^verbatim>\<open>memcpy\<close> may copy the fields in any
  order. The steps are sequentially consistent: the writer orders its stores with
  \<^verbatim>\<open>smp_wmb\<close>, the reader relies on the processor keeping its loads in order.
\<close>

section \<open>Copying the region piece by piece\<close>

datatype region_piece =
    P_version | P_cpu_count | P_seq | P_reserved | P_sample_ns | P_cpu nat cpu_field

fun copy_piece :: "region_piece \<Rightarrow> cpu_stat_shared_region \<Rightarrow> cpu_stat_shared_region \<Rightarrow>
    cpu_stat_shared_region" where
  "copy_piece P_version m d = d\<lparr>rg_version := rg_version m\<rparr>"
| "copy_piece P_cpu_count m d = d\<lparr>rg_cpu_count := rg_cpu_count m\<rparr>"
| "copy_piece P_seq m d = d\<lparr>rg_seq := rg_seq m\<rparr>"
| "copy_piece P_reserved m d = d\<lparr>rg_reserved := rg_reserved m\<rparr>"
| "copy_piece P_sample_ns m d = d\<lparr>rg_sample_ns := rg_sample_ns m\<rparr>"
| "copy_piece (P_cpu i f) m d =
     d\<lparr>rg_cpus := (rg_cpus d)[i := put_field f (get_field f (rg_cpus m ! i)) (rg_cpus d ! i)]\<rparr>"

fun same_piece :: "region_piece \<Rightarrow> cpu_stat_shared_region \<Rightarrow> cpu_stat_shared_region \<Rightarrow> bool" where
  "same_piece P_version m d = (rg_version d = rg_version m)"
| "same_piece P_cpu_count m d = (rg_cpu_count d = rg_cpu_count m)"
| "same_piece P_seq m d = (rg_seq d = rg_seq m)"
| "same_piece P_reserved m d = (rg_reserved d = rg_reserved m)"
| "same_piece P_sample_ns m d = (rg_sample_ns d = rg_sample_ns m)"
| "same_piece (P_cpu i f) m d = (get_field f (rg_cpus d ! i) = get_field f (rg_cpus m ! i))"

definition cpu_fields :: "cpu_field list" where
  "cpu_fields = [F_user, F_nice, F_system, F_idle, F_iowait,
                 F_irq, F_softirq, F_steal, F_guest, F_guest_nice]"

definition all_pieces :: "region_piece list" where
  "all_pieces = [P_version, P_cpu_count, P_seq, P_reserved, P_sample_ns] @
     concat (map (\<lambda>i. map (P_cpu i) cpu_fields) [0..<unat CPU_STAT_MAX_CPUS])"

lemma set_cpu_fields [simp]: "f \<in> set cpu_fields"
  by (cases f) (simp_all add: cpu_fields_def)

lemma set_all_pieces:
  "set all_pieces = {P_version, P_cpu_count, P_seq, P_reserved, P_sample_ns} \<union>
     (\<Union>i \<in> {0..<256}. P_cpu i ` set cpu_fields)"
  by (auto simp: all_pieces_def)

lemma P_cpu_in_all: "P_cpu i f \<in> set all_pieces \<longleftrightarrow> i < 256"
  unfolding set_all_pieces using set_cpu_fields [of f] by fastforce

lemma get_put_field [simp]: "get_field f (put_field f v r) = v"
  by (cases f) simp_all

lemma get_put_other [simp]: "f \<noteq> g \<Longrightarrow> get_field f (put_field g v r) = get_field f r"
  by (cases f; cases g) simp_all

lemma raw_eqI:
  assumes "\<And>f. get_field f a = get_field f b"
  shows "a = (b :: cpu_stat_shared_raw)"
  using assms [of F_user] assms [of F_nice] assms [of F_system] assms [of F_idle]
    assms [of F_iowait] assms [of F_irq] assms [of F_softirq] assms [of F_steal]
    assms [of F_guest] assms [of F_guest_nice]
  by (intro cpu_stat_shared_raw.equality) simp_all

lemma region_eqI:
  assumes pieces: "\<And>p. p \<in> set all_pieces \<Longrightarrow> same_piece p m d"
    and len: "length (rg_cpus m) = 256" "length (rg_cpus d) = 256"
  shows "d = (m :: cpu_stat_shared_region)"
proof -
  have "rg_cpus d ! i = rg_cpus m ! i" if "i < 256" for i
    by (rule raw_eqI) (use pieces [of "P_cpu i f" for f] that in \<open>simp add: P_cpu_in_all\<close>)
  with len have "rg_cpus d = rg_cpus m" by (intro nth_equalityI) auto
  moreover have "same_piece P_version m d" "same_piece P_cpu_count m d" "same_piece P_seq m d"
    "same_piece P_reserved m d" "same_piece P_sample_ns m d"
    by (intro pieces; simp add: all_pieces_def)+
  ultimately show ?thesis by (intro cpu_stat_shared_region.equality) simp_all
qed

lemma length_copy_piece [simp]: "length (rg_cpus (copy_piece p m d)) = length (rg_cpus d)"
  by (cases p) auto

lemma same_copy_piece:
  assumes "p \<in> set all_pieces" and "length (rg_cpus d) = 256"
  shows "same_piece p m (copy_piece p m d)"
  by (cases p) (use assms in \<open>auto simp: P_cpu_in_all\<close>)

lemma same_copy_keep:
  assumes "same_piece q m d" and "p \<in> set all_pieces" and "length (rg_cpus d) = 256"
  shows "same_piece q m (copy_piece p m d)"
proof (cases p)
  case (P_cpu i f)
  with assms show ?thesis
    by (cases q; cases "f = (case q of P_cpu j g \<Rightarrow> g | _ \<Rightarrow> f)")
      (auto simp: P_cpu_in_all nth_list_update)
qed (use assms in \<open>cases q; simp\<close>)+

section \<open>The interleaving\<close>

datatype reader =
    R_try nat
  | R_copy nat u32 cpu_stat_shared_region "region_piece list"
  | R_done cpu_stat_shared_region
  | R_failed

text \<open>
  The state: the shared memory, the stores the writer still has to make and the reader;
  and, for the statements only, the number of stores to \<open>seq\<close> so far, the regions that
  were complete so far, and that number when the reader read \<open>seq_before\<close> and \<open>seq_after\<close>.
\<close>

record sl_sys =
  sl_mem :: cpu_stat_shared_region
  sl_pending :: "region_write list"
  sl_rd :: reader
  sl_nw :: nat
  sl_hist :: "cpu_stat_shared_region list"
  sl_w0 :: nat
  sl_w1 :: nat

definition kSharedRegionReadRetryTimes :: nat where "kSharedRegionReadRetryTimes = 5"

fun is_seq_write :: "region_write \<Rightarrow> bool" where
  "is_seq_write (W_seq v) = True"
| "is_seq_write _ = False"

text \<open>The test on which a copy is accepted, and its negation a retry.\<close>

definition accepts :: "u32 \<Rightarrow> u32 \<Rightarrow> cpu_stat_shared_region \<Rightarrow> bool" where
  "accepts seq_before seq_after snapshot \<longleftrightarrow>
     \<not> (seq_before \<noteq> seq_after \<or> odd (unat seq_after)) \<and> \<not> rg_seq snapshot \<noteq> seq_before"

inductive sl_step :: "sl_sys \<Rightarrow> sl_sys \<Rightarrow> bool" where
  timer: "sl_pending s = [] \<Longrightarrow>
     sl_step s (s\<lparr>sl_pending := collect_all_writes env (sl_mem s)\<rparr>)"
| store: "sl_pending s = w # ws \<Longrightarrow> m = apply_write w (sl_mem s) \<Longrightarrow>
     sl_step s (s\<lparr>sl_mem := m, sl_pending := ws,
       sl_nw := sl_nw s + (if is_seq_write w then 1 else 0),
       sl_hist := (if ws = [] then sl_hist s @ [m] else sl_hist s)\<rparr>)"
| call: "sl_rd s = R_done r \<or> sl_rd s = R_failed \<Longrightarrow> sl_step s (s\<lparr>sl_rd := R_try 0\<rparr>)"
| rd_odd: "sl_rd s = R_try a \<Longrightarrow> a < kSharedRegionReadRetryTimes \<Longrightarrow>
     odd (unat (rg_seq (sl_mem s))) \<Longrightarrow> sl_step s (s\<lparr>sl_rd := R_try (Suc a)\<rparr>)"
| rd_begin: "sl_rd s = R_try a \<Longrightarrow> a < kSharedRegionReadRetryTimes \<Longrightarrow>
     even (unat (rg_seq (sl_mem s))) \<Longrightarrow> set ps = set all_pieces \<Longrightarrow>
     length (rg_cpus d) = 256 \<Longrightarrow>
     sl_step s (s\<lparr>sl_rd := R_copy a (rg_seq (sl_mem s)) d ps, sl_w0 := sl_nw s\<rparr>)"
| rd_piece: "sl_rd s = R_copy a sb d (p # ps) \<Longrightarrow>
     sl_step s (s\<lparr>sl_rd := R_copy a sb (copy_piece p (sl_mem s) d) ps\<rparr>)"
| rd_accept: "sl_rd s = R_copy a sb d [] \<Longrightarrow> accepts sb (rg_seq (sl_mem s)) d \<Longrightarrow>
     sl_step s (s\<lparr>sl_rd := R_done d, sl_w1 := sl_nw s\<rparr>)"
| rd_retry: "sl_rd s = R_copy a sb d [] \<Longrightarrow> \<not> accepts sb (rg_seq (sl_mem s)) d \<Longrightarrow>
     sl_step s (s\<lparr>sl_rd := R_try (Suc a)\<rparr>)"
| rd_fail: "sl_rd s = R_try a \<Longrightarrow> \<not> a < kSharedRegionReadRetryTimes \<Longrightarrow>
     sl_step s (s\<lparr>sl_rd := R_failed\<rparr>)"

definition sl_init :: sl_sys where
  "sl_init = \<lparr>sl_mem = zero_region, sl_pending = [], sl_rd = R_try 0, sl_nw = 0,
     sl_hist = [zero_region], sl_w0 = 0, sl_w1 = 0\<rparr>"

inductive sl_reachable :: "sl_sys \<Rightarrow> bool" where
  sl_start: "sl_reachable sl_init"
| sl_next: "sl_reachable s \<Longrightarrow> sl_step s t \<Longrightarrow> sl_reachable t"

section \<open>The invariant\<close>

text \<open>The writer: between collections, or inside one with the last store still to come.\<close>

definition writer_inv :: "sl_sys \<Rightarrow> bool" where
  "writer_inv s \<longleftrightarrow>
     rg_seq (sl_mem s) = of_nat (sl_nw s) \<and> length (rg_cpus (sl_mem s)) = 256 \<and>
     (if even (sl_nw s)
      then sl_mem s = last (sl_hist s) \<and>
           (sl_pending s = [] \<or> (\<exists>env. sl_pending s = collect_all_writes env (sl_mem s)))
      else \<exists>pre. sl_pending s = pre @ [W_seq (of_nat (Suc (sl_nw s)))] \<and>
                 (\<forall>w \<in> set pre. \<not> is_seq_write w)) \<and>
     sl_hist s \<noteq> []"

text \<open>
  The reader: \<open>seq_before\<close> is the count it read, and while no store to \<open>seq\<close> has
  happened since, the pieces copied so far are those of the memory.
\<close>

fun reader_inv :: "sl_sys \<Rightarrow> reader \<Rightarrow> bool" where
  "reader_inv s (R_try a) = True"
| "reader_inv s (R_copy a sb d ps) =
     (sb = of_nat (sl_w0 s) \<and> even (sl_w0 s) \<and> sl_w0 s \<le> sl_nw s \<and>
      set ps \<subseteq> set all_pieces \<and> length (rg_cpus d) = 256 \<and>
      (sl_nw s = sl_w0 s \<longrightarrow>
         (\<forall>p \<in> set all_pieces - set ps. same_piece p (sl_mem s) d)))"
| "reader_inv s (R_done d) =
     (sl_w0 s \<le> sl_w1 s \<and> (sl_w1 s - sl_w0 s < 2 ^ 32 \<longrightarrow> d \<in> set (sl_hist s)))"
| "reader_inv s R_failed = True"

definition sl_inv :: "sl_sys \<Rightarrow> bool" where
  "sl_inv s \<longleftrightarrow> writer_inv s \<and> reader_inv s (sl_rd s)"


lemma even_of_nat32: "even (unat (of_nat n :: u32)) = even n"
  by (simp add: unat_of_nat dvd_mod_iff)

lemma of_nat32_inj:
  assumes "(of_nat a :: u32) = of_nat b" and "a \<le> b" and "b - a < 2 ^ 32"
  shows "a = b"
proof -
  have "a mod 2 ^ 32 = b mod 2 ^ 32"
    using assms(1) by (simp add: word_of_nat_eq_iff take_bit_eq_mod)
  then have "2 ^ 32 dvd b - a"
    using assms(2) by (metis mod_eq_dvd_iff_nat)
  with assms(2,3) show ?thesis
    by (metis diff_is_0_eq' dual_order.antisym nat_dvd_not_less neq0_conv diff_is_0_eq)
qed

lemma body_no_seq: "w \<in> set (collect_body env) \<Longrightarrow> \<not> is_seq_write w"
  by (auto simp: collect_body_def collect_cpu_stat_raw_def)

lemma store_keep_seq: "\<not> is_seq_write w \<Longrightarrow> rg_seq (apply_write w r) = rg_seq r"
  by (cases w) auto


lemma writer_timer:
  assumes "writer_inv s" and "sl_pending s = []"
  shows "writer_inv (s\<lparr>sl_pending := collect_all_writes env (sl_mem s)\<rparr>)"
  using assms by (auto simp: writer_inv_def split: if_splits)

lemma writer_store:
  assumes inv: "writer_inv s" and p: "sl_pending s = w # ws" and m: "m = apply_write w (sl_mem s)"
  shows "writer_inv (s\<lparr>sl_mem := m, sl_pending := ws,
       sl_nw := sl_nw s + (if is_seq_write w then 1 else 0),
       sl_hist := (if ws = [] then sl_hist s @ [m] else sl_hist s)\<rparr>)"
proof (cases "even (sl_nw s)")
  case True
  with inv p obtain env where "w # ws = collect_all_writes env (sl_mem s)"
    by (auto simp: writer_inv_def)
  then have w: "w = W_seq (rg_seq (sl_mem s) + 1)"
    and ws: "ws = collect_body env @ [W_seq (rg_seq (sl_mem s) + 2)]"
    by (simp_all add: collect_all_writes_def Let_def)
  from inv have seq: "rg_seq (sl_mem s) = of_nat (sl_nw s)" by (simp add: writer_inv_def)
  have "ws = collect_body env @ [W_seq (of_nat (Suc (Suc (sl_nw s))))]"
    using ws seq by (simp add: add.commute)
  with True inv m w seq show ?thesis
    using body_no_seq [of _ env] by (auto simp: writer_inv_def add.commute)
next
  case False
  with inv p obtain pre where
    pre: "w # ws = pre @ [W_seq (of_nat (Suc (sl_nw s)))]" "\<forall>v \<in> set pre. \<not> is_seq_write v"
    by (auto simp: writer_inv_def)
  show ?thesis
  proof (cases pre)
    case Nil
    with pre False inv m show ?thesis by (auto simp: writer_inv_def)
  next
    case (Cons v vs)
    with pre have "w = v" and "ws = vs @ [W_seq (of_nat (Suc (sl_nw s)))]" and "\<not> is_seq_write w"
      by auto
    with Cons pre False inv m show ?thesis
      by (auto simp: writer_inv_def store_keep_seq)
  qed
qed

lemma store_reader:
  assumes inv: "sl_inv s" and p: "sl_pending s = w # ws"
  shows "reader_inv (s\<lparr>sl_mem := m, sl_pending := ws,
       sl_nw := sl_nw s + (if is_seq_write w then 1 else 0),
       sl_hist := (if ws = [] then sl_hist s @ [m] else sl_hist s)\<rparr>) (sl_rd s)"
proof (cases "sl_rd s")
  case (R_copy a sb d ps)
  have "odd (sl_nw s)" if "\<not> is_seq_write w"
  proof (rule ccontr)
    assume "\<not> odd (sl_nw s)"
    with inv p obtain env where "w # ws = collect_all_writes env (sl_mem s)"
      by (auto simp: sl_inv_def writer_inv_def)
    with that show False by (simp add: collect_all_writes_def Let_def)
  qed
  with R_copy inv show ?thesis by (auto simp: sl_inv_def)
qed (use inv in \<open>auto simp: sl_inv_def\<close>)

lemma writer_inv_frame [simp]:
  "writer_inv (s\<lparr>sl_rd := x\<rparr>) = writer_inv s"
  "writer_inv (s\<lparr>sl_rd := x, sl_w0 := n\<rparr>) = writer_inv s"
  "writer_inv (s\<lparr>sl_rd := x, sl_w1 := n\<rparr>) = writer_inv s"
  by (simp_all add: writer_inv_def)

lemma sl_step_inv: "sl_step s t \<Longrightarrow> sl_inv s \<Longrightarrow> sl_inv t"
proof (induction rule: sl_step.induct)
  case (timer s env)
  then have "reader_inv (s\<lparr>sl_pending := collect_all_writes env (sl_mem s)\<rparr>) (sl_rd s)"
    by (cases "sl_rd s") (auto simp: sl_inv_def)
  with timer show ?case by (auto simp: sl_inv_def intro: writer_timer)
next
  case (store s w ws m)
  then show ?case
    using writer_store [of s w ws m] store_reader [of s w ws m] by (auto simp: sl_inv_def)
next
  case (rd_begin s a ps d)
  then show ?case by (auto simp: sl_inv_def writer_inv_def even_of_nat32)
next
  case (rd_piece s a sb d p ps)
  let ?d = "copy_piece p (sl_mem s) d"
  from rd_piece have "p \<in> set all_pieces" and "length (rg_cpus d) = 256"
    by (auto simp: sl_inv_def)
  then have "same_piece q (sl_mem s) ?d" if "q = p \<or> same_piece q (sl_mem s) d" for q
    using that by (auto intro: same_copy_piece same_copy_keep)
  with rd_piece show ?case by (auto simp: sl_inv_def)
next
  case (rd_accept s a sb d)
  then have "d \<in> set (sl_hist s)" if "sl_nw s - sl_w0 s < 2 ^ 32"
  proof -
    from rd_accept have w: "writer_inv s" and r: "reader_inv s (R_copy a sb d [])"
      by (auto simp: sl_inv_def)
    from w r rd_accept(2) have "(of_nat (sl_w0 s) :: u32) = of_nat (sl_nw s)"
      by (simp add: accepts_def writer_inv_def)
    then have same: "sl_w0 s = sl_nw s"
      using r that by (intro of_nat32_inj) auto
    with r w have "d = sl_mem s"
      by (intro region_eqI) (auto simp: writer_inv_def)
    with same r w show ?thesis by (auto simp: writer_inv_def)
  qed
  with rd_accept show ?case by (auto simp: sl_inv_def)
qed (auto simp: sl_inv_def)

lemma sl_init_inv: "sl_inv sl_init"
  by (simp add: sl_inv_def writer_inv_def sl_init_def)

lemma sl_reachable_inv: "sl_reachable s \<Longrightarrow> sl_inv s"
  by (induction rule: sl_reachable.induct) (blast intro: sl_init_inv sl_step_inv)+


section \<open>The regions that were complete\<close>

text \<open>Each is the zeroed region the module starts with or what a collection left.\<close>

definition complete_region :: "cpu_stat_shared_region \<Rightarrow> bool" where
  "complete_region r \<longleftrightarrow> r = zero_region \<or>
     (\<exists>env q. r = collected env q \<and> length (rg_cpus q) = 256)"

text \<open>The stores still to come lead from the last complete region to the next one.\<close>

definition hist_inv :: "sl_sys \<Rightarrow> bool" where
  "hist_inv s \<longleftrightarrow> sl_hist s \<noteq> [] \<and> (\<forall>r \<in> set (sl_hist s). complete_region r) \<and>
     (sl_pending s \<noteq> [] \<longrightarrow>
        (\<exists>env q. length (rg_cpus q) = 256 \<and>
                 apply_writes (sl_pending s) (sl_mem s) = collected env q))"

lemma sl_step_hist: "sl_step s t \<Longrightarrow> sl_inv s \<Longrightarrow> hist_inv s \<Longrightarrow> hist_inv t"
proof (induction rule: sl_step.induct)
  case (timer s env)
  then have "length (rg_cpus (sl_mem s)) = 256" by (simp add: sl_inv_def writer_inv_def)
  then have "apply_writes (collect_all_writes env (sl_mem s)) (sl_mem s) = collected env (sl_mem s)"
    and "length (rg_cpus (sl_mem s)) = 256"
    by (auto intro: apply_collect_all)
  with timer show ?case unfolding hist_inv_def by fastforce
next
  case (store s w ws m)
  then show ?case by (auto simp: hist_inv_def complete_region_def)
qed (auto simp: hist_inv_def)

lemma sl_reachable_hist: "sl_reachable s \<Longrightarrow> hist_inv s"
proof (induction rule: sl_reachable.induct)
  case sl_start
  show ?case by (simp add: hist_inv_def sl_init_def complete_region_def)
next
  case (sl_next s t)
  then show ?case by (blast intro: sl_step_hist sl_reachable_inv)
qed

section \<open>A read that is not disturbed\<close>

lemma sl_run_reachable: "sl_step\<^sup>*\<^sup>* s t \<Longrightarrow> sl_reachable s \<Longrightarrow> sl_reachable t"
  by (induction rule: rtranclp_induct) (auto intro: sl_next)

lemma read_pieces:
  "sl_rd s = R_copy a sb d ps \<Longrightarrow> \<exists>e. sl_step\<^sup>*\<^sup>* s (s\<lparr>sl_rd := R_copy a sb e []\<rparr>)"
proof (induction ps arbitrary: s d)
  case Nil
  then have "s\<lparr>sl_rd := R_copy a sb d []\<rparr> = s" by simp
  then show ?case by (metis rtranclp.rtrancl_refl)
next
  case (Cons p ps)
  let ?t = "s\<lparr>sl_rd := R_copy a sb (copy_piece p (sl_mem s) d) ps\<rparr>"
  have "sl_step s ?t" using Cons.prems by (rule rd_piece)
  moreover obtain e where "sl_step\<^sup>*\<^sup>* ?t (?t\<lparr>sl_rd := R_copy a sb e []\<rparr>)"
    using Cons.IH [of ?t] by auto
  ultimately show ?case by (auto intro: converse_rtranclp_into_rtranclp)
qed

lemma undisturbed_run:
  assumes s: "sl_reachable s" and rd: "sl_rd s = R_try a" and a: "a < kSharedRegionReadRetryTimes"
    and ev: "even (unat (rg_seq (sl_mem s)))"
  shows "sl_step\<^sup>*\<^sup>* s (s\<lparr>sl_w0 := sl_nw s, sl_rd := R_done (sl_mem s), sl_w1 := sl_nw s\<rparr>)"
proof -
  let ?sb = "rg_seq (sl_mem s)" and ?z = zero_region
  let ?b = "s\<lparr>sl_rd := R_copy a ?sb ?z all_pieces, sl_w0 := sl_nw s\<rparr>"
  have b: "sl_step s ?b" using rd a ev by (intro rd_begin) auto
  obtain e where e: "sl_step\<^sup>*\<^sup>* ?b (?b\<lparr>sl_rd := R_copy a ?sb e []\<rparr>)"
    using read_pieces [of ?b a ?sb ?z all_pieces] by auto
  let ?c = "?b\<lparr>sl_rd := R_copy a ?sb e []\<rparr>"
  from b e have c: "sl_step\<^sup>*\<^sup>* s ?c" by (rule converse_rtranclp_into_rtranclp)
  have "e = sl_mem s"
    using sl_reachable_inv [OF sl_run_reachable [OF c s]]
    by (intro region_eqI) (auto simp: sl_inv_def writer_inv_def)
  with ev have "accepts ?sb (rg_seq (sl_mem ?c)) e" by (simp add: accepts_def)
  then have "sl_step ?c (?c\<lparr>sl_rd := R_done e, sl_w1 := sl_nw ?c\<rparr>)" by (intro rd_accept) auto
  with c have "sl_step\<^sup>*\<^sup>* s (?c\<lparr>sl_rd := R_done e, sl_w1 := sl_nw ?c\<rparr>)" by simp
  with \<open>e = sl_mem s\<close> show ?thesis by simp
qed

section \<open>Properties\<close>

text \<open>C1: no torn snapshot. Whatever the interleaving of the kernel's timer with the worker's
  copy, a snapshot that \<^verbatim>\<open>CopyMappedCpuStats\<close> accepts is one of the regions that were
  complete in memory (the zeroed one, or what one whole collection left), provided \<open>seq\<close>
  did not wrap around (2^32 stores, 68 years of collections) during the copy.\<close>

theorem seqlock_no_torn_snapshot:
  assumes "sl_reachable s" and "sl_rd s = R_done d" and "sl_w1 s - sl_w0 s < 2 ^ 32"
  shows "d \<in> set (sl_hist s) \<and> complete_region d"
proof -
  from assms(2,3) sl_reachable_inv [OF assms(1)] have "d \<in> set (sl_hist s)"
    by (simp add: sl_inv_def)
  with sl_reachable_hist [OF assms(1)] show ?thesis by (auto simp: hist_inv_def)
qed

theorem seqlock_no_torn_snapshot_witness:
  "\<exists>s. sl_reachable s \<and> sl_rd s = R_done zero_region \<and> zero_region \<in> set (sl_hist s) \<and>
       complete_region zero_region"
proof -
  let ?s = "sl_init\<lparr>sl_w0 := sl_nw sl_init, sl_rd := R_done (sl_mem sl_init),
                    sl_w1 := sl_nw sl_init\<rparr>"
  have "sl_step\<^sup>*\<^sup>* sl_init ?s"
    by (rule undisturbed_run [OF sl_start, of 0])
      (simp_all add: sl_init_def kSharedRegionReadRetryTimes_def)
  then have r: "sl_reachable ?s" by (rule sl_run_reachable) (rule sl_start)
  have d: "sl_rd ?s = R_done zero_region" by (simp add: sl_init_def)
  have "zero_region \<in> set (sl_hist ?s) \<and> complete_region zero_region"
    by (rule seqlock_no_torn_snapshot [OF r d]) simp
  with r d show ?thesis by blast
qed

text \<open>An attempt that no store disturbs succeeds: with an even \<open>seq\<close> and attempts left,
  the reader can run to the end and returns exactly the region in memory.\<close>

theorem seqlock_undisturbed_read:
  assumes "sl_reachable s" and "sl_rd s = R_try a" and "a < kSharedRegionReadRetryTimes"
    and "even (unat (rg_seq (sl_mem s)))"
  shows "\<exists>t. sl_step\<^sup>*\<^sup>* s t \<and> sl_rd t = R_done (sl_mem s) \<and> sl_mem t = sl_mem s"
proof (intro exI conjI)
  let ?t = "s\<lparr>sl_w0 := sl_nw s, sl_rd := R_done (sl_mem s), sl_w1 := sl_nw s\<rparr>"
  show "sl_step\<^sup>*\<^sup>* s ?t" using assms by (rule undisturbed_run)
qed simp_all

theorem seqlock_undisturbed_read_witness:
  "\<exists>t. sl_step\<^sup>*\<^sup>* sl_init t \<and> sl_rd t = R_done (sl_mem sl_init) \<and> sl_mem t = sl_mem sl_init"
  by (rule seqlock_undisturbed_read [OF sl_start, of 0])
    (simp_all add: sl_init_def kSharedRegionReadRetryTimes_def)

end
