(* ===== verification/CpuStatReader.thy ===== *)
theory CpuStatReader
  imports Complex_Main CpuStatKernel
begin

text \<open>
  The user space side of CPU utilisation, \<^verbatim>\<open>worker/src/monitor/cpu_stat_monitor.cpp\<close>:
  validation of the shared region, the rows built from a snapshot, the percentages between
  two rounds, and the monitor's cached state. The code's \<^verbatim>\<open>double\<close> and \<^verbatim>\<open>float\<close> values are
  modelled by exact rationals: rounding is not modelled.
\<close>

record ProcCpuStat =
  p_cpu_name :: string
  p_user :: u64
  p_nice :: u64
  p_system :: u64
  p_idle :: u64
  p_io_wait :: u64
  p_irq :: u64
  p_soft_irq :: u64
  p_steal :: u64
  p_guest :: u64
  p_guest_nice :: u64

definition ProcCpuStat0 :: ProcCpuStat where
  "ProcCpuStat0 = \<lparr>p_cpu_name = [], p_user = 0, p_nice = 0, p_system = 0, p_idle = 0,
     p_io_wait = 0, p_irq = 0, p_soft_irq = 0, p_steal = 0, p_guest = 0, p_guest_nice = 0\<rparr>"

text \<open>\<open>page_size\<close> is what \<^verbatim>\<open>sysconf(_SC_PAGESIZE)\<close> returns.\<close>

definition GetCpuStatMonitorMapSize :: "int \<Rightarrow> nat" where
  "GetCpuStatMonitorMapSize page_size =
     (if page_size \<le> 0 then region_sizeof
      else (region_sizeof + nat page_size - 1) div nat page_size * nat page_size)"

definition BuildSnapshotFromSharedRaw :: "cpu_stat_shared_raw \<Rightarrow> string \<Rightarrow> ProcCpuStat" where
  "BuildSnapshotFromSharedRaw raw name =
     \<lparr>p_cpu_name = name, p_user = raw_user raw, p_nice = raw_nice raw,
      p_system = raw_system raw, p_idle = raw_idle raw, p_io_wait = raw_iowait raw,
      p_irq = raw_irq raw, p_soft_irq = raw_softirq raw, p_steal = raw_steal raw,
      p_guest = raw_guest raw, p_guest_nice = raw_guest_nice raw\<rparr>"

definition AccumulateCpuStat :: "ProcCpuStat \<Rightarrow> ProcCpuStat \<Rightarrow> ProcCpuStat" where
  "AccumulateCpuStat current tot = tot
     \<lparr>p_user := p_user tot + p_user current,
      p_nice := p_nice tot + p_nice current,
      p_system := p_system tot + p_system current,
      p_idle := p_idle tot + p_idle current,
      p_io_wait := p_io_wait tot + p_io_wait current,
      p_irq := p_irq tot + p_irq current,
      p_soft_irq := p_soft_irq tot + p_soft_irq current,
      p_steal := p_steal tot + p_steal current,
      p_guest := p_guest tot + p_guest current,
      p_guest_nice := p_guest_nice tot + p_guest_nice current\<rparr>"

definition TotalTime :: "ProcCpuStat \<Rightarrow> u64" where
  "TotalTime s = p_user s + p_nice s + p_system s + p_idle s + p_io_wait s +
     p_irq s + p_soft_irq s + p_steal s"

definition BusyTime :: "ProcCpuStat \<Rightarrow> u64" where
  "BusyTime s = p_user s + p_nice s + p_system s + p_irq s + p_soft_irq s + p_steal s"

definition ratio_percent :: "nat \<Rightarrow> nat \<Rightarrow> rat" where
  "ratio_percent part whole = of_nat part * 100 / of_nat whole"

definition percent_of :: "u64 \<Rightarrow> u64 \<Rightarrow> rat" where
  "percent_of part whole = ratio_percent (unat part) (unat whole)"

definition SafePercent :: "u64 \<Rightarrow> u64 \<Rightarrow> u64 \<Rightarrow> rat" where
  "SafePercent current_value previous_value total_delta =
     (if total_delta = 0 \<or> current_value < previous_value then 0
      else percent_of (current_value - previous_value) total_delta)"

definition IsSharedRegionValid :: "cpu_stat_shared_region option \<Rightarrow> bool" where
  "IsSharedRegionValid region =
     (case region of None \<Rightarrow> False
      | Some r \<Rightarrow>
          if rg_version r \<noteq> CPU_STAT_SHARED_VERSION then False
          else if rg_cpu_count r = 0 \<or> rg_cpu_count r > CPU_STAT_MAX_CPUS then False
          else True)"

text \<open>The rows pushed by the loop over the CPUs, and the running total.\<close>

fun build_rows :: "cpu_stat_shared_raw list \<Rightarrow> nat list \<Rightarrow> ProcCpuStat \<Rightarrow>
    ProcCpuStat list \<Rightarrow> ProcCpuStat \<times> ProcCpuStat list" where
  "build_rows cpus [] tot stats = (tot, stats)"
| "build_rows cpus (cpu # rest) tot stats =
     (let current = BuildSnapshotFromSharedRaw (cpus ! cpu) (''cpu'' @ to_string cpu)
      in build_rows cpus rest (AccumulateCpuStat current tot) (stats @ [current]))"

definition BuildCpuStatsFromSnapshot :: "cpu_stat_shared_region \<Rightarrow> ProcCpuStat list option" where
  "BuildCpuStatsFromSnapshot snapshot =
     (if \<not> IsSharedRegionValid (Some snapshot) then None
      else let (tot, stats) = build_rows (rg_cpus snapshot) [0..<unat (rg_cpu_count snapshot)]
                                  (ProcCpuStat0\<lparr>p_cpu_name := ''cpu''\<rparr>) []
           in Some (tot # stats))"

text \<open>
  One attempt as the reader sees it: \<open>seq_before\<close>, the copied region and \<open>seq_after\<close>. The
  theory \<open>SeqLock\<close> says which observations the kernel's stores allow.
\<close>

type_synonym attempt = "u32 \<times> cpu_stat_shared_region \<times> u32"

fun CopyMappedCpuStats :: "nat \<Rightarrow> attempt list \<Rightarrow> ProcCpuStat list option" where
  "CopyMappedCpuStats (Suc tries) ((seq_before, snapshot, seq_after) # obs) =
     (if odd (unat seq_before) then CopyMappedCpuStats tries obs
      else if seq_before \<noteq> seq_after \<or> odd (unat seq_after) then CopyMappedCpuStats tries obs
      else if rg_seq snapshot \<noteq> seq_before then CopyMappedCpuStats tries obs
      else BuildCpuStatsFromSnapshot snapshot)"
| "CopyMappedCpuStats _ _ = None"

record CpuStatMsg =
  cm_cpu_name :: string
  cm_cpu_percent :: rat
  cm_usr_percent :: rat
  cm_system_percent :: rat
  cm_nice_percent :: rat
  cm_idle_percent :: rat
  cm_io_wait_percent :: rat
  cm_irq_percent :: rat
  cm_soft_irq_percent :: rat

definition CpuStatMsg0 :: "string \<Rightarrow> CpuStatMsg" where
  "CpuStatMsg0 name = \<lparr>cm_cpu_name = name, cm_cpu_percent = 0, cm_usr_percent = 0,
     cm_system_percent = 0, cm_nice_percent = 0, cm_idle_percent = 0,
     cm_io_wait_percent = 0, cm_irq_percent = 0, cm_soft_irq_percent = 0\<rparr>"

definition total_delta :: "ProcCpuStat \<Rightarrow> ProcCpuStat \<Rightarrow> u64" where
  "total_delta current previous =
     (if TotalTime current > TotalTime previous then TotalTime current - TotalTime previous else 0)"

definition FillCpuPercentages :: "ProcCpuStat \<Rightarrow> ProcCpuStat \<Rightarrow> CpuStatMsg \<Rightarrow> CpuStatMsg" where
  "FillCpuPercentages current previous msg =
     (let delta = total_delta current previous;
          cpu_percent = (if delta > 0 \<and> BusyTime current \<ge> BusyTime previous
                         then percent_of (BusyTime current - BusyTime previous) delta else 0)
      in msg\<lparr>cm_cpu_percent := cpu_percent,
             cm_usr_percent := SafePercent (p_user current) (p_user previous) delta,
             cm_system_percent := SafePercent (p_system current) (p_system previous) delta,
             cm_nice_percent := SafePercent (p_nice current) (p_nice previous) delta,
             cm_idle_percent := SafePercent (p_idle current) (p_idle previous) delta,
             cm_io_wait_percent := SafePercent (p_io_wait current) (p_io_wait previous) delta,
             cm_irq_percent := SafePercent (p_irq current) (p_irq previous) delta,
             cm_soft_irq_percent := SafePercent (p_soft_irq current) (p_soft_irq previous) delta\<rparr>)"

section \<open>The monitor\<close>

record CpuStatMonitor =
  device_fd :: int
  mapped_region :: bool
  cpu_stat_map :: "string \<rightharpoonup> ProcCpuStat"

definition CpuStatMonitor0 :: CpuStatMonitor where
  "CpuStatMonitor0 = \<lparr>device_fd = - 1, mapped_region = False, cpu_stat_map = Map.empty\<rparr>"

text \<open>\<open>opened\<close> is what \<^verbatim>\<open>open\<close> returns, \<open>mmap_ok\<close> whether \<^verbatim>\<open>mmap\<close> succeeds.\<close>

definition EnsureMapped :: "int \<Rightarrow> bool \<Rightarrow> CpuStatMonitor \<Rightarrow> bool \<times> CpuStatMonitor" where
  "EnsureMapped opened mmap_ok m =
     (if mapped_region m \<and> device_fd m \<ge> 0 then (True, m)
      else let m1 = (if device_fd m \<ge> 0 then m\<lparr>device_fd := - 1\<rparr> else m);
               m2 = m1\<lparr>mapped_region := False\<rparr>;
               m3 = m2\<lparr>device_fd := opened\<rparr>
           in if device_fd m3 < 0 then (False, m3)
              else if \<not> mmap_ok then (False, m3\<lparr>device_fd := - 1, mapped_region := False\<rparr>)
              else (True, m3\<lparr>mapped_region := True\<rparr>))"

definition cpu_monitor_Stop :: "CpuStatMonitor \<Rightarrow> CpuStatMonitor" where
  "cpu_monitor_Stop m =
     (let m1 = (if mapped_region m then m\<lparr>mapped_region := False\<rparr> else m)
      in if device_fd m1 \<ge> 0 then m1\<lparr>device_fd := - 1\<rparr> else m1)"

definition update_row :: "ProcCpuStat \<Rightarrow> CpuStatMonitor \<Rightarrow> CpuStatMsg \<times> CpuStatMonitor" where
  "update_row current m =
     (let msg = CpuStatMsg0 (p_cpu_name current);
          msg' = (case cpu_stat_map m (p_cpu_name current) of None \<Rightarrow> msg
                  | Some previous \<Rightarrow> FillCpuPercentages current previous msg)
      in (msg', m\<lparr>cpu_stat_map := (cpu_stat_map m)(p_cpu_name current \<mapsto> current)\<rparr>))"

fun update_rows :: "ProcCpuStat list \<Rightarrow> CpuStatMonitor \<Rightarrow> CpuStatMsg list \<times> CpuStatMonitor" where
  "update_rows [] m = ([], m)"
| "update_rows (c # cs) m =
     (let (msg, m1) = update_row c m; (msgs, m2) = update_rows cs m1 in (msg # msgs, m2))"

text \<open>
  One round: \<open>obs\<close> are the attempts of the copy, \<open>now\<close> the region as the final validity
  check reads it. The result is the list of rows added to the message.
\<close>

definition cpu_monitor_UpdateOnce :: "int \<Rightarrow> bool \<Rightarrow> attempt list \<Rightarrow> cpu_stat_shared_region \<Rightarrow>
    CpuStatMonitor \<Rightarrow> CpuStatMsg list \<times> CpuStatMonitor" where
  "cpu_monitor_UpdateOnce opened mmap_ok obs now m =
     (let (mapped, m1) = EnsureMapped opened mmap_ok m
      in if \<not> mapped then ([], m1)
         else case CopyMappedCpuStats 5 obs of
                None \<Rightarrow> ([], if \<not> IsSharedRegionValid (Some now) then cpu_monitor_Stop m1 else m1)
              | Some stats \<Rightarrow> update_rows stats m1)"


section \<open>The rows\<close>

lemma build_rows_eq:
  "build_rows cpus is tot stats =
     (fold (\<lambda>i. AccumulateCpuStat (BuildSnapshotFromSharedRaw (cpus ! i) (''cpu'' @ to_string i))) is tot,
      stats @ map (\<lambda>i. BuildSnapshotFromSharedRaw (cpus ! i) (''cpu'' @ to_string i)) is)"
  by (induction cpus "is" tot stats rule: build_rows.induct) (simp_all add: Let_def)

lemma accumulate_sums:
  "p_cpu_name (fold (\<lambda>i. AccumulateCpuStat (row i)) is tot) = p_cpu_name tot"
  "p_user (fold (\<lambda>i. AccumulateCpuStat (row i)) is tot) = p_user tot + (\<Sum>i\<leftarrow>is. p_user (row i))"
  "p_idle (fold (\<lambda>i. AccumulateCpuStat (row i)) is tot) = p_idle tot + (\<Sum>i\<leftarrow>is. p_idle (row i))"
  "TotalTime (fold (\<lambda>i. AccumulateCpuStat (row i)) is tot) =
     TotalTime tot + (\<Sum>i\<leftarrow>is. TotalTime (row i))"
  "BusyTime (fold (\<lambda>i. AccumulateCpuStat (row i)) is tot) =
     BusyTime tot + (\<Sum>i\<leftarrow>is. BusyTime (row i))"
  by (induction "is" arbitrary: tot)
    (simp_all add: AccumulateCpuStat_def TotalTime_def BusyTime_def algebra_simps)

definition cpu_rows :: "(nat \<Rightarrow> cpu_stat_shared_raw) \<Rightarrow> nat \<Rightarrow> ProcCpuStat list" where
  "cpu_rows raw n = map (\<lambda>i. BuildSnapshotFromSharedRaw (raw i) (''cpu'' @ to_string i)) [0..<n]"

lemma build_stats_valid:
  "BuildCpuStatsFromSnapshot r = Some stats \<Longrightarrow>
   IsSharedRegionValid (Some r) \<and> tl stats = cpu_rows (\<lambda>i. rg_cpus r ! i) (unat (rg_cpu_count r))"
  by (auto simp: BuildCpuStatsFromSnapshot_def build_rows_eq cpu_rows_def split: if_splits)

section \<open>Percentages\<close>

text \<open>The sum of the eight states fits into 64 bits; and no counter went back.\<close>

definition total_nat :: "ProcCpuStat \<Rightarrow> nat" where
  "total_nat s = unat (p_user s) + unat (p_nice s) + unat (p_system s) + unat (p_idle s) +
     unat (p_io_wait s) + unat (p_irq s) + unat (p_soft_irq s) + unat (p_steal s)"

definition counters_grow :: "ProcCpuStat \<Rightarrow> ProcCpuStat \<Rightarrow> bool" where
  "counters_grow a b \<longleftrightarrow> p_user a \<le> p_user b \<and> p_nice a \<le> p_nice b \<and> p_system a \<le> p_system b \<and>
     p_idle a \<le> p_idle b \<and> p_io_wait a \<le> p_io_wait b \<and> p_irq a \<le> p_irq b \<and>
     p_soft_irq a \<le> p_soft_irq b \<and> p_steal a \<le> p_steal b"

lemma unat_TotalTime: "total_nat s < 2 ^ 64 \<Longrightarrow> unat (TotalTime s) = total_nat s"
  by (simp add: TotalTime_def total_nat_def word_simps)

lemma unat_BusyTime:
  "total_nat s < 2 ^ 64 \<Longrightarrow>
   unat (BusyTime s) = total_nat s - unat (p_idle s) - unat (p_io_wait s)"
  by (simp add: BusyTime_def total_nat_def word_simps)

lemma ratio_percent_bounds:
  "p \<le> w \<Longrightarrow> 0 \<le> ratio_percent p w \<and> ratio_percent p w \<le> 100"
  by (cases "w = 0") (simp_all add: ratio_percent_def divide_le_eq)

lemma ratio_percent_sum:
  assumes "a + b + c = w" and "w \<noteq> 0"
  shows "ratio_percent a w + ratio_percent b w + ratio_percent c w = 100"
proof -
  have "ratio_percent a w + ratio_percent b w + ratio_percent c w = of_nat (a + b + c) * 100 / of_nat w"
    by (simp add: ratio_percent_def add_divide_distrib algebra_simps)
  with assms show ?thesis by simp
qed

lemma percent_of_bounds:
  "unat part \<le> unat whole \<Longrightarrow> 0 \<le> percent_of part whole \<and> percent_of part whole \<le> 100"
  unfolding percent_of_def by (rule ratio_percent_bounds)

lemma percent_of_sum:
  "unat a + unat b + unat c = unat w \<Longrightarrow> unat w \<noteq> 0 \<Longrightarrow>
   percent_of a w + percent_of b w + percent_of c w = 100"
  unfolding percent_of_def by (rule ratio_percent_sum)

text \<open>What the counters of the two rounds say about the differences.\<close>

lemma delta_facts:
  assumes fit: "total_nat b < 2 ^ 64" and grow: "counters_grow a b"
    and adv: "TotalTime a < TotalTime b"
  shows "unat (total_delta b a) = total_nat b - total_nat a" and "total_nat a < total_nat b"
    and "unat (BusyTime b - BusyTime a) + unat (p_idle b - p_idle a) +
           unat (p_io_wait b - p_io_wait a) = unat (total_delta b a)"
    and "BusyTime a \<le> BusyTime b" and "0 < total_delta b a"
proof -
  from grow have le: "total_nat a \<le> total_nat b"
    and le': "total_nat a - unat (p_idle a) - unat (p_io_wait a) \<le>
              total_nat b - unat (p_idle b) - unat (p_io_wait b)"
    by (auto simp: counters_grow_def total_nat_def word_le_nat_alt)
  with fit have fit': "total_nat a < 2 ^ 64" by simp
  from adv show *: "total_nat a < total_nat b"
    by (simp add: word_less_nat_alt unat_TotalTime [OF fit] unat_TotalTime [OF fit'])
  from adv show d: "unat (total_delta b a) = total_nat b - total_nat a"
    by (simp add: total_delta_def unat_sub_le unat_TotalTime [OF fit] unat_TotalTime [OF fit'])
  from le' show busy: "BusyTime a \<le> BusyTime b"
    by (simp add: word_le_nat_alt unat_BusyTime [OF fit] unat_BusyTime [OF fit'])
  from adv show "0 < total_delta b a"
    by (simp add: total_delta_def word_gt_0)
  have "unat (BusyTime b - BusyTime a) = unat (BusyTime b) - unat (BusyTime a)"
    using busy by (rule unat_sub_le)
  moreover have "unat (p_idle b - p_idle a) = unat (p_idle b) - unat (p_idle a)"
    and "unat (p_io_wait b - p_io_wait a) = unat (p_io_wait b) - unat (p_io_wait a)"
    using grow by (auto simp: counters_grow_def unat_sub_le)
  ultimately show "unat (BusyTime b - BusyTime a) + unat (p_idle b - p_idle a) +
      unat (p_io_wait b - p_io_wait a) = unat (total_delta b a)"
    using grow unfolding d unat_BusyTime [OF fit] unat_BusyTime [OF fit']
    by (auto simp: counters_grow_def total_nat_def word_le_nat_alt)
qed

section \<open>Properties\<close>

text \<open>When no counter went back and the total did not overflow between two rounds, the
  busy, idle and iowait percentages of a row add up to exactly 100 and lie between 0 and 100.\<close>

theorem cpu_percent_partition:
  assumes "total_nat current < 2 ^ 64" and "counters_grow previous current"
    and "TotalTime previous < TotalTime current"
    and "m = FillCpuPercentages current previous msg"
  shows "cm_cpu_percent m + cm_idle_percent m + cm_io_wait_percent m = 100 \<and>
    0 \<le> cm_cpu_percent m \<and> cm_cpu_percent m \<le> 100 \<and>
    0 \<le> cm_idle_percent m \<and> cm_idle_percent m \<le> 100 \<and>
    0 \<le> cm_io_wait_percent m \<and> cm_io_wait_percent m \<le> 100"
proof -
  let ?d = "total_delta current previous"
  note facts = delta_facts [OF assms(1-3)]
  have "\<not> p_idle current < p_idle previous" and "\<not> p_io_wait current < p_io_wait previous"
    using assms(2) by (auto simp: counters_grow_def)
  with facts assms(4) have
    "cm_cpu_percent m = percent_of (BusyTime current - BusyTime previous) ?d"
    "cm_idle_percent m = percent_of (p_idle current - p_idle previous) ?d"
    "cm_io_wait_percent m = percent_of (p_io_wait current - p_io_wait previous) ?d"
    by (auto simp: FillCpuPercentages_def SafePercent_def Let_def)
  moreover have "percent_of (BusyTime current - BusyTime previous) ?d +
      percent_of (p_idle current - p_idle previous) ?d +
      percent_of (p_io_wait current - p_io_wait previous) ?d = 100"
    using facts by (intro percent_of_sum) auto
  ultimately show ?thesis
    using facts(3) by (auto simp: percent_of_bounds)
qed

definition row_before :: ProcCpuStat where
  "row_before = ProcCpuStat0\<lparr>p_user := 100, p_idle := 200, p_io_wait := 7\<rparr>"

definition row_after :: ProcCpuStat where
  "row_after = ProcCpuStat0\<lparr>p_user := 150, p_idle := 240, p_io_wait := 17\<rparr>"

theorem cpu_percent_partition_witness:
  "cm_cpu_percent (FillCpuPercentages row_after row_before (CpuStatMsg0 ''cpu'')) +
   cm_idle_percent (FillCpuPercentages row_after row_before (CpuStatMsg0 ''cpu'')) +
   cm_io_wait_percent (FillCpuPercentages row_after row_before (CpuStatMsg0 ''cpu'')) = 100"
  using cpu_percent_partition [of row_after row_before _ "CpuStatMsg0 ''cpu''", OF _ _ _ refl]
  by (simp add: row_after_def row_before_def ProcCpuStat0_def total_nat_def counters_grow_def
      TotalTime_def)

end
