(* ===== verification/EbpfNet.thy ===== *)
theory EbpfNet
  imports Prelude "HOL-Library.Multiset"
begin

text \<open>
  The eBPF programs of \<^verbatim>\<open>worker/src/ebpf/net_stats.bpf.c\<close>: the TC hooks that count packets per
  interface and the socket probes that count bytes per process. Both write per-CPU hash
  maps, which belong to the kernel: the helpers are the argument \<open>ops\<close>, and the locale
  \<open>percpu_hash\<close> states what the kernel documents of them. A program runs on its CPU without
  being interrupted by another one of these programs on the same CPU; programs on other
  CPUs interleave with it between its helper calls (\<open>net_step\<close>).
\<close>

section \<open>The helpers\<close>

text \<open>
  \<open>bpf_lookup m cpu k\<close> is \<^verbatim>\<open>bpf_map_lookup_elem\<close> called on \<open>cpu\<close>: the value in that CPU's slot,
  \<open>bpf_store\<close> a store through the pointer it returned, \<open>bpf_update_noexist\<close> is
  \<^verbatim>\<open>bpf_map_update_elem(..., BPF_NOEXIST)\<close>.
\<close>

record ('m, 'v) percpu_ops =
  bpf_lookup :: "'m \<Rightarrow> nat \<Rightarrow> u32 \<Rightarrow> 'v option"
  bpf_store :: "'m \<Rightarrow> nat \<Rightarrow> u32 \<Rightarrow> 'v \<Rightarrow> 'm"
  bpf_update_noexist :: "'m \<Rightarrow> nat \<Rightarrow> u32 \<Rightarrow> 'v \<Rightarrow> int \<times> 'm"

locale percpu_hash =
  fixes ops :: "('m, 'v) percpu_ops" and zero :: 'v
  assumes all_cpus: "bpf_lookup ops m c k = None \<Longrightarrow> bpf_lookup ops m c' k = None"
    and lookup_store: "bpf_lookup ops m c k = Some w \<Longrightarrow>
      bpf_lookup ops (bpf_store ops m c k v) c' k' =
        (if c' = c \<and> k' = k then Some v else bpf_lookup ops m c' k')"
    and update_ok: "bpf_update_noexist ops m c k v = (0, m') \<Longrightarrow>
      bpf_lookup ops m c k = None \<and>
      bpf_lookup ops m' c' k' =
        (if k' = k then Some (if c' = c then v else zero) else bpf_lookup ops m c' k')"
    and update_err: "bpf_update_noexist ops m c k v = (r, m') \<Longrightarrow> r \<noteq> 0 \<Longrightarrow> m' = m"

text \<open>The keys of \<open>K\<close> fit into the map together: no insertion of one of them is refused while
  the map holds keys of \<open>K\<close> only.\<close>

locale percpu_room = percpu_hash +
  fixes K :: "u32 set"
  assumes room: "k \<in> K \<Longrightarrow> bpf_lookup ops m c k = None \<Longrightarrow>
      (\<And>k'. bpf_lookup ops m c k' \<noteq> None \<Longrightarrow> k' \<in> K) \<Longrightarrow>
      fst (bpf_update_noexist ops m c k v) = 0"

section \<open>Interfaces: the TC hooks\<close>

record net_stats =
  rcv_bytes :: u64
  rcv_packets :: u64
  snd_bytes :: u64
  snd_packets :: u64

definition net_stats0 :: net_stats where
  "net_stats0 = \<lparr>rcv_bytes = 0, rcv_packets = 0, snd_bytes = 0, snd_packets = 0\<rparr>"

text \<open>The value a new entry starts with, and the addition to an existing one.\<close>

definition net_init :: "u32 \<Rightarrow> bool \<Rightarrow> net_stats" where
  "net_init len is_rx =
     (if is_rx then net_stats0\<lparr>rcv_bytes := ucast len, rcv_packets := 1\<rparr>
      else net_stats0\<lparr>snd_bytes := ucast len, snd_packets := 1\<rparr>)"

definition net_bump :: "u32 \<Rightarrow> bool \<Rightarrow> net_stats \<Rightarrow> net_stats" where
  "net_bump len is_rx s =
     (if is_rx then s\<lparr>rcv_bytes := rcv_bytes s + ucast len, rcv_packets := rcv_packets s + 1\<rparr>
      else s\<lparr>snd_bytes := snd_bytes s + ucast len, snd_packets := snd_packets s + 1\<rparr>)"

definition update_stats :: "('m, net_stats) percpu_ops \<Rightarrow> nat \<Rightarrow> u32 \<Rightarrow> u32 \<Rightarrow> bool \<Rightarrow> 'm \<Rightarrow> 'm" where
  "update_stats ops cpu ifindex len is_rx m =
     (case bpf_lookup ops m cpu ifindex of
        Some stats \<Rightarrow> bpf_store ops m cpu ifindex (net_bump len is_rx stats)
      | None \<Rightarrow>
          (case bpf_update_noexist ops m cpu ifindex (net_init len is_rx) of
             (ret, m1) \<Rightarrow>
               if ret = 0 then m1
               else (case bpf_lookup ops m1 cpu ifindex of
                       None \<Rightarrow> m1
                     | Some stats \<Rightarrow> bpf_store ops m1 cpu ifindex (net_bump len is_rx stats))))"

definition TC_ACT_OK :: int where "TC_ACT_OK = 0"

definition tc_ingress :: "('m, net_stats) percpu_ops \<Rightarrow> nat \<Rightarrow> u32 \<Rightarrow> u32 \<Rightarrow> 'm \<Rightarrow> int \<times> 'm" where
  "tc_ingress ops cpu ifindex len m =
     (if ifindex = 0 \<or> len = 0 then (TC_ACT_OK, m)
      else (TC_ACT_OK, update_stats ops cpu ifindex len True m))"

definition tc_egress :: "('m, net_stats) percpu_ops \<Rightarrow> nat \<Rightarrow> u32 \<Rightarrow> u32 \<Rightarrow> 'm \<Rightarrow> int \<times> 'm" where
  "tc_egress ops cpu ifindex len m =
     (if ifindex = 0 \<or> len = 0 then (TC_ACT_OK, m)
      else (TC_ACT_OK, update_stats ops cpu ifindex len False m))"

section \<open>Processes: the socket probes\<close>

record proc_net_stats =
  ps_snd_bytes :: u64
  ps_rcv_bytes :: u64
  ps_comm :: string

definition PROC_COMM_LEN :: nat where "PROC_COMM_LEN = 16"

definition proc_net_stats0 :: proc_net_stats where
  "proc_net_stats0 =
     \<lparr>ps_snd_bytes = 0, ps_rcv_bytes = 0, ps_comm = replicate PROC_COMM_LEN (CHR 0x00)\<rparr>"

text \<open>\<open>comm\<close> is what \<^verbatim>\<open>bpf_get_current_comm\<close> writes: 16 bytes.\<close>

definition proc_init :: "u64 \<Rightarrow> bool \<Rightarrow> string \<Rightarrow> proc_net_stats" where
  "proc_init bytes is_send comm =
     (if is_send then proc_net_stats0\<lparr>ps_snd_bytes := bytes\<rparr>
      else proc_net_stats0\<lparr>ps_rcv_bytes := bytes\<rparr>)\<lparr>ps_comm := comm\<rparr>"

definition proc_bump :: "u64 \<Rightarrow> bool \<Rightarrow> proc_net_stats \<Rightarrow> proc_net_stats" where
  "proc_bump bytes is_send s =
     (if is_send then s\<lparr>ps_snd_bytes := ps_snd_bytes s + bytes\<rparr>
      else s\<lparr>ps_rcv_bytes := ps_rcv_bytes s + bytes\<rparr>)"

text \<open>\<open>pid_tgid\<close> is what \<^verbatim>\<open>bpf_get_current_pid_tgid\<close> returns: the tgid in the upper half.\<close>

definition account_proc :: "('m, proc_net_stats) percpu_ops \<Rightarrow> nat \<Rightarrow> u64 \<Rightarrow> string \<Rightarrow>
    u64 \<Rightarrow> bool \<Rightarrow> 'm \<Rightarrow> 'm" where
  "account_proc ops cpu pid_tgid comm bytes is_send m =
     (if bytes = 0 then m
      else let tgid = ucast (drop_bit 32 pid_tgid)
           in case bpf_lookup ops m cpu tgid of
                Some stats \<Rightarrow> bpf_store ops m cpu tgid (proc_bump bytes is_send stats)
              | None \<Rightarrow>
                  (case bpf_update_noexist ops m cpu tgid (proc_init bytes is_send comm) of
                     (ret, m1) \<Rightarrow>
                       if ret = 0 then m1
                       else (case bpf_lookup ops m1 cpu tgid of
                               None \<Rightarrow> m1
                             | Some stats \<Rightarrow>
                                 bpf_store ops m1 cpu tgid (proc_bump bytes is_send stats))))"

definition trace_tcp_sendmsg :: "('m, proc_net_stats) percpu_ops \<Rightarrow> nat \<Rightarrow> u64 \<Rightarrow> string \<Rightarrow>
    u64 \<Rightarrow> 'm \<Rightarrow> int \<times> 'm" where
  "trace_tcp_sendmsg ops cpu pid_tgid comm nbytes m =
     (0, account_proc ops cpu pid_tgid comm nbytes True m)"

definition trace_tcp_recvmsg :: "('m, proc_net_stats) percpu_ops \<Rightarrow> nat \<Rightarrow> u64 \<Rightarrow> string \<Rightarrow>
    32 word \<Rightarrow> 'm \<Rightarrow> int \<times> 'm" where
  "trace_tcp_recvmsg ops cpu pid_tgid comm ret m =
     (0, if sint ret > 0 then account_proc ops cpu pid_tgid comm (scast ret) False m else m)"

section \<open>The pattern the two maps share\<close>

definition percpu_touch :: "('m, 'v) percpu_ops \<Rightarrow> nat \<Rightarrow> u32 \<Rightarrow> 'v \<Rightarrow> ('v \<Rightarrow> 'v) \<Rightarrow> 'm \<Rightarrow> 'm" where
  "percpu_touch ops cpu k v bump m =
     (case bpf_lookup ops m cpu k of
        Some w \<Rightarrow> bpf_store ops m cpu k (bump w)
      | None \<Rightarrow>
          (case bpf_update_noexist ops m cpu k v of
             (ret, m1) \<Rightarrow>
               if ret = 0 then m1
               else (case bpf_lookup ops m1 cpu k of
                       None \<Rightarrow> m1
                     | Some w \<Rightarrow> bpf_store ops m1 cpu k (bump w))))"

lemma update_stats_touch:
  "update_stats ops cpu k len rx = percpu_touch ops cpu k (net_init len rx) (net_bump len rx)"
  by (rule ext) (simp only: update_stats_def percpu_touch_def)

lemma account_proc_touch:
  "account_proc ops cpu pt comm bytes is_send m =
     (if bytes = 0 then m
      else percpu_touch ops cpu (ucast (drop_bit 32 pt)) (proc_init bytes is_send comm)
             (proc_bump bytes is_send) m)"
  by (simp only: account_proc_def percpu_touch_def Let_def)

context percpu_hash
begin

text \<open>The slot of every CPU and key after one call, when the call is not refused.\<close>

lemma touch_lookup:
  assumes "bpf_lookup ops m c k = None \<Longrightarrow> fst (bpf_update_noexist ops m c k v) = 0"
  shows "bpf_lookup ops (percpu_touch ops c k v bump m) c' k' =
    (if k' \<noteq> k then bpf_lookup ops m c' k'
     else case bpf_lookup ops m c' k of
            None \<Rightarrow> Some (if c' = c then v else zero)
          | Some w \<Rightarrow> Some (if c' = c then bump w else w))"
proof (cases "bpf_lookup ops m c k")
  case None
  with assms obtain m1 where u: "bpf_update_noexist ops m c k v = (0, m1)"
    by (cases "bpf_update_noexist ops m c k v") auto
  from all_cpus [OF None, of c'] update_ok [OF u, of c' k'] show ?thesis
    by (auto simp: percpu_touch_def None u)
next
  case (Some w)
  obtain w' where "bpf_lookup ops m c' k = Some w'"
    using all_cpus [of m c' k c] Some by fastforce
  with Some lookup_store [OF Some, of _ c' k'] show ?thesis
    by (auto simp: percpu_touch_def)
qed

text \<open>A refused insertion leaves the map as it was.\<close>

lemma touch_refused:
  assumes "bpf_lookup ops m c k = None" and "fst (bpf_update_noexist ops m c k v) \<noteq> 0"
  shows "percpu_touch ops c k v bump m = m"
  using assms update_err [of m c k v]
  by (cases "bpf_update_noexist ops m c k v") (simp add: percpu_touch_def)

end

section \<open>What a sequence of socket calls leaves in the process map\<close>

record sock_call =
  sc_cpu :: nat
  sc_pid_tgid :: u64
  sc_comm :: string
  sc_bytes :: u64
  sc_send :: bool

definition sc_tgid :: "sock_call \<Rightarrow> u32" where
  "sc_tgid e = ucast (drop_bit 32 (sc_pid_tgid e))"

definition run_call :: "('m, proc_net_stats) percpu_ops \<Rightarrow> sock_call \<Rightarrow> 'm \<Rightarrow> 'm" where
  "run_call ops e = account_proc ops (sc_cpu e) (sc_pid_tgid e) (sc_comm e) (sc_bytes e) (sc_send e)"

definition calls_of :: "u32 \<Rightarrow> sock_call list \<Rightarrow> sock_call list" where
  "calls_of k es = filter (\<lambda>e. sc_bytes e \<noteq> 0 \<and> sc_tgid e = k) es"

definition call_sum :: "(sock_call \<Rightarrow> bool) \<Rightarrow> sock_call list \<Rightarrow> u64" where
  "call_sum P es = (\<Sum>e\<leftarrow>filter P es. sc_bytes e)"

text \<open>The slot of CPU \<open>c\<close> for the process \<open>k\<close>: its sums, and the name only on the CPU that
  made the entry.\<close>

definition proc_slot :: "sock_call list \<Rightarrow> nat \<Rightarrow> u32 \<Rightarrow> proc_net_stats option" where
  "proc_slot es c k =
     (case calls_of k es of
        [] \<Rightarrow> None
      | e # _ \<Rightarrow> Some \<lparr>
          ps_snd_bytes = call_sum (\<lambda>e. sc_cpu e = c \<and> sc_send e) (calls_of k es),
          ps_rcv_bytes = call_sum (\<lambda>e. sc_cpu e = c \<and> \<not> sc_send e) (calls_of k es),
          ps_comm = (if sc_cpu e = c then sc_comm e else ps_comm proc_net_stats0)\<rparr>)"

lemma call_sum_append [simp]: "call_sum P (es @ es') = call_sum P es + call_sum P es'"
  by (simp add: call_sum_def)

lemma call_sum_Cons [simp]: "call_sum P (e # es) = (if P e then sc_bytes e else 0) + call_sum P es"
  by (simp add: call_sum_def)

lemma call_sum_Nil [simp]: "call_sum P [] = 0"
  by (simp add: call_sum_def)

lemma calls_of_append [simp]: "calls_of k (es @ es') = calls_of k es @ calls_of k es'"
  by (simp add: calls_of_def)

lemma calls_of_one:
  "calls_of k [e] = (if sc_bytes e \<noteq> 0 \<and> sc_tgid e = k then [e] else [])"
  by (simp add: calls_of_def)

lemma proc_slot_snoc:
  assumes "sc_bytes e \<noteq> 0"
  shows "proc_slot (es @ [e]) c k =
    (if k \<noteq> sc_tgid e then proc_slot es c k
     else case proc_slot es c k of
            None \<Rightarrow> Some (if c = sc_cpu e then proc_init (sc_bytes e) (sc_send e) (sc_comm e)
                          else proc_net_stats0)
          | Some w \<Rightarrow> Some (if c = sc_cpu e then proc_bump (sc_bytes e) (sc_send e) w else w))"
  using assms
  by (auto simp: proc_slot_def calls_of_one proc_init_def proc_bump_def proc_net_stats0_def
      split: list.splits)

lemma proc_slot_zero: "sc_bytes e = 0 \<Longrightarrow> proc_slot (es @ [e]) c k = proc_slot es c k"
  by (simp only: proc_slot_def calls_of_append calls_of_one simp_thms if_False append_Nil2)

lemma run_call_zero: "sc_bytes e = 0 \<Longrightarrow> run_call ops e m = m"
  by (simp add: run_call_def account_proc_def)

lemma run_call_touch:
  "sc_bytes e \<noteq> 0 \<Longrightarrow> run_call ops e m = percpu_touch ops (sc_cpu e) (sc_tgid e)
     (proc_init (sc_bytes e) (sc_send e) (sc_comm e)) (proc_bump (sc_bytes e) (sc_send e)) m"
  by (simp add: run_call_def account_proc_touch sc_tgid_def)

lemma proc_slot_key: "proc_slot es c k \<noteq> None \<Longrightarrow> k \<in> sc_tgid ` set es"
  by (cases "calls_of k es = []") (auto simp: proc_slot_def calls_of_def filter_empty_conv)

lemma run_calls_slots:
  assumes room: "percpu_room ops proc_net_stats0 K" and keys: "sc_tgid ` set es \<subseteq> K"
    and empty: "\<And>c k. bpf_lookup ops m c k = None"
  shows "bpf_lookup ops (fold (run_call ops) es m) c k = proc_slot es c k"
  using keys
proof (induction es arbitrary: c k rule: rev_induct)
  case Nil
  then show ?case using empty by (simp add: proc_slot_def calls_of_def)
next
  case (snoc e es)
  let ?m = "fold (run_call ops) es m"
  from room have hash: "percpu_hash ops proc_net_stats0" by (rule percpu_room.axioms)
  have IH: "bpf_lookup ops ?m c k = proc_slot es c k" for c k using snoc by simp
  show ?case
  proof (cases "sc_bytes e = 0")
    case True
    with IH show ?thesis by (simp add: run_call_zero proc_slot_zero)
  next
    case False
    have "k' \<in> K" if "bpf_lookup ops ?m c k' \<noteq> None" for c k'
      using that IH proc_slot_key [of es c k'] snoc.prems by auto
    with percpu_room.room [OF room] snoc.prems
    have "fst (bpf_update_noexist ops ?m (sc_cpu e) (sc_tgid e) v) = 0"
      if "bpf_lookup ops ?m (sc_cpu e) (sc_tgid e) = None" for v using that by auto
    with False show ?thesis
      using percpu_hash.touch_lookup [OF hash, of ?m "sc_cpu e" "sc_tgid e" _ _ c k]
      by (auto simp: run_call_touch proc_slot_snoc IH)
  qed
qed

section \<open>A bounded map\<close>

text \<open>
  An instance of the interface: an association list bounded by \<open>max_entries\<close>. It shows that
  the laws can hold and serves the concrete runs.
\<close>

type_synonym 'v pmap = "(u32 \<times> (nat \<Rightarrow> 'v)) list"

definition pmap_lookup :: "'v pmap \<Rightarrow> nat \<Rightarrow> u32 \<Rightarrow> 'v option" where
  "pmap_lookup m c k = (case map_of m k of None \<Rightarrow> None | Some f \<Rightarrow> Some (f c))"

definition pmap_store :: "'v pmap \<Rightarrow> nat \<Rightarrow> u32 \<Rightarrow> 'v \<Rightarrow> 'v pmap" where
  "pmap_store m c k v = map (\<lambda>(k', f). (k', if k' = k then f(c := v) else f)) m"

definition pmap_update :: "nat \<Rightarrow> 'v \<Rightarrow> 'v pmap \<Rightarrow> nat \<Rightarrow> u32 \<Rightarrow> 'v \<Rightarrow> int \<times> 'v pmap" where
  "pmap_update max_entries z m c k v =
     (if map_of m k \<noteq> None then (- EEXIST, m)
      else if max_entries \<le> length (remdups (map fst m)) then (- E2BIG, m)
      else (0, (k, (\<lambda>_. z)(c := v)) # m))"

definition pmap_ops :: "nat \<Rightarrow> 'v \<Rightarrow> ('v pmap, 'v) percpu_ops" where
  "pmap_ops max_entries z =
     \<lparr>bpf_lookup = pmap_lookup, bpf_store = pmap_store,
      bpf_update_noexist = pmap_update max_entries z\<rparr>"

lemma map_of_pmap_store:
  "map_of (pmap_store m c k v) k' =
     (case map_of m k' of None \<Rightarrow> None | Some f \<Rightarrow> Some (if k' = k then f(c := v) else f))"
  by (induction m) (auto simp: pmap_store_def)

lemma pmap_hash: "percpu_hash (pmap_ops n z) z"
  by unfold_locales
    (auto simp: pmap_ops_def pmap_lookup_def pmap_update_def map_of_pmap_store
      split: option.splits if_splits)

lemma length_remdups_keys: "length (remdups (map fst m)) = card (fst ` set m)"
  by (simp add: length_remdups_card_conv)

lemma pmap_keys: "pmap_lookup m c k \<noteq> None \<longleftrightarrow> k \<in> fst ` set m"
proof -
  have "pmap_lookup m c k = None \<longleftrightarrow> map_of m k = None"
    by (simp add: pmap_lookup_def split: option.splits)
  then show ?thesis by (simp add: map_of_eq_None_iff)
qed

lemma pmap_room:
  assumes "finite K" and "card K \<le> n"
  shows "percpu_room (pmap_ops n z) z K"
proof (intro percpu_room.intro pmap_hash percpu_room_axioms.intro)
  fix k m c v
  assume k: "k \<in> K" and none: "bpf_lookup (pmap_ops n z) m c k = None"
    and sub: "\<And>k'. bpf_lookup (pmap_ops n z) m c k' \<noteq> None \<Longrightarrow> k' \<in> K"
  from sub have "fst ` set m \<subseteq> K" using pmap_keys [of m c] by (auto simp: pmap_ops_def)
  moreover from none have "k \<notin> fst ` set m" using pmap_keys [of m c k] by (simp add: pmap_ops_def)
  ultimately have "card (fst ` set m) < card K"
    using k assms(1) by (intro psubset_card_mono) auto
  with assms(2) none show "fst (bpf_update_noexist (pmap_ops n z) m c k v) = 0"
    by (auto simp: pmap_ops_def pmap_update_def length_remdups_keys pmap_lookup_def
        split: option.splits)
qed

interpretation net_map: percpu_hash "pmap_ops 64 net_stats0" net_stats0
  by (rule pmap_hash)

interpretation proc_map: percpu_hash "pmap_ops 4096 proc_net_stats0" proc_net_stats0
  by (rule pmap_hash)

interpretation one_if: percpu_room "pmap_ops 64 net_stats0" net_stats0 "{2}"
  by (rule pmap_room) simp_all

section \<open>All CPUs at once\<close>

record packet =
  pk_cpu :: nat
  pk_ifindex :: u32
  pk_len :: u32
  pk_rx :: bool

text \<open>Where a CPU is in \<^verbatim>\<open>update_stats\<close>: before the update, before the second lookup, or with
  a pointer to its slot.\<close>

datatype net_pc = Idle | Create packet | Again packet | Bump packet

text \<open>For the statements only: the packets that passed the filter, those counted so far and
  those given up because the second lookup failed as well.\<close>

record 'm net_sys =
  ns_map :: 'm
  ns_pcs :: "net_pc list"
  ns_seen :: "packet multiset"
  ns_log :: "packet list"
  ns_lost :: "packet multiset"

inductive net_step :: "('m, net_stats) percpu_ops \<Rightarrow> 'm net_sys \<Rightarrow> 'm net_sys \<Rightarrow> bool"
  for ops :: "('m, net_stats) percpu_ops" where
  filtered: "c < length (ns_pcs s) \<Longrightarrow> ns_pcs s ! c = Idle \<Longrightarrow> pk_cpu (p :: packet) = c \<Longrightarrow>
     pk_ifindex p = 0 \<or> pk_len p = 0 \<Longrightarrow> net_step ops s s"
| enter: "c < length (ns_pcs s) \<Longrightarrow> ns_pcs s ! c = Idle \<Longrightarrow> pk_cpu p = c \<Longrightarrow>
     pk_ifindex p \<noteq> 0 \<Longrightarrow> pk_len p \<noteq> 0 \<Longrightarrow>
     pc = (if bpf_lookup ops (ns_map s) c (pk_ifindex p) = None then Create p else Bump p) \<Longrightarrow>
     net_step ops s (s\<lparr>ns_pcs := (ns_pcs s)[c := pc], ns_seen := add_mset p (ns_seen s)\<rparr>)"
| create: "c < length (ns_pcs s) \<Longrightarrow> ns_pcs s ! c = Create p \<Longrightarrow>
     bpf_update_noexist ops (ns_map s) c (pk_ifindex p) (net_init (pk_len p) (pk_rx p)) = (0, m) \<Longrightarrow>
     net_step ops s
       (s\<lparr>ns_map := m, ns_pcs := (ns_pcs s)[c := Idle], ns_log := p # ns_log s\<rparr>)"
| refused: "c < length (ns_pcs s) \<Longrightarrow> ns_pcs s ! c = Create p \<Longrightarrow>
     bpf_update_noexist ops (ns_map s) c (pk_ifindex p) (net_init (pk_len p) (pk_rx p)) = (r, m) \<Longrightarrow>
     r \<noteq> 0 \<Longrightarrow>
     net_step ops s (s\<lparr>ns_map := m, ns_pcs := (ns_pcs s)[c := Again p]\<rparr>)"
| found: "c < length (ns_pcs s) \<Longrightarrow> ns_pcs s ! c = Again p \<Longrightarrow>
     bpf_lookup ops (ns_map s) c (pk_ifindex p) \<noteq> None \<Longrightarrow>
     net_step ops s (s\<lparr>ns_pcs := (ns_pcs s)[c := Bump p]\<rparr>)"
| lost: "c < length (ns_pcs s) \<Longrightarrow> ns_pcs s ! c = Again p \<Longrightarrow>
     bpf_lookup ops (ns_map s) c (pk_ifindex p) = None \<Longrightarrow>
     net_step ops s
       (s\<lparr>ns_pcs := (ns_pcs s)[c := Idle], ns_lost := add_mset p (ns_lost s)\<rparr>)"
| bump: "c < length (ns_pcs s) \<Longrightarrow> ns_pcs s ! c = Bump p \<Longrightarrow>
     bpf_lookup ops (ns_map s) c (pk_ifindex p) = Some w \<Longrightarrow>
     net_step ops s
       (s\<lparr>ns_map := bpf_store ops (ns_map s) c (pk_ifindex p) (net_bump (pk_len p) (pk_rx p) w),
          ns_pcs := (ns_pcs s)[c := Idle], ns_log := p # ns_log s\<rparr>)"

definition net_start :: "'m \<Rightarrow> nat \<Rightarrow> 'm net_sys" where
  "net_start m ncpu = \<lparr>ns_map = m, ns_pcs = replicate ncpu Idle, ns_seen = {#},
     ns_log = [], ns_lost = {#}\<rparr>"

definition net_reach :: "('m, net_stats) percpu_ops \<Rightarrow> 'm \<Rightarrow> nat \<Rightarrow> 'm net_sys \<Rightarrow> bool" where
  "net_reach ops m ncpu s \<longleftrightarrow> (net_step ops)\<^sup>*\<^sup>* (net_start m ncpu) s"

text \<open>What the packets of a log amount to on one CPU and interface.\<close>

fun tally :: "packet list \<Rightarrow> nat \<Rightarrow> u32 \<Rightarrow> net_stats" where
  "tally [] c k = net_stats0"
| "tally (p # ps) c k =
     (if pk_cpu p = c \<and> pk_ifindex p = k then net_bump (pk_len p) (pk_rx p) (tally ps c k)
      else tally ps c k)"

fun in_flight :: "net_pc \<Rightarrow> packet option" where
  "in_flight Idle = None"
| "in_flight (Create p) = Some p"
| "in_flight (Again p) = Some p"
| "in_flight (Bump p) = Some p"

fun flight_mset :: "net_pc \<Rightarrow> packet multiset" where
  "flight_mset Idle = {#}"
| "flight_mset (Create p) = {#p#}"
| "flight_mset (Again p) = {#p#}"
| "flight_mset (Bump p) = {#p#}"

definition flying :: "'m net_sys \<Rightarrow> packet multiset" where
  "flying s = (\<Sum>pc\<leftarrow>ns_pcs s. flight_mset pc)"

lemma flying_update:
  assumes "c < length pcs"
  shows "(\<Sum>pc\<leftarrow>pcs[c := x]. flight_mset pc) + flight_mset (pcs ! c) =
         (\<Sum>pc\<leftarrow>pcs. flight_mset pc) + flight_mset x"
  using assms
proof (induction pcs arbitrary: c)
  case (Cons a pcs)
  then show ?case by (cases c) (auto simp: ac_simps)
qed simp

lemma net_init_bump: "net_init len rx = net_bump len rx net_stats0"
  by (simp add: net_init_def net_bump_def net_stats0_def)

definition net_inv :: "('m, net_stats) percpu_ops \<Rightarrow> 'm net_sys \<Rightarrow> bool" where
  "net_inv ops s \<longleftrightarrow>
     (\<forall>c k. bpf_lookup ops (ns_map s) c k =
        (if k \<in> pk_ifindex ` set (ns_log s) then Some (tally (ns_log s) c k) else None)) \<and>
     (\<forall>c < length (ns_pcs s). \<forall>p. in_flight (ns_pcs s ! c) = Some p \<longrightarrow> pk_cpu p = c) \<and>
     ns_seen s = mset (ns_log s) + ns_lost s + flying s"

lemma tally_absent: "k \<notin> pk_ifindex ` set ps \<Longrightarrow> tally ps c k = net_stats0"
  by (induction ps) auto

lemma flight_eq:
  assumes "c < length pcs" and "flight_mset (pcs ! c) = {#p#}"
  shows "(\<Sum>pc\<leftarrow>pcs[c := Idle]. flight_mset pc) + {#p#} = (\<Sum>pc\<leftarrow>pcs. flight_mset pc)"
  using flying_update [OF assms(1), of Idle] assms(2) by simp

definition slots_ok :: "('m, net_stats) percpu_ops \<Rightarrow> 'm \<Rightarrow> packet list \<Rightarrow> bool" where
  "slots_ok ops m ps \<longleftrightarrow> (\<forall>c k. bpf_lookup ops m c k =
     (if k \<in> pk_ifindex ` set ps then Some (tally ps c k) else None))"

definition pcs_ok :: "net_pc list \<Rightarrow> bool" where
  "pcs_ok pcs \<longleftrightarrow> (\<forall>c < length pcs. \<forall>p. in_flight (pcs ! c) = Some p \<longrightarrow> pk_cpu p = c)"

lemma net_inv_alt:
  "net_inv ops s \<longleftrightarrow> slots_ok ops (ns_map s) (ns_log s) \<and> pcs_ok (ns_pcs s) \<and>
     ns_seen s = mset (ns_log s) + ns_lost s + flying s"
  by (simp add: net_inv_def slots_ok_def pcs_ok_def)

lemma pcs_ok_update:
  "pcs_ok pcs \<Longrightarrow> (\<And>p. in_flight x = Some p \<Longrightarrow> pk_cpu p = c) \<Longrightarrow> pcs_ok (pcs[c := x])"
  unfolding pcs_ok_def by (metis length_list_update nth_list_update_eq nth_list_update_neq)

lemma create_slots:
  assumes "percpu_hash ops net_stats0" and "slots_ok ops m ps" and "pk_cpu p = c"
    and "bpf_update_noexist ops m c (pk_ifindex p) (net_init (pk_len p) (pk_rx p)) = (0, m')"
  shows "slots_ok ops m' (p # ps)"
proof -
  note u = percpu_hash.update_ok [OF assms(1) assms(4)]
  from u assms(2) have "pk_ifindex p \<notin> pk_ifindex ` set ps"
    unfolding slots_ok_def by (metis option.distinct(1))
  then show ?thesis
    using u assms(2,3) by (auto simp: slots_ok_def tally_absent net_init_bump)
qed

lemma bump_slots:
  assumes "percpu_hash ops net_stats0" and "slots_ok ops m ps" and "pk_cpu p = c"
    and "bpf_lookup ops m c (pk_ifindex p) = Some w"
  shows "slots_ok ops (bpf_store ops m c (pk_ifindex p) (net_bump (pk_len p) (pk_rx p) w)) (p # ps)"
proof -
  note u = percpu_hash.lookup_store [OF assms(1) assms(4)]
  from assms(2,4) have "pk_ifindex p \<in> pk_ifindex ` set ps" and "w = tally ps c (pk_ifindex p)"
    by (auto simp: slots_ok_def split: if_splits)
  then show ?thesis
    using u assms(2,3) by (auto simp: slots_ok_def)
qed

lemma net_step_inv:
  assumes ops: "percpu_hash ops net_stats0"
  shows "net_step ops s t \<Longrightarrow> net_inv ops s \<Longrightarrow> net_inv ops t"
proof (induction rule: net_step.induct)
  case (enter c s p pc)
  then have "flight_mset pc = {#p#}" by simp
  with flying_update [OF enter(1), of pc] enter show ?case
    by (auto simp: net_inv_alt flying_def intro!: pcs_ok_update)
next
  case (create c s p m)
  then have "pk_cpu p = c" by (auto simp: net_inv_alt pcs_ok_def)
  with create create_slots [OF ops, of "ns_map s" "ns_log s" p c m]
    flight_eq [OF create(1), of p]
  show ?case by (auto simp: net_inv_alt flying_def intro!: pcs_ok_update)
next
  case (refused c s p r m)
  then have "pk_cpu p = c" and "m = ns_map s"
    using percpu_hash.update_err [OF ops] by (auto simp: net_inv_alt pcs_ok_def)
  with refused flying_update [OF refused(1), of "Again p"] show ?case
    by (auto simp: net_inv_alt flying_def intro!: pcs_ok_update)
next
  case (found c s p)
  then have "pk_cpu p = c" by (auto simp: net_inv_alt pcs_ok_def)
  with found flying_update [OF found(1), of "Bump p"] show ?case
    by (auto simp: net_inv_alt flying_def intro!: pcs_ok_update)
next
  case (lost c s p)
  with flight_eq [OF lost(1), of p] show ?case
    by (auto simp: net_inv_alt flying_def intro!: pcs_ok_update)
next
  case (bump c s p w)
  then have "pk_cpu p = c" by (auto simp: net_inv_alt pcs_ok_def)
  with bump bump_slots [OF ops, of "ns_map s" "ns_log s" p c w] flight_eq [OF bump(1), of p]
  show ?case by (auto simp: net_inv_alt flying_def intro!: pcs_ok_update)
qed simp

lemma net_start_inv:
  "(\<And>c k. bpf_lookup ops m c k = None) \<Longrightarrow> net_inv ops (net_start m ncpu)"
  by (induction ncpu)
    (auto simp: net_inv_alt net_start_def slots_ok_def pcs_ok_def flying_def nth_Cons split: nat.splits)

lemma net_reach_inv:
  assumes "percpu_hash ops net_stats0" and "\<And>c k. bpf_lookup ops m c k = None"
    and "net_reach ops m ncpu s"
  shows "net_inv ops s"
  using assms(3) unfolding net_reach_def
  by (induction rule: rtranclp_induct) (use assms in \<open>auto intro: net_step_inv net_start_inv\<close>)

section \<open>Properties\<close>


definition race_p0 :: packet where
  "race_p0 = \<lparr>pk_cpu = 0, pk_ifindex = 2, pk_len = 60, pk_rx = True\<rparr>"

definition race_p1 :: packet where
  "race_p1 = \<lparr>pk_cpu = 1, pk_ifindex = 2, pk_len = 40, pk_rx = False\<rparr>"

text \<open>Two CPUs meet at an interface neither has seen; the second one is refused and retries.\<close>

definition race_sys :: "net_stats pmap \<Rightarrow> net_pc list \<Rightarrow> packet multiset \<Rightarrow> packet list \<Rightarrow>
    net_stats pmap net_sys" where
  "race_sys m pcs seen log =
     \<lparr>ns_map = m, ns_pcs = pcs, ns_seen = seen, ns_log = log, ns_lost = {#}\<rparr>"

lemma race_run:
  defines "ops \<equiv> pmap_ops 64 net_stats0"
  defines "m1 \<equiv> [(2, (\<lambda>_. net_stats0)(0 := net_init 60 True))]"
  shows "net_reach ops [] 2
    (race_sys (pmap_store m1 1 2 (net_bump 40 False net_stats0)) [Idle, Idle]
       {#race_p1, race_p0#} [race_p1, race_p0])"
proof -
  note defs = race_sys_def net_start_def race_p0_def race_p1_def ops_def pmap_ops_def
    pmap_lookup_def pmap_update_def m1_def
  have start: "net_start [] 2 = race_sys [] [Idle, Idle] {#} []"
    by (simp add: net_start_def race_sys_def numeral_2_eq_2)
  have "net_step ops (race_sys [] [Idle, Idle] {#} []) (race_sys [] [Create race_p0, Idle] {#race_p0#} [])"
    using enter [of 0 "race_sys [] [Idle, Idle] {#} []" race_p0 _ ops, OF _ _ _ _ _ refl]
    by (simp add: defs)
  moreover have "net_step ops (race_sys [] [Create race_p0, Idle] {#race_p0#} [])
      (race_sys [] [Create race_p0, Create race_p1] {#race_p1, race_p0#} [])"
    using enter [of 1 "race_sys [] [Create race_p0, Idle] {#race_p0#} []" race_p1 _ ops,
        OF _ _ _ _ _ refl] by (simp add: defs)
  moreover have "net_step ops
      (race_sys [] [Create race_p0, Create race_p1] {#race_p1, race_p0#} [])
      (race_sys m1 [Idle, Create race_p1] {#race_p1, race_p0#} [race_p0])"
    using create [of 0 "race_sys [] [Create race_p0, Create race_p1] {#race_p1, race_p0#} []"
        race_p0 ops m1] by (simp add: defs)
  moreover have "net_step ops (race_sys m1 [Idle, Create race_p1] {#race_p1, race_p0#} [race_p0])
      (race_sys m1 [Idle, Again race_p1] {#race_p1, race_p0#} [race_p0])"
    using refused [of 1 "race_sys m1 [Idle, Create race_p1] {#race_p1, race_p0#} [race_p0]"
        race_p1 ops "- EEXIST" m1] by (simp add: defs)
  moreover have "net_step ops (race_sys m1 [Idle, Again race_p1] {#race_p1, race_p0#} [race_p0])
      (race_sys m1 [Idle, Bump race_p1] {#race_p1, race_p0#} [race_p0])"
    using found [of 1 "race_sys m1 [Idle, Again race_p1] {#race_p1, race_p0#} [race_p0]"
        race_p1 ops] by (simp add: defs)
  moreover have "net_step ops (race_sys m1 [Idle, Bump race_p1] {#race_p1, race_p0#} [race_p0])
      (race_sys (pmap_store m1 1 2 (net_bump 40 False net_stats0)) [Idle, Idle]
         {#race_p1, race_p0#} [race_p1, race_p0])"
    using bump [of 1 "race_sys m1 [Idle, Bump race_p1] {#race_p1, race_p0#} [race_p0]"
        race_p1 ops net_stats0] by (simp add: defs)
  ultimately show ?thesis
    unfolding net_reach_def start by (meson converse_rtranclp_into_rtranclp rtranclp.rtrancl_refl)
qed


text \<open>While the map has room, a refused insertion means that the entry exists.\<close>

definition retry_inv :: "u32 set \<Rightarrow> 'm net_sys \<Rightarrow> bool" where
  "retry_inv K s \<longleftrightarrow> (pk_ifindex ` set_mset (ns_seen s) \<subseteq> K \<longrightarrow> ns_lost s = {#} \<and>
     (\<forall>p. Again p \<in> set (ns_pcs s) \<longrightarrow> pk_ifindex p \<in> pk_ifindex ` set (ns_log s)))"

lemma retry_frame:
  assumes "retry_inv K s" and "ns_seen s \<subseteq># ns_seen t" and "ns_lost t = ns_lost s"
    and "set (ns_log s) \<subseteq> set (ns_log t)"
    and "\<And>p. Again p \<in> set (ns_pcs t) \<Longrightarrow> Again p \<in> set (ns_pcs s)"
  shows "retry_inv K t"
  unfolding retry_inv_def
proof
  assume "pk_ifindex ` set_mset (ns_seen t) \<subseteq> K"
  with set_mset_mono [OF assms(2)] have "pk_ifindex ` set_mset (ns_seen s) \<subseteq> K" by blast
  with assms(1) have "ns_lost s = {#}"
    and "Again p \<in> set (ns_pcs s) \<Longrightarrow> pk_ifindex p \<in> pk_ifindex ` set (ns_log s)" for p
    by (auto simp: retry_inv_def)
  with assms(3-5) show "ns_lost t = {#} \<and>
      (\<forall>p. Again p \<in> set (ns_pcs t) \<longrightarrow> pk_ifindex p \<in> pk_ifindex ` set (ns_log t))"
    by (metis image_mono subsetD)
qed

lemma Again_update: "Again p \<in> set (xs[c := x]) \<Longrightarrow> x \<noteq> Again p \<Longrightarrow> Again p \<in> set xs"
  using set_update_subset_insert [of xs c x] by auto

lemma net_step_retry:
  assumes room: "percpu_room ops net_stats0 K"
  shows "net_step ops s t \<Longrightarrow> net_inv ops s \<Longrightarrow> retry_inv K s \<Longrightarrow> retry_inv K t"
proof (induction rule: net_step.induct)
  case (refused c s p r m)
  have "pk_ifindex p \<in> pk_ifindex ` set (ns_log s)"
    if sub: "pk_ifindex ` set_mset (ns_seen s) \<subseteq> K"
  proof (rule ccontr)
    assume a: "pk_ifindex p \<notin> pk_ifindex ` set (ns_log s)"
    with refused have "bpf_lookup ops (ns_map s) c (pk_ifindex p) = None"
      by (simp add: net_inv_def)
    moreover have "k \<in> K" if "bpf_lookup ops (ns_map s) c k \<noteq> None" for k
      using that sub refused by (auto simp: net_inv_def split: if_splits)
    moreover have "p \<in># flying s"
      using refused(1,2) by (auto simp: flying_def intro!: bexI [of _ "Create p"]
          dest: nth_mem [of c "ns_pcs s"])
    then have "pk_ifindex p \<in> K" using sub refused by (auto simp: net_inv_def)
    ultimately show False
      using percpu_room.room [OF room] refused(3,4) by (metis fst_conv)
  qed
  with refused show ?case
    by (auto simp: retry_inv_def dest!: Again_update)
next
  case (lost c s p)
  have "\<not> pk_ifindex ` set_mset (ns_seen s) \<subseteq> K"
  proof
    assume "pk_ifindex ` set_mset (ns_seen s) \<subseteq> K"
    with lost have "pk_ifindex p \<in> pk_ifindex ` set (ns_log s)"
      unfolding retry_inv_def by (metis nth_mem)
    with lost show False by (simp add: net_inv_def)
  qed
  then show ?case by (simp add: retry_inv_def)
next
  case (enter c s p pc)
  then show ?case
    by (intro retry_frame [OF enter.prems(2)]) (auto dest: Again_update split: if_splits)
qed (auto elim!: retry_frame dest: Again_update)



end
