(* ===== verification/NetMonitor.thy ===== *)
theory NetMonitor
  imports Complex_Main EbpfNet
begin

text \<open>
  The worker's network monitor, \<^verbatim>\<open>worker/src/monitor/net_ebpf_monitor.cpp\<close>: attaching the
  eBPF programs and giving everything back, merging the per-CPU slots of the two maps, the
  rates between two rounds and the ten processes with the most traffic. System calls and
  the libbpf calls are the argument \<open>env\<close>; \<^verbatim>\<open>double\<close> values are exact rationals.
\<close>

section \<open>State\<close>

record NetStatCache =
  nc_rcv_bytes :: u64
  nc_rcv_packets :: u64
  nc_snd_bytes :: u64
  nc_snd_packets :: u64
  nc_timestamp :: rat

record ProcStatCache =
  pc_snd_bytes :: u64
  pc_rcv_bytes :: u64
  pc_timestamp :: rat

record ProcRate =
  pr_pid :: u32
  pr_name :: string
  pr_snd_rate :: rat
  pr_rcv_rate :: rat

record NetEbpfMonitor =
  nm_cache :: "u32 \<rightharpoonup> NetStatCache"
  nm_ifname_cache :: "u32 \<rightharpoonup> string"
  nm_attached_ifindexes :: "u32 list"
  nm_proc_cache :: "u32 \<rightharpoonup> ProcStatCache"
  nm_percpu_buf :: nat
  nm_num_possible_cpus :: int
  nm_skel :: bool
  nm_send_probe_link :: bool
  nm_recv_probe_link :: bool
  nm_map_fd :: int
  nm_proc_map_fd :: int
  nm_loaded :: bool

definition NetEbpfMonitor0 :: NetEbpfMonitor where
  "NetEbpfMonitor0 = \<lparr>nm_cache = Map.empty, nm_ifname_cache = Map.empty,
     nm_attached_ifindexes = [], nm_proc_cache = Map.empty, nm_percpu_buf = 0,
     nm_num_possible_cpus = 0, nm_skel = False, nm_send_probe_link = False,
     nm_recv_probe_link = False, nm_map_fd = - 1, nm_proc_map_fd = - 1, nm_loaded = False\<rparr>"

section \<open>TC hooks\<close>

datatype tc_point = BPF_TC_INGRESS | BPF_TC_EGRESS

text \<open>What the kernel holds for the monitor: the filters with its handle and priority, and the
  interfaces with a clsact qdisc.\<close>

record tc_world =
  tw_filters :: "(u32 \<times> tc_point) set"
  tw_clsact :: "u32 set"

record tc_env =
  te_hook_create :: "u32 \<Rightarrow> tc_point \<Rightarrow> int"
  te_attach :: "u32 \<Rightarrow> tc_point \<Rightarrow> int"
  te_hook_destroy :: "u32 \<Rightarrow> int"
  te_dir_entries :: "string list"
  te_physical :: "string \<Rightarrow> bool"
  te_if_nametoindex :: "string \<Rightarrow> u32"
  te_skel_open :: bool
  te_skel_load :: int
  te_map_fd :: int
  te_proc_map_fd :: int
  te_num_possible_cpus :: int
  te_send_probe_err :: int
  te_recv_probe_err :: int

definition kPerCpuValueSize :: nat where "kPerCpuValueSize = 32"

text \<open>\<open>lstat_ok\<close>: the \<^verbatim>\<open>device\<close> link of the interface exists in sysfs.\<close>

definition IsPhysicalInterface :: "(string \<Rightarrow> bool) \<Rightarrow> string \<Rightarrow> bool" where
  "IsPhysicalInterface lstat_ok ifname =
     (if ifname = ''lo'' then False else lstat_ok (''/sys/class/net/'' @ ifname @ ''/device''))"

definition GetAllIfIndexes :: "tc_env \<Rightarrow> u32 list" where
  "GetAllIfIndexes env =
     filter (\<lambda>i. i > 0) (map (te_if_nametoindex env)
       (filter (IsPhysicalInterface (te_physical env))
         (filter (\<lambda>name. take 1 name \<noteq> ''.'') (te_dir_entries env))))"

definition bpf_tc_detach_filter :: "u32 \<Rightarrow> tc_point \<Rightarrow> tc_world \<Rightarrow> tc_world" where
  "bpf_tc_detach_filter ifindex point w = w\<lparr>tw_filters := tw_filters w - {(ifindex, point)}\<rparr>"

definition DestroyClsactQdisc :: "tc_env \<Rightarrow> u32 \<Rightarrow> tc_world \<Rightarrow> tc_world" where
  "DestroyClsactQdisc env ifindex w =
     (if te_hook_destroy env ifindex = 0
      then w\<lparr>tw_filters := {f \<in> tw_filters w. fst f \<noteq> ifindex}, tw_clsact := tw_clsact w - {ifindex}\<rparr>
      else w)"

definition AttachTcProgram :: "tc_env \<Rightarrow> u32 \<Rightarrow> tc_point \<Rightarrow> tc_world \<Rightarrow> bool \<times> tc_world" where
  "AttachTcProgram env ifindex point w =
     (let err = te_hook_create env ifindex point;
          w1 = (if err = 0 then w\<lparr>tw_clsact := insert ifindex (tw_clsact w)\<rparr> else w)
      in if err \<noteq> 0 \<and> err \<noteq> - EEXIST then (False, w1)
         else let w2 = bpf_tc_detach_filter ifindex point w1
              in if te_attach env ifindex point \<noteq> 0 then (False, w2)
                 else (True, w2\<lparr>tw_filters := insert (ifindex, point) (tw_filters w2)\<rparr>))"

definition DetachTcProgram :: "u32 \<Rightarrow> tc_point \<Rightarrow> tc_world \<Rightarrow> tc_world" where
  "DetachTcProgram ifindex point w = bpf_tc_detach_filter ifindex point w"

fun attach_all :: "tc_env \<Rightarrow> u32 list \<Rightarrow> NetEbpfMonitor \<times> tc_world \<Rightarrow> NetEbpfMonitor \<times> tc_world" where
  "attach_all env [] s = s"
| "attach_all env (ifindex # rest) (m, w) =
     (let (ingress_ok, w1) = AttachTcProgram env ifindex BPF_TC_INGRESS w;
          (egress_ok, w2) = AttachTcProgram env ifindex BPF_TC_EGRESS w1
      in if \<not> ingress_ok \<or> \<not> egress_ok
         then attach_all env rest
           (m, DestroyClsactQdisc env ifindex
                 (DetachTcProgram ifindex BPF_TC_EGRESS (DetachTcProgram ifindex BPF_TC_INGRESS w2)))
         else attach_all env rest
           (m\<lparr>nm_attached_ifindexes := nm_attached_ifindexes m @ [ifindex]\<rparr>, w2))"

fun detach_all :: "tc_env \<Rightarrow> u32 list \<Rightarrow> tc_world \<Rightarrow> tc_world" where
  "detach_all env [] w = w"
| "detach_all env (ifindex # rest) w =
     detach_all env rest
       (DestroyClsactQdisc env ifindex
          (DetachTcProgram ifindex BPF_TC_EGRESS (DetachTcProgram ifindex BPF_TC_INGRESS w)))"

definition CleanupEbpf :: "tc_env \<Rightarrow> NetEbpfMonitor \<times> tc_world \<Rightarrow> NetEbpfMonitor \<times> tc_world" where
  "CleanupEbpf env s =
     (let (m, w) = s;
          m1 = (if nm_send_probe_link m then m\<lparr>nm_send_probe_link := False\<rparr> else m);
          m2 = (if nm_recv_probe_link m1 then m1\<lparr>nm_recv_probe_link := False\<rparr> else m1);
          w1 = detach_all env (nm_attached_ifindexes m2) w;
          m3 = m2\<lparr>nm_attached_ifindexes := []\<rparr>;
          m4 = (if nm_skel m3 then m3\<lparr>nm_skel := False\<rparr> else m3)
      in (m4\<lparr>nm_map_fd := - 1, nm_proc_map_fd := - 1, nm_num_possible_cpus := 0,
             nm_percpu_buf := 0, nm_loaded := False, nm_cache := Map.empty,
             nm_ifname_cache := Map.empty, nm_proc_cache := Map.empty\<rparr>, w1))"

definition AttachProcessProbes :: "tc_env \<Rightarrow> NetEbpfMonitor \<Rightarrow> bool \<times> NetEbpfMonitor" where
  "AttachProcessProbes env m =
     (if te_send_probe_err env \<noteq> 0 then (False, m\<lparr>nm_send_probe_link := False\<rparr>)
      else let m1 = m\<lparr>nm_send_probe_link := True\<rparr>
           in if te_recv_probe_err env \<noteq> 0
              then (False, m1\<lparr>nm_send_probe_link := False, nm_recv_probe_link := False\<rparr>)
              else (True, m1\<lparr>nm_recv_probe_link := True\<rparr>))"

definition InitEbpf :: "tc_env \<Rightarrow> NetEbpfMonitor \<times> tc_world \<Rightarrow> bool \<times> NetEbpfMonitor \<times> tc_world" where
  "InitEbpf env s =
     (let (m, w) = s; m1 = m\<lparr>nm_skel := te_skel_open env\<rparr>
      in if \<not> nm_skel m1 then (False, m1, w)
         else if te_skel_load env \<noteq> 0 then (False, CleanupEbpf env (m1, w))
         else let m2 = m1\<lparr>nm_map_fd := te_map_fd env\<rparr>
         in if nm_map_fd m2 < 0 then (False, CleanupEbpf env (m2, w))
         else let m3 = m2\<lparr>nm_proc_map_fd := te_proc_map_fd env\<rparr>
         in if nm_proc_map_fd m3 < 0 then (False, CleanupEbpf env (m3, w))
         else let m4 = m3\<lparr>nm_num_possible_cpus := te_num_possible_cpus env\<rparr>
         in if nm_num_possible_cpus m4 \<le> 0 then (False, CleanupEbpf env (m4, w))
         else let m5 = m4\<lparr>nm_percpu_buf := nat (nm_num_possible_cpus m4) * kPerCpuValueSize\<rparr>;
                  (m6, w6) = attach_all env (GetAllIfIndexes env) (m5, w)
         in if nm_attached_ifindexes m6 = [] then (False, CleanupEbpf env (m6, w6))
         else (True, snd (AttachProcessProbes env m6), w6))"

text \<open>The constructor stores the result in \<^verbatim>\<open>loaded_\<close>.\<close>

definition NetEbpfMonitor_new :: "tc_env \<Rightarrow> tc_world \<Rightarrow> NetEbpfMonitor \<times> tc_world" where
  "NetEbpfMonitor_new env w =
     (let (ok, m, w1) = InitEbpf env (NetEbpfMonitor0, w) in (m\<lparr>nm_loaded := ok\<rparr>, w1))"

lemma DestroyClsact_filters:
  "tw_filters (DestroyClsactQdisc env i
     (DetachTcProgram i BPF_TC_EGRESS (DetachTcProgram i BPF_TC_INGRESS w))) =
   {f \<in> tw_filters w. fst f \<noteq> i}"
proof -
  have "(i, p) = (i, BPF_TC_INGRESS) \<or> (i, p) = (i, BPF_TC_EGRESS)" for p by (cases p) auto
  then show ?thesis
    by (auto simp: DestroyClsactQdisc_def DetachTcProgram_def bpf_tc_detach_filter_def)
qed

lemma detach_all_filters:
  "tw_filters (detach_all env is w) = {f \<in> tw_filters w. fst f \<notin> set is}"
  by (induction env "is" w rule: detach_all.induct) (auto simp: DestroyClsact_filters)

lemma Attach_filters:
  assumes "AttachTcProgram env i p w = (ok, w')"
  shows "tw_filters w' - {(i, p)} = tw_filters w - {(i, p)} \<and> (ok \<longrightarrow> (i, p) \<in> tw_filters w')"
  using assms
  by (auto simp: AttachTcProgram_def bpf_tc_detach_filter_def Let_def split: if_splits)

lemma point_pair: "f = (i, BPF_TC_INGRESS) \<or> f = (i, BPF_TC_EGRESS) \<or> fst f \<noteq> i"
  by (cases f, cases "snd f") auto

text \<open>What attaching to one interface does: both filters are there, or none is left.\<close>

lemma attach_one:
  assumes "AttachTcProgram env i BPF_TC_INGRESS w = (ok1, w1)"
    and "AttachTcProgram env i BPF_TC_EGRESS w1 = (ok2, w2)"
  shows "{f \<in> tw_filters w2. fst f \<noteq> i} = {f \<in> tw_filters w. fst f \<noteq> i}"
    and "ok1 \<Longrightarrow> ok2 \<Longrightarrow> (i, p) \<in> tw_filters w2"
proof -
  note f = Attach_filters [OF assms(1)] Attach_filters [OF assms(2)]
  then show "{f \<in> tw_filters w2. fst f \<noteq> i} = {f \<in> tw_filters w. fst f \<noteq> i}" by force
  show "(i, p) \<in> tw_filters w2" if ok1 ok2
    using f that by (cases p) (force, force)
qed

definition only_attached :: "(u32 \<times> tc_point) set \<Rightarrow> NetEbpfMonitor \<Rightarrow> tc_world \<Rightarrow> bool" where
  "only_attached base m w \<longleftrightarrow>
     tw_filters w \<subseteq> base \<union> {f. fst f \<in> set (nm_attached_ifindexes m)}"

definition all_attached :: "NetEbpfMonitor \<Rightarrow> tc_world \<Rightarrow> bool" where
  "all_attached m w \<longleftrightarrow> (\<forall>i \<in> set (nm_attached_ifindexes m). \<forall>p. (i, p) \<in> tw_filters w)"

lemma attach_all_only:
  "attach_all env is (m, w) = (m', w') \<Longrightarrow> only_attached base m w \<Longrightarrow>
   only_attached base m' w' \<and> (\<exists>js. m' = m\<lparr>nm_attached_ifindexes := js\<rparr>)"
proof (induction "is" arbitrary: m w)
  case Nil
  then show ?case by (cases m) auto
next
  case (Cons i rest)
  obtain ok1 w1 where a1: "AttachTcProgram env i BPF_TC_INGRESS w = (ok1, w1)" by fastforce
  obtain ok2 w2 where a2: "AttachTcProgram env i BPF_TC_EGRESS w1 = (ok2, w2)" by fastforce
  note same = attach_one(1) [OF a1 a2]
  show ?case
  proof (cases "ok1 \<and> ok2")
    case True
    let ?m = "m\<lparr>nm_attached_ifindexes := nm_attached_ifindexes m @ [i]\<rparr>"
    from same Cons.prems(2) have "only_attached base ?m w2"
      unfolding only_attached_def by auto
    with Cons.IH [of ?m w2] Cons.prems(1) True a1 a2 show ?thesis by auto
  next
    case False
    let ?w = "DestroyClsactQdisc env i
      (DetachTcProgram i BPF_TC_EGRESS (DetachTcProgram i BPF_TC_INGRESS w2))"
    from same Cons.prems(2) have "only_attached base m ?w"
      unfolding only_attached_def DestroyClsact_filters by auto
    with Cons.IH [of m ?w] Cons.prems(1) False a1 a2 show ?thesis by auto
  qed
qed

lemma attach_all_all:
  "attach_all env is (m, w) = (m', w') \<Longrightarrow> distinct is \<Longrightarrow>
   set is \<inter> set (nm_attached_ifindexes m) = {} \<Longrightarrow> all_attached m w \<Longrightarrow> all_attached m' w'"
proof (induction "is" arbitrary: m w)
  case (Cons i rest)
  obtain ok1 w1 where a1: "AttachTcProgram env i BPF_TC_INGRESS w = (ok1, w1)" by fastforce
  obtain ok2 w2 where a2: "AttachTcProgram env i BPF_TC_EGRESS w1 = (ok2, w2)" by fastforce
  have same: "j \<noteq> i \<Longrightarrow> (j, p) \<in> tw_filters w2 \<longleftrightarrow> (j, p) \<in> tw_filters w" for j p
    using attach_one(1) [OF a1 a2] by (auto simp: set_eq_iff)
  show ?case
  proof (cases "ok1 \<and> ok2")
    case True
    let ?m = "m\<lparr>nm_attached_ifindexes := nm_attached_ifindexes m @ [i]\<rparr>"
    have "all_attached ?m w2"
      unfolding all_attached_def
    proof (intro ballI allI)
      fix j p
      assume "j \<in> set (nm_attached_ifindexes ?m)"
      with same [of j p] Cons.prems(4) attach_one(2) [OF a1 a2, of p] True
      show "(j, p) \<in> tw_filters w2" by (cases "j = i") (auto simp: all_attached_def)
    qed
    with Cons.IH [of ?m w2] Cons.prems True a1 a2 show ?thesis by auto
  next
    case False
    let ?w = "DestroyClsactQdisc env i
      (DetachTcProgram i BPF_TC_EGRESS (DetachTcProgram i BPF_TC_INGRESS w2))"
    have "all_attached m ?w"
      unfolding all_attached_def DestroyClsact_filters
    proof (intro ballI allI)
      fix j p
      assume j: "j \<in> set (nm_attached_ifindexes m)"
      with Cons.prems(3) have "j \<noteq> i" by auto
      with j same [of j p] Cons.prems(4) show "(j, p) \<in> {f \<in> tw_filters w2. fst f \<noteq> i}"
        by (auto simp: all_attached_def)
    qed
    with Cons.IH [of m ?w] Cons.prems False a1 a2 show ?thesis by auto
  qed
qed simp_all

lemma Cleanup_result:
  "fst (CleanupEbpf env (m, w)) = NetEbpfMonitor0"
  "tw_filters (snd (CleanupEbpf env (m, w))) =
     {f \<in> tw_filters w. fst f \<notin> set (nm_attached_ifindexes m)}"
  by (cases m; simp add: CleanupEbpf_def NetEbpfMonitor0_def Let_def detach_all_filters)+

lemma Cleanup_pair:
  assumes "CleanupEbpf env (m, w) = (m', w')" and "only_attached base m w"
  shows "m' = NetEbpfMonitor0 \<and> tw_filters w' \<subseteq> base"
  using assms Cleanup_result [of env m w] by (auto simp: only_attached_def)

lemma only_attached_start: "only_attached (tw_filters w) (m\<lparr>nm_attached_ifindexes := js\<rparr>) w"
  by (auto simp: only_attached_def)

lemma InitEbpf_false:
  assumes "InitEbpf env (NetEbpfMonitor0, w) = (False, m, w')"
  shows "m = NetEbpfMonitor0 \<and> tw_filters w' \<subseteq> tw_filters w"
proof -
  obtain m6 w6 where a: "attach_all env (GetAllIfIndexes env)
    (NetEbpfMonitor0\<lparr>nm_skel := True, nm_map_fd := te_map_fd env,
       nm_proc_map_fd := te_proc_map_fd env, nm_num_possible_cpus := te_num_possible_cpus env,
       nm_percpu_buf := nat (te_num_possible_cpus env) * kPerCpuValueSize\<rparr>, w) = (m6, w6)"
    by fastforce
  have o: "only_attached (tw_filters w) n w" for n by (auto simp: only_attached_def)
  from attach_all_only [OF a o] have o6: "only_attached (tw_filters w) m6 w6" by simp
  show ?thesis
  proof (cases "te_skel_open env")
    case True
    with assms a have "\<exists>n v. CleanupEbpf env (n, v) = (m, w') \<and> (v = w \<or> (n, v) = (m6, w6))"
      by (simp add: InitEbpf_def Let_def split: if_splits) blast+
    with o o6 Cleanup_pair show ?thesis by blast
  next
    case False
    with assms show ?thesis
      by (auto simp: InitEbpf_def NetEbpfMonitor0_def Let_def)
  qed
qed

lemma InitEbpf_true:
  assumes "InitEbpf env (NetEbpfMonitor0, w) = (True, m, w')"
  shows "only_attached (tw_filters w) m w' \<and> nm_attached_ifindexes m \<noteq> [] \<and>
    (distinct (GetAllIfIndexes env) \<longrightarrow> all_attached m w')"
proof -
  let ?m = "NetEbpfMonitor0\<lparr>nm_skel := True, nm_map_fd := te_map_fd env,
       nm_proc_map_fd := te_proc_map_fd env, nm_num_possible_cpus := te_num_possible_cpus env,
       nm_percpu_buf := nat (te_num_possible_cpus env) * kPerCpuValueSize\<rparr>"
  obtain m6 w6 where a: "attach_all env (GetAllIfIndexes env) (?m, w) = (m6, w6)" by fastforce
  have o: "only_attached (tw_filters w) ?m w" and e: "nm_attached_ifindexes ?m = []"
    by (auto simp: only_attached_def NetEbpfMonitor0_def)
  have "te_skel_open env" using assms by (auto simp: InitEbpf_def Let_def split: if_splits)
  with assms a have m: "m = snd (AttachProcessProbes env m6)" "w' = w6"
      "nm_attached_ifindexes m6 \<noteq> []"
    by (auto simp: InitEbpf_def Let_def split: if_splits)
  then have "nm_attached_ifindexes m = nm_attached_ifindexes m6"
    by (simp add: AttachProcessProbes_def Let_def)
  moreover have "only_attached (tw_filters w) m6 w6" using attach_all_only [OF a o] by simp
  moreover have "distinct (GetAllIfIndexes env) \<Longrightarrow> all_attached m6 w6"
    using attach_all_all [OF a] e by (simp add: all_attached_def)
  ultimately show ?thesis using m by (auto simp: only_attached_def all_attached_def)
qed

section \<open>Reading a per-CPU map\<close>

text \<open>
  The traversal with \<^verbatim>\<open>bpf_map_get_next_key\<close>: \<open>g\<close> is the system call (\<open>None\<close> asks for the first
  key, the result \<open>None\<close> is the error at the end). The loop is bounded by fuel; \<open>None\<close> means
  that it was used up.
\<close>

fun traverse :: "(u32 option \<Rightarrow> u32 option) \<Rightarrow> nat \<Rightarrow> u32 option \<Rightarrow> u32 list option" where
  "traverse g 0 current_key = None"
| "traverse g (Suc fuel) current_key =
     (case g current_key of
        None \<Rightarrow> Some []
      | Some next_key \<Rightarrow> map_option ((#) next_key) (traverse g fuel (Some next_key)))"

text \<open>The kernel's answer over the keys \<open>ks\<close>: a key it does not find starts over.\<close>

fun after_key :: "u32 list \<Rightarrow> u32 \<Rightarrow> u32 option" where
  "after_key [] k = None"
| "after_key (x # xs) k = (if x = k then (case xs of [] \<Rightarrow> None | y # _ \<Rightarrow> Some y) else after_key xs k)"

definition get_next_key :: "u32 list \<Rightarrow> u32 option \<Rightarrow> u32 option" where
  "get_next_key ks cur =
     (let first = (case ks of [] \<Rightarrow> None | k # _ \<Rightarrow> Some k)
      in case cur of None \<Rightarrow> first | Some k \<Rightarrow> if k \<in> set ks then after_key ks k else first)"

lemma after_key_app: "distinct (xs @ k # ys) \<Longrightarrow>
    after_key (xs @ k # ys) k = (case ys of [] \<Rightarrow> None | y # _ \<Rightarrow> Some y)"
  by (induction xs) auto

lemma traverse_from:
  "distinct (xs @ k # ys) \<Longrightarrow> length ys < n \<Longrightarrow>
   traverse (get_next_key (xs @ k # ys)) n (Some k) = Some ys"
proof (induction ys arbitrary: xs k n)
  case Nil
  then show ?case using after_key_app [of xs k "[]"]
    by (cases n) (auto simp: get_next_key_def)
next
  case (Cons y ys)
  from Cons.IH [of "xs @ [k]" y "n - 1"] Cons.prems after_key_app [of xs k "y # ys"]
  show ?case by (cases n) (auto simp: get_next_key_def)
qed

lemma traverse_all:
  assumes "distinct ks" and "length ks < n"
  shows "traverse (get_next_key ks) n None = Some ks"
proof (cases ks)
  case Nil
  with assms show ?thesis by (cases n) (simp_all add: get_next_key_def)
next
  case (Cons k ys)
  with assms traverse_from [of "[]" k ys "n - 1"] show ?thesis
    by (cases n) (auto simp: get_next_key_def)
qed

text \<open>\<open>slots\<close> is what the system call copies for the key, one value per possible CPU.\<close>

definition LookupPerCpuValue :: "int \<Rightarrow> nat \<Rightarrow> 'v list option \<Rightarrow> 'v list option" where
  "LookupPerCpuValue fd percpu_buf slots =
     (if fd < 0 \<or> percpu_buf = 0 then None else slots)"

definition add_net_stats :: "net_stats \<Rightarrow> net_stats \<Rightarrow> net_stats" where
  "add_net_stats s slot = s
     \<lparr>rcv_bytes := rcv_bytes s + rcv_bytes slot, rcv_packets := rcv_packets s + rcv_packets slot,
      snd_bytes := snd_bytes s + snd_bytes slot, snd_packets := snd_packets s + snd_packets slot\<rparr>"

definition merge_net_slots :: "int \<Rightarrow> net_stats list \<Rightarrow> net_stats" where
  "merge_net_slots num_possible_cpus slots =
     fold (\<lambda>cpu s. add_net_stats s (slots ! cpu)) [0..<nat num_possible_cpus] net_stats0"

text \<open>\<^verbatim>\<open>name = comm\<close> of a buffer with a NUL after the 16 bytes.\<close>

definition c_string :: "string \<Rightarrow> string" where
  "c_string s = takeWhile (\<lambda>c. c \<noteq> CHR 0x00) s"

definition merge_proc_slot :: "proc_net_stats \<Rightarrow> u64 \<times> u64 \<times> string \<Rightarrow> u64 \<times> u64 \<times> string" where
  "merge_proc_slot slot = (\<lambda>(sent, rcvd, name).
     (sent + ps_snd_bytes slot, rcvd + ps_rcv_bytes slot,
      if name = [] \<and> ps_comm slot ! 0 \<noteq> CHR 0x00 then c_string (ps_comm slot) else name))"

definition merge_proc_slots :: "int \<Rightarrow> proc_net_stats list \<Rightarrow> u64 \<times> u64 \<times> string" where
  "merge_proc_slots num_possible_cpus slots =
     fold (\<lambda>cpu. merge_proc_slot (slots ! cpu)) [0..<nat num_possible_cpus] (0, 0, [])"

section \<open>A round\<close>

definition counter_delta :: "u64 \<Rightarrow> u64 \<Rightarrow> u64" where
  "counter_delta current prev = (if current \<ge> prev then current - prev else current)"

text \<open>Bytes over seconds, in KiB per second.\<close>

definition kib_rate :: "nat \<Rightarrow> rat \<Rightarrow> rat" where
  "kib_rate bytes elapsed = of_nat bytes / 1024 / elapsed"

definition count_rate :: "nat \<Rightarrow> rat \<Rightarrow> rat" where
  "count_rate n elapsed = of_nat n / elapsed"

lemma kib_rate_nonneg: "0 < elapsed \<Longrightarrow> 0 \<le> kib_rate bytes elapsed"
  by (simp add: kib_rate_def)

record NetInfoMsg =
  ni_name :: string
  ni_send_rate :: rat
  ni_rcv_rate :: rat
  ni_send_packets_rate :: rat
  ni_rcv_packets_rate :: rat

record round_env =
  re_now :: rat
  re_net_keys :: "u32 list"
  re_net_slots :: "u32 \<Rightarrow> net_stats list option"
  re_if_indextoname :: "u32 \<Rightarrow> string option"
  re_lstat_ok :: "string \<Rightarrow> bool"
  re_proc_now :: rat
  re_proc_keys :: "u32 list"
  re_proc_slots :: "u32 \<Rightarrow> proc_net_stats list option"
  re_no_such_process :: "u32 \<Rightarrow> bool"

definition GetIfName :: "round_env \<Rightarrow> u32 \<Rightarrow> NetEbpfMonitor \<Rightarrow> string \<times> NetEbpfMonitor" where
  "GetIfName env ifindex m =
     (case nm_ifname_cache m ifindex of
        Some name \<Rightarrow> (name, m)
      | None \<Rightarrow> (case re_if_indextoname env ifindex of
                    None \<Rightarrow> ([], m)
                  | Some name \<Rightarrow>
                      (name, m\<lparr>nm_ifname_cache := (nm_ifname_cache m)(ifindex \<mapsto> name)\<rparr>)))"

definition net_rates :: "net_stats \<Rightarrow> NetStatCache \<Rightarrow> rat \<Rightarrow> NetInfoMsg \<Rightarrow> NetInfoMsg" where
  "net_rates stats prev now msg =
     (let elapsed = now - nc_timestamp prev
      in if elapsed > 0
         then msg\<lparr>
           ni_rcv_rate := kib_rate (unat (counter_delta (rcv_bytes stats) (nc_rcv_bytes prev))) elapsed,
           ni_send_rate := kib_rate (unat (counter_delta (snd_bytes stats) (nc_snd_bytes prev))) elapsed,
           ni_rcv_packets_rate := count_rate (unat (counter_delta (rcv_packets stats) (nc_rcv_packets prev))) elapsed,
           ni_send_packets_rate := count_rate (unat (counter_delta (snd_packets stats) (nc_snd_packets prev))) elapsed\<rparr>
         else msg)"

definition net_update_key :: "round_env \<Rightarrow> u32 \<Rightarrow> NetInfoMsg list \<times> NetEbpfMonitor \<Rightarrow>
    NetInfoMsg list \<times> NetEbpfMonitor" where
  "net_update_key env key s =
     (let (msgs, m) = s
      in case LookupPerCpuValue (nm_map_fd m) (nm_percpu_buf m) (re_net_slots env key) of
           None \<Rightarrow> (msgs, m)
         | Some slots \<Rightarrow>
             let stats = merge_net_slots (nm_num_possible_cpus m) slots;
                 (ifname, m1) = GetIfName env key m
             in if ifname = [] \<or> \<not> IsPhysicalInterface (re_lstat_ok env) ifname then (msgs, m1)
                else let msg = \<lparr>ni_name = ifname, ni_send_rate = 0, ni_rcv_rate = 0,
                                ni_send_packets_rate = 0, ni_rcv_packets_rate = 0\<rparr>;
                         msg' = (case nm_cache m1 key of None \<Rightarrow> msg
                                 | Some prev \<Rightarrow> net_rates stats prev (re_now env) msg)
                     in (msgs @ [msg'],
                         m1\<lparr>nm_cache := (nm_cache m1)(key \<mapsto>
                           \<lparr>nc_rcv_bytes = rcv_bytes stats, nc_rcv_packets = rcv_packets stats,
                            nc_snd_bytes = snd_bytes stats, nc_snd_packets = snd_packets stats,
                            nc_timestamp = re_now env\<rparr>)\<rparr>))"

record ProcessNetInfoMsg =
  pn_pid :: u32
  pn_name :: string
  pn_send_rate :: rat
  pn_rcv_rate :: rat
  pn_total_rate :: rat
  pn_share_percent :: rat

record proc_acc =
  pa_rates :: "ProcRate list"
  pa_dead :: "u32 list"
  pa_total :: rat
  pa_cache :: "u32 \<rightharpoonup> ProcStatCache"

text \<open>A live process: its totals against the cached ones.\<close>

definition proc_live :: "rat \<Rightarrow> u32 \<Rightarrow> u64 \<Rightarrow> u64 \<Rightarrow> string \<Rightarrow> proc_acc \<Rightarrow> proc_acc" where
  "proc_live now key sent rcvd name a =
     (let cur = \<lparr>pc_snd_bytes = sent, pc_rcv_bytes = rcvd, pc_timestamp = now\<rparr>;
          name' = (if name = [] then ''unknown'' else name)
      in case pa_cache a key of
           None \<Rightarrow> a\<lparr>pa_cache := (pa_cache a)(key \<mapsto> cur)\<rparr>
         | Some prev \<Rightarrow>
             (let elapsed = now - pc_timestamp prev
              in if elapsed \<le> 0 then a
                 else let snd_rate = kib_rate (unat (counter_delta sent (pc_snd_bytes prev))) elapsed;
                          rcv_rate = kib_rate (unat (counter_delta rcvd (pc_rcv_bytes prev))) elapsed;
                          rate = \<lparr>pr_pid = key, pr_name = name',
                                  pr_snd_rate = snd_rate, pr_rcv_rate = rcv_rate\<rparr>
                      in a\<lparr>pa_rates := pa_rates a @ [rate],
                           pa_total := pa_total a + (snd_rate + rcv_rate),
                           pa_cache := (pa_cache a)(key \<mapsto> cur)\<rparr>))"

definition proc_key :: "round_env \<Rightarrow> NetEbpfMonitor \<Rightarrow> u32 \<Rightarrow> proc_acc \<Rightarrow> proc_acc" where
  "proc_key env m key a =
     (case LookupPerCpuValue (nm_proc_map_fd m) (nm_percpu_buf m) (re_proc_slots env key) of
        None \<Rightarrow> a
      | Some slots \<Rightarrow>
          (case merge_proc_slots (nm_num_possible_cpus m) slots of
             (sent, rcvd, name) \<Rightarrow>
               if re_no_such_process env key
               then a\<lparr>pa_dead := pa_dead a @ [key], pa_cache := (pa_cache a)(key := None)\<rparr>
               else proc_live (re_proc_now env) key sent rcvd name a))"

definition kTopProcessCount :: nat where "kTopProcessCount = 10"

definition rate_sum :: "ProcRate \<Rightarrow> rat" where
  "rate_sum r = pr_snd_rate r + pr_rcv_rate r"

definition proc_msg :: "rat \<Rightarrow> ProcRate \<Rightarrow> ProcessNetInfoMsg" where
  "proc_msg total_rate rate =
     (let tot = pr_snd_rate rate + pr_rcv_rate rate
      in \<lparr>pn_pid = pr_pid rate, pn_name = pr_name rate, pn_send_rate = pr_snd_rate rate,
          pn_rcv_rate = pr_rcv_rate rate, pn_total_rate = tot,
          pn_share_percent = (if total_rate > 0 then tot / total_rate * 100 else 0)\<rparr>)"

text \<open>The result: the processes reported, the pids deleted from the map after the traversal and
  the monitor. Equal rates keep the order of the traversal.\<close>

definition CollectProcessStats :: "round_env \<Rightarrow> NetEbpfMonitor \<Rightarrow>
    ProcessNetInfoMsg list \<times> u32 list \<times> NetEbpfMonitor" where
  "CollectProcessStats env m =
     (if nm_proc_map_fd m < 0 \<or> nm_num_possible_cpus m \<le> 0 then ([], [], m)
      else let a = fold (proc_key env m) (re_proc_keys env)
                     \<lparr>pa_rates = [], pa_dead = [], pa_total = 0, pa_cache = nm_proc_cache m\<rparr>;
               m1 = m\<lparr>nm_proc_cache := pa_cache a\<rparr>
           in if pa_rates a = [] then ([], pa_dead a, m1)
              else let sorted_rates = sort_key (\<lambda>r. - rate_sum r) (pa_rates a)
                   in (map (proc_msg (pa_total a))
                         (take (min (length sorted_rates) kTopProcessCount) sorted_rates),
                       pa_dead a, m1))"

definition net_monitor_UpdateOnce :: "round_env \<Rightarrow> NetEbpfMonitor \<Rightarrow>
    NetInfoMsg list \<times> ProcessNetInfoMsg list \<times> u32 list \<times> NetEbpfMonitor" where
  "net_monitor_UpdateOnce env m =
     (if \<not> nm_loaded m \<or> nm_map_fd m < 0 then ([], [], [], m)
      else let (msgs, m1) = fold (net_update_key env) (re_net_keys env) ([], m)
           in (msgs, CollectProcessStats env m1))"

section \<open>The processes of a round\<close>

definition proc_acc_ok :: "round_env \<Rightarrow> u32 set \<Rightarrow> proc_acc \<Rightarrow> bool" where
  "proc_acc_ok env ks a \<longleftrightarrow> pa_total a = (\<Sum>r\<leftarrow>pa_rates a. rate_sum r) \<and>
     (\<forall>r \<in> set (pa_rates a). 0 \<le> rate_sum r \<and> pr_pid r \<in> ks \<and> \<not> re_no_such_process env (pr_pid r)) \<and>
     (\<forall>k \<in> set (pa_dead a). re_no_such_process env k \<and> pa_cache a k = None)"

lemma proc_live_ok:
  assumes "proc_acc_ok env ks a" and "key \<in> ks" and "\<not> re_no_such_process env key"
  shows "proc_acc_ok env ks (proc_live now key sent rcvd name a)"
  using assms
  by (auto simp: proc_acc_ok_def proc_live_def rate_sum_def Let_def
      intro!: add_nonneg_nonneg kib_rate_nonneg split: option.splits)

lemma proc_key_ok:
  "proc_acc_ok env ks a \<Longrightarrow> key \<in> ks \<Longrightarrow> proc_acc_ok env ks (proc_key env m key a)"
  by (auto simp: proc_key_def intro: proc_live_ok split: option.splits prod.splits)
    (auto simp: proc_acc_ok_def)

lemma proc_keys_ok:
  "proc_acc_ok env ks a \<Longrightarrow> set keys \<subseteq> ks \<Longrightarrow> proc_acc_ok env ks (fold (proc_key env m) keys a)"
  by (induction keys arbitrary: a) (auto intro: proc_key_ok)

definition proc_round :: "round_env \<Rightarrow> NetEbpfMonitor \<Rightarrow> proc_acc" where
  "proc_round env m = fold (proc_key env m) (re_proc_keys env)
     \<lparr>pa_rates = [], pa_dead = [], pa_total = 0, pa_cache = nm_proc_cache m\<rparr>"

lemma proc_round_ok: "proc_acc_ok env (set (re_proc_keys env)) (proc_round env m)"
  unfolding proc_round_def by (rule proc_keys_ok) (simp_all add: proc_acc_ok_def)

lemma Collect_active:
  assumes "\<not> (nm_proc_map_fd m < 0 \<or> nm_num_possible_cpus m \<le> 0)"
  shows "CollectProcessStats env m =
    (map (proc_msg (pa_total (proc_round env m)))
       (take 10 (sort_key (\<lambda>r. - rate_sum r) (pa_rates (proc_round env m)))),
     pa_dead (proc_round env m), m\<lparr>nm_proc_cache := pa_cache (proc_round env m)\<rparr>)"
  using assms
  by (auto simp: CollectProcessStats_def proc_round_def [symmetric] Let_def kTopProcessCount_def
      min_def)

lemma sum_list_take_le:
  fixes xs :: "rat list"
  assumes "\<And>x. x \<in> set xs \<Longrightarrow> 0 \<le> x"
  shows "sum_list (take n xs) \<le> sum_list xs"
proof -
  have "0 \<le> sum_list (drop n xs)" using assms by (intro sum_list_nonneg) (auto dest: in_set_dropD)
  then show ?thesis by (metis add_increasing2 append_take_drop_id order_refl sum_list_append)
qed

lemma shares_le_100:
  assumes nn: "\<And>r. r \<in> set rs \<Longrightarrow> 0 \<le> rate_sum r" and t: "t = (\<Sum>r\<leftarrow>rs. rate_sum r)"
  shows "(\<Sum>p\<leftarrow>map (proc_msg t) (take n rs). pn_share_percent p) \<le> 100"
    and "r \<in> set rs \<Longrightarrow> 0 \<le> pn_share_percent (proc_msg t r) \<and> pn_share_percent (proc_msg t r) \<le> 100"
proof -
  let ?f = "\<lambda>r. if t > 0 then rate_sum r * (100 / t) else 0"
  have f: "pn_share_percent (proc_msg t r) = ?f r" for r
    by (simp add: proc_msg_def rate_sum_def Let_def)
  have part: "(\<Sum>r\<leftarrow>take n rs. rate_sum r) \<le> t"
    using sum_list_take_le [of "map rate_sum rs" n] nn by (auto simp: t take_map)
  have "(\<Sum>r\<leftarrow>take n rs. ?f r) = (if t > 0 then (\<Sum>r\<leftarrow>take n rs. rate_sum r) * (100 / t) else 0)"
    using sum_list_mult_const [of rate_sum "100 / t" "take n rs"] by simp
  also have "\<dots> \<le> 100" using part by (auto simp: divide_le_eq)
  finally show "(\<Sum>p\<leftarrow>map (proc_msg t) (take n rs). pn_share_percent p) \<le> 100"
    by (simp add: f comp_def)
  show "0 \<le> pn_share_percent (proc_msg t r) \<and> pn_share_percent (proc_msg t r) \<le> 100"
    if "r \<in> set rs"
  proof -
    have "rate_sum r \<le> t" using that nn unfolding t by (intro member_le_sum_list) auto
    with nn [OF that] show ?thesis by (auto simp: f divide_le_eq)
  qed
qed

lemma sorted_rates_split:
  assumes "s = sort_key (\<lambda>r. - rate_sum r) rs"
  shows "sorted_wrt (\<lambda>a b. rate_sum b \<le> rate_sum a) s"
    and "a \<in> set (take n s) \<Longrightarrow> b \<in> set (drop n s) \<Longrightarrow> rate_sum b \<le> rate_sum a"
proof -
  show sw: "sorted_wrt (\<lambda>a b. rate_sum b \<le> rate_sum a) s"
    using sorted_sort_key [of "\<lambda>r. - rate_sum r" rs] by (simp add: assms sorted_wrt_map)
  then show "a \<in> set (take n s) \<Longrightarrow> b \<in> set (drop n s) \<Longrightarrow> rate_sum b \<le> rate_sum a"
    by (metis append_take_drop_id sorted_wrt_append)
qed

section \<open>Merging the slots\<close>

lemma merge_net_fold:
  "fold (\<lambda>c s. add_net_stats s (f c)) [0..<n] net_stats0 =
     \<lparr>rcv_bytes = (\<Sum>c<n. rcv_bytes (f c)), rcv_packets = (\<Sum>c<n. rcv_packets (f c)),
      snd_bytes = (\<Sum>c<n. snd_bytes (f c)), snd_packets = (\<Sum>c<n. snd_packets (f c))\<rparr>"
  by (induction n) (simp_all add: net_stats0_def add_net_stats_def)

lemma merge_net_slots_map:
  "merge_net_slots (int n) (map f [0..<n]) =
     \<lparr>rcv_bytes = (\<Sum>c<n. rcv_bytes (f c)), rcv_packets = (\<Sum>c<n. rcv_packets (f c)),
      snd_bytes = (\<Sum>c<n. snd_bytes (f c)), snd_packets = (\<Sum>c<n. snd_packets (f c))\<rparr>"
proof -
  have "merge_net_slots (int n) (map f [0..<n]) =
      fold (\<lambda>c s. add_net_stats s (f c)) [0..<n] net_stats0"
    unfolding merge_net_slots_def by (rule fold_cong) simp_all
  then show ?thesis by (simp add: merge_net_fold)
qed

text \<open>The bytes and packets of a log for an interface and a direction.\<close>

definition log_bytes :: "u32 \<Rightarrow> bool \<Rightarrow> packet list \<Rightarrow> nat" where
  "log_bytes k rx ps = (\<Sum>p\<leftarrow>filter (\<lambda>p. pk_ifindex p = k \<and> pk_rx p = rx) ps. unat (pk_len p))"

definition log_packets :: "u32 \<Rightarrow> bool \<Rightarrow> packet list \<Rightarrow> nat" where
  "log_packets k rx ps = length (filter (\<lambda>p. pk_ifindex p = k \<and> pk_rx p = rx) ps)"

lemma log_simps [simp]:
  "log_bytes k rx [] = 0" "log_packets k rx [] = 0"
  "log_bytes k rx (p # ps) =
     (if pk_ifindex p = k \<and> pk_rx p = rx then unat (pk_len p) else 0) + log_bytes k rx ps"
  "log_packets k rx (p # ps) =
     (if pk_ifindex p = k \<and> pk_rx p = rx then 1 else 0) + log_packets k rx ps"
  by (simp_all add: log_bytes_def log_packets_def)

lemma log_append [simp]:
  "log_bytes k rx (ps @ qs) = log_bytes k rx ps + log_bytes k rx qs"
  "log_packets k rx (ps @ qs) = log_packets k rx ps + log_packets k rx qs"
  by (simp_all add: log_bytes_def log_packets_def)

lemma sum_bump:
  fixes f :: "nat \<Rightarrow> u64"
  assumes "j < n"
  shows "(\<Sum>c<n. if j = c then f c + v else f c) = (\<Sum>c<n. f c) + v"
proof -
  have "(\<Sum>c<n. if j = c then f c + v else f c) = (\<Sum>c<n. f c + (if j = c then v else 0))"
    by (rule sum.cong) auto
  also have "\<dots> = (\<Sum>c<n. f c) + v" using assms by (simp add: sum.distrib)
  finally show ?thesis .
qed

lemma ucast_len: "(ucast (l :: u32) :: u64) = of_nat (unat l)"
  by simp

lemma tally_sums:
  assumes "\<forall>p \<in> set ps. pk_cpu p < n"
  shows "(\<Sum>c<n. rcv_bytes (tally ps c k)) = of_nat (log_bytes k True ps)"
    and "(\<Sum>c<n. snd_bytes (tally ps c k)) = of_nat (log_bytes k False ps)"
    and "(\<Sum>c<n. rcv_packets (tally ps c k)) = of_nat (log_packets k True ps)"
    and "(\<Sum>c<n. snd_packets (tally ps c k)) = of_nat (log_packets k False ps)"
  using assms
proof (induction ps)
  case Nil
  { case 1 show ?case by (simp add: net_stats0_def) }
  { case 2 show ?case by (simp add: net_stats0_def) }
  { case 3 show ?case by (simp add: net_stats0_def) }
  { case 4 show ?case by (simp add: net_stats0_def) }
next
  case (Cons p ps)
  have split: "g (tally (p # ps) c k) =
      (if pk_ifindex p = k then (if pk_cpu p = c then g (net_bump (pk_len p) (pk_rx p) (tally ps c k))
       else g (tally ps c k)) else g (tally ps c k))" for g :: "net_stats \<Rightarrow> u64" and c
    by simp
  have b: "rcv_bytes (net_bump l rx s) = rcv_bytes s + (if rx then ucast l else 0)"
    "snd_bytes (net_bump l rx s) = snd_bytes s + (if rx then 0 else ucast l)"
    "rcv_packets (net_bump l rx s) = rcv_packets s + (if rx then 1 else 0)"
    "snd_packets (net_bump l rx s) = snd_packets s + (if rx then 0 else 1)" for l rx s
    by (simp_all add: net_bump_def)
  { case 1 with Cons.IH(1) show ?case unfolding split b
      by (cases "pk_ifindex p = k"; cases "pk_rx p") (simp_all add: sum_bump) }
  { case 2 with Cons.IH(2) show ?case unfolding split b
      by (cases "pk_ifindex p = k"; cases "pk_rx p") (simp_all add: sum_bump) }
  { case 3 with Cons.IH(3) show ?case unfolding split b
      by (cases "pk_ifindex p = k"; cases "pk_rx p") (simp_all add: sum_bump) }
  { case 4 with Cons.IH(4) show ?case unfolding split b
      by (cases "pk_ifindex p = k"; cases "pk_rx p") (simp_all add: sum_bump) }
qed

definition log_stats :: "u32 \<Rightarrow> packet list \<Rightarrow> net_stats" where
  "log_stats k ps = \<lparr>rcv_bytes = of_nat (log_bytes k True ps),
     rcv_packets = of_nat (log_packets k True ps),
     snd_bytes = of_nat (log_bytes k False ps), snd_packets = of_nat (log_packets k False ps)\<rparr>"

lemma merge_tally:
  "\<forall>p \<in> set ps. pk_cpu p < n \<Longrightarrow>
   merge_net_slots (int n) (map (\<lambda>c. tally ps c k) [0..<n]) = log_stats k ps"
  by (simp only: merge_net_slots_map tally_sums log_stats_def)

lemma counter_delta_of_nat:
  assumes "a + b < 2 ^ 64"
  shows "unat (counter_delta (of_nat (a + b)) (of_nat b)) = a"
proof -
  from assms have u: "unat (of_nat (a + b) :: u64) = a + b" "unat (of_nat b :: u64) = b"
    by (simp_all add: unat_of_nat_small del: of_nat_add)
  then have "(of_nat b :: u64) \<le> of_nat (a + b)" by (simp add: word_le_nat_alt del: of_nat_add)
  with u show ?thesis by (simp add: counter_delta_def unat_sub_le del: of_nat_add)
qed

section \<open>Properties\<close>


text \<open>C6: between two reads of an interface the monitor reports exactly the traffic that the TC
  hooks counted in between, over all CPUs: its bytes in KiB per second and its packets per
  second, in both directions.\<close>

theorem net_rate_counts_packets:
  assumes "nm_map_fd m \<ge> 0" and "nm_percpu_buf m > 0" and "nm_num_possible_cpus m = int n"
    and "nm_ifname_cache m k = Some name" and "name \<noteq> []"
    and "IsPhysicalInterface (re_lstat_ok env1) name" and "IsPhysicalInterface (re_lstat_ok env2) name"
    and "re_net_slots env1 k = Some (map (\<lambda>c. tally before c k) [0..<n])"
    and "re_net_slots env2 k = Some (map (\<lambda>c. tally (new @ before) c k) [0..<n])"
    and "\<forall>p \<in> set (new @ before). pk_cpu p < n"
    and "\<forall>rx. log_bytes k rx (new @ before) < 2 ^ 64 \<and> log_packets k rx (new @ before) < 2 ^ 64"
    and "elapsed = re_now env2 - re_now env1" and "elapsed > 0"
  shows "fst (net_update_key env2 k ([], snd (net_update_key env1 k ([], m)))) =
    [\<lparr>ni_name = name,
      ni_send_rate = kib_rate (log_bytes k False new) elapsed,
      ni_rcv_rate = kib_rate (log_bytes k True new) elapsed,
      ni_send_packets_rate = count_rate (log_packets k False new) elapsed,
      ni_rcv_packets_rate = count_rate (log_packets k True new) elapsed\<rparr>]"
proof -
  have cpus: "\<forall>p \<in> set before. pk_cpu p < n" using assms(10) by simp
  define m1 where "m1 = snd (net_update_key env1 k ([], m))"
  have m1: "m1 = m\<lparr>nm_cache := (nm_cache m)(k \<mapsto>
      \<lparr>nc_rcv_bytes = of_nat (log_bytes k True before), nc_rcv_packets = of_nat (log_packets k True before),
       nc_snd_bytes = of_nat (log_bytes k False before), nc_snd_packets = of_nat (log_packets k False before),
       nc_timestamp = re_now env1\<rparr>)\<rparr>"
    using assms(1-8) unfolding m1_def
    by (simp add: net_update_key_def LookupPerCpuValue_def merge_tally [OF cpus] GetIfName_def
        log_stats_def Let_def)
  have d: "unat (counter_delta (of_nat (log_bytes k rx new + log_bytes k rx before)) (of_nat (log_bytes k rx before)))
        = log_bytes k rx new"
      "unat (counter_delta (of_nat (log_packets k rx new + log_packets k rx before)) (of_nat (log_packets k rx before)))
        = log_packets k rx new" for rx
    by (intro counter_delta_of_nat; use assms(11) in simp)+
  show ?thesis
    using assms(1-5,7,9,12,13) unfolding m1_def [symmetric] m1
    by (simp add: net_update_key_def LookupPerCpuValue_def merge_tally [OF assms(10)] GetIfName_def
        log_stats_def net_rates_def Let_def d del: of_nat_add)
qed

definition demo_monitor :: NetEbpfMonitor where
  "demo_monitor = NetEbpfMonitor0\<lparr>nm_map_fd := 3, nm_proc_map_fd := 4, nm_percpu_buf := 64,
     nm_num_possible_cpus := 2, nm_loaded := True, nm_ifname_cache := [2 \<mapsto> ''eth0'']\<rparr>"

definition demo_env :: "rat \<Rightarrow> packet list \<Rightarrow> round_env" where
  "demo_env now ps = \<lparr>re_now = now, re_net_keys = [2],
     re_net_slots = (\<lambda>k. Some (map (\<lambda>c. tally ps c k) [0..<2])),
     re_if_indextoname = (\<lambda>k. None), re_lstat_ok = (\<lambda>p. True), re_proc_now = now,
     re_proc_keys = [7, 9],
     re_proc_slots = (\<lambda>k. Some [\<lparr>ps_snd_bytes = 2048, ps_rcv_bytes = 0, ps_comm = ''nginx''\<rparr>,
                                proc_net_stats0]),
     re_no_such_process = (\<lambda>k. k = 9)\<rparr>"

theorem net_rate_counts_packets_witness:
  "fst (net_update_key (demo_env 14 [race_p1, race_p0]) 2
     ([], snd (net_update_key (demo_env 12 [race_p0]) 2 ([], demo_monitor)))) =
   [\<lparr>ni_name = ''eth0'', ni_send_rate = kib_rate 40 2, ni_rcv_rate = kib_rate 0 2,
     ni_send_packets_rate = count_rate 1 2, ni_rcv_packets_rate = count_rate 0 2\<rparr>]"
  using net_rate_counts_packets [of demo_monitor 2 2 "''eth0''" "demo_env 12 [race_p0]"
      "demo_env 14 [race_p1, race_p0]" "[race_p0]" "[race_p1]" 2]
  by (simp add: demo_monitor_def NetEbpfMonitor0_def demo_env_def IsPhysicalInterface_def
      race_p0_def race_p1_def)


lemma merge_proc_slot_parts:
  "fst (merge_proc_slot slot t) = fst t + ps_snd_bytes slot"
  "fst (snd (merge_proc_slot slot t)) = fst (snd t) + ps_rcv_bytes slot"
  "snd (snd (merge_proc_slot slot t)) =
     (if snd (snd t) = [] \<and> ps_comm slot ! 0 \<noteq> CHR 0x00 then c_string (ps_comm slot)
      else snd (snd t))"
  by (cases t; simp add: merge_proc_slot_def)+

lemma merge_proc_fold:
  "fst (fold (\<lambda>c. merge_proc_slot (f c)) [0..<n] (0, 0, [])) = (\<Sum>c<n. ps_snd_bytes (f c))"
  "fst (snd (fold (\<lambda>c. merge_proc_slot (f c)) [0..<n] (0, 0, []))) = (\<Sum>c<n. ps_rcv_bytes (f c))"
  by (induction n) (simp_all add: merge_proc_slot_parts)

lemma merge_proc_name:
  assumes "\<forall>c < n. c \<noteq> j \<longrightarrow> ps_comm (f c) ! 0 = CHR 0x00"
    and "ps_comm (f j) = comm" and "comm ! 0 \<noteq> CHR 0x00" and "c_string comm \<noteq> []"
  shows "snd (snd (fold (\<lambda>c. merge_proc_slot (f c)) [0..<n] (0, 0, []))) =
    (if j < n then c_string comm else [])"
  using assms(1)
proof (induction n)
  case (Suc n)
  then show ?case using assms(2-4)
    by (cases "n = j") (simp_all add: merge_proc_slot_parts less_Suc_eq)
qed simp

lemma call_sum_cpus:
  "\<forall>e \<in> set es. sc_cpu e < n \<Longrightarrow>
   (\<Sum>c<n. call_sum (\<lambda>e. sc_cpu e = c \<and> P e) es) = call_sum P es"
proof (induction es)
  case (Cons e es)
  have "(\<Sum>c<n. call_sum (\<lambda>e. sc_cpu e = c \<and> P e) (e # es)) =
      (\<Sum>c<n. (if sc_cpu e = c then if P e then sc_bytes e else 0 else 0)) +
      (\<Sum>c<n. call_sum (\<lambda>e. sc_cpu e = c \<and> P e) es)"
    unfolding sum.distrib [symmetric] by (rule sum.cong) auto
  with Cons show ?case by simp
qed simp

text \<open>C13: merging the slots of a process over all CPUs gives exactly the bytes it sent and
  received over all its threads and CPUs, under the name it had when its entry was made.\<close>

theorem proc_attribution:
  assumes "percpu_room ops proc_net_stats0 K" and "sc_tgid ` set es \<subseteq> K"
    and "\<forall>c k. bpf_lookup ops m c k = None" and "\<forall>e \<in> set es. sc_cpu e < n"
    and "calls_of k es = e # rest" and "sc_comm e = x # xs" and "x \<noteq> CHR 0x00"
  shows "merge_proc_slots (int n)
      (map (\<lambda>c. the (bpf_lookup ops (fold (run_call ops) es m) c k)) [0..<n]) =
    (call_sum sc_send (calls_of k es), call_sum (\<lambda>e. \<not> sc_send e) (calls_of k es),
     c_string (sc_comm e))"
proof -
  let ?f = "\<lambda>c. the (bpf_lookup ops (fold (run_call ops) es m) c k)"
  have f: "?f c = \<lparr>ps_snd_bytes = call_sum (\<lambda>e. sc_cpu e = c \<and> sc_send e) (calls_of k es),
      ps_rcv_bytes = call_sum (\<lambda>e. sc_cpu e = c \<and> \<not> sc_send e) (calls_of k es),
      ps_comm = (if sc_cpu e = c then sc_comm e else ps_comm proc_net_stats0)\<rparr>" for c
    using run_calls_slots [OF assms(1,2)] assms(3,5) by (simp add: proc_slot_def)
  have mem: "set (calls_of k es) \<subseteq> set es" by (auto simp: calls_of_def)
  then have cpus: "\<forall>e \<in> set (calls_of k es). sc_cpu e < n" and e: "sc_cpu e < n"
    using assms(4,5) by auto
  have "merge_proc_slots (int n) (map ?f [0..<n]) =
      fold (\<lambda>c. merge_proc_slot (?f c)) [0..<n] (0, 0, [])"
    unfolding merge_proc_slots_def by (rule fold_cong) simp_all
  moreover have "snd (snd (fold (\<lambda>c. merge_proc_slot (?f c)) [0..<n] (0, 0, []))) =
      c_string (sc_comm e)"
    using merge_proc_name [of n "sc_cpu e" ?f "sc_comm e"] e assms(6,7)
    by (simp add: f proc_net_stats0_def PROC_COMM_LEN_def c_string_def)
  ultimately show ?thesis
    by (simp add: prod_eq_iff merge_proc_fold f call_sum_cpus [OF cpus])
qed

definition demo_calls :: "sock_call list" where
  "demo_calls =
     [\<lparr>sc_cpu = 1, sc_pid_tgid = 0x700000007, sc_comm = ''nginx'', sc_bytes = 100, sc_send = True\<rparr>,
      \<lparr>sc_cpu = 0, sc_pid_tgid = 0x700000008, sc_comm = ''nginx'', sc_bytes = 30, sc_send = True\<rparr>,
      \<lparr>sc_cpu = 0, sc_pid_tgid = 0x900000009, sc_comm = ''sshd'', sc_bytes = 5, sc_send = False\<rparr>]"

theorem proc_attribution_witness:
  "merge_proc_slots 2 (map (\<lambda>c. the (bpf_lookup (pmap_ops 4096 proc_net_stats0)
      (fold (run_call (pmap_ops 4096 proc_net_stats0)) demo_calls []) c 7)) [0..<2]) =
   (130, 0, ''nginx'')"
proof -
  have k: "sc_tgid ` set demo_calls \<subseteq> {7, 9}"
    by (simp add: demo_calls_def sc_tgid_def drop_bit_eq_div)
  have room: "percpu_room (pmap_ops 4096 proc_net_stats0) proc_net_stats0 {7, 9}"
    by (rule pmap_room) simp_all
  have none: "\<forall>c k. bpf_lookup (pmap_ops 4096 proc_net_stats0) [] c k = None"
    by (simp add: pmap_ops_def pmap_lookup_def)
  have c: "calls_of 7 demo_calls = demo_calls ! 0 # [demo_calls ! 1]"
    by (simp add: calls_of_def demo_calls_def sc_tgid_def drop_bit_eq_div)
  show ?thesis
    using proc_attribution [OF room k none _ c, of 2 "CHR ''n''" "''ginx''"]
    by (simp add: c [simplified]) (simp add: demo_calls_def c_string_def)
qed


definition demo_tc :: tc_env where
  "demo_tc = \<lparr>te_hook_create = (\<lambda>i p. 0), te_attach = (\<lambda>i p. if i = 3 \<and> p = BPF_TC_EGRESS then - EINVAL else 0),
     te_hook_destroy = (\<lambda>i. 0), te_dir_entries = [''.'', ''lo'', ''eth0'', ''eth1''],
     te_physical = (\<lambda>p. True), te_if_nametoindex = (\<lambda>s. if s = ''eth0'' then 2 else 3),
     te_skel_open = True, te_skel_load = 0, te_map_fd = 5, te_proc_map_fd = 6,
     te_num_possible_cpus = 2, te_send_probe_err = 0, te_recv_probe_err = 0\<rparr>"


end
