(* ===== verification/Hashmap.thy ===== *)
theory Hashmap
  imports Prelude "HOL-Library.Multiset"
begin

text \<open>
  The hash map of libbpf, \<^verbatim>\<open>libbpf/src/hashmap.c\<close> and \<^verbatim>\<open>hashmap.h\<close>. Keys and values are
  \<^verbatim>\<open>long\<close>, so 64-bit words. A chain is the list of its entries from the head; \<open>hm_buckets\<close> is
  \<open>None\<close> for a NULL array. The functions \<open>hash_fn\<close> and \<open>equal_fn\<close> (applied to their \<^verbatim>\<open>ctx\<close>)
  are arguments, as are the results of \<^verbatim>\<open>calloc\<close> and \<^verbatim>\<open>malloc\<close>. Sizes are natural numbers:
  \<^verbatim>\<open>calloc\<close> fails when the array has \<open>2 ^ 64\<close> bytes or more, so they stay below \<open>2 ^ 61\<close>.
\<close>

type_synonym entry = "u64 \<times> u64"

record hashmap =
  hm_buckets :: "entry list list option"
  hm_cap :: nat
  hm_cap_bits :: nat
  hm_sz :: nat

datatype insert_strategy = HASHMAP_ADD | HASHMAP_SET | HASHMAP_UPDATE | HASHMAP_APPEND

section \<open>Operations\<close>

definition hash_bits :: "u64 \<Rightarrow> nat \<Rightarrow> nat" where
  "hash_bits h bits =
     (if bits = 0 then 0 else unat (drop_bit (64 - bits) (h * 11400714819323198485)))"

text \<open>\<^verbatim>\<open>char\<close> is signed: a byte above 127 is subtracted.\<close>

fun str_hash_from :: "u64 \<Rightarrow> 8 word list \<Rightarrow> u64" where
  "str_hash_from h [] = h"
| "str_hash_from h (c # s) = (if c = 0 then h else str_hash_from (h * 31 + scast c) s)"

definition str_hash :: "8 word list \<Rightarrow> u64" where
  "str_hash s = str_hash_from 0 s"

definition HASHMAP_MIN_CAP_BITS :: nat where "HASHMAP_MIN_CAP_BITS = 2"

definition hashmap__init :: hashmap where
  "hashmap__init = \<lparr>hm_buckets = None, hm_cap = 0, hm_cap_bits = 0, hm_sz = 0\<rparr>"

text \<open>\<open>Inl\<close> is the error pointer.\<close>

definition hashmap__new :: "bool \<Rightarrow> int + hashmap" where
  "hashmap__new malloc_ok = (if \<not> malloc_ok then Inl (- ENOMEM) else Inr hashmap__init)"

definition hashmap__clear :: "hashmap \<Rightarrow> hashmap" where
  "hashmap__clear m = m\<lparr>hm_buckets := None, hm_cap := 0, hm_cap_bits := 0, hm_sz := 0\<rparr>"

definition hashmap__size :: "hashmap \<Rightarrow> nat" where "hashmap__size m = hm_sz m"

definition hashmap__capacity :: "hashmap \<Rightarrow> nat" where "hashmap__capacity m = hm_cap m"

definition hashmap_needs_to_grow :: "hashmap \<Rightarrow> bool" where
  "hashmap_needs_to_grow m \<longleftrightarrow> hm_cap m = 0 \<or> (hm_sz m + 1) * 4 div 3 > hm_cap m"

definition hashmap_add_entry :: "nat \<Rightarrow> entry \<Rightarrow> entry list list \<Rightarrow> entry list list" where
  "hashmap_add_entry h e bs = bs[h := e # bs ! h]"

definition hashmap_del_entry :: "nat \<Rightarrow> nat \<Rightarrow> entry list list \<Rightarrow> entry list list" where
  "hashmap_del_entry h i bs = bs[h := take i (bs ! h) @ drop (Suc i) (bs ! h)]"

definition calloc_succeeds :: "bool \<Rightarrow> nat \<Rightarrow> nat \<Rightarrow> bool" where
  "calloc_succeeds ok n elem_sz \<longleftrightarrow> ok \<and> n * elem_sz < 2 ^ 64"

text \<open>All entries, bucket by bucket, in the order of \<^verbatim>\<open>hashmap__for_each_entry\<close>.\<close>

definition hm_entries :: "hashmap \<Rightarrow> entry list" where
  "hm_entries m = (case hm_buckets m of None \<Rightarrow> [] | Some bs \<Rightarrow> concat bs)"

definition rehash :: "(u64 \<Rightarrow> u64) \<Rightarrow> nat \<Rightarrow> entry list \<Rightarrow> entry list list \<Rightarrow> entry list list" where
  "rehash hash_fn bits es bs =
     fold (\<lambda>cur. hashmap_add_entry (hash_bits (hash_fn (fst cur)) bits) cur) es bs"

definition hashmap_grow :: "(u64 \<Rightarrow> u64) \<Rightarrow> bool \<Rightarrow> hashmap \<Rightarrow> int \<times> hashmap" where
  "hashmap_grow hash_fn calloc_ok m =
     (let bits = hm_cap_bits m + 1;
          new_cap_bits = (if bits < HASHMAP_MIN_CAP_BITS then HASHMAP_MIN_CAP_BITS else bits);
          new_cap = 2 ^ new_cap_bits
      in if \<not> calloc_succeeds calloc_ok new_cap 8 then (- ENOMEM, m)
         else (0, m\<lparr>hm_cap := new_cap, hm_cap_bits := new_cap_bits,
                    hm_buckets := Some (rehash hash_fn new_cap_bits (hm_entries m)
                                          (replicate new_cap []))\<rparr>))"

text \<open>The position in the chain and the entry found there.\<close>

fun find_in_chain :: "(u64 \<Rightarrow> u64 \<Rightarrow> bool) \<Rightarrow> u64 \<Rightarrow> entry list \<Rightarrow> (nat \<times> entry) option" where
  "find_in_chain equal_fn key [] = None"
| "find_in_chain equal_fn key (cur # rest) =
     (if equal_fn (fst cur) key then Some (0, cur)
      else map_option (\<lambda>(i, e). (Suc i, e)) (find_in_chain equal_fn key rest))"

definition hashmap_find_entry :: "(u64 \<Rightarrow> u64 \<Rightarrow> bool) \<Rightarrow> hashmap \<Rightarrow> u64 \<Rightarrow> nat \<Rightarrow>
    (nat \<times> entry) option" where
  "hashmap_find_entry equal_fn m key hash =
     (case hm_buckets m of None \<Rightarrow> None | Some bs \<Rightarrow> find_in_chain equal_fn key (bs ! hash))"

text \<open>The result, the old key and value (0 if none) and the map.\<close>

definition hashmap_insert :: "(u64 \<Rightarrow> u64) \<Rightarrow> (u64 \<Rightarrow> u64 \<Rightarrow> bool) \<Rightarrow> insert_strategy \<Rightarrow> bool \<Rightarrow> bool \<Rightarrow>
    u64 \<Rightarrow> u64 \<Rightarrow> hashmap \<Rightarrow> int \<times> u64 \<times> u64 \<times> hashmap" where
  "hashmap_insert hash_fn equal_fn strategy calloc_ok malloc_ok key val m =
     (let h = hash_bits (hash_fn key) (hm_cap_bits m);
          found = (if strategy \<noteq> HASHMAP_APPEND then hashmap_find_entry equal_fn m key h else None)
      in case found of
           Some (i, e) \<Rightarrow>
             if strategy = HASHMAP_SET \<or> strategy = HASHMAP_UPDATE
             then (0, fst e, snd e,
                   m\<lparr>hm_buckets := map_option (\<lambda>bs. bs[h := (bs ! h)[i := (key, val)]]) (hm_buckets m)\<rparr>)
             else (- EEXIST, fst e, snd e, m)
         | None \<Rightarrow>
             if strategy = HASHMAP_UPDATE then (- ENOENT, 0, 0, m)
             else let grow = hashmap_needs_to_grow m;
                      (err, m1) = (if grow then hashmap_grow hash_fn calloc_ok m else (0, m))
                  in if err \<noteq> 0 then (err, 0, 0, m1)
                     else let h1 = (if grow then hash_bits (hash_fn key) (hm_cap_bits m1) else h)
                          in if \<not> malloc_ok then (- ENOMEM, 0, 0, m1)
                             else (0, 0, 0, m1\<lparr>
                               hm_buckets := map_option (hashmap_add_entry h1 (key, val)) (hm_buckets m1),
                               hm_sz := hm_sz m1 + 1\<rparr>))"

definition hashmap_find :: "(u64 \<Rightarrow> u64) \<Rightarrow> (u64 \<Rightarrow> u64 \<Rightarrow> bool) \<Rightarrow> hashmap \<Rightarrow> u64 \<Rightarrow> u64 option" where
  "hashmap_find hash_fn equal_fn m key =
     (case hashmap_find_entry equal_fn m key (hash_bits (hash_fn key) (hm_cap_bits m)) of
        None \<Rightarrow> None
      | Some (i, e) \<Rightarrow> Some (snd e))"

definition hashmap_delete :: "(u64 \<Rightarrow> u64) \<Rightarrow> (u64 \<Rightarrow> u64 \<Rightarrow> bool) \<Rightarrow> u64 \<Rightarrow> hashmap \<Rightarrow>
    (u64 \<times> u64) option \<times> hashmap" where
  "hashmap_delete hash_fn equal_fn key m =
     (let h = hash_bits (hash_fn key) (hm_cap_bits m)
      in case hashmap_find_entry equal_fn m key h of
           None \<Rightarrow> (None, m)
         | Some (i, e) \<Rightarrow>
             (Some e, m\<lparr>hm_buckets := map_option (hashmap_del_entry h i) (hm_buckets m),
                        hm_sz := hm_sz m - 1\<rparr>))"

section \<open>Buckets as a multiset of entries\<close>

lemma hash_bits_less: "bits \<le> 64 \<Longrightarrow> hash_bits h bits < 2 ^ bits"
proof (cases "bits = 0")
  case False
  assume b: "bits \<le> 64"
  let ?w = "h * 11400714819323198485"
  have "unat ?w < 2 ^ (bits + (64 - bits))" using b unat_less [of ?w] by simp
  then have "unat ?w < 2 ^ bits * 2 ^ (64 - bits)" by (simp only: power_add)
  then have "unat ?w div 2 ^ (64 - bits) < 2 ^ bits" by (simp add: less_mult_imp_div_less)
  then have "drop_bit (64 - bits) (unat ?w) < 2 ^ bits" by (simp only: drop_bit_eq_div)
  with False show ?thesis by (simp add: hash_bits_def unat_drop_bit_eq)
qed (simp add: hash_bits_def)

lemma mset_concat_update:
  "h < length bs \<Longrightarrow>
   mset (concat (bs[h := c])) + mset (bs ! h) = mset (concat bs) + mset c"
  by (induction bs arbitrary: h) (auto split: nat.splits simp: nth_Cons ac_simps)

lemma find_in_chain_Some:
  "find_in_chain eq k c = Some (i, e) \<Longrightarrow>
   i < length c \<and> c ! i = e \<and> eq (fst e) k \<and> (\<forall>j < i. \<not> eq (fst (c ! j)) k)"
proof (induction c arbitrary: i)
  case (Cons a c)
  then show ?case by (auto simp: nth_Cons' less_Suc_eq_0_disj split: if_splits)
qed simp

lemma find_in_chain_None: "find_in_chain eq k c = None \<longleftrightarrow> (\<forall>e \<in> set c. \<not> eq (fst e) k)"
  by (induction c) auto

text \<open>Every entry is in the bucket its hash selects.\<close>

definition placed :: "(u64 \<Rightarrow> u64) \<Rightarrow> nat \<Rightarrow> entry list list \<Rightarrow> bool" where
  "placed hash_fn bits bs \<longleftrightarrow>
     (\<forall>i < length bs. \<forall>e \<in> set (bs ! i). hash_bits (hash_fn (fst e)) bits = i)"

text \<open>The invariant of a map: its shape, its size, its load and the place of every entry.\<close>

definition hm_wf :: "(u64 \<Rightarrow> u64) \<Rightarrow> hashmap \<Rightarrow> bool" where
  "hm_wf hash_fn m \<longleftrightarrow>
     (case hm_buckets m of
        None \<Rightarrow> hm_cap m = 0 \<and> hm_cap_bits m = 0 \<and> hm_sz m = 0
      | Some bs \<Rightarrow> length bs = hm_cap m \<and> hm_cap m = 2 ^ hm_cap_bits m \<and>
          2 \<le> hm_cap_bits m \<and> hm_cap_bits m \<le> 60 \<and>
          hm_sz m = length (concat bs) \<and> hm_sz m * 4 div 3 \<le> hm_cap m \<and>
          placed hash_fn (hm_cap_bits m) bs)"

lemma placed_update:
  "placed hf bits bs \<Longrightarrow> (\<And>e. e \<in> set c \<Longrightarrow> hash_bits (hf (fst e)) bits = h) \<Longrightarrow>
   placed hf bits (bs[h := c])"
  unfolding placed_def by (metis length_list_update nth_list_update_eq nth_list_update_neq)

lemma add_entry_mset:
  "h < length bs \<Longrightarrow> mset (concat (hashmap_add_entry h e bs)) = add_mset e (mset (concat bs))"
  using mset_concat_update [of h bs "e # bs ! h"] by (simp add: hashmap_add_entry_def)

lemma add_entry_placed:
  assumes "placed hf bits bs" and "h = hash_bits (hf (fst e)) bits" and "h < length bs"
  shows "placed hf bits (hashmap_add_entry h e bs)"
  using assms unfolding hashmap_add_entry_def
  by (intro placed_update) (auto simp: placed_def)

lemma length_add_entry [simp]: "length (hashmap_add_entry h e bs) = length bs"
  by (simp add: hashmap_add_entry_def)

lemma rehash_props:
  assumes "bits \<le> 64" and "length bs = 2 ^ bits" and "placed hf bits bs"
  shows "length (rehash hf bits es bs) = 2 ^ bits"
    and "mset (concat (rehash hf bits es bs)) = mset es + mset (concat bs)"
    and "placed hf bits (rehash hf bits es bs)"
proof -
  have "length (rehash hf bits es bs) = 2 ^ bits \<and>
    mset (concat (rehash hf bits es bs)) = mset es + mset (concat bs) \<and>
    placed hf bits (rehash hf bits es bs)"
    using assms(2,3)
  proof (induction es arbitrary: bs)
    case Nil
    then show ?case by (simp add: rehash_def)
  next
    case (Cons e es)
    let ?h = "hash_bits (hf (fst e)) bits"
    have h: "?h < length bs" using hash_bits_less [OF assms(1)] Cons.prems(1) by simp
    have step: "rehash hf bits (e # es) bs = rehash hf bits es (hashmap_add_entry ?h e bs)"
      by (simp add: rehash_def)
    from Cons.IH [of "hashmap_add_entry ?h e bs"] Cons.prems h show ?case
      unfolding step by (simp add: add_entry_mset add_entry_placed)
  qed
  then show "length (rehash hf bits es bs) = 2 ^ bits"
    and "mset (concat (rehash hf bits es bs)) = mset es + mset (concat bs)"
    and "placed hf bits (rehash hf bits es bs)" by auto
qed

text \<open>The invariant only looks at the hashes of the keys in the map.\<close>

lemma placed_cong:
  "(\<And>e. e \<in> set (concat bs) \<Longrightarrow> hf (fst e) = hf' (fst e)) \<Longrightarrow> placed hf b bs \<Longrightarrow> placed hf' b bs"
  unfolding placed_def by (metis UN_I nth_mem set_concat)

lemma hm_wf_cong:
  assumes "hm_wf hf m" and "\<And>e. e \<in> set (hm_entries m) \<Longrightarrow> hf (fst e) = hf' (fst e)"
  shows "hm_wf hf' m"
  using assms placed_cong [of _ hf hf']
  by (auto simp: hm_wf_def hm_entries_def split: option.splits)

lemma hm_wf_Some:
  assumes "hm_wf hf m" and "hm_buckets m = Some bs"
  shows "length bs = hm_cap m" "hm_cap m = 2 ^ hm_cap_bits m" "hm_cap_bits m \<le> 60"
    "hm_sz m = length (concat bs)" "placed hf (hm_cap_bits m) bs" "2 \<le> hm_cap_bits m"
    "hm_sz m * 4 div 3 \<le> hm_cap m"
  using assms(1) unfolding hm_wf_def assms(2) option.case by blast+

lemma hash_in_bounds:
  assumes "hm_wf hf m" and "hm_buckets m = Some bs"
  shows "hash_bits h (hm_cap_bits m) < length bs"
  using hm_wf_Some [OF assms] hash_bits_less [of "hm_cap_bits m" h] by simp

lemma sz_entries: "hm_wf hf m \<Longrightarrow> hm_sz m = length (hm_entries m)"
  by (auto simp: hm_wf_def hm_entries_def split: option.splits)

lemma pow2_room: "b \<le> 60 \<longleftrightarrow> (2::nat) ^ (Suc b) * 8 < 2 ^ 65"
proof -
  have "(2::nat) ^ (Suc b) * 8 = 2 ^ (b + 4)" by (simp add: power_add)
  then show ?thesis using power_strict_increasing_iff [of "2::nat" "b + 4" 65] by auto
qed

lemma calloc_bits: "calloc_succeeds ok (2 ^ b) 8 \<Longrightarrow> b \<le> 60"
proof -
  assume "calloc_succeeds ok (2 ^ b) 8"
  then have "(2::nat) ^ (b + 3) < 2 ^ 64" by (simp add: calloc_succeeds_def power_add)
  then show "b \<le> 60" using power_strict_increasing_iff [of "2::nat" "b + 3" 64] by simp
qed

text \<open>Growing keeps the entries, and makes room for one more.\<close>

lemma grow_ok:
  assumes "hm_wf hf m" and "hashmap_grow hf ok m = (0, m1)"
  shows "hm_wf hf m1" and "mset (hm_entries m1) = mset (hm_entries m)" and "hm_sz m1 = hm_sz m"
    and "hm_buckets m1 \<noteq> None" and "(hm_sz m + 1) * 4 div 3 \<le> hm_cap m1"
proof -
  define nb where "nb = (if hm_cap_bits m + 1 < 2 then 2 else hm_cap_bits m + 1)"
  have c: "calloc_succeeds ok (2 ^ nb) 8" and
    m1: "m1 = m\<lparr>hm_cap := 2 ^ nb, hm_cap_bits := nb,
        hm_buckets := Some (rehash hf nb (hm_entries m) (replicate (2 ^ nb) []))\<rparr>"
    using assms(2) by (auto simp: hashmap_grow_def HASHMAP_MIN_CAP_BITS_def Let_def nb_def
        split: if_splits)
  from calloc_bits [OF c] have nb: "nb \<le> 60" "2 \<le> nb" by (auto simp: nb_def)
  have r: "length (rehash hf nb (hm_entries m) (replicate (2 ^ nb) [])) = 2 ^ nb"
    "mset (concat (rehash hf nb (hm_entries m) (replicate (2 ^ nb) []))) = mset (hm_entries m)"
    "placed hf nb (rehash hf nb (hm_entries m) (replicate (2 ^ nb) []))"
    using rehash_props [of nb "replicate (2 ^ nb) []" hf "hm_entries m"] nb
    by (simp_all add: placed_def)
  have sz: "hm_sz m = length (concat (rehash hf nb (hm_entries m) (replicate (2 ^ nb) [])))"
    using sz_entries [OF assms(1)] r(2) by (metis size_mset)
  have load: "(hm_sz m + 1) * 4 div 3 \<le> 2 ^ nb"
  proof (cases "hm_buckets m")
    case None
    with assms(1) have "hm_sz m = 0" by (simp add: hm_wf_def)
    moreover have "(2::nat) ^ 2 \<le> 2 ^ nb" using nb by (intro power_increasing) auto
    ultimately show ?thesis by simp
  next
    case (Some bs)
    note w = hm_wf_Some [OF assms(1) Some]
    have "(2::nat) ^ 2 \<le> 2 ^ hm_cap_bits m" using w(6) by (intro power_increasing) auto
    moreover have "(2::nat) ^ nb = 2 * hm_cap m" using w by (simp add: nb_def)
    ultimately show ?thesis using w(2,7) by simp
  qed
  then have load': "hm_sz m * 4 div 3 \<le> 2 ^ nb" by simp
  show "hm_wf hf m1" using r nb sz load' unfolding m1 by (simp add: hm_wf_def)
  show "mset (hm_entries m1) = mset (hm_entries m)" using r(2) by (simp add: m1 hm_entries_def)
  show "hm_sz m1 = hm_sz m" "hm_buckets m1 \<noteq> None" "(hm_sz m + 1) * 4 div 3 \<le> hm_cap m1"
    using load by (simp_all add: m1)
qed

lemma grow_err: "hashmap_grow hf ok m = (err, m1) \<Longrightarrow> err \<noteq> 0 \<Longrightarrow> m1 = m \<and> err = - ENOMEM"
  by (auto simp: hashmap_grow_def Let_def split: if_splits)

section \<open>The contract of the hash and equality functions\<close>

locale hash_contract =
  fixes hash_fn :: "u64 \<Rightarrow> u64" and equal_fn :: "u64 \<Rightarrow> u64 \<Rightarrow> bool"
  assumes eq_refl: "equal_fn a a"
    and eq_sym: "equal_fn a b \<Longrightarrow> equal_fn b a"
    and eq_trans: "equal_fn a b \<Longrightarrow> equal_fn b c \<Longrightarrow> equal_fn a c"
    and eq_hash: "equal_fn a b \<Longrightarrow> hash_fn a = hash_fn b"

text \<open>At most one entry for each key.\<close>

definition unique_keys :: "(u64 \<Rightarrow> u64 \<Rightarrow> bool) \<Rightarrow> entry multiset \<Rightarrow> bool" where
  "unique_keys equal_fn M \<longleftrightarrow> (\<forall>k. size (filter_mset (\<lambda>e. equal_fn (fst e) k) M) \<le> 1)"

definition hm_unique :: "(u64 \<Rightarrow> u64 \<Rightarrow> bool) \<Rightarrow> hashmap \<Rightarrow> bool" where
  "hm_unique equal_fn m \<longleftrightarrow> unique_keys equal_fn (mset (hm_entries m))"

text \<open>The value bound to a key, as the entries see it.\<close>

definition bound :: "(u64 \<Rightarrow> u64 \<Rightarrow> bool) \<Rightarrow> entry multiset \<Rightarrow> u64 \<Rightarrow> u64 \<Rightarrow> bool" where
  "bound equal_fn M key v \<longleftrightarrow> (\<exists>k. (k, v) \<in># M \<and> equal_fn k key)"

lemma mset_le1: "size M \<le> 1 \<Longrightarrow> a \<in># M \<Longrightarrow> b \<in># M \<Longrightarrow> a = b"
  by (cases M) auto

context hash_contract
begin

lemma find_entry_Some:
  assumes "hm_wf hash_fn m"
    and "hashmap_find_entry equal_fn m key (hash_bits (hash_fn key) (hm_cap_bits m)) = Some (i, e)"
  obtains bs where "hm_buckets m = Some bs" "e \<in># mset (hm_entries m)" "equal_fn (fst e) key"
    "i < length (bs ! hash_bits (hash_fn key) (hm_cap_bits m))"
    "bs ! hash_bits (hash_fn key) (hm_cap_bits m) ! i = e"
proof -
  let ?h = "hash_bits (hash_fn key) (hm_cap_bits m)"
  from assms(2) obtain bs where b: "hm_buckets m = Some bs"
    and f: "find_in_chain equal_fn key (bs ! ?h) = Some (i, e)"
    by (auto simp: hashmap_find_entry_def split: option.splits)
  from hash_in_bounds [OF assms(1) b] have "bs ! ?h \<in> set bs" by simp
  moreover from find_in_chain_Some [OF f] have "e \<in> set (bs ! ?h)" by (auto intro: nth_mem)
  ultimately have "e \<in># mset (hm_entries m)" using b by (auto simp: hm_entries_def)
  with find_in_chain_Some [OF f] b that show thesis by blast
qed

lemma find_entry_None:
  assumes "hm_wf hash_fn m"
  shows "hashmap_find_entry equal_fn m key (hash_bits (hash_fn key) (hm_cap_bits m)) = None \<longleftrightarrow>
    (\<forall>e \<in># mset (hm_entries m). \<not> equal_fn (fst e) key)"
proof (cases "hm_buckets m")
  case None
  then show ?thesis by (simp add: hashmap_find_entry_def hm_entries_def)
next
  case (Some bs)
  let ?h = "hash_bits (hash_fn key) (hm_cap_bits m)"
  note w = hm_wf_Some [OF assms Some]
  have "e \<in> set (bs ! ?h)" if "e \<in> set c" "c \<in> set bs" "equal_fn (fst e) key" for e c
  proof -
    from that(2) obtain i where i: "i < length bs" "c = bs ! i" by (auto simp: in_set_conv_nth)
    with w(5) that(1) have "hash_bits (hash_fn (fst e)) (hm_cap_bits m) = i"
      by (auto simp: placed_def)
    with eq_hash [OF that(3)] that(1) i show ?thesis by simp
  qed
  moreover have "bs ! ?h \<in> set bs" using hash_in_bounds [OF assms Some] by simp
  ultimately show ?thesis
    by (auto simp: hashmap_find_entry_def hm_entries_def Some find_in_chain_None)
qed

text \<open>With unique keys, \<open>hashmap_find\<close> depends on the entries only, not on their places.\<close>

lemma find_iff:
  assumes "hm_wf hash_fn m" and "hm_unique equal_fn m"
  shows "hashmap_find hash_fn equal_fn m key = Some v \<longleftrightarrow>
    (\<exists>k. (k, v) \<in># mset (hm_entries m) \<and> equal_fn k key)"
proof -
  let ?r = "hashmap_find_entry equal_fn m key (hash_bits (hash_fn key) (hm_cap_bits m))"
  have uniq: "e = e'" if "e \<in># mset (hm_entries m)" "e' \<in># mset (hm_entries m)"
    "equal_fn (fst e) key" "equal_fn (fst e') key" for e e'
    using that assms(2) unfolding hm_unique_def unique_keys_def
    by (intro mset_le1 [of "filter_mset (\<lambda>e. equal_fn (fst e) key) (mset (hm_entries m))"]) auto
  show ?thesis
  proof (cases ?r)
    case None
    with find_entry_None [OF assms(1)]
    have "\<forall>e \<in># mset (hm_entries m). \<not> equal_fn (fst e) key" by blast
    with None show ?thesis by (auto simp: hashmap_find_def)
  next
    case (Some p)
    obtain i e where p: "?r = Some (i, e)" using Some by (cases p) simp
    from find_entry_Some [OF assms(1) p]
    have e: "e \<in># mset (hm_entries m)" "equal_fn (fst e) key" by blast+
    have f: "hashmap_find hash_fn equal_fn m key = Some (snd e)"
      using p by (simp add: hashmap_find_def)
    show ?thesis
    proof
      assume "hashmap_find hash_fn equal_fn m key = Some v"
      with f have "e = (fst e, v)" by (metis option.inject prod.collapse)
      with e show "\<exists>k. (k, v) \<in># mset (hm_entries m) \<and> equal_fn k key" by metis
    next
      assume "\<exists>k. (k, v) \<in># mset (hm_entries m) \<and> equal_fn k key"
      then obtain k where k: "(k, v) \<in># mset (hm_entries m)" "equal_fn k key" by blast
      with uniq [OF k(1) e(1)] e(2) have "(k, v) = e" by simp
      with f show "hashmap_find hash_fn equal_fn m key = Some v" by (metis snd_conv)
    qed
  qed
qed

lemma found_update_wf:
  assumes "hm_wf hash_fn m" and "hm_buckets m = Some bs"
    and "h = hash_bits (hash_fn key) (hm_cap_bits m)" and "i < length (bs ! h)" and "bs ! h ! i = e"
  shows "hm_wf hash_fn (m\<lparr>hm_buckets := Some (bs[h := (bs ! h)[i := (key, val)]])\<rparr>)"
    and "mset (concat (bs[h := (bs ! h)[i := (key, val)]])) =
      add_mset (key, val) (mset (concat bs) - {#e#})"
proof -
  note w = hm_wf_Some [OF assms(1,2)]
  have h: "h < length bs" using hash_in_bounds [OF assms(1,2)] assms(3) by simp
  have "e \<in> set (bs ! h)" using nth_mem [OF assms(4)] assms(5) by simp
  then have e: "e \<in># mset (concat bs)" using nth_mem [OF h] by auto
  have "mset (concat (bs[h := (bs ! h)[i := (key, val)]])) + mset (bs ! h) =
      mset (concat bs) + add_mset (key, val) (mset (bs ! h) - {#e#})"
    using mset_concat_update [OF h, of "(bs ! h)[i := (key, val)]"] assms(4,5)
    by (simp add: mset_update)
  moreover obtain B where B: "mset (bs ! h) = add_mset e B"
    using \<open>e \<in> set (bs ! h)\<close> by (metis in_multiset_in_set mset_add)
  moreover obtain A where A: "mset (concat bs) = add_mset e A" using e by (metis mset_add)
  ultimately have "mset (concat (bs[h := (bs ! h)[i := (key, val)]])) + B = add_mset (key, val) A + B"
    by simp
  then show m: "mset (concat (bs[h := (bs ! h)[i := (key, val)]])) =
      add_mset (key, val) (mset (concat bs) - {#e#})"
    unfolding A by (simp only: add_right_cancel add_mset_remove_trivial)
  have "length (concat (bs[h := (bs ! h)[i := (key, val)]])) = length (concat bs)"
    using arg_cong [OF m [unfolded A add_mset_remove_trivial], of size] arg_cong [OF A, of size]
    by (simp only: size_mset size_add_mset)
  moreover have "placed hash_fn (hm_cap_bits m) (bs[h := (bs ! h)[i := (key, val)]])"
    using w(5) h assms(3)
    by (intro placed_update) (auto simp: placed_def dest!: set_update_subset_insert [THEN subsetD])
  ultimately show "hm_wf hash_fn (m\<lparr>hm_buckets := Some (bs[h := (bs ! h)[i := (key, val)]])\<rparr>)"
    using w by (simp add: hm_wf_def)
qed

lemma cons_wf:
  assumes "hm_wf hash_fn m" and "hm_buckets m = Some bs" and "(hm_sz m + 1) * 4 div 3 \<le> hm_cap m"
    and "h = hash_bits (hash_fn key) (hm_cap_bits m)"
  shows "hm_wf hash_fn (m\<lparr>hm_buckets := Some (hashmap_add_entry h (key, val) bs),
      hm_sz := hm_sz m + 1\<rparr>)"
    and "mset (concat (hashmap_add_entry h (key, val) bs)) = add_mset (key, val) (mset (concat bs))"
proof -
  note w = hm_wf_Some [OF assms(1,2)]
  have h: "h < length bs" using hash_in_bounds [OF assms(1,2)] assms(4) by simp
  show m: "mset (concat (hashmap_add_entry h (key, val) bs)) = add_mset (key, val) (mset (concat bs))"
    by (rule add_entry_mset [OF h])
  from arg_cong [OF m, of size]
  have "length (concat (hashmap_add_entry h (key, val) bs)) = length (concat bs) + 1"
    by (simp only: size_mset size_add_mset)
  with w h assms(3,4) show "hm_wf hash_fn (m\<lparr>hm_buckets := Some (hashmap_add_entry h (key, val) bs),
      hm_sz := hm_sz m + 1\<rparr>)"
    by (simp add: hm_wf_def add_entry_placed)
qed

text \<open>Everything an insertion can do, in terms of the entries.\<close>

lemma insert_found:
  assumes "hm_wf hash_fn m" and "strategy \<noteq> HASHMAP_APPEND"
    and "\<exists>e \<in># mset (hm_entries m). equal_fn (fst e) key"
    and "hashmap_insert hash_fn equal_fn strategy calloc_ok malloc_ok key val m = (err, ok, ov, m')"
  shows "hm_wf hash_fn m' \<and> (ok, ov) \<in># mset (hm_entries m) \<and> equal_fn ok key \<and>
    (if strategy = HASHMAP_ADD then err = - EEXIST \<and> m' = m
     else err = 0 \<and> mset (hm_entries m') = add_mset (key, val) (mset (hm_entries m) - {#(ok, ov)#}))"
proof -
  let ?h = "hash_bits (hash_fn key) (hm_cap_bits m)"
  from find_entry_None [OF assms(1), of key] assms(3)
  obtain i e where f: "hashmap_find_entry equal_fn m key ?h = Some (i, e)" by fastforce
  from find_entry_Some [OF assms(1) f] obtain bs where b: "hm_buckets m = Some bs"
    and e: "e \<in># mset (hm_entries m)" "equal_fn (fst e) key" "i < length (bs ! ?h)" "bs ! ?h ! i = e"
    by blast
  note u = found_update_wf [OF assms(1) b refl e(3,4), of val]
  show ?thesis
  proof (cases "strategy = HASHMAP_ADD")
    case True
    with assms f e show ?thesis by (auto simp: hashmap_insert_def)
  next
    case False
    with assms(2) have "strategy = HASHMAP_SET \<or> strategy = HASHMAP_UPDATE" by (cases strategy) auto
    with assms(2,4) f b have r: "err = 0" "ok = fst e" "ov = snd e"
      "m' = m\<lparr>hm_buckets := Some (bs[?h := (bs ! ?h)[i := (key, val)]])\<rparr>"
      by (auto simp: hashmap_insert_def Let_def)
    with u e False b show ?thesis by (simp add: hm_entries_def)
  qed
qed

lemma insert_fresh:
  assumes "hm_wf hash_fn m"
    and "strategy = HASHMAP_APPEND \<or> \<not> (\<exists>e \<in># mset (hm_entries m). equal_fn (fst e) key)"
    and "hashmap_insert hash_fn equal_fn strategy calloc_ok malloc_ok key val m = (err, ok, ov, m')"
  shows "hm_wf hash_fn m' \<and> ok = 0 \<and> ov = 0 \<and>
    (if strategy = HASHMAP_UPDATE then err = - ENOENT \<and> m' = m
     else err = - ENOMEM \<and> mset (hm_entries m') = mset (hm_entries m) \<or>
          err = 0 \<and> mset (hm_entries m') = add_mset (key, val) (mset (hm_entries m)))"
proof -
  let ?h = "hash_bits (hash_fn key) (hm_cap_bits m)"
  from assms(2) find_entry_None [OF assms(1), of key]
  have n: "(if strategy \<noteq> HASHMAP_APPEND then hashmap_find_entry equal_fn m key ?h else None) = None"
    by auto
  show ?thesis
  proof (cases "strategy = HASHMAP_UPDATE")
    case True
    with assms n show ?thesis by (simp add: hashmap_insert_def)
  next
    case upd: False
    define grow where "grow = hashmap_needs_to_grow m"
    obtain e1 m1 where g: "(if grow then hashmap_grow hash_fn calloc_ok m else (0, m)) = (e1, m1)"
      by fastforce
    define h1 where "h1 = (if grow then hash_bits (hash_fn key) (hm_cap_bits m1) else ?h)"
    from assms(3) n upd have r: "(err, ok, ov, m') =
      (if e1 \<noteq> 0 then (e1, 0, 0, m1)
       else if \<not> malloc_ok then (- ENOMEM, 0, 0, m1)
       else (0, 0, 0, m1\<lparr>hm_buckets := map_option (hashmap_add_entry h1 (key, val)) (hm_buckets m1),
                         hm_sz := hm_sz m1 + 1\<rparr>))"
      unfolding hashmap_insert_def Let_def n grow_def [symmetric] g h1_def by simp
    show ?thesis
    proof (cases "e1 = 0")
      case False
      with g have "m1 = m" "e1 = - ENOMEM" by (auto split: if_splits dest: grow_err)
      with False r assms(1) upd show ?thesis by simp
    next
      case True
      have m1: "hm_wf hash_fn m1" "mset (hm_entries m1) = mset (hm_entries m)"
        "hm_buckets m1 \<noteq> None" "(hm_sz m1 + 1) * 4 div 3 \<le> hm_cap m1"
        "h1 = hash_bits (hash_fn key) (hm_cap_bits m1)"
        using g True grow_ok [OF assms(1), of calloc_ok m1] assms(1)
        by (auto simp: grow_def h1_def hashmap_needs_to_grow_def hm_wf_def split: if_splits option.splits)
      then obtain bs where b: "hm_buckets m1 = Some bs" by auto
      note c = cons_wf [OF m1(1) b m1(4,5), of val]
      show ?thesis
      proof (cases malloc_ok)
        case True
        with r \<open>e1 = 0\<close> b c upd m1(2) show ?thesis by (simp add: hm_entries_def)
      next
        case False
        with r \<open>e1 = 0\<close> m1 upd show ?thesis by simp
      qed
    qed
  qed
qed

lemma delete_spec:
  assumes "hm_wf hash_fn m" and "hashmap_delete hash_fn equal_fn key m = (r, m')"
  shows "hm_wf hash_fn m' \<and>
    (case r of
       None \<Rightarrow> m' = m \<and> (\<forall>e \<in># mset (hm_entries m). \<not> equal_fn (fst e) key)
     | Some e \<Rightarrow> e \<in># mset (hm_entries m) \<and> equal_fn (fst e) key \<and>
         mset (hm_entries m') = mset (hm_entries m) - {#e#})"
proof (cases "hashmap_find_entry equal_fn m key (hash_bits (hash_fn key) (hm_cap_bits m))")
  case None
  with assms find_entry_None [OF assms(1), of key] show ?thesis
    by (auto simp: hashmap_delete_def Let_def)
next
  case (Some p)
  let ?h = "hash_bits (hash_fn key) (hm_cap_bits m)"
  obtain i e where p: "hashmap_find_entry equal_fn m key ?h = Some (i, e)"
    using Some by (cases p) simp
  from find_entry_Some [OF assms(1) p] obtain bs where b: "hm_buckets m = Some bs"
    and e: "e \<in># mset (hm_entries m)" "equal_fn (fst e) key" "i < length (bs ! ?h)" "bs ! ?h ! i = e"
    by blast
  note w = hm_wf_Some [OF assms(1) b] and h = hash_in_bounds [OF assms(1) b, of "hash_fn key"]
  let ?bs = "hashmap_del_entry ?h i bs" and ?c = "take i (bs ! ?h) @ drop (Suc i) (bs ! ?h)"
  from assms(2) p b have r: "r = Some e"
    "m' = m\<lparr>hm_buckets := Some ?bs, hm_sz := hm_sz m - 1\<rparr>"
    by (auto simp: hashmap_delete_def Let_def)
  have "mset (bs ! ?h) = add_mset e (mset ?c)"
    using id_take_nth_drop [OF e(3)] e(4) by (metis mset_append mset.simps(2) union_mset_add_mset_right)
  with mset_concat_update [OF h, of ?c]
  have "add_mset e (mset (concat ?bs)) + mset ?c = mset (concat bs) + mset ?c"
    by (simp add: hashmap_del_entry_def)
  then have A: "add_mset e (mset (concat ?bs)) = mset (concat bs)" by (simp only: add_right_cancel)
  from arg_cong [OF A, of size] have "length (concat bs) = Suc (length (concat ?bs))"
    by (simp only: size_mset size_add_mset)
  moreover have "placed hash_fn (hm_cap_bits m) ?bs"
    unfolding hashmap_del_entry_def using w(5) h
    by (intro placed_update) (auto simp: placed_def dest: in_set_takeD in_set_dropD)
  moreover have "length ?bs = length bs" by (simp add: hashmap_del_entry_def)
  ultimately have "hm_wf hash_fn m'" using w unfolding r by (simp add: hm_wf_def)
  moreover have "mset (hm_entries m') = mset (hm_entries m) - {#e#}"
    unfolding r hm_entries_def b using A [symmetric] by simp
  ultimately show ?thesis using r e by simp
qed

lemma unique_add:
  assumes "unique_keys equal_fn M" and "\<forall>e \<in># M. \<not> equal_fn (fst e) key"
  shows "unique_keys equal_fn (add_mset (key, val) M)"
  unfolding unique_keys_def
proof
  fix k
  show "size (filter_mset (\<lambda>e. equal_fn (fst e) k) (add_mset (key, val) M)) \<le> 1"
  proof (cases "equal_fn key k")
    case True
    with assms(2) have "\<forall>e \<in># M. \<not> equal_fn (fst e) k" by (metis eq_sym eq_trans)
    then have "set_mset (filter_mset (\<lambda>e. equal_fn (fst e) k) M) = {}" by simp
    then have "filter_mset (\<lambda>e. equal_fn (fst e) k) M = {#}" by (simp only: set_mset_eq_empty_iff)
    then show ?thesis by (simp add: True)
  next
    case False
    then show ?thesis using assms(1) by (simp add: unique_keys_def)
  qed
qed

lemma unique_remove:
  assumes "unique_keys equal_fn M"
  shows "unique_keys equal_fn (M - {#e#})"
  unfolding unique_keys_def
proof
  fix k
  have "filter_mset (\<lambda>e. equal_fn (fst e) k) (M - {#e#}) \<subseteq>#
      filter_mset (\<lambda>e. equal_fn (fst e) k) M"
    by (intro multiset_filter_mono diff_subset_eq_self)
  with assms show "size (filter_mset (\<lambda>e. equal_fn (fst e) k) (M - {#e#})) \<le> 1"
    unfolding unique_keys_def using size_mset_mono by (meson le_trans)
qed

lemma removed_none:
  assumes "unique_keys equal_fn M" and "e \<in># M" and "equal_fn (fst e) key"
  shows "\<forall>e' \<in># M - {#e#}. \<not> equal_fn (fst e') key"
proof
  fix e'
  assume e': "e' \<in># M - {#e#}"
  from assms(2) obtain N where N: "M = add_mset e N" by (metis mset_add)
  have "size (filter_mset (\<lambda>e. equal_fn (fst e) key) (add_mset e N)) \<le> 1"
    using assms(1) unfolding N unique_keys_def by blast
  with assms(3) have "filter_mset (\<lambda>e. equal_fn (fst e) key) N = {#}" by simp
  moreover have "e' \<in># filter_mset (\<lambda>e. equal_fn (fst e) key) N" if "equal_fn (fst e') key"
    using e' N that by simp
  ultimately show "\<not> equal_fn (fst e') key" by (metis empty_not_add_mset mset_add)
qed

lemma bound_add:
  assumes "\<forall>e \<in># M. \<not> equal_fn (fst e) key"
  shows "bound equal_fn (add_mset (key, val) M) k v \<longleftrightarrow>
    (if equal_fn key k then v = val else bound equal_fn M k v)"
proof (cases "equal_fn key k")
  case True
  have "\<not> (equal_fn k0 k \<and> (k0, v) \<in># M)" for k0
    using bspec [OF assms, of "(k0, v)"] eq_trans [OF _ eq_sym [OF True], of k0] by auto
  with True show ?thesis by (auto simp: bound_def)
qed (auto simp: bound_def)

lemma bound_remove:
  assumes "unique_keys equal_fn M" and "e \<in># M" and "equal_fn (fst e) key"
  shows "bound equal_fn (M - {#e#}) k v \<longleftrightarrow> \<not> equal_fn key k \<and> bound equal_fn M k v"
proof (cases "equal_fn key k")
  case True
  have "\<not> (equal_fn k0 k \<and> (k0, v) \<in># M - {#e#})" for k0
    using bspec [OF removed_none [OF assms], of "(k0, v)"] eq_trans [OF _ eq_sym [OF True], of k0]
    by auto
  with True show ?thesis by (auto simp: bound_def)
next
  case False
  obtain N where N: "M = add_mset e N" using assms(2) by (metis mset_add)
  have "\<not> equal_fn (fst e) k" using False assms(3) by (metis eq_sym eq_trans)
  with False show ?thesis by (auto simp: bound_def N)
qed

lemma find_bound:
  "hm_wf hash_fn m \<Longrightarrow> hm_unique equal_fn m \<Longrightarrow>
   hashmap_find hash_fn equal_fn m key = Some v \<longleftrightarrow> bound equal_fn (mset (hm_entries m)) key v"
  by (simp add: find_iff bound_def)

lemma find_eqI:
  assumes "hm_wf hash_fn m" and "hm_unique equal_fn m"
    and "\<And>v. bound equal_fn (mset (hm_entries m)) key v \<longleftrightarrow> r = Some v"
  shows "hashmap_find hash_fn equal_fn m key = r"
  using find_bound [OF assms(1,2)] assms(3) by (metis not_Some_eq)

lemma find_None:
  assumes "hm_wf hash_fn m" and "hm_unique equal_fn m"
  shows "hashmap_find hash_fn equal_fn m key = None \<longleftrightarrow>
    \<not> (\<exists>e \<in># mset (hm_entries m). equal_fn (fst e) key)"
proof -
  have "(\<exists>v. bound equal_fn (mset (hm_entries m)) key v) \<longleftrightarrow>
      (\<exists>e \<in># mset (hm_entries m). equal_fn (fst e) key)"
    by (force simp: bound_def)
  then show ?thesis using find_bound [OF assms, of key] by (metis not_None_eq)
qed

text \<open>The operations against the map from keys to values.\<close>

lemma insert_spec:
  assumes wf: "hm_wf hash_fn m" and un: "hm_unique equal_fn m" and str: "strategy \<noteq> HASHMAP_APPEND"
    and ins: "hashmap_insert hash_fn equal_fn strategy calloc_ok malloc_ok key val m = (err, ok, ov, m')"
  shows "hm_wf hash_fn m' \<and> hm_unique equal_fn m' \<and>
    (\<forall>k. hashmap_find hash_fn equal_fn m' k =
       (if err = 0 \<and> equal_fn key k then Some val else hashmap_find hash_fn equal_fn m k)) \<and>
    (case hashmap_find hash_fn equal_fn m key of
       Some v \<Rightarrow> ov = v \<and> equal_fn ok key \<and> err = (if strategy = HASHMAP_ADD then - EEXIST else 0)
     | None \<Rightarrow> ok = 0 \<and> ov = 0 \<and>
         (if strategy = HASHMAP_UPDATE then err = - ENOENT else err = 0 \<or> err = - ENOMEM))"
proof (cases "\<exists>e \<in># mset (hm_entries m). equal_fn (fst e) key")
  case True
  let ?M = "mset (hm_entries m)"
  from insert_found [OF wf str True ins] have wf': "hm_wf hash_fn m'"
    and e: "(ok, ov) \<in># ?M" "equal_fn (fst (ok, ov)) key"
    and c: "if strategy = HASHMAP_ADD then err = - EEXIST \<and> m' = m
      else err = 0 \<and> mset (hm_entries m') = add_mset (key, val) (?M - {#(ok, ov)#})" by auto
  have f: "hashmap_find hash_fn equal_fn m key = Some ov"
    using find_iff [OF wf un, of key ov] e by auto
  show ?thesis
  proof (cases "strategy = HASHMAP_ADD")
    case True
    with c wf un f e show ?thesis by auto
  next
    case False
    with c have M': "mset (hm_entries m') = add_mset (key, val) (?M - {#(ok, ov)#})" and "err = 0"
      by auto
    have un0: "unique_keys equal_fn ?M" using un by (simp add: hm_unique_def)
    note none = removed_none [OF un0 e]
    have un': "hm_unique equal_fn m'"
      unfolding hm_unique_def M' by (rule unique_add [OF unique_remove [OF un0] none])
    have "hashmap_find hash_fn equal_fn m' k =
        (if equal_fn key k then Some val else hashmap_find hash_fn equal_fn m k)" for k
      by (rule find_eqI [OF wf' un'])
        (auto simp: M' bound_add [OF none] bound_remove [OF un0 e] find_bound [OF wf un])
    with wf' un' f e False \<open>err = 0\<close> show ?thesis by auto
  qed
next
  case False
  let ?M = "mset (hm_entries m)"
  from insert_fresh [OF wf _ ins] False have wf': "hm_wf hash_fn m'" and z: "ok = 0" "ov = 0"
    and c: "if strategy = HASHMAP_UPDATE then err = - ENOENT \<and> m' = m
     else err = - ENOMEM \<and> mset (hm_entries m') = ?M \<or>
          err = 0 \<and> mset (hm_entries m') = add_mset (key, val) ?M" by auto
  have f: "hashmap_find hash_fn equal_fn m key = None" using find_None [OF wf un] False by simp
  have un0: "unique_keys equal_fn ?M" using un by (simp add: hm_unique_def)
  have none: "\<forall>e \<in># ?M. \<not> equal_fn (fst e) key" using False by blast
  consider (upd) "strategy = HASHMAP_UPDATE" | (mem) "strategy \<noteq> HASHMAP_UPDATE" "err = - ENOMEM"
      "mset (hm_entries m') = ?M" | (new) "strategy \<noteq> HASHMAP_UPDATE" "err = 0"
      "mset (hm_entries m') = add_mset (key, val) ?M"
    using c by (auto split: if_splits)
  then show ?thesis
  proof cases
    case upd
    with c wf un f z show ?thesis by simp
  next
    case mem
    then have un': "hm_unique equal_fn m'" using un by (simp add: hm_unique_def)
    have "hashmap_find hash_fn equal_fn m' k = hashmap_find hash_fn equal_fn m k" for k
      by (rule find_eqI [OF wf' un']) (simp add: mem find_bound [OF wf un])
    with wf' un' f z mem show ?thesis by simp
  next
    case new
    then have un': "hm_unique equal_fn m'" using unique_add [OF un0 none] by (simp add: hm_unique_def)
    have "hashmap_find hash_fn equal_fn m' k =
        (if equal_fn key k then Some val else hashmap_find hash_fn equal_fn m k)" for k
      by (rule find_eqI [OF wf' un']) (auto simp: new bound_add [OF none] find_bound [OF wf un])
    with wf' un' f z new show ?thesis by simp
  qed
qed

lemma delete_map:
  assumes wf: "hm_wf hash_fn m" and un: "hm_unique equal_fn m"
    and del: "hashmap_delete hash_fn equal_fn key m = (r, m')"
  shows "hm_wf hash_fn m' \<and> hm_unique equal_fn m' \<and>
    map_option snd r = hashmap_find hash_fn equal_fn m key \<and>
    (\<forall>k. hashmap_find hash_fn equal_fn m' k =
       (if equal_fn key k then None else hashmap_find hash_fn equal_fn m k))"
proof (cases r)
  case None
  with delete_spec [OF wf del] have m': "m' = m"
    and none: "\<forall>e \<in># mset (hm_entries m). \<not> equal_fn (fst e) key" by auto
  have "hashmap_find hash_fn equal_fn m k = None" if "equal_fn key k" for k
    using none that find_None [OF wf un, of k] by (metis eq_sym eq_trans)
  with m' wf un None eq_refl show ?thesis by auto
next
  case (Some e)
  let ?M = "mset (hm_entries m)"
  from delete_spec [OF wf del] Some have wf': "hm_wf hash_fn m'"
    and e: "e \<in># ?M" "equal_fn (fst e) key" and M': "mset (hm_entries m') = ?M - {#e#}" by auto
  have un0: "unique_keys equal_fn ?M" using un by (simp add: hm_unique_def)
  have un': "hm_unique equal_fn m'" unfolding hm_unique_def M' by (rule unique_remove [OF un0])
  have "hashmap_find hash_fn equal_fn m' k =
      (if equal_fn key k then None else hashmap_find hash_fn equal_fn m k)" for k
    by (rule find_eqI [OF wf' un']) (simp add: M' bound_remove [OF un0 e] find_bound [OF wf un])
  moreover have "hashmap_find hash_fn equal_fn m key = Some (snd e)"
    using find_iff [OF wf un, of key "snd e"] e by (metis prod.collapse)
  ultimately show ?thesis using wf' un' Some by simp
qed

end

section \<open>Appending and growing\<close>

definition append_all :: "(u64 \<Rightarrow> u64) \<Rightarrow> (u64 \<Rightarrow> u64 \<Rightarrow> bool) \<Rightarrow> entry list \<Rightarrow> hashmap \<Rightarrow> hashmap" where
  "append_all hash_fn equal_fn es m =
     fold (\<lambda>e m. snd (snd (snd (hashmap_insert hash_fn equal_fn HASHMAP_APPEND True True
       (fst e) (snd e) m)))) es m"

text \<open>The functions of the BTF deduplication that use the map with integer keys.\<close>

definition btf_dedup_identity_hash_fn :: "u64 \<Rightarrow> u64" where
  "btf_dedup_identity_hash_fn key = key"

definition btf_dedup_collision_hash_fn :: "u64 \<Rightarrow> u64" where
  "btf_dedup_collision_hash_fn key = 0"

definition btf_dedup_equal_fn :: "u64 \<Rightarrow> u64 \<Rightarrow> bool" where
  "btf_dedup_equal_fn k1 k2 \<longleftrightarrow> k1 = k2"

interpretation dedup: hash_contract btf_dedup_identity_hash_fn btf_dedup_equal_fn
  by unfold_locales (simp_all add: btf_dedup_equal_fn_def)

interpretation dedup_coll: hash_contract btf_dedup_collision_hash_fn btf_dedup_equal_fn
  by unfold_locales (simp_all add: btf_dedup_equal_fn_def btf_dedup_collision_hash_fn_def)

lemma hash_bits_0 [simp]: "hash_bits 0 b = 0"
  by (simp add: hash_bits_def)

lemma replicate_4_8:
  "replicate 4 x = [x, x, x, x]" "replicate 8 x = [x, x, x, x, x, x, x, x]"
  by (simp_all add: eval_nat_numeral)

lemma init_ok: "hm_wf hf hashmap__init" "hm_unique eq hashmap__init"
  by (simp_all add: hm_wf_def hm_unique_def unique_keys_def hm_entries_def hashmap__init_def)

section \<open>Properties\<close>


definition demo_map :: hashmap where
  "demo_map = snd (snd (snd (hashmap_insert btf_dedup_identity_hash_fn btf_dedup_equal_fn
     HASHMAP_ADD True True 7 70 hashmap__init)))"

lemma demo_map_ok:
  "hm_wf btf_dedup_identity_hash_fn demo_map \<and> hm_unique btf_dedup_equal_fn demo_map \<and>
   hashmap_find btf_dedup_identity_hash_fn btf_dedup_equal_fn demo_map 7 = Some 70"
proof -
  obtain err ok ov where i: "hashmap_insert btf_dedup_identity_hash_fn btf_dedup_equal_fn
     HASHMAP_ADD True True 7 70 hashmap__init = (err, ok, ov, demo_map)"
    unfolding demo_map_def by (metis prod.collapse)
  have "err = 0"
    using i by (simp add: hashmap_insert_def hashmap__init_def hashmap_find_entry_def
        hashmap_needs_to_grow_def hashmap_grow_def calloc_succeeds_def HASHMAP_MIN_CAP_BITS_def)
  with dedup.insert_spec [OF init_ok _ i] show ?thesis by (simp add: btf_dedup_equal_fn_def)
qed


text \<open>C20: deleting a key returns its entry, removes exactly the key's class from the lookup and
  keeps the map well-formed; a key that is not there changes nothing.\<close>

theorem hashmap_delete_refines_map:
  assumes "hash_contract hf eq" and "hm_wf hf m" and "hm_unique eq m"
    and "hashmap_delete hf eq key m = (r, m')"
  shows "hm_wf hf m' \<and> hm_unique eq m' \<and> map_option snd r = hashmap_find hf eq m key \<and>
    (\<forall>k. hashmap_find hf eq m' k = (if eq key k then None else hashmap_find hf eq m k))"
  by (rule hash_contract.delete_map [OF assms])

theorem hashmap_delete_refines_map_witness:
  "\<exists>r m'. hashmap_delete btf_dedup_identity_hash_fn btf_dedup_equal_fn 7 demo_map = (r, m') \<and>
     map_option snd r = Some 70 \<and>
     hashmap_find btf_dedup_identity_hash_fn btf_dedup_equal_fn m' 7 = None"
proof -
  obtain r m' where d: "hashmap_delete btf_dedup_identity_hash_fn btf_dedup_equal_fn 7 demo_map = (r, m')"
    by (metis prod.collapse)
  with hashmap_delete_refines_map [OF dedup.hash_contract_axioms _ _ d] demo_map_ok
  show ?thesis by (auto simp: btf_dedup_equal_fn_def)
qed

text \<open>With APPEND, a lookup returns the value appended last only until the map grows:
  growing reverses every chain, and the value appended first is found from then on.\<close>

theorem hashmap_append_grow_reverses:
  "hashmap_find btf_dedup_collision_hash_fn btf_dedup_equal_fn
     (append_all btf_dedup_collision_hash_fn btf_dedup_equal_fn
        [(1, 10), (1, 20), (2, 30)] hashmap__init) 1 = Some 20 \<and>
   hashmap_find btf_dedup_collision_hash_fn btf_dedup_equal_fn
     (append_all btf_dedup_collision_hash_fn btf_dedup_equal_fn
        [(1, 10), (1, 20), (2, 30), (3, 40)] hashmap__init) 1 = Some 10"
  by (simp add: append_all_def hashmap_insert_def hashmap__init_def hashmap_find_def
      hashmap_find_entry_def hashmap_needs_to_grow_def hashmap_grow_def calloc_succeeds_def
      HASHMAP_MIN_CAP_BITS_def btf_dedup_collision_hash_fn_def btf_dedup_equal_fn_def
      hm_entries_def rehash_def hashmap_add_entry_def replicate_4_8 Let_def)

end
