(* ===== verification/Bytes.thy ===== *)
theory Bytes
  imports Prelude
begin

text \<open>
  Memory as a list of bytes: little endian reads, which are \<open>None\<close> outside the buffer, and
  the copy \<^verbatim>\<open>memcpy\<close>. The netlink, zip, ring buffer and BTF readers of libbpf are built on it.
\<close>

section \<open>Little endian numbers\<close>

fun le_val :: "8 word list \<Rightarrow> nat" where
  "le_val [] = 0"
| "le_val (b # bs) = unat b + 256 * le_val bs"

fun le_bytes :: "nat \<Rightarrow> nat \<Rightarrow> 8 word list" where
  "le_bytes 0 n = []"
| "le_bytes (Suc k) n = of_nat n # le_bytes k (n div 256)"

lemma length_le_bytes [simp]: "length (le_bytes k n) = k"
  by (induction k arbitrary: n) auto

lemma le_bytes_zero: "le_bytes k 0 = replicate k 0"
  by (induction k) auto

lemma unat_byte: "unat (of_nat n :: 8 word) = n mod 256"
  by (simp add: unat_of_nat)

lemma le_val_le_bytes_mod: "le_val (le_bytes k n) = n mod 256 ^ k"
proof (induction k arbitrary: n)
  case (Suc k)
  have "le_val (le_bytes (Suc k) n) = n mod 256 + 256 * (n div 256 mod 256 ^ k)"
    by (simp add: Suc unat_byte)
  also have "\<dots> = n mod (256 * 256 ^ k)" by (simp add: mod_mult2_eq)
  finally show ?case by simp
qed simp

lemma le_val_le_bytes [bytes_simps]: "n < 256 ^ k \<Longrightarrow> le_val (le_bytes k n) = n"
  by (simp add: le_val_le_bytes_mod)

lemma le_val_less: "le_val bs < 256 ^ length bs"
proof (induction bs)
  case (Cons b bs)
  have "unat b < 256" using unat_less [of b] by simp
  with Cons show ?case by simp
qed simp

lemma le_bytes_le_val: "length bs = k \<Longrightarrow> le_bytes k (le_val bs) = bs"
proof (induction bs arbitrary: k)
  case (Cons b bs)
  have z: "(256 :: 8 word) = 0" by (simp add: word_uint_eq_iff)
  have "(of_nat (unat b + 256 * le_val bs) :: 8 word) = b + 256 * of_nat (le_val bs)" by simp
  then have "(of_nat (unat b + 256 * le_val bs) :: 8 word) = b" by (simp only: z mult_zero_left add_0_right)
  moreover have "(unat b + 256 * le_val bs) div 256 = le_val bs" using unat_less [of b] by simp
  ultimately show ?case using Cons by (cases k) simp_all
qed simp

section \<open>Reads and writes\<close>

definition rd :: "nat \<Rightarrow> 8 word list \<Rightarrow> nat \<Rightarrow> nat option" where
  "rd k buf off = (if off + k \<le> length buf then Some (le_val (take k (drop off buf))) else None)"

text \<open>\<^verbatim>\<open>memcpy\<close> of \<open>src\<close> to offset \<open>p\<close>.\<close>

definition memcpy :: "nat \<Rightarrow> 8 word list \<Rightarrow> 8 word list \<Rightarrow> 8 word list" where
  "memcpy p src dst = take p dst @ src @ drop (p + length src) dst"

lemma length_memcpy [simp]: "p + length src \<le> length dst \<Longrightarrow> length (memcpy p src dst) = length dst"
  by (simp add: memcpy_def)

lemma take_memcpy: "n \<le> p \<Longrightarrow> p \<le> length dst \<Longrightarrow> take n (memcpy p src dst) = take n dst"
  by (simp add: memcpy_def)

lemma drop_memcpy:
  "p + length src \<le> n \<Longrightarrow> p + length src \<le> length dst \<Longrightarrow> drop n (memcpy p src dst) = drop n dst"
  by (simp add: memcpy_def add.commute)

lemma rd_Some: "rd k buf off = Some v \<Longrightarrow> off + k \<le> length buf \<and> v < 256 ^ k"
proof -
  assume "rd k buf off = Some v"
  then have "off + k \<le> length buf" and v: "v = le_val (take k (drop off buf))"
    by (auto simp: rd_def split: if_splits)
  moreover from this have "length (take k (drop off buf)) = k" by simp
  ultimately show ?thesis using le_val_less [of "take k (drop off buf)"] by simp
qed

lemma rd_None: "rd k buf off = None \<longleftrightarrow> length buf < off + k"
  by (auto simp: rd_def)

lemma rd_append [bytes_simps]: "rd k (pre @ rest) (length pre + off) = rd k rest off"
  by (simp add: rd_def add.assoc)

lemma rd_append0 [bytes_simps]: "rd k (pre @ rest) (length pre) = rd k rest 0"
  using rd_append [of k pre rest 0] by simp

lemma rd_le_bytes [bytes_simps]:
  "n < 256 ^ k \<Longrightarrow> rd k (le_bytes k n @ rest) 0 = Some n"
  by (simp add: rd_def le_val_le_bytes)

lemma rd_skip [bytes_simps]:
  "length pre \<le> off \<Longrightarrow> rd k (pre @ rest) off = rd k rest (off - length pre)"
  by (auto simp: rd_def)

lemma rd_prefix [bytes_simps]: "off + k \<le> length pre \<Longrightarrow> rd k (pre @ rest) off = rd k pre off"
  by (simp add: rd_def)

lemma rd_memcpy_same:
  assumes "p + k \<le> length m" and "n < 256 ^ k"
  shows "rd k (memcpy p (le_bytes k n) m) p = Some n"
proof -
  have "length (take p m) = p" using assms by simp
  then have "rd k (memcpy p (le_bytes k n) m) p = rd k (le_bytes k n @ drop (p + k) m) 0"
    using rd_append0 [of k "take p m"] by (simp add: memcpy_def)
  with assms show ?thesis by (simp add: rd_le_bytes)
qed

lemma rd_memcpy_before:
  assumes "off + k \<le> p" and "p + length src \<le> length m"
  shows "rd k (memcpy p src m) off = rd k m off"
proof -
  have "take k (drop off (memcpy p src m)) = take k (drop off m)"
    using take_memcpy [of "off + k" p m src] assms by (metis add.commute add_leD1 le_trans take_drop)
  with assms show ?thesis by (simp add: rd_def)
qed

lemma rd_memcpy_after:
  assumes "p + length src \<le> off" and "p + length src \<le> length m"
  shows "rd k (memcpy p src m) off = rd k m off"
  using drop_memcpy [OF assms] assms by (simp add: rd_def)

section \<open>Alignment\<close>

definition align4 :: "nat \<Rightarrow> nat" where "align4 n = (n + 3) div 4 * 4"

lemma align4_ge: "n \<le> align4 n" and align4_less: "align4 n < n + 4" and align4_dvd: "4 dvd align4 n"
  by (auto simp: align4_def)

lemma align4_mono: "a \<le> b \<Longrightarrow> align4 a \<le> align4 b"
  by (simp add: align4_def div_le_mono)

lemma align4_id: "4 dvd n \<Longrightarrow> align4 n = n"
  by (auto simp: align4_def)

lemma align4_align4 [simp]: "align4 (align4 n) = align4 n"
  by (rule align4_id) (rule align4_dvd)

end
