(* ===== verification/StrSet.thy ===== *)
theory StrSet
  imports Hashmap Bytes
begin

text \<open>
  The set of strings of libbpf, \<^verbatim>\<open>libbpf/src/strset.c\<close>, and the growing buffer
  \<^verbatim>\<open>libbpf_add_mem\<close> of \<^verbatim>\<open>libbpf/src/btf.c\<close> it uses. The set is a client of the hash map: its keys
  are offsets into the string data, and the hash and equality functions read the strings
  there. A set is only used for at most \<open>2 ^ 31 - 1\<close> bytes of strings
  (\<^verbatim>\<open>BTF_MAX_STR_OFFSET\<close>), so an offset fits the \<^verbatim>\<open>int\<close> result.
\<close>

section \<open>C strings in a buffer\<close>

definition str_at :: "8 word list \<Rightarrow> nat \<Rightarrow> 8 word list" where
  "str_at data off = takeWhile (\<lambda>c. c \<noteq> 0) (drop off data)"

definition strset_hash_fn :: "8 word list \<Rightarrow> u64 \<Rightarrow> u64" where
  "strset_hash_fn data key = str_hash (drop (unat key) data)"

definition strset_equal_fn :: "8 word list \<Rightarrow> u64 \<Rightarrow> u64 \<Rightarrow> bool" where
  "strset_equal_fn data key1 key2 \<longleftrightarrow> str_at data (unat key1) = str_at data (unat key2)"

lemma str_hash_from_takeWhile: "str_hash_from h s = str_hash_from h (takeWhile (\<lambda>c. c \<noteq> 0) s)"
  by (induction s arbitrary: h) auto

lemma hash_str_at: "strset_hash_fn data key = str_hash (str_at data (unat key))"
  unfolding strset_hash_fn_def str_hash_def str_at_def by (rule str_hash_from_takeWhile)

lemma strset_contract: "hash_contract (strset_hash_fn data) (strset_equal_fn data)"
  by unfold_locales (simp_all add: strset_equal_fn_def hash_str_at)

interpretation strs: hash_contract "strset_hash_fn data" "strset_equal_fn data" for data
  by (rule strset_contract)

section \<open>The growing buffer\<close>

text \<open>The result: the offset of the unused memory, the buffer and its capacity; \<open>realloc_ok\<close>
  is whether \<^verbatim>\<open>libbpf_reallocarray\<close> succeeds.\<close>

definition libbpf_add_mem :: "bool \<Rightarrow> 8 word list \<Rightarrow> nat \<Rightarrow> nat \<Rightarrow> nat \<Rightarrow> nat \<Rightarrow> nat \<Rightarrow>
    (nat \<times> 8 word list \<times> nat) option" where
  "libbpf_add_mem realloc_ok data cap_cnt elem_sz cur_cnt max_cnt add_cnt =
     (if cur_cnt + add_cnt \<le> cap_cnt then Some (cur_cnt * elem_sz, data, cap_cnt)
      else if cur_cnt + add_cnt > max_cnt then None
      else let n1 = cap_cnt + cap_cnt div 4;
               n2 = (if n1 < 16 then 16 else n1);
               n3 = (if n2 > max_cnt then max_cnt else n2);
               new_cnt = (if n3 < cur_cnt + add_cnt then cur_cnt + add_cnt else n3)
           in if \<not> realloc_ok then None
              else Some (cur_cnt * elem_sz,
                         data @ replicate ((new_cnt - cap_cnt) * elem_sz) 0, new_cnt))"

lemma libbpf_add_mem_ok:
  assumes "libbpf_add_mem ok data cap sz cur mx add = Some (off, data', cap')"
    and "length data = cap * sz" and "cur \<le> cap"
  shows "off = cur * sz \<and> length data' = cap' * sz \<and> cur + add \<le> cap' \<and> cap \<le> cap' \<and>
    cap' \<le> max cap mx \<and> (\<exists>z. data' = data @ z)"
proof (cases "cur + add \<le> cap")
  case True
  with assms show ?thesis by (auto simp: libbpf_add_mem_def)
next
  case False
  define n where "n = (let n1 = cap + cap div 4; n2 = (if n1 < 16 then 16 else n1);
      n3 = (if n2 > mx then mx else n2) in if n3 < cur + add then cur + add else n3)"
  from False assms(1) have r: "cur + add \<le> mx" "off = cur * sz" "cap' = n"
      "data' = data @ replicate ((n - cap) * sz) 0"
    by (auto simp: libbpf_add_mem_def n_def Let_def split: if_splits)
  have n: "cur + add \<le> n" "n \<le> mx" using r(1) by (auto simp: n_def Let_def)
  with False assms(2) have "length data' = n * sz"
    by (simp add: r(4) add_mult_distrib [symmetric])
  with r n False show ?thesis by auto
qed

section \<open>The set\<close>

record strset =
  strs_data :: "8 word list"
  strs_data_len :: nat
  strs_data_cap :: nat
  strs_data_max_len :: nat
  strs_hash :: hashmap

definition strset_add_str_mem :: "bool \<Rightarrow> strset \<Rightarrow> nat \<Rightarrow> (nat \<times> strset) option" where
  "strset_add_str_mem realloc_ok st add_sz =
     (case libbpf_add_mem realloc_ok (strs_data st) (strs_data_cap st) 1
             (strs_data_len st) (strs_data_max_len st) add_sz of
        None \<Rightarrow> None
      | Some (p, data, cap) \<Rightarrow> Some (p, st\<lparr>strs_data := data, strs_data_cap := cap\<rparr>))"

definition strset__find_str :: "bool \<Rightarrow> strset \<Rightarrow> 8 word list \<Rightarrow> int \<times> strset" where
  "strset__find_str realloc_ok st s =
     (let len = length s + 1
      in case strset_add_str_mem realloc_ok st len of
           None \<Rightarrow> (- ENOMEM, st)
         | Some (p, set1) \<Rightarrow>
             (let new_off = of_nat (strs_data_len set1);
                  set2 = set1\<lparr>strs_data := memcpy p (s @ [0]) (strs_data set1)\<rparr>
              in case hashmap_find (strset_hash_fn (strs_data set2)) (strset_equal_fn (strs_data set2))
                        (strs_hash set2) new_off of
                   Some old_off \<Rightarrow> (int (unat old_off), set2)
                 | None \<Rightarrow> (- ENOENT, set2)))"

definition strset__add_str :: "bool \<Rightarrow> bool \<Rightarrow> bool \<Rightarrow> strset \<Rightarrow> 8 word list \<Rightarrow> int \<times> strset" where
  "strset__add_str realloc_ok calloc_ok malloc_ok st s =
     (let len = length s + 1
      in case strset_add_str_mem realloc_ok st len of
           None \<Rightarrow> (- ENOMEM, st)
         | Some (p, set1) \<Rightarrow>
             (let new_off = strs_data_len set1;
                  set2 = set1\<lparr>strs_data := memcpy p (s @ [0]) (strs_data set1)\<rparr>;
                  (err, old_off, _, hash) =
                    hashmap_insert (strset_hash_fn (strs_data set2)) (strset_equal_fn (strs_data set2))
                      HASHMAP_ADD calloc_ok malloc_ok (of_nat new_off) (of_nat new_off) (strs_hash set2);
                  set3 = set2\<lparr>strs_hash := hash\<rparr>
              in if err = - EEXIST then (int (unat old_off), set3)
                 else if err \<noteq> 0 then (err, set3)
                 else (int new_off, set3\<lparr>strs_data_len := strs_data_len set3 + len\<rparr>)))"

text \<open>The loop over initial data; \<open>alloc off\<close> are the results of the allocations of one insertion.\<close>

function strset_init_loop :: "(nat \<Rightarrow> bool \<times> bool) \<Rightarrow> 8 word list \<Rightarrow> nat \<Rightarrow> hashmap \<Rightarrow> int \<times> hashmap" where
  "strset_init_loop alloc data off hash =
     (if off < length data
      then let (err, _, _, hash') =
             hashmap_insert (strset_hash_fn data) (strset_equal_fn data) HASHMAP_ADD
               (fst (alloc off)) (snd (alloc off)) (of_nat off) (of_nat off) hash
           in if err = - EEXIST \<or> err = 0
              then strset_init_loop alloc data (off + length (str_at data off) + 1) hash'
              else (err, hash')
      else (0, hash))"
  by auto
termination by (relation "measure (\<lambda>(_, data, off, _). length data - off)") auto

declare strset_init_loop.simps [simp del]

definition strset__new :: "bool \<Rightarrow> bool \<Rightarrow> bool \<Rightarrow> (nat \<Rightarrow> bool \<times> bool) \<Rightarrow> nat \<Rightarrow>
    8 word list option \<Rightarrow> int + strset" where
  "strset__new calloc_ok hash_ok malloc_ok alloc max_data_sz init_data =
     (if \<not> calloc_ok then Inl (- ENOMEM)
      else case hashmap__new hash_ok of
             Inl e \<Rightarrow> Inl (- ENOMEM)
           | Inr hash \<Rightarrow>
               (let st = \<lparr>strs_data = [], strs_data_len = 0, strs_data_cap = 0,
                           strs_data_max_len = max_data_sz, strs_hash = hash\<rparr>
                in case init_data of
                     None \<Rightarrow> Inr st
                   | Some d \<Rightarrow>
                       if \<not> malloc_ok then Inl (- ENOMEM)
                       else let (err, hash') = strset_init_loop alloc d 0 hash
                            in if err \<noteq> 0 then Inl err
                               else Inr (st\<lparr>strs_data := d, strs_data_len := length d,
                                              strs_data_cap := length d, strs_hash := hash'\<rparr>)))"

section \<open>Invariant\<close>

text \<open>Every entry of the map is an offset that stands for itself and whose string ends before
  the end of the data in use.\<close>

definition entries_ok :: "8 word list \<Rightarrow> nat \<Rightarrow> hashmap \<Rightarrow> bool" where
  "entries_ok data len m \<longleftrightarrow>
     (\<forall>(k, v) \<in> set (hm_entries m). v = k \<and> unat k + length (str_at data (unat k)) < len)"

definition strset_ok :: "strset \<Rightarrow> bool" where
  "strset_ok s \<longleftrightarrow> length (strs_data s) = strs_data_cap s \<and> strs_data_len s \<le> strs_data_cap s \<and>
     strs_data_cap s < 2 ^ 63 \<and> strs_data_max_len s < 2 ^ 63 \<and>
     hm_wf (strset_hash_fn (strs_data s)) (strs_hash s) \<and>
     hm_unique (strset_equal_fn (strs_data s)) (strs_hash s) \<and>
     entries_ok (strs_data s) (strs_data_len s) (strs_hash s)"

text \<open>The abstract value: which string is at which offset.\<close>

definition strset_has :: "strset \<Rightarrow> 8 word list \<Rightarrow> nat \<Rightarrow> bool" where
  "strset_has s str off \<longleftrightarrow>
     (\<exists>k. (k, k) \<in> set (hm_entries (strs_hash s)) \<and> unat k = off \<and> str_at (strs_data s) off = str)"

text \<open>A string that ends inside a prefix only depends on the prefix.\<close>

lemma takeWhile_prefix:
  "length (takeWhile P (xs @ ys)) < length xs \<Longrightarrow> takeWhile P (xs @ ys) = takeWhile P xs"
  by (induction xs) auto

lemma takeWhile_stops:
  "length (takeWhile P xs) < length xs \<Longrightarrow> takeWhile P (xs @ ys) = takeWhile P xs"
  by (induction xs) auto

lemma takeWhile_NUL: "0 \<notin> set s \<Longrightarrow> takeWhile (\<lambda>c. c \<noteq> 0) (s @ (0 :: 8 word) # r) = s"
  by (induction s) auto

lemma str_at_prefix:
  assumes "off + length (str_at data off) < len" and "take len data' = take len data"
    and "len \<le> length data"
  shows "str_at data' off = str_at data off"
proof -
  have split: "drop off d = take (len - off) (drop off d) @ drop (len - off) (drop off d)" for d :: "8 word list"
    by (simp only: append_take_drop_id)
  have pre: "take (len - off) (drop off data') = take (len - off) (drop off data)"
    using assms(2) by (metis drop_take)
  let ?p = "take (len - off) (drop off data)"
  have len_p: "length ?p = len - off" using assms(3) by simp
  have "str_at data off = takeWhile (\<lambda>c. c \<noteq> 0) (?p @ drop (len - off) (drop off data))"
    by (simp only: str_at_def append_take_drop_id)
  note e = this
  have "length (takeWhile (\<lambda>c. c \<noteq> 0) (?p @ drop (len - off) (drop off data))) < length ?p"
    using assms(1) len_p unfolding e [symmetric] by linarith
  note tp = takeWhile_prefix [OF this] and l' = this
  have a: "str_at data off = takeWhile (\<lambda>c. c \<noteq> 0) ?p" unfolding e by (rule tp)
  have l: "length (takeWhile (\<lambda>c. c \<noteq> 0) ?p) < length ?p" using l' unfolding tp .
  have "str_at data' off = takeWhile (\<lambda>c. c \<noteq> 0) (?p @ drop (len - off) (drop off data'))"
    unfolding str_at_def by (subst split) (simp only: pre)
  also have "\<dots> = takeWhile (\<lambda>c. c \<noteq> 0) ?p"
    using l by (rule takeWhile_stops)
  finally show ?thesis using a by simp
qed

lemma unique_strset:
  assumes "\<And>k k'. k \<in># image_mset fst M \<Longrightarrow> k' \<in># image_mset fst M \<Longrightarrow>
      str_at d (unat k) = str_at d (unat k') \<Longrightarrow> str_at d' (unat k) = str_at d' (unat k')"
    and "unique_keys (strset_equal_fn d') M"
  shows "unique_keys (strset_equal_fn d) M"
  unfolding unique_keys_def
proof
  fix k
  let ?F = "\<lambda>d k. filter_mset (\<lambda>e. strset_equal_fn d (fst e) k) M"
  show "size (?F d k) \<le> 1"
  proof (cases "?F d k = {#}")
    case False
    then obtain e where e: "e \<in># ?F d k" by (meson multiset_nonemptyE)
    have "?F d k \<subseteq># ?F d' (fst e)"
    proof (rule filter_mset_mono_strong)
      show "strset_equal_fn d' (fst x) (fst e)" if "x \<in># M" "strset_equal_fn d (fst x) k" for x
        using assms(1) [of "fst x" "fst e"] that e by (auto simp: strset_equal_fn_def)
    qed simp
    then have "size (?F d k) \<le> size (?F d' (fst e))" by (rule size_mset_mono)
    also have "\<dots> \<le> 1" using assms(2) by (simp add: unique_keys_def)
    finally show ?thesis .
  next
    case True
    then show ?thesis by (simp only: size_empty)
  qed
qed

lemma entries_str_at:
  assumes "entries_ok d len m" and "(k, v) \<in> set (hm_entries m)"
    and "take len d' = take len d" and "len \<le> length d"
  shows "v = k \<and> unat k < len \<and> str_at d' (unat k) = str_at d (unat k)"
  using assms(1,2) str_at_prefix [OF _ assms(3,4), of "unat k"] by (auto simp: entries_ok_def)

text \<open>Bytes behind the data in use do not matter.\<close>

lemma strset_data_ok:
  assumes "strset_ok s" and "take (strs_data_len s) d' = take (strs_data_len s) (strs_data s)"
    and "strs_data_len s \<le> length d'" and "length d' < 2 ^ 63"
  shows "strset_ok (s\<lparr>strs_data := d', strs_data_cap := length d'\<rparr>)"
    and "strset_has (s\<lparr>strs_data := d', strs_data_cap := length d'\<rparr>) = strset_has s"
proof -
  let ?m = "strs_hash s" and ?d = "strs_data s" and ?l = "strs_data_len s"
  have ok: "entries_ok ?d ?l ?m" and len: "?l \<le> length ?d" using assms(1) by (auto simp: strset_ok_def)
  have same: "str_at d' (unat k) = str_at ?d (unat k)" if "(k, v) \<in> set (hm_entries ?m)" for k v
    using entries_str_at [OF ok that assms(2) len] by simp
  have "strset_hash_fn ?d (fst e) = strset_hash_fn d' (fst e)" if "e \<in> set (hm_entries ?m)" for e
    using same [of "fst e" "snd e"] that by (simp add: hash_str_at)
  note hash = this
  have "hm_wf (strset_hash_fn ?d) ?m" using assms(1) by (simp add: strset_ok_def)
  then have "hm_wf (strset_hash_fn d') ?m" by (rule hm_wf_cong) (rule hash)
  moreover have "hm_unique (strset_equal_fn d') ?m"
    unfolding hm_unique_def
  proof (rule unique_strset [where d' = ?d])
    fix k k'
    assume "k \<in># image_mset fst (mset (hm_entries ?m))" "k' \<in># image_mset fst (mset (hm_entries ?m))"
      and eq: "str_at d' (unat k) = str_at d' (unat k')"
    then obtain v v' where "(k, v) \<in> set (hm_entries ?m)" "(k', v') \<in> set (hm_entries ?m)" by auto
    with same [of k v] same [of k' v'] eq show "str_at ?d (unat k) = str_at ?d (unat k')" by simp
  next
    show "unique_keys (strset_equal_fn ?d) (mset (hm_entries ?m))"
      using assms(1) by (simp add: strset_ok_def hm_unique_def)
  qed
  moreover have "entries_ok d' ?l ?m"
    unfolding entries_ok_def
  proof (intro ballI, clarify)
    fix k v
    assume kv: "(k, v) \<in> set (hm_entries ?m)"
    from bspec [OF ok [unfolded entries_ok_def] kv] same [OF kv]
    show "v = k \<and> unat k + length (str_at d' (unat k)) < ?l" by simp
  qed
  ultimately show "strset_ok (s\<lparr>strs_data := d', strs_data_cap := length d'\<rparr>)"
    using assms(1,3,4) by (simp add: strset_ok_def)
  show "strset_has (s\<lparr>strs_data := d', strs_data_cap := length d'\<rparr>) = strset_has s"
    unfolding strset_has_def using same by (intro ext) (simp, metis)
qed

lemma strset_has_unique:
  assumes "strset_ok s" and "strset_has s str a" and "strset_has s str b"
  shows "a = b"
proof -
  from assms(2,3) obtain j k where jk: "(j, j) \<in># mset (hm_entries (strs_hash s))"
    "(k, k) \<in># mset (hm_entries (strs_hash s))" "unat j = a" "unat k = b"
    "str_at (strs_data s) (unat j) = str" "str_at (strs_data s) (unat k) = str"
    by (auto simp: strset_has_def)
  have "size (filter_mset (\<lambda>e. strset_equal_fn (strs_data s) (fst e) j) (mset (hm_entries (strs_hash s)))) \<le> 1"
    using assms(1) by (simp add: strset_ok_def hm_unique_def unique_keys_def)
  then have "(j, j) = (k, k)"
    by (rule mset_le1) (use jk in \<open>simp_all add: strset_equal_fn_def\<close>)
  with jk show ?thesis by simp
qed

text \<open>The buffer with the string copied behind the data in use.\<close>

lemma add_str_mem_ok:
  assumes "strset_ok st" and "strset_add_str_mem realloc_ok st (length s + 1) = Some (p, st1)"
    and "0 \<notin> set s"
  defines "d2 \<equiv> memcpy p (s @ [0]) (strs_data st1)"
  shows "p = strs_data_len st" and "st1\<lparr>strs_data := d2\<rparr> = st\<lparr>strs_data := d2, strs_data_cap := length d2\<rparr>"
    and "take (strs_data_len st) d2 = take (strs_data_len st) (strs_data st)"
    and "strs_data_len st + length s + 1 \<le> length d2" and "length d2 < 2 ^ 63"
    and "str_at d2 (strs_data_len st) = s" and "strs_data_len st1 = strs_data_len st"
proof -
  from assms(2) obtain data cap where
    l: "libbpf_add_mem realloc_ok (strs_data st) (strs_data_cap st) 1 (strs_data_len st)
        (strs_data_max_len st) (length s + 1) = Some (p, data, cap)"
    and st1: "st1 = st\<lparr>strs_data := data, strs_data_cap := cap\<rparr>"
    by (auto simp: strset_add_str_mem_def split: option.splits)
  have ok: "length (strs_data st) = strs_data_cap st * 1" "strs_data_len st \<le> strs_data_cap st"
    "strs_data_cap st < 2 ^ 63" "strs_data_max_len st < 2 ^ 63"
    using assms(1) by (auto simp: strset_ok_def)
  from libbpf_add_mem_ok [OF l ok(1,2)] obtain z where
    m: "p = strs_data_len st" "length data = cap" "strs_data_len st + (length s + 1) \<le> cap"
    "cap \<le> max (strs_data_cap st) (strs_data_max_len st)" and z: "data = strs_data st @ z" by auto
  show p: "p = strs_data_len st" by (rule m)
  show "strs_data_len st1 = strs_data_len st" by (simp add: st1)
  have len: "length d2 = cap" using m by (simp add: d2_def memcpy_def st1)
  show "st1\<lparr>strs_data := d2\<rparr> = st\<lparr>strs_data := d2, strs_data_cap := length d2\<rparr>"
    by (simp add: st1 len)
  show "take (strs_data_len st) d2 = take (strs_data_len st) (strs_data st)"
    using ok m by (simp add: d2_def memcpy_def st1 z)
  show "strs_data_len st + length s + 1 \<le> length d2" using m len by simp
  show "length d2 < 2 ^ 63" using m ok len by simp
  have "length (take p data) = p" using m by simp
  then have "drop p d2 = s @ 0 # drop (p + Suc (length s)) data"
    by (simp add: d2_def memcpy_def st1)
  then show "str_at d2 (strs_data_len st) = s"
    using assms(3) unfolding str_at_def p [symmetric] by (simp add: takeWhile_NUL)
qed

lemma add_str_unfold:
  assumes "strset_add_str_mem realloc_ok st (length s + 1) = Some (p, st1)"
    and "st1\<lparr>strs_data := memcpy p (s @ [0]) (strs_data st1)\<rparr> = st2"
    and "hashmap_insert (strset_hash_fn (strs_data st2)) (strset_equal_fn (strs_data st2)) HASHMAP_ADD
      calloc_ok malloc_ok (of_nat (strs_data_len st1)) (of_nat (strs_data_len st1)) (strs_hash st2) =
      (err, ko, kv, h')"
  shows "strset__add_str realloc_ok calloc_ok malloc_ok st s =
    (if err = - EEXIST then (int (unat ko), st2\<lparr>strs_hash := h'\<rparr>)
     else if err \<noteq> 0 then (err, st2\<lparr>strs_hash := h'\<rparr>)
     else (int (strs_data_len st1),
           st2\<lparr>strs_hash := h', strs_data_len := strs_data_len st2 + length s + 1\<rparr>))"
  using assms unfolding strset__add_str_def Let_def by auto

lemma add_str_spec:
  assumes ok: "strset_ok st" and nul: "0 \<notin> set s"
    and add: "strset__add_str realloc_ok calloc_ok malloc_ok st s = (r, st')"
  shows "strset_ok st' \<and>
    (if r < 0 then r = - ENOMEM \<and> strset_has st' = strset_has st
     else strset_has st' = (\<lambda>str off. strset_has st str off \<or> str = s \<and> off = nat r) \<and>
          (strset_has st s (nat r) \<longleftrightarrow> (\<exists>off. strset_has st s off)))"
proof (cases "strset_add_str_mem realloc_ok st (length s + 1)")
  case None
  with add ok show ?thesis by (auto simp: strset__add_str_def)
next
  case (Some a)
  obtain p st1 where a: "strset_add_str_mem realloc_ok st (length s + 1) = Some (p, st1)"
    using Some by (cases a) auto
  define d2 where "d2 = memcpy p (s @ [0]) (strs_data st1)"
  note m = add_str_mem_ok [OF ok a nul, folded d2_def]
  let ?l = "strs_data_len st" and ?hf = "strset_hash_fn d2" and ?eq = "strset_equal_fn d2"
  define st2 where "st2 = st\<lparr>strs_data := d2, strs_data_cap := length d2\<rparr>"
  have ok2: "strset_ok st2" and has2: "strset_has st2 = strset_has st"
    unfolding st2_def using strset_data_ok [OF ok m(3)] m(4,5) by simp_all
  have st1: "st1\<lparr>strs_data := d2\<rparr> = st2" unfolding st2_def by (rule m(2))
  let ?new = "of_nat ?l :: u64"
  have new: "unat ?new = ?l" using m(4,5) by (intro unat_of_nat_small) simp
  obtain err ko kv h' where i: "hashmap_insert ?hf ?eq HASHMAP_ADD calloc_ok malloc_ok ?new ?new
      (strs_hash st2) = (err, ko, kv, h')" by (metis prod.collapse)
  have d2: "strs_data st2 = d2" "strs_data_len st2 = ?l" by (simp_all add: st2_def)
  have res: "(r, st') = (if err = - EEXIST then (int (unat ko), st2\<lparr>strs_hash := h'\<rparr>)
      else if err \<noteq> 0 then (err, st2\<lparr>strs_hash := h'\<rparr>)
      else (int ?l, st2\<lparr>strs_hash := h', strs_data_len := ?l + length s + 1\<rparr>))"
    using add add_str_unfold [OF a st1 [unfolded d2_def], of calloc_ok malloc_ok err ko kv h'] i
    unfolding d2 m(7) by simp
  have wf: "hm_wf ?hf (strs_hash st2)" and un: "hm_unique ?eq (strs_hash st2)"
    and ent: "entries_ok d2 ?l (strs_hash st2)" using ok2 d2 by (simp_all add: strset_ok_def)
  note spec = hash_contract.insert_spec [OF strset_contract wf un _ i]
  then have wf': "hm_wf ?hf h'" and un': "hm_unique ?eq h'" by simp_all
  show ?thesis
  proof (cases "\<exists>e \<in># mset (hm_entries (strs_hash st2)). ?eq (fst e) ?new")
    case True
    from hash_contract.insert_found [OF strset_contract wf _ True i]
    have f: "(ko, kv) \<in> set (hm_entries (strs_hash st2))" "?eq ko ?new" "err = - EEXIST"
      "h' = strs_hash st2" by auto
    then have "kv = ko" using ent by (auto simp: entries_ok_def)
    with f have "strset_has st2 s (unat ko)"
      using m(6) new by (auto simp: strset_has_def strset_equal_fn_def d2)
    with res f ok2 show ?thesis by (auto simp: has2 fun_eq_iff dest: strset_has_unique [OF ok])
  next
    case False
    then have fresh: "\<not> strset_has st s off" for off
      using m(6) new by (auto simp: has2 [symmetric] strset_has_def strset_equal_fn_def d2)
    from hash_contract.insert_fresh [OF strset_contract wf _ i] False
    consider (mem) "err = - ENOMEM" "mset (hm_entries h') = mset (hm_entries (strs_hash st2))"
      | (new) "err = 0" "mset (hm_entries h') = add_mset (?new, ?new) (mset (hm_entries (strs_hash st2)))"
      by auto
    then show ?thesis
    proof cases
      case mem
      from mset_eq_setD [OF mem(2)]
      have set': "set (hm_entries h') = set (hm_entries (strs_hash st2))" .
      with ent have "entries_ok d2 ?l h'" by (simp add: entries_ok_def)
      with ok2 wf' un' d2 have "strset_ok (st2\<lparr>strs_hash := h'\<rparr>)" by (simp add: strset_ok_def)
      moreover have "strset_has (st2\<lparr>strs_hash := h'\<rparr>) = strset_has st"
        unfolding has2 [symmetric] using set' by (simp add: strset_has_def fun_eq_iff)
      ultimately show ?thesis using res mem by simp
    next
      case new
      from arg_cong [OF new(2), of set_mset]
      have set': "set (hm_entries h') = insert (?new, ?new) (set (hm_entries (strs_hash st2)))" by simp
      let ?st' = "st2\<lparr>strs_hash := h', strs_data_len := ?l + length s + 1\<rparr>"
      have "entries_ok d2 (?l + length s + 1) h'"
        using ent m(6) \<open>unat ?new = ?l\<close> unfolding entries_ok_def set' by fastforce
      with ok2 wf' un' d2 m(4) have "strset_ok ?st'" by (simp add: strset_ok_def st2_def)
      moreover have "strset_has ?st' = (\<lambda>str off. strset_has st str off \<or> str = s \<and> off = ?l)"
        unfolding has2 [symmetric] using set' m(6) \<open>unat ?new = ?l\<close>
        by (auto simp: strset_has_def fun_eq_iff d2)
      ultimately show ?thesis using res new fresh by simp
    qed
  qed
qed

lemma find_str_unfold:
  assumes "strset_add_str_mem realloc_ok st (length s + 1) = Some (p, st1)"
    and "st1\<lparr>strs_data := memcpy p (s @ [0]) (strs_data st1)\<rparr> = st2"
  shows "strset__find_str realloc_ok st s =
    (case hashmap_find (strset_hash_fn (strs_data st2)) (strset_equal_fn (strs_data st2))
            (strs_hash st2) (of_nat (strs_data_len st1)) of
       Some old_off \<Rightarrow> (int (unat old_off), st2) | None \<Rightarrow> (- ENOENT, st2))"
  using assms unfolding strset__find_str_def Let_def by auto

lemma find_str_spec:
  assumes ok: "strset_ok st" and nul: "0 \<notin> set s"
    and find: "strset__find_str realloc_ok st s = (r, st')"
  shows "strset_ok st' \<and> strset_has st' = strset_has st \<and>
    (r \<noteq> - ENOMEM \<longrightarrow> (if r < 0 then r = - ENOENT \<and> (\<forall>off. \<not> strset_has st s off)
                        else strset_has st s (nat r)))"
proof (cases "strset_add_str_mem realloc_ok st (length s + 1)")
  case None
  with find ok show ?thesis by (auto simp: strset__find_str_def)
next
  case (Some a)
  obtain p st1 where a: "strset_add_str_mem realloc_ok st (length s + 1) = Some (p, st1)"
    using Some by (cases a) auto
  define d2 where "d2 = memcpy p (s @ [0]) (strs_data st1)"
  note m = add_str_mem_ok [OF ok a nul, folded d2_def]
  let ?l = "strs_data_len st" and ?hf = "strset_hash_fn d2" and ?eq = "strset_equal_fn d2"
  define st2 where "st2 = st\<lparr>strs_data := d2, strs_data_cap := length d2\<rparr>"
  have ok2: "strset_ok st2" and has2: "strset_has st2 = strset_has st"
    unfolding st2_def using strset_data_ok [OF ok m(3)] m(4,5) by simp_all
  have st1: "st1\<lparr>strs_data := d2\<rparr> = st2" unfolding st2_def by (rule m(2))
  let ?new = "of_nat ?l :: u64"
  have new: "unat ?new = ?l" using m(4,5) by (intro unat_of_nat_small) simp
  have d2: "strs_data st2 = d2" by (simp add: st2_def)
  have wf: "hm_wf ?hf (strs_hash st2)" and un: "hm_unique ?eq (strs_hash st2)"
    and ent: "entries_ok d2 (strs_data_len st2) (strs_hash st2)" using ok2 d2 by (simp_all add: strset_ok_def)
  have has: "strset_has st s off \<longleftrightarrow>
      (\<exists>k. (k, k) \<in># mset (hm_entries (strs_hash st2)) \<and> unat k = off \<and> ?eq k ?new)" for off
    unfolding has2 [symmetric] strset_has_def strset_equal_fn_def d2 new m(6) by auto
  note res = find_str_unfold [OF a st1 [unfolded d2_def], unfolded m(7) d2 find]
  show ?thesis
  proof (cases "hashmap_find ?hf ?eq (strs_hash st2) ?new")
    case None
    with hash_contract.find_None [OF strset_contract wf un] has have "\<not> strset_has st s off" for off
      by auto
    with None res ok2 has2 show ?thesis by simp
  next
    case (Some v)
    with hash_contract.find_iff [OF strset_contract wf un]
    obtain k where k: "(k, v) \<in># mset (hm_entries (strs_hash st2))" "?eq k ?new" by blast
    then have "v = k" using ent by (auto simp: entries_ok_def)
    with k has have "strset_has st s (unat v)" by auto
    with Some res ok2 has2 show ?thesis by simp
  qed
qed

section \<open>Building a set from a string section\<close>

text \<open>The offsets at which the loop stands, from \<open>off\<close> on.\<close>

inductive str_starts :: "8 word list \<Rightarrow> nat \<Rightarrow> nat \<Rightarrow> bool" for data where
  here: "str_starts data off off"
| next_str: "off < length data \<Longrightarrow> str_starts data (off + length (str_at data off) + 1) j \<Longrightarrow>
     str_starts data off j"

inductive_cases str_starts_E: "str_starts data off j"

definition holds_str :: "8 word list \<Rightarrow> hashmap \<Rightarrow> 8 word list \<Rightarrow> bool" where
  "holds_str data m str \<longleftrightarrow> (\<exists>k. (k, k) \<in> set (hm_entries m) \<and> str_at data (unat k) = str)"

definition init_inv :: "8 word list \<Rightarrow> hashmap \<Rightarrow> bool" where
  "init_inv data m \<longleftrightarrow> hm_wf (strset_hash_fn data) m \<and> hm_unique (strset_equal_fn data) m \<and>
     entries_ok data (length data) m"

lemma takeWhile_last:
  "last xs = (0 :: 8 word) \<Longrightarrow> xs \<noteq> [] \<Longrightarrow> length (takeWhile (\<lambda>c. c \<noteq> 0) xs) < length xs"
  by (induction xs) (auto split: if_splits)

lemma str_at_ends:
  assumes "off < length data" and "last data = 0"
  shows "off + length (str_at data off) < length data"
proof -
  have "last (drop off data) = 0" and ne: "drop off data \<noteq> []" using assms by simp_all
  then have "length (takeWhile (\<lambda>c. c \<noteq> 0) (drop off data)) < length (drop off data)"
    by (intro takeWhile_last)
  then show ?thesis using assms(1) by (simp add: str_at_def)
qed

lemma init_step:
  assumes inv: "init_inv data m" and off: "off < length data" and last: "last data = 0"
    and len: "length data < 2 ^ 63"
    and ins: "hashmap_insert (strset_hash_fn data) (strset_equal_fn data) HASHMAP_ADD c ml
      (of_nat off) (of_nat off) m = (err, ko, kv, m')"
  shows "init_inv data m' \<and> (holds_str data m str \<longrightarrow> holds_str data m' str) \<and>
    (err = 0 \<or> err = - EEXIST \<longrightarrow> holds_str data m' (str_at data off)) \<and>
    (err = 0 \<or> err = - EEXIST \<or> err = - ENOMEM)"
proof -
  let ?hf = "strset_hash_fn data" and ?eq = "strset_equal_fn data" and ?k = "of_nat off :: u64"
  have wf: "hm_wf ?hf m" and un: "hm_unique ?eq m" and ent: "entries_ok data (length data) m"
    using inv by (simp_all add: init_inv_def)
  have k: "unat ?k = off" using off len by (intro unat_of_nat_small) simp
  note spec = hash_contract.insert_spec [OF strset_contract wf un _ ins]
  show ?thesis
  proof (cases "\<exists>e \<in># mset (hm_entries m). ?eq (fst e) ?k")
    case True
    from hash_contract.insert_found [OF strset_contract wf _ True ins]
    have f: "(ko, kv) \<in> set (hm_entries m)" "?eq ko ?k" "err = - EEXIST" "m' = m" by auto
    then have "kv = ko" using ent by (auto simp: entries_ok_def)
    with f k have "holds_str data m (str_at data off)" by (auto simp: holds_str_def strset_equal_fn_def)
    with f inv show ?thesis by simp
  next
    case False
    from hash_contract.insert_fresh [OF strset_contract wf _ ins] False
    consider (mem) "err = - ENOMEM" "mset (hm_entries m') = mset (hm_entries m)"
      | (new) "err = 0" "mset (hm_entries m') = add_mset (?k, ?k) (mset (hm_entries m))"
      by auto
    then have c: "err = - ENOMEM \<and> set (hm_entries m') = set (hm_entries m) \<or>
        err = 0 \<and> set (hm_entries m') = insert (?k, ?k) (set (hm_entries m))"
    proof cases
      case mem
      from arg_cong [OF mem(2), of set_mset] mem(1) show ?thesis by simp
    next
      case new
      from arg_cong [OF new(2), of set_mset] new(1) show ?thesis by simp
    qed
    then have "entries_ok data (length data) m'"
      using ent str_at_ends [OF off last] k by (auto simp: entries_ok_def)
    with spec have "init_inv data m'" by (simp add: init_inv_def)
    with c k show ?thesis by (auto simp: holds_str_def)
  qed
qed

lemma init_loop_ok:
  assumes "init_inv data m" and "data \<noteq> [] \<longrightarrow> last data = 0" and "length data < 2 ^ 63"
    and "strset_init_loop alloc data off m = (err, m')"
  shows "init_inv data m' \<and> (holds_str data m str \<longrightarrow> holds_str data m' str) \<and>
    (err = 0 \<longrightarrow> (\<forall>j. str_starts data off j \<and> j < length data \<longrightarrow> holds_str data m' (str_at data j)))
    \<and> (err = 0 \<or> err = - ENOMEM)"
  using assms
proof (induction alloc data off m arbitrary: str rule: strset_init_loop.induct)
  case (1 alloc data off m)
  show ?case
  proof (cases "off < length data")
    case False
    with "1.prems" have "m' = m" "err = 0" by (simp_all add: strset_init_loop.simps)
    moreover have "\<not> (str_starts data off j \<and> j < length data)" for j
      using False by (auto elim: str_starts_E)
    ultimately show ?thesis using "1.prems"(1) by blast
  next
    case True
    obtain e1 ko kv m1 where i: "hashmap_insert (strset_hash_fn data) (strset_equal_fn data) HASHMAP_ADD
        (fst (alloc off)) (snd (alloc off)) (of_nat off) (of_nat off) m = (e1, ko, kv, m1)"
      by (metis prod.collapse)
    have last: "last data = 0" using True "1.prems"(2) by auto
    note st = init_step [OF "1.prems"(1) True last "1.prems"(3) i]
    have run: "(err, m') = (if e1 = - EEXIST \<or> e1 = 0
        then strset_init_loop alloc data (off + length (str_at data off) + 1) m1 else (e1, m1))"
      using "1.prems"(4) True i by (simp add: strset_init_loop.simps [of alloc data off m])
    show ?thesis
    proof (cases "e1 = - EEXIST \<or> e1 = 0")
      case False
      with run st show ?thesis by auto
    next
      case go: True
      note IH = "1.IH" [OF True i [symmetric] refl refl refl go _ "1.prems"(2,3)]
      from go run have r: "strset_init_loop alloc data (off + length (str_at data off) + 1) m1 = (err, m')"
        by simp
      note IH = IH [OF _ r]
      have inv1: "init_inv data m1" using st by blast
      have "holds_str data m' (str_at data j)" if "err = 0" "str_starts data off j" "j < length data" for j
        using that(2)
      proof (cases rule: str_starts.cases)
        case here
        then show ?thesis using st go IH [OF inv1] by blast
      next
        case next_str
        then show ?thesis using IH [OF inv1] that by blast
      qed
      then show ?thesis using st IH [OF inv1] by blast
    qed
  qed
qed

section \<open>Properties\<close>


definition empty_set :: strset where
  "empty_set = \<lparr>strs_data = [], strs_data_len = 0, strs_data_cap = 0,
     strs_data_max_len = 2147483647, strs_hash = hashmap__init\<rparr>"

lemma empty_set_ok: "strset_ok empty_set"
  by (simp add: empty_set_def strset_ok_def init_ok entries_ok_def hm_entries_def hashmap__init_def
      hm_wf_def hm_unique_def unique_keys_def)


text \<open>Looking a string up returns its offset if it is in the set, ENOENT exactly if it is
  not, and leaves the set as it was even though it writes behind the data in use.\<close>

theorem strset_find_str_correct:
  assumes "strset_ok st" and "0 \<notin> set s" and "strset__find_str realloc_ok st s = (r, st')"
  shows "strset_ok st' \<and> strset_has st' = strset_has st \<and>
    (r \<noteq> - ENOMEM \<longrightarrow> (if r < 0 then r = - ENOENT \<and> (\<forall>off. \<not> strset_has st s off)
                        else strset_has st s (nat r)))"
  using assms by (rule find_str_spec)

theorem strset_find_str_correct_witness:
  "\<exists>r st'. strset__find_str True empty_set [105] = (r, st') \<and> strset_has st' = strset_has empty_set"
proof -
  obtain r st' where f: "strset__find_str True empty_set [105] = (r, st')" by fastforce
  from strset_find_str_correct [OF empty_set_ok _ f] f show ?thesis by auto
qed

text \<open>A set built from a string section that ends in a NUL is well-formed and contains the
  string at each offset where a string of the section starts.\<close>

theorem strset_new_indexes_all:
  assumes "strset__new calloc_ok hash_ok malloc_ok alloc max_data_sz (Some d) = Inr st"
    and "d \<noteq> [] \<longrightarrow> last d = 0" and "length d < 2 ^ 63" and "max_data_sz < 2 ^ 63"
  shows "strset_ok st \<and> strs_data st = d \<and>
    (\<forall>j. str_starts d 0 j \<and> j < length d \<longrightarrow> (\<exists>off. strset_has st (str_at d j) off))"
proof -
  have inv: "init_inv d hashmap__init"
    by (simp add: init_inv_def init_ok entries_ok_def hm_entries_def hashmap__init_def)
      (simp add: hm_wf_def hm_unique_def unique_keys_def hm_entries_def)
  obtain err h where l: "strset_init_loop alloc d 0 hashmap__init = (err, h)" by fastforce
  from assms(1) l have e: "err = 0" and st: "st = \<lparr>strs_data = d, strs_data_len = length d,
      strs_data_cap = length d, strs_data_max_len = max_data_sz, strs_hash = h\<rparr>"
    by (auto simp: strset__new_def hashmap__new_def split: if_splits)
  from init_loop_ok [OF inv assms(2,3) l] e have "init_inv d h"
    and "\<forall>j. str_starts d 0 j \<and> j < length d \<longrightarrow> holds_str d h (str_at d j)" by auto
  then show ?thesis using assms(3,4)
    by (auto simp: st strset_ok_def init_inv_def strset_has_def holds_str_def)
qed

theorem strset_new_indexes_all_witness:
  "\<exists>st. strset__new True True True (\<lambda>off. (True, True)) 2147483647 (Some [0]) = Inr st \<and>
     (\<exists>off. strset_has st [] off)"
proof -
  obtain st where n: "strset__new True True True (\<lambda>off. (True, True)) 2147483647 (Some [0]) = Inr st"
    by (simp add: strset__new_def hashmap__new_def strset_init_loop.simps str_at_def
        hashmap_insert_def hashmap__init_def hashmap_find_entry_def hashmap_needs_to_grow_def
        hashmap_grow_def calloc_succeeds_def HASHMAP_MIN_CAP_BITS_def)
  from strset_new_indexes_all [OF n] str_starts.here [of "[0]" 0]
  have "\<exists>off. strset_has st (str_at [0] 0) off" by auto
  then show ?thesis using n by (auto simp: str_at_def)
qed

end
