(* ===== verification/NlAttr.thy ===== *)
theory NlAttr
  imports Bytes
begin

text \<open>
  Netlink attributes, \<^verbatim>\<open>libbpf/src/nlattr.c\<close> and \<^verbatim>\<open>nlattr.h\<close>. A message is a list of bytes and
  an attribute is the offset of its header; \<open>None\<close> stands for an access outside the message.
  Lengths are natural numbers, the \<open>remaining\<close> counter of the parser an \<open>int\<close> as in the code.
\<close>

section \<open>Layout\<close>

definition NLA_HDRLEN :: nat where "NLA_HDRLEN = 4"
definition NLA_F_NESTED :: nat where "NLA_F_NESTED = 32768"

text \<open>\<^verbatim>\<open>nla_type & NLA_TYPE_MASK\<close>: the two upper bits are flags.\<close>

definition NLA_TYPE_OF :: "nat \<Rightarrow> nat" where "NLA_TYPE_OF t = t mod 16384"

definition nla_len_at :: "8 word list \<Rightarrow> nat \<Rightarrow> nat option" where
  "nla_len_at buf off = rd 2 buf off"

definition nla_type :: "8 word list \<Rightarrow> nat \<Rightarrow> nat option" where
  "nla_type buf off = map_option NLA_TYPE_OF (rd 2 buf (off + 2))"

definition libbpf_nla_data :: "nat \<Rightarrow> nat" where
  "libbpf_nla_data off = off + NLA_HDRLEN"

definition libbpf_nla_len :: "8 word list \<Rightarrow> nat \<Rightarrow> int option" where
  "libbpf_nla_len buf off = map_option (\<lambda>l. int l - int NLA_HDRLEN) (nla_len_at buf off)"

definition libbpf_nla_getattr_u8 :: "8 word list \<Rightarrow> nat \<Rightarrow> nat option" where
  "libbpf_nla_getattr_u8 buf off = rd 1 buf (libbpf_nla_data off)"

definition libbpf_nla_getattr_u16 :: "8 word list \<Rightarrow> nat \<Rightarrow> nat option" where
  "libbpf_nla_getattr_u16 buf off = rd 2 buf (libbpf_nla_data off)"

definition libbpf_nla_getattr_u32 :: "8 word list \<Rightarrow> nat \<Rightarrow> nat option" where
  "libbpf_nla_getattr_u32 buf off = rd 4 buf (libbpf_nla_data off)"

definition libbpf_nla_getattr_u64 :: "8 word list \<Rightarrow> nat \<Rightarrow> nat option" where
  "libbpf_nla_getattr_u64 buf off = rd 8 buf (libbpf_nla_data off)"

section \<open>Validation\<close>

definition LIBBPF_NLA_UNSPEC :: nat where "LIBBPF_NLA_UNSPEC = 0"
definition LIBBPF_NLA_U32 :: nat where "LIBBPF_NLA_U32 = 3"
definition LIBBPF_NLA_STRING :: nat where "LIBBPF_NLA_STRING = 5"
definition LIBBPF_NLA_TYPE_MAX :: nat where "LIBBPF_NLA_TYPE_MAX = 8"

record nla_policy =
  np_type :: nat
  np_minlen :: nat
  np_maxlen :: nat

definition nla_attr_minlen :: "nat list" where
  "nla_attr_minlen = [0, 1, 2, 4, 8, 1, 0, 0, 0]"

definition nla_next :: "8 word list \<Rightarrow> nat \<Rightarrow> int \<Rightarrow> (nat \<times> int) option" where
  "nla_next buf nla remaining =
     do { len \<leftarrow> nla_len_at buf nla;
          let totlen = align4 len;
          Some (nla + totlen, remaining - int totlen) }"

definition nla_ok :: "8 word list \<Rightarrow> nat \<Rightarrow> int \<Rightarrow> bool option" where
  "nla_ok buf nla remaining =
     (if remaining < int NLA_HDRLEN then Some False
      else do { len \<leftarrow> nla_len_at buf nla;
                Some (NLA_HDRLEN \<le> len \<and> int len \<le> remaining) })"

definition policy_minlen :: "nla_policy \<Rightarrow> nat" where
  "policy_minlen pt =
     (if np_minlen pt \<noteq> 0 then np_minlen pt
      else if np_type pt \<noteq> LIBBPF_NLA_UNSPEC then nla_attr_minlen ! np_type pt
      else 0)"

definition validate_nla :: "8 word list \<Rightarrow> nat \<Rightarrow> nat \<Rightarrow> nla_policy list \<Rightarrow> int option" where
  "validate_nla buf nla maxtype policy =
     do { type \<leftarrow> nla_type buf nla;
          if type > maxtype then Some 0
          else if length policy \<le> type then None
          else let pt = policy ! type
               in if np_type pt > LIBBPF_NLA_TYPE_MAX then Some 0
                  else do {
                    len \<leftarrow> libbpf_nla_len buf nla;
                    if len < int (policy_minlen pt) then Some (- EINVAL)
                    else if np_maxlen pt \<noteq> 0 \<and> len > int (np_maxlen pt) then Some (- EINVAL)
                    else if np_type pt = LIBBPF_NLA_STRING
                    then (if len < 1 then None
                          else do { c \<leftarrow> rd 1 buf (libbpf_nla_data nla + nat (len - 1));
                                    Some (if c \<noteq> 0 then - EINVAL else 0) })
                    else Some 0 } }"

section \<open>The parser\<close>

text \<open>The index array: the attribute found for each type.\<close>

type_synonym nla_index = "nat \<Rightarrow> nat option"

text \<open>What the loop does with the attribute at \<open>nla\<close>: \<open>Inl\<close> returns from the function.\<close>

definition nla_step :: "8 word list \<Rightarrow> nat \<Rightarrow> nla_policy list option \<Rightarrow> nat \<Rightarrow> nla_index \<Rightarrow>
    (int + nla_index) option" where
  "nla_step buf maxtype policy nla tb =
     do { type \<leftarrow> nla_type buf nla;
          if type > maxtype then Some (Inr tb)
          else do {
            err \<leftarrow> (case policy of None \<Rightarrow> Some 0 | Some p \<Rightarrow> validate_nla buf nla maxtype p);
            if err < 0 then Some (Inl err) else Some (Inr (tb(type \<mapsto> nla))) } }"

function nla_loop :: "8 word list \<Rightarrow> nat \<Rightarrow> nla_policy list option \<Rightarrow> nat \<Rightarrow> int \<Rightarrow> nla_index \<Rightarrow>
    (int \<times> nla_index) option" where
  "nla_loop buf maxtype policy nla rem tb =
     (case nla_ok buf nla rem of
        None \<Rightarrow> None
      | Some False \<Rightarrow> Some (0, tb)
      | Some True \<Rightarrow>
          (case nla_step buf maxtype policy nla tb of
             None \<Rightarrow> None
           | Some (Inl err) \<Rightarrow> Some (err, tb)
           | Some (Inr tb') \<Rightarrow>
               (case nla_next buf nla rem of
                  None \<Rightarrow> None
                | Some (nla', rem') \<Rightarrow> nla_loop buf maxtype policy nla' rem' tb')))"
  by auto
termination
proof (relation "measure (\<lambda>(_, _, _, _, rem, _). nat rem)", simp, goal_cases)
  case (1 buf maxtype policy nla rem tb a b c d e f)
  then show ?case
    using align4_ge [of "the (nla_len_at buf nla)"]
    by (auto simp: nla_ok_def nla_next_def NLA_HDRLEN_def Let_def split: if_splits Option.bind_splits)
qed

declare nla_loop.simps [simp del]

definition libbpf_nla_parse :: "nat \<Rightarrow> 8 word list \<Rightarrow> nat \<Rightarrow> int \<Rightarrow> nla_policy list option \<Rightarrow>
    (int \<times> nla_index) option" where
  "libbpf_nla_parse maxtype buf head len policy =
     nla_loop buf maxtype policy head len (\<lambda>_. None)"

definition libbpf_nla_parse_nested :: "nat \<Rightarrow> 8 word list \<Rightarrow> nat \<Rightarrow> nla_policy list option \<Rightarrow>
    (int \<times> nla_index) option" where
  "libbpf_nla_parse_nested maxtype buf nla policy =
     do { len \<leftarrow> libbpf_nla_len buf nla;
          libbpf_nla_parse maxtype buf (libbpf_nla_data nla) len policy }"

section \<open>Building a request\<close>

text \<open>\<^verbatim>\<open>struct libbpf_nla_req\<close>: a 16-byte header that starts with \<^verbatim>\<open>nlmsg_len\<close>, a union of 20 bytes
  and a buffer of 128 bytes.\<close>

definition sizeof_req :: nat where "sizeof_req = 164"

definition req_nlmsg_len :: "8 word list \<Rightarrow> nat" where
  "req_nlmsg_len req = le_val (take 4 req)"

definition req_tail :: "8 word list \<Rightarrow> nat" where
  "req_tail req = align4 (req_nlmsg_len req)"

definition nlattr_add :: "8 word list \<Rightarrow> nat \<Rightarrow> 8 word list option \<Rightarrow> nat \<Rightarrow> int \<times> 8 word list" where
  "nlattr_add req type data len =
     (if align4 (req_nlmsg_len req) + align4 (NLA_HDRLEN + len) > sizeof_req then (- EMSGSIZE, req)
      else if (data \<noteq> None) \<noteq> (len \<noteq> 0) then (- EINVAL, req)
      else let nla = req_tail req;
               r1 = memcpy (nla + 2) (le_bytes 2 type) req;
               r2 = memcpy nla (le_bytes 2 (NLA_HDRLEN + len)) r1;
               r3 = (case data of None \<Rightarrow> r2 | Some d \<Rightarrow> memcpy (nla + NLA_HDRLEN) (take len d) r2)
           in (0, memcpy 0 (le_bytes 4 (align4 (req_nlmsg_len req) + align4 (NLA_HDRLEN + len))) r3))"

text \<open>The result is the offset of the open attribute, \<open>None\<close> for NULL.\<close>

definition nlattr_begin_nested :: "8 word list \<Rightarrow> nat \<Rightarrow> nat option \<times> 8 word list" where
  "nlattr_begin_nested req type =
     (let tail = req_tail req; (err, req') = nlattr_add req (or type NLA_F_NESTED) None 0
      in if err \<noteq> 0 then (None, req') else (Some tail, req'))"

definition nlattr_end_nested :: "8 word list \<Rightarrow> nat \<Rightarrow> 8 word list" where
  "nlattr_end_nested req tail = memcpy tail (le_bytes 2 (req_tail req - tail)) req"

section \<open>Attributes as data\<close>

type_synonym attribute = "nat \<times> 8 word list"

definition attr_ok :: "attribute \<Rightarrow> bool" where
  "attr_ok a \<longleftrightarrow> fst a < 2 ^ 16 \<and> NLA_HDRLEN + length (snd a) < 2 ^ 16"

definition nla_enc :: "attribute \<Rightarrow> 8 word list" where
  "nla_enc a = le_bytes 2 (NLA_HDRLEN + length (snd a)) @ le_bytes 2 (fst a) @ snd a @
     replicate (align4 (length (snd a)) - length (snd a)) 0"

definition nlas_enc :: "attribute list \<Rightarrow> 8 word list" where
  "nlas_enc as = concat (map nla_enc as)"

lemma nlas_enc_simps [simp]:
  "nlas_enc [] = []" "nlas_enc (a # as) = nla_enc a @ nlas_enc as"
  "nlas_enc (as @ bs) = nlas_enc as @ nlas_enc bs"
  by (simp_all add: nlas_enc_def)

lemma align4_add4: "align4 (4 + n) = 4 + align4 n"
proof -
  have "(4 + n + 3) div 4 = 1 + (n + 3) div 4"
    using div_add1_eq [of 4 "n + 3" 4] by simp
  then show ?thesis by (simp add: align4_def)
qed

lemma length_nla_enc: "length (nla_enc a) = NLA_HDRLEN + align4 (length (snd a))"
  using align4_ge [of "length (snd a)"] by (simp add: nla_enc_def NLA_HDRLEN_def)

lemma dvd_length_nlas: "4 dvd length (nlas_enc as)"
  by (induction as) (simp_all add: length_nla_enc NLA_HDRLEN_def align4_dvd)

text \<open>The index the parser builds over a stream that starts at \<open>pos\<close>.\<close>

fun index_of :: "nat \<Rightarrow> nat \<Rightarrow> attribute list \<Rightarrow> nla_index \<Rightarrow> nla_index" where
  "index_of maxtype pos [] tb = tb"
| "index_of maxtype pos (a # as) tb =
     index_of maxtype (pos + length (nla_enc a)) as
       (if NLA_TYPE_OF (fst a) \<le> maxtype then tb(NLA_TYPE_OF (fst a) \<mapsto> pos) else tb)"

lemma enc_head:
  assumes "attr_ok a"
  shows "nla_len_at (pre @ nla_enc a @ post) (length pre) = Some (NLA_HDRLEN + length (snd a))"
    and "nla_type (pre @ nla_enc a @ post) (length pre) = Some (NLA_TYPE_OF (fst a))"
proof -
  have l: "NLA_HDRLEN + length (snd a) < 256 ^ 2" and t: "fst a < 256 ^ 2"
    using assms by (simp_all add: attr_ok_def)
  show "nla_len_at (pre @ nla_enc a @ post) (length pre) = Some (NLA_HDRLEN + length (snd a))"
    using rd_le_bytes [OF l] by (simp add: nla_len_at_def nla_enc_def rd_append0)
  show "nla_type (pre @ nla_enc a @ post) (length pre) = Some (NLA_TYPE_OF (fst a))"
    using rd_le_bytes [OF t]
    by (simp add: nla_type_def nla_enc_def rd_append rd_skip)
qed

lemma enc_payload:
  "take (length (snd a)) (drop (length pre + NLA_HDRLEN) (pre @ nla_enc a @ post)) = snd a"
  by (simp add: nla_enc_def NLA_HDRLEN_def)

text \<open>The parser inverts the encoding of a list of attributes.\<close>

lemma nla_loop_enc:
  assumes "list_all attr_ok as"
  shows "nla_loop (pre @ nlas_enc as @ post) maxtype None (length pre)
      (int (length (nlas_enc as))) tb = Some (0, index_of maxtype (length pre) as tb)"
  using assms
proof (induction as arbitrary: pre tb)
  case Nil
  then show ?case by (simp add: nla_loop.simps nla_ok_def NLA_HDRLEN_def)
next
  case (Cons a as)
  let ?buf = "pre @ nlas_enc (a # as) @ post"
  let ?rem = "int (length (nlas_enc (a # as)))"
  let ?tb = "if NLA_TYPE_OF (fst a) \<le> maxtype then tb(NLA_TYPE_OF (fst a) \<mapsto> length pre) else tb"
  from Cons.prems have a: "attr_ok a" and as: "list_all attr_ok as" by simp_all
  have buf: "?buf = pre @ nla_enc a @ (nlas_enc as @ post)" by simp
  note head = enc_head [OF a, of pre "nlas_enc as @ post", folded buf]
  have ge: "length (snd a) \<le> align4 (length (snd a))" by (rule align4_ge)
  have ok: "nla_ok ?buf (length pre) ?rem = Some True"
    using head ge by (simp add: nla_ok_def length_nla_enc NLA_HDRLEN_def)
  have st: "nla_step ?buf maxtype None (length pre) tb = Some (Inr ?tb)"
    using head by (simp add: nla_step_def)
  have nx: "nla_next ?buf (length pre) ?rem =
      Some (length (pre @ nla_enc a), int (length (nlas_enc as)))"
    using head by (simp add: nla_next_def length_nla_enc NLA_HDRLEN_def align4_add4)
  have "nla_loop ?buf maxtype None (length pre) ?rem tb =
      nla_loop ?buf maxtype None (length (pre @ nla_enc a)) (int (length (nlas_enc as))) ?tb"
    by (subst nla_loop.simps) (simp only: ok st nx option.case bool.case sum.case prod.case)
  also have "\<dots> = Some (0, index_of maxtype (length (pre @ nla_enc a)) as ?tb)"
    using Cons.IH [OF as, of "pre @ nla_enc a" ?tb] by simp
  finally show ?case by simp
qed

text \<open>Looking a type up in the index: the last attribute of that type counts.\<close>

lemma index_of_append:
  "index_of maxtype pos (as @ bs) tb =
   index_of maxtype (pos + length (nlas_enc as)) bs (index_of maxtype pos as tb)"
  by (induction as arbitrary: pos tb) (simp_all add: add.assoc)

lemma index_of_other:
  "t \<notin> NLA_TYPE_OF ` fst ` List.set as \<Longrightarrow> index_of maxtype pos as tb t = tb t"
  by (induction as arbitrary: pos tb) auto

lemma index_of_lookup:
  assumes "NLA_TYPE_OF (fst a) \<le> maxtype" and "NLA_TYPE_OF (fst a) \<notin> NLA_TYPE_OF ` fst ` List.set bs"
  shows "index_of maxtype pos (as @ a # bs) tb (NLA_TYPE_OF (fst a)) = Some (pos + length (nlas_enc as))"
  using assms by (simp add: index_of_append index_of_other)

text \<open>Reading the payload of an attribute and parsing a nested one.\<close>

lemma attr_read:
  assumes "k \<le> length (snd a)"
  shows "rd k (pre @ nla_enc a @ post) (libbpf_nla_data (length pre)) = Some (le_val (take k (snd a)))"
proof -
  have "rd k (pre @ nla_enc a @ post) (length pre + 4) = rd k (nla_enc a @ post) 4"
    by (rule rd_append)
  also have "\<dots> = rd k (snd a @ replicate (align4 (length (snd a)) - length (snd a)) 0 @ post) 0"
    by (simp add: nla_enc_def rd_skip)
  finally show ?thesis using assms by (simp add: libbpf_nla_data_def NLA_HDRLEN_def rd_def)
qed

lemma parse_nested_enc:
  assumes "list_all attr_ok inner" and "attr_ok (t, nlas_enc inner)"
  shows "libbpf_nla_parse_nested maxtype (pre @ nla_enc (t, nlas_enc inner) @ post) (length pre) None =
    Some (0, index_of maxtype (length pre + NLA_HDRLEN) inner (\<lambda>_. None))"
proof -
  let ?l = "le_bytes 2 (NLA_HDRLEN + length (nlas_enc inner))"
  have e: "nla_enc (t, nlas_enc inner) = ?l @ le_bytes 2 t @ nlas_enc inner"
    by (simp add: nla_enc_def align4_id dvd_length_nlas)
  have l: "libbpf_nla_len (pre @ nla_enc (t, nlas_enc inner) @ post) (length pre) =
      Some (int (length (nlas_enc inner)))"
    using enc_head(1) [OF assms(2), of pre post] by (simp add: libbpf_nla_len_def NLA_HDRLEN_def)
  show ?thesis
    using nla_loop_enc [OF assms(1), of "pre @ ?l @ le_bytes 2 t" post maxtype "\<lambda>_. None"]
    unfolding libbpf_nla_parse_nested_def l libbpf_nla_parse_def libbpf_nla_data_def
    by (simp add: e NLA_HDRLEN_def)
qed

section \<open>A request in canonical form\<close>

text \<open>The length, the rest of the headers, the attributes and zeros up to the end.\<close>

definition req_of :: "8 word list \<Rightarrow> attribute list \<Rightarrow> 8 word list" where
  "req_of hdr as = le_bytes 4 (4 + length hdr + length (nlas_enc as)) @ hdr @ nlas_enc as @
     replicate (sizeof_req - (4 + length hdr + length (nlas_enc as))) 0"

definition fits :: "8 word list \<Rightarrow> attribute list \<Rightarrow> bool" where
  "fits hdr as \<longleftrightarrow> 4 dvd length hdr \<and> 4 + length hdr + length (nlas_enc as) \<le> sizeof_req"

lemma req_of_len:
  assumes "fits hdr as"
  shows "req_nlmsg_len (req_of hdr as) = 4 + length hdr + length (nlas_enc as)"
    and "length (req_of hdr as) = sizeof_req"
    and "align4 (4 + length hdr + length (nlas_enc as)) = 4 + length hdr + length (nlas_enc as)"
proof -
  have "4 + length hdr + length (nlas_enc as) < 256 ^ 4"
    using assms by (simp add: fits_def sizeof_req_def)
  then show "req_nlmsg_len (req_of hdr as) = 4 + length hdr + length (nlas_enc as)"
    by (simp add: req_nlmsg_len_def req_of_def le_val_le_bytes)
  show "length (req_of hdr as) = sizeof_req" using assms by (simp add: req_of_def fits_def)
  show "align4 (4 + length hdr + length (nlas_enc as)) = 4 + length hdr + length (nlas_enc as)"
    using assms dvd_length_nlas [of as] by (intro align4_id) (simp add: fits_def)
qed

lemma memcpy_at:
  "length pre = p \<Longrightarrow> length src = length old \<Longrightarrow> memcpy p src (pre @ old @ post) = pre @ src @ post"
  by (simp add: memcpy_def)

lemma nlattr_add_canonical:
  assumes "fits hdr as" and "fits hdr (as @ [(t, d)])" and "d \<noteq> [] \<longleftrightarrow> dp \<noteq> None"
    and "dp = None \<or> dp = Some d"
  shows "nlattr_add (req_of hdr as) t dp (length d) = (0, req_of hdr (as @ [(t, d)]))"
proof -
  define n where "n = 4 + length hdr + length (nlas_enc as)"
  define e where "e = NLA_HDRLEN + align4 (length d)"
  define z where "z = sizeof_req - (n + e)"
  note r = req_of_len [OF assms(1), folded n_def]
  have ge: "length d \<le> align4 (length d)" by (rule align4_ge)
  have fit: "n + e \<le> sizeof_req"
    using assms(2) by (simp add: fits_def n_def e_def length_nla_enc add.assoc)
  have al: "align4 (NLA_HDRLEN + length d) = e" by (simp add: e_def NLA_HDRLEN_def align4_add4)
  let ?pre = "le_bytes 4 n @ hdr @ nlas_enc as"
  have pre: "length ?pre = n" by (simp add: n_def)
  have zs: "sizeof_req - n = 2 + (2 + (length d + ((align4 (length d) - length d) + z)))"
    using fit ge by (simp add: z_def e_def NLA_HDRLEN_def)
  have req: "req_of hdr as = ?pre @ replicate 2 0 @ replicate 2 0 @ replicate (length d) 0 @
      replicate (align4 (length d) - length d) 0 @ replicate z 0"
    unfolding req_of_def n_def [symmetric] zs replicate_add by simp
  let ?l = "le_bytes 2 (NLA_HDRLEN + length d)" and ?t = "le_bytes 2 t"
  let ?p = "replicate (align4 (length d) - length d) 0 @ replicate z 0"
  have r1: "memcpy (n + 2) ?t (req_of hdr as) =
      ?pre @ replicate 2 0 @ ?t @ replicate (length d) 0 @ ?p"
    using memcpy_at [of "?pre @ replicate 2 0" "n + 2" ?t "replicate 2 0" "replicate (length d) 0 @ ?p"]
    by (simp add: req n_def)
  have r2: "memcpy n ?l (memcpy (n + 2) ?t (req_of hdr as)) =
      ?pre @ ?l @ ?t @ replicate (length d) 0 @ ?p"
    unfolding r1 using memcpy_at [of ?pre n ?l "replicate 2 0" "?t @ replicate (length d) 0 @ ?p"]
    by (simp add: n_def)
  have r3: "(case dp of None \<Rightarrow> x | Some d' \<Rightarrow> memcpy (n + NLA_HDRLEN) (take (length d) d') x) =
      ?pre @ ?l @ ?t @ d @ ?p" if "x = ?pre @ ?l @ ?t @ replicate (length d) 0 @ ?p" for x
    using assms(3,4) that memcpy_at [of "?pre @ ?l @ ?t" "n + 4" d "replicate (length d) 0" ?p]
    by (auto simp: NLA_HDRLEN_def n_def)
  have r4: "memcpy 0 (le_bytes 4 (n + e)) (le_bytes 4 n @ hdr @ nlas_enc as @ ?l @ ?t @ d @ ?p) =
      le_bytes 4 (n + e) @ hdr @ nlas_enc as @ ?l @ ?t @ d @ ?p"
    by (simp add: memcpy_def)
  have fin: "req_of hdr (as @ [(t, d)]) =
      le_bytes 4 (n + e) @ hdr @ nlas_enc as @ ?l @ ?t @ d @ ?p"
    using ge by (simp add: req_of_def nla_enc_def n_def e_def z_def NLA_HDRLEN_def add.assoc)
  have "\<not> align4 n + e > sizeof_req" using fit r(3) by simp
  then show ?thesis
    using assms(3) r3 [OF r2]
    by (simp add: nlattr_add_def r al req_tail_def Let_def r4 fin del: add_2_eq_Suc add_2_eq_Suc')
qed

lemma nlattr_add_full:
  assumes "fits hdr as" and "\<not> fits hdr (as @ [(t, d)])"
  shows "nlattr_add (req_of hdr as) t dp (length d) = (- EMSGSIZE, req_of hdr as)"
proof -
  note r = req_of_len [OF assms(1)]
  have "\<not> 4 + length hdr + length (nlas_enc as) + (NLA_HDRLEN + align4 (length d)) \<le> sizeof_req"
    using assms by (simp add: fits_def length_nla_enc add.assoc)
  then show ?thesis
    by (simp add: nlattr_add_def r NLA_HDRLEN_def align4_add4)
qed

text \<open>A nested attribute is an attribute whose payload is the encoding of the inner ones.\<close>

lemma nlattr_end_canonical:
  assumes "fits hdr (as @ (t, []) # inner)"
  shows "nlattr_end_nested (req_of hdr (as @ (t, []) # inner)) (4 + length hdr + length (nlas_enc as)) =
    req_of hdr (as @ [(t, nlas_enc inner)])"
proof -
  define n where "n = 4 + length hdr + length (nlas_enc as)"
  let ?i = "nlas_enc inner" and ?pre = "\<lambda>m. le_bytes 4 m @ hdr @ nlas_enc as"
  note r = req_of_len [OF assms]
  have e: "nla_enc (t, []) = le_bytes 2 4 @ le_bytes 2 t"
    by (simp add: nla_enc_def NLA_HDRLEN_def align4_def)
  have m: "4 + length hdr + length (nlas_enc (as @ (t, []) # inner)) = n + 4 + length ?i"
    by (simp add: n_def e)
  have al: "align4 (length ?i) = length ?i" by (intro align4_id dvd_length_nlas)
  have e': "nla_enc (t, ?i) = le_bytes 2 (4 + length ?i) @ le_bytes 2 t @ ?i"
    by (simp add: nla_enc_def NLA_HDRLEN_def al)
  have tail: "req_tail (req_of hdr (as @ (t, []) # inner)) - n = 4 + length ?i"
    using r m by (simp add: req_tail_def)
  have "memcpy n (le_bytes 2 (4 + length ?i)) (?pre (n + 4 + length ?i) @ le_bytes 2 4 @
      le_bytes 2 t @ ?i @ z) = ?pre (n + 4 + length ?i) @ le_bytes 2 (4 + length ?i) @
      le_bytes 2 t @ ?i @ z" for z
    by (rule memcpy_at) (simp_all add: n_def)
  moreover have "req_of hdr (as @ (t, []) # inner) = ?pre (n + 4 + length ?i) @ le_bytes 2 4 @
      le_bytes 2 t @ ?i @ replicate (sizeof_req - (n + 4 + length ?i)) 0"
    unfolding req_of_def m by (simp add: e)
  moreover have "req_of hdr (as @ [(t, ?i)]) = ?pre (n + 4 + length ?i) @ le_bytes 2 (4 + length ?i) @
      le_bytes 2 t @ ?i @ replicate (sizeof_req - (n + 4 + length ?i)) 0"
    by (simp add: req_of_def e' n_def add.assoc)
  ultimately show ?thesis
    unfolding nlattr_end_nested_def n_def [symmetric] tail by simp
qed

section \<open>Safety of the parser\<close>

text \<open>An attribute that lies inside the first \<open>lim\<close> bytes.\<close>

definition attr_in :: "8 word list \<Rightarrow> nat \<Rightarrow> nat \<Rightarrow> bool" where
  "attr_in buf lim off \<longleftrightarrow>
     (\<exists>l. nla_len_at buf off = Some l \<and> NLA_HDRLEN \<le> l \<and> off + l \<le> lim)"

lemma nla_ok_in:
  assumes "int nla + rem \<le> int lim" and "lim \<le> length buf"
  shows "nla_ok buf nla rem \<noteq> None"
    and "nla_ok buf nla rem = Some True \<Longrightarrow> attr_in buf lim nla"
proof -
  show "nla_ok buf nla rem \<noteq> None"
  proof (cases "rem < int NLA_HDRLEN")
    case False
    with assms have "rd 2 buf nla \<noteq> None" by (simp add: rd_None NLA_HDRLEN_def)
    then show ?thesis by (auto simp: nla_ok_def nla_len_at_def)
  qed (simp add: nla_ok_def)
  show "nla_ok buf nla rem = Some True \<Longrightarrow> attr_in buf lim nla"
    using assms by (auto simp: nla_ok_def attr_in_def split: if_splits Option.bind_splits)
qed

lemma attr_in_type:
  assumes "attr_in buf lim off" and "lim \<le> length buf"
  obtains t where "nla_type buf off = Some t"
  using assms by (cases "nla_type buf off")
    (auto simp: attr_in_def nla_type_def rd_None NLA_HDRLEN_def)

text \<open>What a policy promises of the attribute stored for its type.\<close>

definition policy_ok :: "8 word list \<Rightarrow> nla_policy list option \<Rightarrow> nat \<Rightarrow> nat \<Rightarrow> bool" where
  "policy_ok buf policy t off =
     (case policy of None \<Rightarrow> True
      | Some p \<Rightarrow> np_type (p ! t) \<le> LIBBPF_NLA_TYPE_MAX \<longrightarrow>
          (\<exists>l. nla_len_at buf off = Some l \<and> policy_minlen (p ! t) + NLA_HDRLEN \<le> l \<and>
             (np_maxlen (p ! t) \<noteq> 0 \<longrightarrow> l \<le> np_maxlen (p ! t) + NLA_HDRLEN) \<and>
             (np_type (p ! t) = LIBBPF_NLA_STRING \<longrightarrow> rd 1 buf (off + l - 1) = Some 0)))"

lemma minlen_string: "np_type pt = LIBBPF_NLA_STRING \<Longrightarrow> 1 \<le> policy_minlen pt"
  by (simp add: policy_minlen_def LIBBPF_NLA_STRING_def LIBBPF_NLA_UNSPEC_def nla_attr_minlen_def)

lemma validate_nla_ok:
  assumes "attr_in buf lim off" and "lim \<le> length buf" and "nla_type buf off = Some t"
    and "t \<le> maxtype" and "length p = maxtype + 1"
  shows "\<exists>r. validate_nla buf off maxtype p = Some r \<and> (r = 0 \<or> r = - EINVAL) \<and>
    (r = 0 \<longrightarrow> policy_ok buf (Some p) t off)"
proof -
  from assms(1) obtain l where l: "nla_len_at buf off = Some l" "NLA_HDRLEN \<le> l" "off + l \<le> lim"
    by (auto simp: attr_in_def)
  have len: "libbpf_nla_len buf off = Some (int l - int NLA_HDRLEN)" using l by (simp add: libbpf_nla_len_def)
  let ?pt = "p ! t"
  have idx: "libbpf_nla_data off + nat (int l - int NLA_HDRLEN - 1) = off + l - 1"
    if "1 \<le> int l - int NLA_HDRLEN"
    using that by (simp add: libbpf_nla_data_def)
  have rd1: "rd 1 buf (off + l - 1) \<noteq> None" if "1 \<le> l"
    using that l assms(2) by (simp add: rd_None)
  show ?thesis
  proof (cases "np_type ?pt > LIBBPF_NLA_TYPE_MAX")
    case True
    with assms show ?thesis by (auto simp: validate_nla_def policy_ok_def Let_def)
  next
    case False
    show ?thesis
    proof (cases "int l - int NLA_HDRLEN < int (policy_minlen ?pt) \<or>
        np_maxlen ?pt \<noteq> 0 \<and> int l - int NLA_HDRLEN > int (np_maxlen ?pt)")
      case True
      with False assms len show ?thesis by (auto simp: validate_nla_def Let_def)
    next
      case bounds: False
      show ?thesis
      proof (cases "np_type ?pt = LIBBPF_NLA_STRING")
        case True
        with minlen_string [OF True] bounds have one: "1 \<le> int l - int NLA_HDRLEN" by simp
        then have "1 \<le> l" by simp
        with rd1 obtain c where c: "rd 1 buf (off + l - 1) = Some c" by auto
        with False bounds True assms len l one idx [OF one] show ?thesis
          by (auto simp: validate_nla_def policy_ok_def Let_def)
      next
        case other: False
        with False bounds assms len l show ?thesis
          by (auto simp: validate_nla_def policy_ok_def Let_def)
      qed
    qed
  qed
qed

definition index_ok :: "8 word list \<Rightarrow> nat \<Rightarrow> nat \<Rightarrow> nat \<Rightarrow> nla_policy list option \<Rightarrow> nla_index \<Rightarrow> bool" where
  "index_ok buf head lim maxtype policy tb \<longleftrightarrow>
     (\<forall>t off. tb t = Some off \<longrightarrow> t \<le> maxtype \<and> head \<le> off \<and> attr_in buf lim off \<and>
        nla_type buf off = Some t \<and> policy_ok buf policy t off)"

lemma nla_step_ok:
  assumes "attr_in buf lim nla" and "lim \<le> length buf" and "head \<le> nla"
    and "index_ok buf head lim maxtype policy tb"
    and "\<forall>p. policy = Some p \<longrightarrow> length p = maxtype + 1"
  shows "nla_step buf maxtype policy nla tb = Some (Inl (- EINVAL)) \<or>
    (\<exists>tb'. nla_step buf maxtype policy nla tb = Some (Inr tb') \<and>
       index_ok buf head lim maxtype policy tb')"
proof -
  from attr_in_type [OF assms(1,2)] obtain t where t: "nla_type buf nla = Some t" .
  show ?thesis
  proof (cases "t \<le> maxtype")
    case False
    with t assms(4) show ?thesis by (simp add: nla_step_def)
  next
    case True
    show ?thesis
    proof (cases policy)
      case None
      with True t assms(1,3,4) show ?thesis
        by (auto simp: nla_step_def index_ok_def policy_ok_def)
    next
      case (Some p)
      with assms(5) have "length p = maxtype + 1" by simp
      from validate_nla_ok [OF assms(1,2) t True this] obtain r
        where r: "validate_nla buf nla maxtype p = Some r" "r = 0 \<or> r = - EINVAL"
          "r = 0 \<longrightarrow> policy_ok buf policy t nla" using Some by auto
      from r(2) show ?thesis
      proof
        assume "r = 0"
        with r True t assms(1,3,4) Some show ?thesis
          by (auto simp: nla_step_def index_ok_def)
      next
        assume "r = - EINVAL"
        with r True t Some show ?thesis by (simp add: nla_step_def)
      qed
    qed
  qed
qed

lemma nla_next_in:
  assumes "attr_in buf lim nla" and "int nla + rem \<le> int lim"
  shows "\<exists>nla' rem'. nla_next buf nla rem = Some (nla', rem') \<and> int nla' + rem' \<le> int lim \<and> nla \<le> nla'"
  using assms by (auto simp: attr_in_def nla_next_def Let_def)

lemma nla_loop_ok:
  assumes "int nla + rem \<le> int lim" and "lim \<le> length buf" and "head \<le> nla"
    and "index_ok buf head lim maxtype policy tb"
    and "\<forall>p. policy = Some p \<longrightarrow> length p = maxtype + 1"
  shows "\<exists>r tb'. nla_loop buf maxtype policy nla rem tb = Some (r, tb') \<and> (r = 0 \<or> r = - EINVAL) \<and>
    index_ok buf head lim maxtype policy tb'"
  using assms
proof (induction buf maxtype policy nla rem tb rule: nla_loop.induct)
  case (1 buf maxtype policy nla rem tb)
  note ok = nla_ok_in [OF "1.prems"(1,2)]
  show ?case
  proof (cases "nla_ok buf nla rem = Some True")
    case False
    with ok(1) have "nla_ok buf nla rem = Some False" by (cases "nla_ok buf nla rem") auto
    with "1.prems"(4) show ?thesis by (simp add: nla_loop.simps)
  next
    case True
    note inb = ok(2) [OF True]
    from nla_step_ok [OF inb "1.prems"(2-5)] show ?thesis
    proof
      assume "nla_step buf maxtype policy nla tb = Some (Inl (- EINVAL))"
      with True "1.prems"(4) show ?thesis by (simp add: nla_loop.simps)
    next
      assume "\<exists>tb'. nla_step buf maxtype policy nla tb = Some (Inr tb') \<and>
        index_ok buf head lim maxtype policy tb'"
      then obtain tb' where st: "nla_step buf maxtype policy nla tb = Some (Inr tb')"
        and ix: "index_ok buf head lim maxtype policy tb'" by blast
      from nla_next_in [OF inb "1.prems"(1)] obtain nla' rem' where
        nx: "nla_next buf nla rem = Some (nla', rem')" and le: "int nla' + rem' \<le> int lim" "nla \<le> nla'"
        by blast
      have run: "nla_loop buf maxtype policy nla rem tb = nla_loop buf maxtype policy nla' rem' tb'"
        by (subst nla_loop.simps) (simp add: True st nx)
      show ?thesis
        unfolding run
        by (rule "1.IH" [OF True refl st refl nx refl le(1) "1.prems"(2) _ ix "1.prems"(5)])
          (use le(2) "1.prems"(3) in simp)
    qed
  qed
qed

section \<open>Properties\<close>

text \<open>C22: parsing a stream of attributes that lies inside the received message never reads
  outside it, ends with success or EINVAL, and every attribute in the index lies inside the
  stream, has the type it is stored under and a payload as long as its policy asks, with the
  NUL at the end of a string.\<close>

theorem nla_parse_safe:
  assumes "int head + len \<le> int lim" and "lim \<le> length buf"
    and "\<forall>p. policy = Some p \<longrightarrow> length p = maxtype + 1"
  shows "\<exists>r tb. libbpf_nla_parse maxtype buf head len policy = Some (r, tb) \<and>
    (r = 0 \<or> r = - EINVAL) \<and>
    (\<forall>t off. tb t = Some off \<longrightarrow> t \<le> maxtype \<and> head \<le> off \<and> attr_in buf lim off \<and>
       nla_type buf off = Some t \<and> policy_ok buf policy t off)"
  using nla_loop_ok [OF assms(1,2) order_refl, where tb = "\<lambda>_. None" and policy = policy and maxtype = maxtype]
    assms(3)
  by (auto simp: libbpf_nla_parse_def index_ok_def)

definition demo_policy :: "nla_policy list" where
  "demo_policy = replicate 4 \<lparr>np_type = 0, np_minlen = 0, np_maxlen = 0\<rparr>"

theorem nla_parse_safe_witness:
  "\<exists>r tb. libbpf_nla_parse 3 [5, 0, 1, 0, 7, 0, 0, 0] 0 8 (Some demo_policy) = Some (r, tb) \<and>
     (r = 0 \<or> r = - EINVAL)"
  using nla_parse_safe [of 0 8 8 "[5, 0, 1, 0, 7, 0, 0, 0]" "Some demo_policy" 3]
  by (auto simp: demo_policy_def)

text \<open>C23: appending attributes to a request writes exactly their encoding behind the ones that
  are there, updates the length and fails with EMSGSIZE, leaving the request alone, exactly
  when they do not fit; what the parser of the same library then finds is the list of
  attributes added.\<close>

theorem nlattr_add_parse_roundtrip:
  assumes "fits hdr as" and "d \<noteq> []" and "list_all attr_ok (as @ [(t, d)])"
  shows "if fits hdr (as @ [(t, d)])
    then nlattr_add (req_of hdr as) t (Some d) (length d) = (0, req_of hdr (as @ [(t, d)])) \<and>
      libbpf_nla_parse maxtype (req_of hdr (as @ [(t, d)])) (4 + length hdr)
        (int (length (nlas_enc (as @ [(t, d)])))) None =
      Some (0, index_of maxtype (4 + length hdr) (as @ [(t, d)]) (\<lambda>_. None))
    else nlattr_add (req_of hdr as) t (Some d) (length d) = (- EMSGSIZE, req_of hdr as)"
proof (cases "fits hdr (as @ [(t, d)])")
  case True
  let ?n = "4 + length hdr + length (nlas_enc (as @ [(t, d)]))"
  have "req_of hdr (as @ [(t, d)]) = (le_bytes 4 ?n @ hdr) @ nlas_enc (as @ [(t, d)]) @
      replicate (sizeof_req - ?n) 0" by (simp only: req_of_def append_assoc)
  moreover have "length (le_bytes 4 ?n @ hdr) = 4 + length hdr" by simp
  ultimately have "libbpf_nla_parse maxtype (req_of hdr (as @ [(t, d)])) (4 + length hdr)
        (int (length (nlas_enc (as @ [(t, d)])))) None =
      Some (0, index_of maxtype (4 + length hdr) (as @ [(t, d)]) (\<lambda>_. None))"
    unfolding libbpf_nla_parse_def using nla_loop_enc [OF assms(3)] by metis
  with True nlattr_add_canonical [OF assms(1) True, of "Some d"] assms(2) show ?thesis by simp
next
  case False
  with nlattr_add_full [OF assms(1) False] show ?thesis by simp
qed

theorem nlattr_add_parse_roundtrip_witness:
  "nlattr_add (req_of (replicate 32 0) []) 1 (Some [98, 112, 102, 0]) (length [98, 112, 102, 0 :: 8 word]) =
   (0, req_of (replicate 32 0) [(1, [98, 112, 102, 0])])"
  using nlattr_add_parse_roundtrip [of "replicate 32 0" "[]" "[98, 112, 102, 0]" 1]
  by (simp add: fits_def sizeof_req_def attr_ok_def NLA_HDRLEN_def length_nla_enc align4_def)

end
