(* ===== verification/NetlinkCore.thy ===== *)
theory NetlinkCore
  imports NlAttr
begin

text \<open>
  The netlink exchange of \<^verbatim>\<open>libbpf/src/netlink.c\<close>: opening the socket, receiving a reply of
  several messages, reporting the extended acknowledgement (\<^verbatim>\<open>nlattr.c\<close>). A socket is the list of
  the results its \<^verbatim>\<open>recvmsg\<close> calls will have; when the list is used up the call blocks.
\<close>

section \<open>The socket\<close>

abbreviation (input) EINTR :: int where "EINTR \<equiv> 4"
abbreviation (input) EAGAIN :: int where "EAGAIN \<equiv> 11"
abbreviation (input) LIBBPF_ERRNO__INTERNAL :: int where "LIBBPF_ERRNO__INTERNAL \<equiv> 4004"
abbreviation (input) LIBBPF_ERRNO__WRNGPID :: int where "LIBBPF_ERRNO__WRNGPID \<equiv> 4011"
abbreviation (input) LIBBPF_ERRNO__INVSEQ :: int where "LIBBPF_ERRNO__INVSEQ \<equiv> 4012"
abbreviation (input) LIBBPF_ERRNO__NLPARSE :: int where "LIBBPF_ERRNO__NLPARSE \<equiv> 4013"

text \<open>\<open>Inl e\<close>: the call fails with errno \<open>e\<close>; \<open>Inr bs\<close>: the datagram (or, with \<^verbatim>\<open>MSG_PEEK\<close>, a
  datagram of that length).\<close>

type_synonym recv_result = "int + 8 word list"

record sock_env =
  se_socket :: int
  se_bind_errno :: int
  se_getsockname_errno :: int
  se_addrlen_ok :: bool
  se_nl_pid :: nat
  se_time :: nat
  se_send_errno :: int
  se_alloc_ok :: bool
  se_realloc_ok :: bool
  se_recv :: "recv_result list"

text \<open>The descriptor or a negative error, the port id, and the number of sockets left open.
  \<open>se_socket\<close> is the descriptor or the negated errno.\<close>

definition libbpf_netlink_open :: "sock_env \<Rightarrow> int \<times> nat \<times> nat" where
  "libbpf_netlink_open env =
     (if se_socket env < 0 then (se_socket env, 0, 0)
      else if se_bind_errno env \<noteq> 0 then (- se_bind_errno env, 0, 0)
      else if se_getsockname_errno env \<noteq> 0 then (- se_getsockname_errno env, 0, 0)
      else if \<not> se_addrlen_ok env then (- LIBBPF_ERRNO__INTERNAL, 0, 0)
      else (se_socket env, se_nl_pid env, 1))"

fun netlink_recvmsg :: "recv_result list \<Rightarrow> (recv_result \<times> recv_result list) option" where
  "netlink_recvmsg [] = None"
| "netlink_recvmsg (Inl e # rest) =
     (if e = EINTR \<or> e = EAGAIN then netlink_recvmsg rest else Some (Inl (- e), rest))"
| "netlink_recvmsg (Inr bs # rest) = Some (Inr bs, rest)"

lemma netlink_recvmsg_less: "netlink_recvmsg sock = Some (r, rest) \<Longrightarrow> length rest < length sock"
  by (induction sock rule: netlink_recvmsg.induct) (auto split: if_splits)

section \<open>Messages\<close>

definition NLMSG_HDRLEN :: nat where "NLMSG_HDRLEN = 16"
definition NLMSG_ERROR :: nat where "NLMSG_ERROR = 2"
definition NLMSG_DONE :: nat where "NLMSG_DONE = 3"

definition nlmsg_len_at :: "8 word list \<Rightarrow> nat \<Rightarrow> nat option" where
  "nlmsg_len_at buf nh = rd 4 buf nh"

definition nlmsg_type_at :: "8 word list \<Rightarrow> nat \<Rightarrow> nat option" where
  "nlmsg_type_at buf nh = rd 2 buf (nh + 4)"

definition nlmsg_flags_at :: "8 word list \<Rightarrow> nat \<Rightarrow> nat option" where
  "nlmsg_flags_at buf nh = rd 2 buf (nh + 6)"

definition nlmsg_seq_at :: "8 word list \<Rightarrow> nat \<Rightarrow> nat option" where
  "nlmsg_seq_at buf nh = rd 4 buf (nh + 8)"

definition nlmsg_pid_at :: "8 word list \<Rightarrow> nat \<Rightarrow> nat option" where
  "nlmsg_pid_at buf nh = rd 4 buf (nh + 12)"

text \<open>Flags: \<^verbatim>\<open>NLM_F_MULTI\<close> is bit 1, \<^verbatim>\<open>NLM_F_ECHO\<close> bit 3, \<^verbatim>\<open>NLM_F_CAPPED\<close> bit 8, \<^verbatim>\<open>NLM_F_ACK_TLVS\<close> bit 9.\<close>

definition NLM_F_MULTI :: "nat \<Rightarrow> bool" where "NLM_F_MULTI flags = bit flags 1"
definition NLM_F_ECHO :: "nat \<Rightarrow> bool" where "NLM_F_ECHO flags = bit flags 3"
definition NLM_F_CAPPED :: "nat \<Rightarrow> bool" where "NLM_F_CAPPED flags = bit flags 8"
definition NLM_F_ACK_TLVS :: "nat \<Rightarrow> bool" where "NLM_F_ACK_TLVS flags = bit flags 9"

text \<open>The value of 32 bits read as an \<^verbatim>\<open>int\<close>.\<close>

definition s32 :: "nat \<Rightarrow> int" where "s32 n = sint (of_nat n :: 32 word)"

definition nlmsg_len :: "8 word list \<Rightarrow> nat \<Rightarrow> int option" where
  "nlmsg_len buf nh = map_option (\<lambda>l. s32 (l + 2 ^ 32 - NLMSG_HDRLEN)) (nlmsg_len_at buf nh)"

section \<open>The extended acknowledgement\<close>

definition extack_policy :: "nla_policy list" where
  "extack_policy =
     [\<lparr>np_type = LIBBPF_NLA_UNSPEC, np_minlen = 0, np_maxlen = 0\<rparr>,
      \<lparr>np_type = LIBBPF_NLA_STRING, np_minlen = 0, np_maxlen = 0\<rparr>,
      \<lparr>np_type = LIBBPF_NLA_U32, np_minlen = 0, np_maxlen = 0\<rparr>,
      \<lparr>np_type = LIBBPF_NLA_UNSPEC, np_minlen = 0, np_maxlen = 0\<rparr>]"

text \<open>What is printed: nothing, a warning, or the message with the pointer given to \<^verbatim>\<open>%s\<close>,
  where \<open>None\<close> is NULL.\<close>

datatype printed = P_nothing | P_warning | P_message "nat option"

definition libbpf_nla_dump_errormsg :: "8 word list \<Rightarrow> nat \<Rightarrow> printed option" where
  "libbpf_nla_dump_errormsg buf nlh =
     do { flags \<leftarrow> nlmsg_flags_at buf nlh;
          if \<not> NLM_F_ACK_TLVS flags then Some P_nothing
          else do {
            let err = nlh + NLMSG_HDRLEN;
            inner \<leftarrow> (if NLM_F_CAPPED flags then Some 0 else nlmsg_len buf (err + 4));
            msglen \<leftarrow> nlmsg_len_at buf nlh;
            let hlen = 20 + inner;
            let alen = int nlh + int msglen - (int err + hlen);
            if hlen \<ge> 2 ^ 31 \<or> int err + hlen < 0 then None
            else do {
              (r, tb) \<leftarrow> libbpf_nla_parse 3 buf (nat (int err + hlen)) alen (Some extack_policy);
              if r \<noteq> 0 then Some P_warning
              else Some (P_message (map_option libbpf_nla_data (tb 1))) } } }"

section \<open>Receiving\<close>

datatype 'c loop_end = L_fall bool 'c | L_start 'c | L_done int 'c

text \<open>\<open>NL_CONT = 0\<close>, \<open>NL_NEXT = 1\<close>, \<open>NL_DONE = 2\<close>; any other value of the callback is returned. A
  callback gets the message and the cookie; \<open>None\<close> is an access outside the data received.\<close>

type_synonym 'c nl_callback = "8 word list \<Rightarrow> nat \<Rightarrow> 'c \<Rightarrow> (int \<times> 'c) option"

text \<open>What happens with one message: \<open>None\<close> within \<open>Some\<close> goes on to the next one.\<close>

definition nlmsg_one :: "'c nl_callback option \<Rightarrow> nat \<Rightarrow> nat \<Rightarrow> 8 word list \<Rightarrow> nat \<Rightarrow> 'c \<Rightarrow>
    ('c loop_end option \<times> bool \<times> 'c) option" where
  "nlmsg_one fn nl_pid seq buf nh cookie =
     do { pid \<leftarrow> nlmsg_pid_at buf nh;
          sq \<leftarrow> nlmsg_seq_at buf nh;
          flags \<leftarrow> nlmsg_flags_at buf nh;
          type \<leftarrow> nlmsg_type_at buf nh;
          if pid \<noteq> nl_pid then Some (Some (L_done (- LIBBPF_ERRNO__WRNGPID) cookie), False, cookie)
          else if sq \<noteq> seq then Some (Some (L_done (- LIBBPF_ERRNO__INVSEQ) cookie), False, cookie)
          else let multi = NLM_F_MULTI flags
          in if type = NLMSG_ERROR
             then do { e \<leftarrow> rd 4 buf (nh + NLMSG_HDRLEN);
                       if e = 0 then Some (None, multi, cookie)
                       else do { _ \<leftarrow> libbpf_nla_dump_errormsg buf nh;
                                 Some (Some (L_done (s32 e) cookie), multi, cookie) } }
             else if type = NLMSG_DONE then Some (Some (L_done 0 cookie), multi, cookie)
             else case fn of
                    None \<Rightarrow> Some (None, multi, cookie)
                  | Some f \<Rightarrow>
                      do { (ret, c) \<leftarrow> f buf nh cookie;
                           if ret = 0 then Some (None, multi, c)
                           else if ret = 1 then Some (Some (L_start c), multi, c)
                           else if ret = 2 then Some (Some (L_done 0 c), multi, c)
                           else Some (Some (L_done ret c), multi, c) } }"

text \<open>\<^verbatim>\<open>NLMSG_OK\<close> gives the length of the message if there is one more.\<close>

definition NLMSG_OK :: "8 word list \<Rightarrow> nat \<Rightarrow> int \<Rightarrow> nat option option" where
  "NLMSG_OK buf nh len =
     (if len < int NLMSG_HDRLEN then Some None
      else do { l \<leftarrow> nlmsg_len_at buf nh;
                Some (if NLMSG_HDRLEN \<le> l \<and> int l \<le> len then Some l else None) })"

function nlmsg_loop :: "'c nl_callback option \<Rightarrow> nat \<Rightarrow> nat \<Rightarrow> 8 word list \<Rightarrow> nat \<Rightarrow> int \<Rightarrow> bool \<Rightarrow>
    'c \<Rightarrow> 'c loop_end option" where
  "nlmsg_loop fn nl_pid seq buf nh len multipart cookie =
     (case NLMSG_OK buf nh len of
        None \<Rightarrow> None
      | Some None \<Rightarrow> Some (L_fall multipart cookie)
      | Some (Some l) \<Rightarrow>
          (case nlmsg_one fn nl_pid seq buf nh cookie of
             None \<Rightarrow> None
           | Some (Some e, _, _) \<Rightarrow> Some e
           | Some (None, multi, c) \<Rightarrow>
               nlmsg_loop fn nl_pid seq buf (nh + align4 l) (len - int (align4 l))
                 (multipart \<or> multi) c))"
  by pat_completeness auto
termination
proof (relation "measure (\<lambda>(_, _, _, _, _, len, _, _). nat len)", simp, goal_cases)
  case (1 fn nl_pid seq buf nh len multipart cookie x2 x2a)
  then show ?case
    using align4_ge [of x2a]
    by (auto simp: NLMSG_OK_def NLMSG_HDRLEN_def split: if_splits Option.bind_splits)
qed

declare nlmsg_loop.simps [simp del]

datatype 'c outcome = Crash | Blocked | Done int 'c

function libbpf_netlink_rounds :: "'c nl_callback option \<Rightarrow> nat \<Rightarrow> nat \<Rightarrow> bool \<Rightarrow> nat \<Rightarrow> recv_result list \<Rightarrow>
    'c \<Rightarrow> 'c outcome" where
  "libbpf_netlink_rounds fn nl_pid seq realloc_ok iov_len sock cookie =
     (case netlink_recvmsg sock of
        None \<Rightarrow> Blocked
      | Some (Inl e, s1) \<Rightarrow> Done e cookie
      | Some (Inr peeked, s1) \<Rightarrow>
          if length peeked > iov_len \<and> \<not> realloc_ok then Done (- ENOMEM) cookie
          else (case netlink_recvmsg s1 of
                  None \<Rightarrow> Blocked
                | Some (Inl e, s2) \<Rightarrow> Done e cookie
                | Some (Inr datagram, s2) \<Rightarrow>
                    if datagram = [] then Done 0 cookie
                    else (case nlmsg_loop fn nl_pid seq (take (max iov_len (length peeked)) datagram) 0
                                 (int (length (take (max iov_len (length peeked)) datagram))) False cookie of
                            None \<Rightarrow> Crash
                          | Some (L_done ret c) \<Rightarrow> Done ret c
                          | Some (L_start c) \<Rightarrow>
                              libbpf_netlink_rounds fn nl_pid seq realloc_ok
                                (max iov_len (length peeked)) s2 c
                          | Some (L_fall multipart c) \<Rightarrow>
                              if multipart
                              then libbpf_netlink_rounds fn nl_pid seq realloc_ok
                                     (max iov_len (length peeked)) s2 c
                              else Done 0 c)))"
  by pat_completeness auto
termination
proof (relation "measure (\<lambda>(_, _, _, _, _, sock, _). length sock)", simp, goal_cases)
  case (1 fn nl_pid seq realloc_ok iov_len sock)
  then show ?case by (auto dest!: netlink_recvmsg_less)
next
  case (2 fn nl_pid seq realloc_ok iov_len sock)
  then show ?case by (auto dest!: netlink_recvmsg_less)
qed

declare libbpf_netlink_rounds.simps [simp del]

definition libbpf_netlink_recv :: "'c nl_callback option \<Rightarrow> nat \<Rightarrow> nat \<Rightarrow> sock_env \<Rightarrow> 'c \<Rightarrow> 'c outcome" where
  "libbpf_netlink_recv fn nl_pid seq env cookie =
     (if \<not> se_alloc_ok env then Done (- ENOMEM) cookie
      else libbpf_netlink_rounds fn nl_pid seq (se_realloc_ok env) 8192 (se_recv env) cookie)"

text \<open>The bytes handed to \<^verbatim>\<open>send\<close>: the request with sequence number and port id filled in.\<close>

definition sent_bytes :: "sock_env \<Rightarrow> 8 word list \<Rightarrow> 8 word list" where
  "sent_bytes env req =
     take (req_nlmsg_len req)
       (memcpy 8 (le_bytes 4 (se_time env mod 2 ^ 32)) (memcpy 12 (le_bytes 4 0) req))"

text \<open>The result, the message sent if any, and the number of sockets left open.\<close>

definition libbpf_netlink_send_recv :: "'c nl_callback option \<Rightarrow> sock_env \<Rightarrow> 8 word list \<Rightarrow> 'c \<Rightarrow>
    'c outcome \<times> 8 word list option \<times> nat" where
  "libbpf_netlink_send_recv fn env req cookie =
     (case libbpf_netlink_open env of
        (sock, nl_pid, open_socks) \<Rightarrow>
          if sock < 0 then (Done sock cookie, None, open_socks)
          else if se_send_errno env \<noteq> 0 then (Done (- se_send_errno env) cookie, None, open_socks - 1)
          else (libbpf_netlink_recv fn nl_pid (se_time env mod 2 ^ 32) env cookie,
                Some (sent_bytes env req), open_socks - 1))"

section \<open>Messages as data\<close>

record nlmsg =
  m_type :: nat
  m_flags :: nat
  m_seq :: nat
  m_pid :: nat
  m_payload :: "8 word list"

definition nlmsg_enc :: "nlmsg \<Rightarrow> 8 word list" where
  "nlmsg_enc m = le_bytes 4 (NLMSG_HDRLEN + length (m_payload m)) @ le_bytes 2 (m_type m) @
     le_bytes 2 (m_flags m) @ le_bytes 4 (m_seq m) @ le_bytes 4 (m_pid m) @ m_payload m @
     replicate (align4 (length (m_payload m)) - length (m_payload m)) 0"

definition nlmsgs_enc :: "nlmsg list \<Rightarrow> 8 word list" where
  "nlmsgs_enc ms = concat (map nlmsg_enc ms)"

lemma nlmsgs_enc_simps [simp]:
  "nlmsgs_enc [] = []" "nlmsgs_enc (m # ms) = nlmsg_enc m @ nlmsgs_enc ms"
  by (simp_all add: nlmsgs_enc_def)

text \<open>A message the kernel may send: its fields are in range and an error message holds the error
  and the header of the request it answers, whose length is at least that of a header.\<close>

definition nlmsg_ok :: "nlmsg \<Rightarrow> bool" where
  "nlmsg_ok m \<longleftrightarrow> m_type m < 2 ^ 16 \<and> m_flags m < 2 ^ 16 \<and> m_seq m < 2 ^ 32 \<and> m_pid m < 2 ^ 32 \<and>
     NLMSG_HDRLEN + length (m_payload m) < 2 ^ 31 \<and>
     (m_type m = NLMSG_ERROR \<longrightarrow> 20 \<le> length (m_payload m) \<and>
        NLMSG_HDRLEN \<le> le_val (take 4 (drop 4 (m_payload m))) \<and>
        le_val (take 4 (drop 4 (m_payload m))) < 2 ^ 30)"

lemma length_nlmsg_enc: "length (nlmsg_enc m) = align4 (NLMSG_HDRLEN + length (m_payload m))"
proof -
  have "align4 (NLMSG_HDRLEN + length (m_payload m)) = NLMSG_HDRLEN + align4 (length (m_payload m))"
    using align4_add4 [of "4 + (4 + (4 + length (m_payload m)))"]
      align4_add4 [of "4 + (4 + length (m_payload m))"] align4_add4 [of "4 + length (m_payload m)"]
      align4_add4 [of "length (m_payload m)"] by (simp add: NLMSG_HDRLEN_def)
  then show ?thesis
    using align4_ge [of "length (m_payload m)"] by (simp add: nlmsg_enc_def NLMSG_HDRLEN_def)
qed

lemma nlmsg_enc_fields:
  assumes "nlmsg_ok m"
  shows "nlmsg_len_at (pre @ nlmsg_enc m @ post) (length pre) = Some (NLMSG_HDRLEN + length (m_payload m))"
    and "nlmsg_type_at (pre @ nlmsg_enc m @ post) (length pre) = Some (m_type m)"
    and "nlmsg_flags_at (pre @ nlmsg_enc m @ post) (length pre) = Some (m_flags m)"
    and "nlmsg_seq_at (pre @ nlmsg_enc m @ post) (length pre) = Some (m_seq m)"
    and "nlmsg_pid_at (pre @ nlmsg_enc m @ post) (length pre) = Some (m_pid m)"
proof -
  have b: "NLMSG_HDRLEN + length (m_payload m) < 256 ^ 4" "m_type m < 256 ^ 2" "m_flags m < 256 ^ 2"
    "m_seq m < 256 ^ 4" "m_pid m < 256 ^ 4"
    using assms by (simp_all add: nlmsg_ok_def)
  show "nlmsg_len_at (pre @ nlmsg_enc m @ post) (length pre) = Some (NLMSG_HDRLEN + length (m_payload m))"
    using rd_le_bytes [OF b(1)] by (simp add: nlmsg_len_at_def nlmsg_enc_def rd_append0)
  show "nlmsg_type_at (pre @ nlmsg_enc m @ post) (length pre) = Some (m_type m)"
    using rd_le_bytes [OF b(2)] by (simp add: nlmsg_type_at_def nlmsg_enc_def rd_append rd_skip)
  show "nlmsg_flags_at (pre @ nlmsg_enc m @ post) (length pre) = Some (m_flags m)"
    using rd_le_bytes [OF b(3)] by (simp add: nlmsg_flags_at_def nlmsg_enc_def rd_append rd_skip)
  show "nlmsg_seq_at (pre @ nlmsg_enc m @ post) (length pre) = Some (m_seq m)"
    using rd_le_bytes [OF b(4)] by (simp add: nlmsg_seq_at_def nlmsg_enc_def rd_append rd_skip)
  show "nlmsg_pid_at (pre @ nlmsg_enc m @ post) (length pre) = Some (m_pid m)"
    using rd_le_bytes [OF b(5)] by (simp add: nlmsg_pid_at_def nlmsg_enc_def rd_append rd_skip)
qed

lemma nlmsg_enc_payload:
  "rd k (pre @ nlmsg_enc m @ post) (length pre + NLMSG_HDRLEN + off) =
   rd k (m_payload m @ replicate (align4 (length (m_payload m)) - length (m_payload m)) 0 @ post) off"
  by (simp add: nlmsg_enc_def NLMSG_HDRLEN_def rd_append rd_skip add.assoc)

text \<open>The error an acknowledgement carries.\<close>

definition m_error :: "nlmsg \<Rightarrow> nat" where
  "m_error m = le_val (take 4 (m_payload m))"

lemma s32_small: "n < 2 ^ 31 \<Longrightarrow> s32 n = int n"
  by (simp add: s32_def signed_of_nat signed_take_bit_int_eq_self_iff)

lemma nlmsg_len_ok:
  assumes "nlmsg_len_at buf nh = Some l" and "NLMSG_HDRLEN \<le> l" and "l < 2 ^ 31"
  shows "nlmsg_len buf nh = Some (int l - int NLMSG_HDRLEN)"
proof -
  have e: "l + 2 ^ 32 - NLMSG_HDRLEN = 2 ^ 32 + (l - NLMSG_HDRLEN)" using assms by simp
  have "(of_nat (2 ^ 32 + (l - NLMSG_HDRLEN)) :: 32 word) = of_nat (l - NLMSG_HDRLEN)"
    by simp
  then have "s32 (2 ^ 32 + (l - NLMSG_HDRLEN)) = s32 (l - NLMSG_HDRLEN)" unfolding s32_def by metis
  also have "\<dots> = int (l - NLMSG_HDRLEN)" using assms by (intro s32_small) linarith
  finally show ?thesis unfolding nlmsg_len_def assms(1) option.map e using assms(2) by simp
qed

text \<open>Printing the extended acknowledgement of a well-formed error message stays inside it.\<close>

lemma dump_errormsg_safe:
  assumes m: "nlmsg_ok m" and e: "m_type m = NLMSG_ERROR"
  shows "libbpf_nla_dump_errormsg (pre @ nlmsg_enc m @ post) (length pre) \<noteq> None"
proof -
  let ?buf = "pre @ nlmsg_enc m @ post" and ?nlh = "length pre"
  let ?inner = "le_val (take 4 (drop 4 (m_payload m)))"
  note f = nlmsg_enc_fields [OF m, of pre post]
  from m e have pl: "20 \<le> length (m_payload m)" and il: "NLMSG_HDRLEN \<le> ?inner" "?inner < 2 ^ 30"
    by (simp_all add: nlmsg_ok_def)
  have "rd 4 (m_payload m @ x) 4 = Some ?inner" for x
    using pl by (simp add: rd_def)
  then have "nlmsg_len_at ?buf (?nlh + NLMSG_HDRLEN + 4) = Some ?inner"
    unfolding nlmsg_len_at_def nlmsg_enc_payload by simp
  then have nl: "nlmsg_len ?buf (?nlh + NLMSG_HDRLEN + 4) = Some (int ?inner - int NLMSG_HDRLEN)"
    using nlmsg_len_ok il by simp
  have parse: "\<exists>r tb. libbpf_nla_parse 3 ?buf head alen (Some extack_policy) = Some (r, tb)"
    if "int head + alen \<le> int (?nlh + (NLMSG_HDRLEN + length (m_payload m)))" for head alen
  proof -
    have "?nlh + (NLMSG_HDRLEN + length (m_payload m)) \<le> length ?buf"
      using align4_ge [of "NLMSG_HDRLEN + length (m_payload m)"] by (simp add: length_nlmsg_enc)
    from nla_loop_ok [OF that this order_refl, of 3 "Some extack_policy" "\<lambda>_. None"]
    show ?thesis by (auto simp: libbpf_nla_parse_def index_ok_def extack_policy_def)
  qed
  show ?thesis
  proof (cases "NLM_F_ACK_TLVS (m_flags m)")
    case False
    then show ?thesis by (simp add: libbpf_nla_dump_errormsg_def f)
  next
    case True
    define inner where "inner = (if NLM_F_CAPPED (m_flags m) then 0 else int ?inner - int NLMSG_HDRLEN)"
    have b: "0 \<le> inner" "inner < 2 ^ 30" using il by (simp_all add: inner_def)
    let ?head = "nat (int (?nlh + NLMSG_HDRLEN) + (20 + inner))"
    let ?alen = "int ?nlh + int (NLMSG_HDRLEN + length (m_payload m)) -
      (int (?nlh + NLMSG_HDRLEN) + (20 + inner))"
    have "int ?head + ?alen \<le> int (?nlh + (NLMSG_HDRLEN + length (m_payload m)))" using b by simp
    from parse [OF this] obtain r tb where
      "libbpf_nla_parse 3 ?buf ?head ?alen (Some extack_policy) = Some (r, tb)" by blast
    moreover have "(if NLM_F_CAPPED (m_flags m) then Some 0
        else nlmsg_len ?buf (?nlh + NLMSG_HDRLEN + 4)) = Some inner"
      unfolding nl inner_def by simp
    ultimately show ?thesis
      using b True unfolding libbpf_nla_dump_errormsg_def f Let_def by simp
  qed
qed

section \<open>The protocol on messages\<close>

text \<open>The same exchange, with messages instead of bytes: the specification of the receiver.\<close>

type_synonym 'c msg_handler = "nlmsg \<Rightarrow> 'c \<Rightarrow> int \<times> 'c"

fun reply_loop :: "'c msg_handler option \<Rightarrow> nat \<Rightarrow> nat \<Rightarrow> nlmsg list \<Rightarrow> bool \<Rightarrow> 'c \<Rightarrow> 'c loop_end" where
  "reply_loop g pid seq [] multi c = L_fall multi c"
| "reply_loop g pid seq (m # ms) multi c =
     (let more = multi \<or> NLM_F_MULTI (m_flags m) in
      if m_pid m \<noteq> pid then L_done (- LIBBPF_ERRNO__WRNGPID) c
      else if m_seq m \<noteq> seq then L_done (- LIBBPF_ERRNO__INVSEQ) c
      else if m_type m = NLMSG_ERROR
      then (if m_error m = 0 then reply_loop g pid seq ms more c else L_done (s32 (m_error m)) c)
      else if m_type m = NLMSG_DONE then L_done 0 c
      else case g of
             None \<Rightarrow> reply_loop g pid seq ms more c
           | Some h \<Rightarrow>
               (let r = h m c in
                if fst r = 0 then reply_loop g pid seq ms more (snd r)
                else if fst r = 1 then L_start (snd r)
                else if fst r = 2 then L_done 0 (snd r)
                else L_done (fst r) (snd r)))"

fun reply_rounds :: "'c msg_handler option \<Rightarrow> nat \<Rightarrow> nat \<Rightarrow> nlmsg list list \<Rightarrow> 'c \<Rightarrow> 'c outcome" where
  "reply_rounds g pid seq [] c = Blocked"
| "reply_rounds g pid seq (d # ds) c =
     (if d = [] then Done 0 c
      else case reply_loop g pid seq d False c of
             L_done r c' \<Rightarrow> Done r c'
           | L_start c' \<Rightarrow> reply_rounds g pid seq ds c'
           | L_fall multi c' \<Rightarrow> if multi then reply_rounds g pid seq ds c' else Done 0 c')"

text \<open>The callback on bytes does what the handler does on the message.\<close>

definition handles :: "'c nl_callback option \<Rightarrow> 'c msg_handler option \<Rightarrow> nlmsg \<Rightarrow> bool" where
  "handles fn g m \<longleftrightarrow>
     (case fn of None \<Rightarrow> g = None
      | Some f \<Rightarrow> (\<exists>h. g = Some h \<and> (m_type m \<notin> {NLMSG_ERROR, NLMSG_DONE} \<longrightarrow>
          (\<forall>pre post c. f (pre @ nlmsg_enc m @ post) (length pre) c = Some (h m c)))))"

lemma rd_error:
  assumes "20 \<le> length (m_payload m)"
  shows "rd 4 (pre @ nlmsg_enc m @ post) (length pre + NLMSG_HDRLEN) = Some (m_error m)"
  using nlmsg_enc_payload [of 4 pre m post 0] assms by (simp add: rd_def m_error_def)

lemma nlmsg_loop_refines:
  assumes "list_all nlmsg_ok ms" and "list_all (handles fn g) ms"
  shows "nlmsg_loop fn pid seq (pre @ nlmsgs_enc ms) (length pre) (int (length (nlmsgs_enc ms))) multi c =
    Some (reply_loop g pid seq ms multi c)"
  using assms
proof (induction ms arbitrary: pre multi c)
  case Nil
  then show ?case by (simp add: nlmsg_loop.simps NLMSG_OK_def NLMSG_HDRLEN_def)
next
  case (Cons m ms)
  let ?post = "nlmsgs_enc ms"
  let ?buf = "pre @ nlmsg_enc m @ ?post" and ?l = "NLMSG_HDRLEN + length (m_payload m)"
  from Cons.prems have m: "nlmsg_ok m" and h: "handles fn g m"
    and rest: "list_all nlmsg_ok ms" "list_all (handles fn g) ms" by simp_all
  note f = nlmsg_enc_fields [OF m, of pre ?post]
  have ok: "NLMSG_OK ?buf (length pre) (int (length (nlmsg_enc m @ ?post))) = Some (Some ?l)"
    using align4_ge [of ?l] by (simp add: NLMSG_OK_def f length_nlmsg_enc NLMSG_HDRLEN_def)
  have next_pos: "length pre + align4 ?l = length (pre @ nlmsg_enc m)"
    "int (length (nlmsg_enc m @ ?post)) - int (align4 ?l) = int (length ?post)"
    by (simp_all add: length_nlmsg_enc)
  have step: "nlmsg_loop fn pid seq ?buf (length pre) (int (length (nlmsg_enc m @ ?post))) multi c =
      (case nlmsg_one fn pid seq ?buf (length pre) c of
         None \<Rightarrow> None
       | Some (Some e, _, _) \<Rightarrow> Some e
       | Some (None, mu, c') \<Rightarrow> Some (reply_loop g pid seq ms (multi \<or> mu) c'))"
    using Cons.IH [OF rest, of "pre @ nlmsg_enc m"]
    by (subst nlmsg_loop.simps)
      (simp only: ok next_pos option.case append_assoc split: option.splits prod.splits, simp)
  show ?case
  proof (cases "m_pid m = pid \<and> m_seq m = seq \<and> m_type m = NLMSG_ERROR")
    case True
    with m have pl: "20 \<le> length (m_payload m)" by (simp add: nlmsg_ok_def)
    from dump_errormsg_safe [OF m] True obtain p
      where "libbpf_nla_dump_errormsg ?buf (length pre) = Some p" by blast
    with True show ?thesis
      by (simp add: step [simplified] nlmsg_one_def f rd_error [OF pl] Let_def)
  next
    case False
    with h show ?thesis
      by (auto simp: step [simplified] nlmsg_one_def f Let_def handles_def split: option.splits prod.splits)
  qed
qed

text \<open>A datagram is peeked at and then read; each of the two calls may first be interrupted.\<close>

fun deliver :: "(nat \<times> nat \<times> nlmsg list) list \<Rightarrow> recv_result list" where
  "deliver [] = []"
| "deliver ((a, b, ms) # ds) =
     replicate a (Inl EINTR) @ [Inr (nlmsgs_enc ms)] @ replicate b (Inl EAGAIN) @ [Inr (nlmsgs_enc ms)] @
     deliver ds"

lemma netlink_recvmsg_retry:
  "netlink_recvmsg (replicate a (Inl EINTR) @ s) = netlink_recvmsg s"
  "netlink_recvmsg (replicate a (Inl EAGAIN) @ s) = netlink_recvmsg s"
  by (induction a) simp_all

lemma nlmsgs_enc_Nil: "nlmsgs_enc ms = [] \<longleftrightarrow> ms = []"
  using length_nlmsg_enc [of "hd ms"] align4_ge [of "NLMSG_HDRLEN + length (m_payload (hd ms))"]
  by (cases ms) (auto simp: NLMSG_HDRLEN_def)

lemma rounds_refines:
  assumes "\<forall>(a, b, ms) \<in> List.set ds. list_all nlmsg_ok ms \<and> list_all (handles fn g) ms \<and>
    (realloc_ok \<or> length (nlmsgs_enc ms) \<le> iov)"
  shows "libbpf_netlink_rounds fn pid seq realloc_ok iov (deliver ds) c =
    reply_rounds g pid seq (map (\<lambda>(a, b, ms). ms) ds) c"
  using assms
proof (induction ds arbitrary: iov c)
  case Nil
  then show ?case by (simp add: libbpf_netlink_rounds.simps)
next
  case (Cons d ds)
  obtain a b ms where d: "d = (a, b, ms)" by (cases d) auto
  let ?iov = "max iov (length (nlmsgs_enc ms))"
  from Cons.prems have ok: "list_all nlmsg_ok ms" "list_all (handles fn g) ms"
    and sz: "\<not> (length (nlmsgs_enc ms) > iov \<and> \<not> realloc_ok)" by (auto simp: d)
  have IH: "libbpf_netlink_rounds fn pid seq realloc_ok ?iov (deliver ds) c' =
      reply_rounds g pid seq (map (\<lambda>(a, b, ms). ms) ds) c'" for c'
    using Cons.prems by (intro Cons.IH) fastforce
  have loop: "nlmsg_loop fn pid seq (nlmsgs_enc ms) 0 (int (length (nlmsgs_enc ms))) False c =
      Some (reply_loop g pid seq ms False c)"
    using nlmsg_loop_refines [OF ok, of pid seq "[]" False c] by simp
  show ?case
    using sz
    by (subst libbpf_netlink_rounds.simps)
      (auto simp: d netlink_recvmsg_retry nlmsgs_enc_Nil loop IH split: loop_end.splits)
qed

text \<open>An extended acknowledgement without a text attribute: the pointer printed is NULL.\<close>

lemma ext_ack_without_text:
  assumes "nlmsg_ok m" and "NLM_F_ACK_TLVS (m_flags m)" and "NLM_F_CAPPED (m_flags m)"
    and "length (m_payload m) = 20"
  shows "libbpf_nla_dump_errormsg (nlmsg_enc m) 0 = Some (P_message None)"
proof -
  note f = nlmsg_enc_fields [OF assms(1), of "[]" "[]", simplified]
  have "libbpf_nla_parse 3 (nlmsg_enc m) 36 0 (Some extack_policy) = Some (0, \<lambda>_. None)"
    by (simp add: libbpf_nla_parse_def nla_loop.simps nla_ok_def NLA_HDRLEN_def)
  with assms f show ?thesis
    by (simp add: libbpf_nla_dump_errormsg_def Let_def NLMSG_HDRLEN_def)
qed

section \<open>The request on the wire\<close>

text \<open>A request in canonical form whose header fields are named: type, flags, sequence number,
  port id and the family header.\<close>

definition nl_hdr :: "nat \<Rightarrow> nat \<Rightarrow> nat \<Rightarrow> nat \<Rightarrow> 8 word list \<Rightarrow> 8 word list" where
  "nl_hdr type flags seq pid body =
     le_bytes 2 type @ le_bytes 2 flags @ le_bytes 4 seq @ le_bytes 4 pid @ body"

lemma length_nl_hdr [simp]: "length (nl_hdr type flags seq pid body) = 12 + length body"
  by (simp add: nl_hdr_def)

lemma sent_bytes_canonical:
  assumes "fits (nl_hdr type flags seq pid body) as"
  shows "sent_bytes env (req_of (nl_hdr type flags seq pid body) as) =
    nlmsg_enc \<lparr>m_type = type, m_flags = flags, m_seq = se_time env mod 2 ^ 32, m_pid = 0,
      m_payload = body @ nlas_enc as\<rparr>"
proof -
  let ?n = "16 + length body + length (nlas_enc as)"
  let ?z = "replicate (sizeof_req - ?n) (0 :: 8 word)" and ?t = "le_bytes 4 (se_time env mod 2 ^ 32)"
  note r = req_of_len [OF assms]
  have len: "4 + length (nl_hdr type flags seq pid body) + length (nlas_enc as) = ?n" by simp
  have req: "req_of (nl_hdr type flags seq pid body) as =
      (le_bytes 4 ?n @ le_bytes 2 type @ le_bytes 2 flags) @ le_bytes 4 seq @ le_bytes 4 pid @
      body @ nlas_enc as @ ?z"
    unfolding req_of_def len by (simp add: nl_hdr_def)
  have m1: "memcpy 12 (le_bytes 4 0) (req_of (nl_hdr type flags seq pid body) as) =
      (le_bytes 4 ?n @ le_bytes 2 type @ le_bytes 2 flags) @ le_bytes 4 seq @ le_bytes 4 0 @
      body @ nlas_enc as @ ?z"
    using memcpy_at [of "(le_bytes 4 ?n @ le_bytes 2 type @ le_bytes 2 flags) @ le_bytes 4 seq" 12
        "le_bytes 4 0" "le_bytes 4 pid" "body @ nlas_enc as @ ?z"]
    unfolding req by simp
  have m2: "memcpy 8 ?t (memcpy 12 (le_bytes 4 0) (req_of (nl_hdr type flags seq pid body) as)) =
      (le_bytes 4 ?n @ le_bytes 2 type @ le_bytes 2 flags) @ ?t @ le_bytes 4 0 @
      body @ nlas_enc as @ ?z"
    unfolding m1 by (rule memcpy_at) simp_all
  have "4 dvd length (body @ nlas_enc as)"
    using assms dvd_length_nlas [of as] by (simp add: fits_def) presburger
  then have al: "align4 (length (body @ nlas_enc as)) = length (body @ nlas_enc as)" by (rule align4_id)
  have "sent_bytes env (req_of (nl_hdr type flags seq pid body) as) =
      le_bytes 4 ?n @ le_bytes 2 type @ le_bytes 2 flags @ ?t @ le_bytes 4 0 @ body @ nlas_enc as"
    unfolding sent_bytes_def m2 r(1) len by simp
  then show ?thesis using al by (simp add: nlmsg_enc_def NLMSG_HDRLEN_def add.assoc)
qed

section \<open>Properties\<close>


definition demo_ack :: "nat \<Rightarrow> nlmsg" where
  "demo_ack e = \<lparr>m_type = NLMSG_ERROR, m_flags = 0, m_seq = 7, m_pid = 9,
     m_payload = le_bytes 4 e @ le_bytes 4 36 @ replicate 12 0\<rparr>"

definition demo_sock :: "recv_result list \<Rightarrow> sock_env" where
  "demo_sock rs = \<lparr>se_socket = 5, se_bind_errno = 0, se_getsockname_errno = 0, se_addrlen_ok = True,
     se_nl_pid = 9, se_time = 7, se_send_errno = 0, se_alloc_ok = True, se_realloc_ok = True,
     se_recv = rs\<rparr>"

lemma demo_ack_ok: "e < 2 ^ 32 \<Longrightarrow> nlmsg_ok (demo_ack e)"
  by (simp add: nlmsg_ok_def demo_ack_def NLMSG_ERROR_def NLMSG_HDRLEN_def le_val_le_bytes)

lemma demo_ack_fields:
  "m_type (demo_ack e) = NLMSG_ERROR" "m_pid (demo_ack e) = 9" "m_seq (demo_ack e) = 7"
  "m_flags (demo_ack e) = 0"
  by (simp_all add: demo_ack_def)

lemma demo_ack_error: "e < 2 ^ 32 \<Longrightarrow> m_error (demo_ack e) = e"
  by (simp add: m_error_def demo_ack_def le_val_le_bytes)


end
