(* ===== verification/NetlinkTc.thy ===== *)
theory NetlinkTc
  imports NetlinkCore
begin

text \<open>
  The traffic-control interface of \<^verbatim>\<open>libbpf/src/netlink.c\<close> that the worker attaches its network
  programs with: creating and destroying a hook, attaching, detaching and querying a program.
  A structure the caller passes carries its own size \<open>sz\<close>: a field beyond it is absent. The
  result is \<open>Crash\<close> where the code dereferences NULL or reads outside a message.
\<close>

section \<open>Options structures\<close>

record tc_hook =
  hk_sz :: nat
  hk_ifindex :: int
  hk_attach_point :: nat
  hk_parent :: u32
  hk_handle :: u32
  hk_qdisc :: "8 word list option"
  hk_extra :: "8 word list"

record tc_opts =
  to_sz :: nat
  to_prog_fd :: int
  to_flags :: u32
  to_prog_id :: u32
  to_handle :: u32
  to_priority :: u32
  to_extra :: "8 word list"

text \<open>\<open>extra\<close> holds the bytes behind the last field the library knows.\<close>

definition libbpf_is_mem_zeroed :: "8 word list \<Rightarrow> int \<Rightarrow> bool" where
  "libbpf_is_mem_zeroed p len = list_all (\<lambda>b. b = 0) (take (nat len) p)"

definition libbpf_validate_opts :: "8 word list \<Rightarrow> nat \<Rightarrow> nat \<Rightarrow> bool" where
  "libbpf_validate_opts extra opts_sz user_sz =
     (8 \<le> user_sz \<and> libbpf_is_mem_zeroed extra (int user_sz - int opts_sz))"

definition opts_get :: "nat \<Rightarrow> nat \<Rightarrow> 'a \<Rightarrow> 'a \<Rightarrow> 'a" where
  "opts_get sz offsetofend v fallback = (if sz \<ge> offsetofend then v else fallback)"

abbreviation (input) "hook_valid h \<equiv> libbpf_validate_opts (hk_extra h) 32 (hk_sz h)"
abbreviation (input) "opts_valid ob \<equiv> libbpf_validate_opts (to_extra ob) 28 (to_sz ob)"

definition hook_ifindex :: "tc_hook \<Rightarrow> int" where
  "hook_ifindex h = opts_get (hk_sz h) 12 (hk_ifindex h) 0"

definition hook_attach_point :: "tc_hook \<Rightarrow> nat" where
  "hook_attach_point h = opts_get (hk_sz h) 16 (hk_attach_point h) 0"

definition hook_parent :: "tc_hook \<Rightarrow> u32 \<Rightarrow> u32" where
  "hook_parent h fallback = opts_get (hk_sz h) 20 (hk_parent h) fallback"

definition hook_handle :: "tc_hook \<Rightarrow> u32" where
  "hook_handle h = opts_get (hk_sz h) 24 (hk_handle h) 0"

definition hook_qdisc :: "tc_hook \<Rightarrow> 8 word list option" where
  "hook_qdisc h = opts_get (hk_sz h) 32 (hk_qdisc h) None"

definition opt_prog_fd :: "tc_opts \<Rightarrow> int" where
  "opt_prog_fd ob = opts_get (to_sz ob) 12 (to_prog_fd ob) 0"

definition opt_flags :: "tc_opts \<Rightarrow> u32" where
  "opt_flags ob = opts_get (to_sz ob) 16 (to_flags ob) 0"

definition opt_prog_id :: "tc_opts \<Rightarrow> u32" where
  "opt_prog_id ob = opts_get (to_sz ob) 20 (to_prog_id ob) 0"

definition opt_handle :: "tc_opts \<Rightarrow> u32" where
  "opt_handle ob = opts_get (to_sz ob) 24 (to_handle ob) 0"

definition opt_priority :: "tc_opts \<Rightarrow> u32" where
  "opt_priority ob = opts_get (to_sz ob) 28 (to_priority ob) 0"

section \<open>Constants\<close>

definition BPF_TC_INGRESS :: nat where "BPF_TC_INGRESS = 1"
definition BPF_TC_EGRESS :: nat where "BPF_TC_EGRESS = 2"
definition BPF_TC_CUSTOM :: nat where "BPF_TC_CUSTOM = 4"
definition BPF_TC_QDISC :: nat where "BPF_TC_QDISC = 8"

abbreviation (input) EOPNOTSUPP :: int where "EOPNOTSUPP \<equiv> 95"
abbreviation (input) ENAMETOOLONG :: int where "ENAMETOOLONG \<equiv> 36"

text \<open>Handles: \<^verbatim>\<open>TC_H_MAKE(maj, min)\<close> keeps the upper half of one and the lower half of the other.\<close>

definition TC_H_MAKE :: "u32 \<Rightarrow> u32 \<Rightarrow> u32" where
  "TC_H_MAKE maj mnr = or (and maj 0xFFFF0000) (and mnr 0xFFFF)"

definition TC_H_MAJ :: "u32 \<Rightarrow> u32" where
  "TC_H_MAJ h = and h 0xFFFF0000"

definition TC_H_CLSACT :: u32 where "TC_H_CLSACT = 0xFFFFFFF1"
definition TC_H_ROOT :: u32 where "TC_H_ROOT = 0xFFFFFFFF"

text \<open>\<^verbatim>\<open>htons(ETH_P_ALL)\<close> on a little endian machine.\<close>

definition htons_ETH_P_ALL :: u32 where "htons_ETH_P_ALL = 0x0300"

definition tc_get_tcm_parent :: "nat \<Rightarrow> u32 \<Rightarrow> int + u32" where
  "tc_get_tcm_parent attach_point parent =
     (if attach_point = BPF_TC_INGRESS \<or> attach_point = BPF_TC_EGRESS
      then (if parent \<noteq> 0 then Inl (- EINVAL)
            else Inr (TC_H_MAKE TC_H_CLSACT (if attach_point = BPF_TC_INGRESS then 0xFFF2 else 0xFFF3)))
      else if attach_point = BPF_TC_CUSTOM
      then (if parent = 0 then Inl (- EINVAL) else Inr parent)
      else Inl (- EINVAL))"

section \<open>Building the requests\<close>

text \<open>\<^verbatim>\<open>struct tcmsg\<close>: family and padding, interface, handle, parent, info.\<close>

definition tcm_body :: "int \<Rightarrow> u32 \<Rightarrow> u32 \<Rightarrow> u32 \<Rightarrow> 8 word list" where
  "tcm_body ifindex handle parent info =
     replicate 4 0 @ le_bytes 4 (nat (ifindex mod 2 ^ 32)) @ le_bytes 4 (unat handle) @
     le_bytes 4 (unat parent) @ le_bytes 4 (unat info)"

text \<open>A request zeroed by \<^verbatim>\<open>memset\<close> with its header and \<^verbatim>\<open>tcmsg\<close> filled in.\<close>

definition tc_req :: "nat \<Rightarrow> nat \<Rightarrow> 8 word list \<Rightarrow> 8 word list" where
  "tc_req type flags body =
     le_bytes 4 36 @ le_bytes 2 type @ le_bytes 2 flags @ replicate 8 0 @ body @ replicate 128 0"

definition NLM_F_REQUEST :: nat where "NLM_F_REQUEST = 1"
definition NLM_F_ACK :: nat where "NLM_F_ACK = 4"
definition NLM_F_ECHO_BIT :: nat where "NLM_F_ECHO_BIT = 8"
definition NLM_F_REPLACE :: nat where "NLM_F_REPLACE = 256"
definition NLM_F_EXCL :: nat where "NLM_F_EXCL = 512"
definition NLM_F_CREATE :: nat where "NLM_F_CREATE = 1024"
definition RTM_NEWQDISC :: nat where "RTM_NEWQDISC = 36"
definition RTM_DELQDISC :: nat where "RTM_DELQDISC = 37"
definition RTM_NEWTFILTER :: nat where "RTM_NEWTFILTER = 44"
definition RTM_DELTFILTER :: nat where "RTM_DELTFILTER = 45"
definition RTM_GETTFILTER :: nat where "RTM_GETTFILTER = 46"
definition TCA_KIND :: nat where "TCA_KIND = 1"
definition TCA_OPTIONS :: nat where "TCA_OPTIONS = 2"
definition TCA_MAX :: nat where "TCA_MAX = 16"
definition TCA_BPF_FD :: nat where "TCA_BPF_FD = 6"
definition TCA_BPF_NAME :: nat where "TCA_BPF_NAME = 7"
definition TCA_BPF_FLAGS :: nat where "TCA_BPF_FLAGS = 8"
definition TCA_BPF_ID :: nat where "TCA_BPF_ID = 11"
definition TCA_BPF_MAX :: nat where "TCA_BPF_MAX = 11"

text \<open>\<^verbatim>\<open>nlattr_add\<close> with the error check that follows every call of it.\<close>

definition add_data :: "nat \<Rightarrow> 8 word list \<Rightarrow> 8 word list \<Rightarrow> int + 8 word list" where
  "add_data type data req =
     (case nlattr_add req type (Some data) (length data) of
        (ret, req') \<Rightarrow> if ret < 0 then Inl ret else Inr req')"

definition andthen :: "('e + 'a) \<Rightarrow> ('a \<Rightarrow> 'e + 'b) \<Rightarrow> 'e + 'b" where
  "andthen r f = (case r of Inl e \<Rightarrow> Inl e | Inr x \<Rightarrow> f x)"

lemma andthen_simps [simp]: "andthen (Inl e) f = Inl e" "andthen (Inr x) f = f x"
  by (simp_all add: andthen_def)

text \<open>Strings with the closing NUL: \<open>kind_bpf\<close> is \<open>bpf\<close>, \<open>kind_clsact\<close> is \<open>clsact\<close>.\<close>

definition kind_bpf :: "8 word list" where "kind_bpf = [98, 112, 102, 0]"
definition kind_clsact :: "8 word list" where "kind_clsact = [99, 108, 115, 97, 99, 116, 0]"

fun decimal :: "nat \<Rightarrow> 8 word list" where
  "decimal n = (if n < 10 then [of_nat (48 + n)] else decimal (n div 10) @ [of_nat (48 + n mod 10)])"

declare decimal.simps [simp del]

text \<open>\<open>snprintf(name, 256, "%s:[%u]", info.name, info.id)\<close>\<close>

definition prog_label :: "8 word list \<Rightarrow> u32 \<Rightarrow> 8 word list" where
  "prog_label name pid = name @ [58, 91] @ decimal (unat pid) @ [93]"

text \<open>\<open>prog_info\<close> is \<^verbatim>\<open>bpf_prog_get_info_by_fd\<close>: an error or the name and the id of the program.\<close>

type_synonym prog_info = "int \<Rightarrow> int + 8 word list \<times> u32"

definition tc_add_fd_and_name :: "prog_info \<Rightarrow> int \<Rightarrow> 8 word list \<Rightarrow> int + 8 word list" where
  "tc_add_fd_and_name prog_info fd req =
     andthen (prog_info fd) (\<lambda>(name, pid).
     andthen (add_data TCA_BPF_FD (le_bytes 4 (nat (fd mod 2 ^ 32))) req) (\<lambda>req1.
       if length (prog_label name pid) \<ge> 256 then Inl (- ENAMETOOLONG)
       else add_data TCA_BPF_NAME (prog_label name pid @ [0]) req1))"

definition clsact_config :: "tc_hook \<Rightarrow> (u32 \<times> u32) \<times> 8 word list" where
  "clsact_config hook = ((TC_H_CLSACT, TC_H_MAKE TC_H_CLSACT 0), kind_clsact)"

text \<open>\<open>None\<close>: \<^verbatim>\<open>strlen(NULL)\<close>.\<close>

definition qdisc_config :: "tc_hook \<Rightarrow> ((u32 \<times> u32) \<times> 8 word list) option" where
  "qdisc_config hook =
     map_option (\<lambda>q. ((hook_parent hook TC_H_ROOT, hook_handle hook), q @ [0])) (hook_qdisc hook)"

text \<open>Parent and handle of the request and its kind, or the error for a wrong attach point.\<close>

definition attach_point_to_config :: "tc_hook \<Rightarrow> int + ((u32 \<times> u32) \<times> 8 word list) option" where
  "attach_point_to_config hook =
     (let ap = hook_attach_point hook in
      if ap = BPF_TC_INGRESS \<or> ap = BPF_TC_EGRESS \<or> ap = BPF_TC_INGRESS + BPF_TC_EGRESS
      then (if hook_parent hook 0 \<noteq> 0 then Inl (- EINVAL) else Inr (Some (clsact_config hook)))
      else if ap = BPF_TC_CUSTOM then Inl (- EOPNOTSUPP)
      else if ap = BPF_TC_QDISC then Inr (qdisc_config hook)
      else Inl (- EINVAL))"

section \<open>The operations\<close>

text \<open>Outcome, message sent if any, sockets left open.\<close>

type_synonym 'c nl_result = "'c outcome \<times> 8 word list option \<times> nat"

definition refused :: "int \<Rightarrow> 'c \<Rightarrow> 'c nl_result" where
  "refused e c = (Done e c, None, 0)"

definition tc_qdisc_modify :: "sock_env \<Rightarrow> tc_hook \<Rightarrow> nat \<Rightarrow> nat \<Rightarrow> unit nl_result" where
  "tc_qdisc_modify env hook cmd flags =
     (case attach_point_to_config hook of
        Inl e \<Rightarrow> refused e ()
      | Inr None \<Rightarrow> (Crash, None, 0)
      | Inr (Some ((parent, handle), kind)) \<Rightarrow>
          (case add_data TCA_KIND kind (tc_req cmd (NLM_F_REQUEST + NLM_F_ACK + flags)
                  (tcm_body (hook_ifindex hook) handle parent 0)) of
             Inl e \<Rightarrow> refused e ()
           | Inr req \<Rightarrow> libbpf_netlink_send_recv None env req ()))"

definition tc_qdisc_create_excl :: "sock_env \<Rightarrow> tc_hook \<Rightarrow> unit nl_result" where
  "tc_qdisc_create_excl env hook = tc_qdisc_modify env hook RTM_NEWQDISC (NLM_F_CREATE + NLM_F_EXCL)"

definition tc_qdisc_delete :: "sock_env \<Rightarrow> tc_hook \<Rightarrow> unit nl_result" where
  "tc_qdisc_delete env hook = tc_qdisc_modify env hook RTM_DELQDISC 0"

definition bpf_tc_hook_create :: "sock_env \<Rightarrow> tc_hook option \<Rightarrow> unit nl_result" where
  "bpf_tc_hook_create env hook =
     (case hook of
        None \<Rightarrow> refused (- EINVAL) ()
      | Some h \<Rightarrow>
          if \<not> hook_valid h \<or> hook_ifindex h \<le> 0 then refused (- EINVAL) ()
          else tc_qdisc_create_excl env h)"

text \<open>What a program is looked up or attached under.\<close>

record tc_ctx =
  cx_opts :: tc_opts
  cx_processed :: bool

definition opts_set_info :: "tc_opts \<Rightarrow> nat \<Rightarrow> nat \<Rightarrow> nat \<Rightarrow> tc_opts" where
  "opts_set_info ob prog_id handle info =
     (let o1 = (if to_sz ob \<ge> 20 then ob\<lparr>to_prog_id := of_nat prog_id\<rparr> else ob);
          o2 = (if to_sz o1 \<ge> 24 then o1\<lparr>to_handle := of_nat handle\<rparr> else o1)
      in if to_sz o2 \<ge> 28 then o2\<lparr>to_priority := drop_bit 16 (TC_H_MAJ (of_nat info))\<rparr> else o2)"

text \<open>\<open>tc\<close> is the offset of the \<^verbatim>\<open>tcmsg\<close>, \<open>tb\<close> the index of its attributes.\<close>

definition get_tc_info_of :: "8 word list \<Rightarrow> nat \<Rightarrow> nla_index \<Rightarrow> bool \<Rightarrow> tc_ctx \<Rightarrow> (int \<times> tc_ctx) option" where
  "get_tc_info_of buf tc tb unicast info =
     (if unicast \<and> cx_processed info then Some (- EINVAL, info)
      else case tb TCA_OPTIONS of
             None \<Rightarrow> Some (0, info)
           | Some options \<Rightarrow>
               do { (r, tbb) \<leftarrow> libbpf_nla_parse_nested TCA_BPF_MAX buf options None;
                    case tbb TCA_BPF_ID of
                      None \<Rightarrow> Some (- EINVAL, info)
                    | Some at \<Rightarrow>
                        do { prog_id \<leftarrow> libbpf_nla_getattr_u32 buf at;
                             handle \<leftarrow> rd 4 buf (tc + 8);
                             inf \<leftarrow> rd 4 buf (tc + 16);
                             Some (if unicast then 1 else 2,
                               \<lparr>cx_opts = opts_set_info (cx_opts info) prog_id handle inf,
                                cx_processed = True\<rparr>) } })"

definition get_tc_info :: "tc_ctx nl_callback" where
  "get_tc_info buf nh info =
     do { len \<leftarrow> nlmsg_len_at buf nh;
          (r, tb) \<leftarrow> libbpf_nla_parse TCA_MAX buf (nh + 36) (int len - 36) None;
          if tb TCA_KIND = None then Some (0, info)
          else do { flags \<leftarrow> nlmsg_flags_at buf nh;
                    get_tc_info_of buf (nh + NLMSG_HDRLEN) tb (NLM_F_ECHO flags) info } }"

fun map_outcome :: "(int \<Rightarrow> 'c \<Rightarrow> int \<times> 'd) \<Rightarrow> 'c nl_result \<Rightarrow> 'd nl_result" where
  "map_outcome f (Crash, sent, socks) = (Crash, sent, socks)"
| "map_outcome f (Blocked, sent, socks) = (Blocked, sent, socks)"
| "map_outcome f (Done r c, sent, socks) = (case f r c of (r', c') \<Rightarrow> Done r' c', sent, socks)"

definition tc_finish :: "int \<Rightarrow> tc_ctx \<Rightarrow> int \<times> tc_opts" where
  "tc_finish ret info =
     (if ret < 0 then ret else if \<not> cx_processed info then - ENOENT else ret, cx_opts info)"

text \<open>The request of \<open>bpf_tc_attach\<close>, from the \<^verbatim>\<open>memset\<close> to the end of the nested attribute.\<close>

definition tc_attach_request :: "prog_info \<Rightarrow> int \<Rightarrow> u32 \<Rightarrow> u32 \<Rightarrow> u32 \<Rightarrow> nat \<Rightarrow> int \<Rightarrow> int + 8 word list" where
  "tc_attach_request prog_info ifindex handle parent priority flags prog_fd =
     andthen (add_data TCA_KIND kind_bpf
       (tc_req RTM_NEWTFILTER (NLM_F_REQUEST + NLM_F_ACK + NLM_F_CREATE + NLM_F_ECHO_BIT + flags)
         (tcm_body ifindex handle parent (TC_H_MAKE (push_bit 16 priority) htons_ETH_P_ALL)))) (\<lambda>r1.
     case nlattr_begin_nested r1 TCA_OPTIONS of
       (None, r2) \<Rightarrow> Inl (- EMSGSIZE)
     | (Some nla, r2) \<Rightarrow>
         andthen (tc_add_fd_and_name prog_info prog_fd r2) (\<lambda>r3.
         andthen (add_data TCA_BPF_FLAGS (le_bytes 4 1) r3) (\<lambda>r4.
           Inr (nlattr_end_nested r4 nla))))"

definition bpf_tc_attach :: "sock_env \<Rightarrow> prog_info \<Rightarrow> tc_hook option \<Rightarrow> tc_opts option \<Rightarrow>
    tc_opts option nl_result" where
  "bpf_tc_attach env prog_info hook opts =
     (case (hook, opts) of
        (Some h, Some ob) \<Rightarrow>
          if \<not> hook_valid h \<or> \<not> opts_valid ob then refused (- EINVAL) opts
          else if hook_ifindex h \<le> 0 \<or> opt_prog_fd ob = 0 \<or> opt_prog_id ob \<noteq> 0
          then refused (- EINVAL) opts
          else if opt_priority ob > 65535 then refused (- EINVAL) opts
          else if and (opt_flags ob) (not 1) \<noteq> 0 then refused (- EINVAL) opts
          else case andthen (tc_get_tcm_parent (hook_attach_point h) (hook_parent h 0)) (\<lambda>parent.
                 tc_attach_request prog_info (hook_ifindex h) (opt_handle ob) parent (opt_priority ob)
                   (if and (opt_flags ob) 1 \<noteq> 0 then NLM_F_REPLACE else NLM_F_EXCL) (opt_prog_fd ob)) of
            Inl e \<Rightarrow> refused e opts
          | Inr req \<Rightarrow>
              map_outcome (\<lambda>ret info. apsnd Some (tc_finish ret info))
                (libbpf_netlink_send_recv (Some get_tc_info) env req
                  \<lparr>cx_opts = ob, cx_processed = False\<rparr>)
      | _ \<Rightarrow> refused (- EINVAL) opts)"

text \<open>\<open>opts\<close> is absent when a hook is flushed: all its fields read as 0.\<close>

definition opt_fields :: "tc_opts option \<Rightarrow> u32 \<times> u32 \<times> int \<times> u32 \<times> u32" where
  "opt_fields opts =
     (case opts of None \<Rightarrow> (0, 0, 0, 0, 0)
      | Some ob \<Rightarrow> (opt_handle ob, opt_priority ob, opt_prog_fd ob, opt_prog_id ob, opt_flags ob))"

definition tc_detach_request :: "int \<Rightarrow> u32 \<Rightarrow> u32 \<Rightarrow> u32 \<Rightarrow> bool \<Rightarrow> int + 8 word list" where
  "tc_detach_request ifindex handle parent priority flush =
     (if flush
      then Inr (tc_req RTM_DELTFILTER (NLM_F_REQUEST + NLM_F_ACK) (tcm_body ifindex 0 parent 0))
      else add_data TCA_KIND kind_bpf (tc_req RTM_DELTFILTER (NLM_F_REQUEST + NLM_F_ACK)
        (tcm_body ifindex handle parent (TC_H_MAKE (push_bit 16 priority) htons_ETH_P_ALL))))"

definition bpf_tc_detach_flush :: "sock_env \<Rightarrow> tc_hook option \<Rightarrow> tc_opts option \<Rightarrow> bool \<Rightarrow> unit nl_result" where
  "bpf_tc_detach_flush env hook opts flush =
     (case hook of
        None \<Rightarrow> refused (- EINVAL) ()
      | Some h \<Rightarrow>
          if \<not> hook_valid h \<or> \<not> (case opts of None \<Rightarrow> True | Some ob \<Rightarrow> opts_valid ob)
          then refused (- EINVAL) ()
          else case opt_fields opts of (handle, priority, prog_fd, prog_id, flags) \<Rightarrow>
            if hook_ifindex h \<le> 0 \<or> flags \<noteq> 0 \<or> prog_fd \<noteq> 0 \<or> prog_id \<noteq> 0 then refused (- EINVAL) ()
            else if priority > 65535 then refused (- EINVAL) ()
            else if (if \<not> flush then handle = 0 \<or> priority = 0 else handle \<noteq> 0 \<or> priority \<noteq> 0)
            then refused (- EINVAL) ()
            else case andthen (tc_get_tcm_parent (hook_attach_point h) (hook_parent h 0)) (\<lambda>parent.
                   tc_detach_request (hook_ifindex h) handle parent priority flush) of
              Inl e \<Rightarrow> refused e ()
            | Inr req \<Rightarrow> libbpf_netlink_send_recv None env req ())"

definition bpf_tc_detach :: "sock_env \<Rightarrow> tc_hook option \<Rightarrow> tc_opts option \<Rightarrow> unit nl_result" where
  "bpf_tc_detach env hook opts =
     (case opts of None \<Rightarrow> refused (- EINVAL) () | Some _ \<Rightarrow> bpf_tc_detach_flush env hook opts False)"

definition bpf_tc_hook_destroy :: "sock_env \<Rightarrow> tc_hook option \<Rightarrow> unit nl_result" where
  "bpf_tc_hook_destroy env hook =
     (case hook of
        None \<Rightarrow> refused (- EINVAL) ()
      | Some h \<Rightarrow>
          if \<not> hook_valid h \<or> hook_ifindex h \<le> 0 then refused (- EINVAL) ()
          else let ap = hook_attach_point h in
            if ap = BPF_TC_INGRESS \<or> ap = BPF_TC_EGRESS then bpf_tc_detach_flush env hook None True
            else if ap = BPF_TC_QDISC \<or> ap = BPF_TC_INGRESS + BPF_TC_EGRESS then tc_qdisc_delete env h
            else if ap = BPF_TC_CUSTOM then refused (- EOPNOTSUPP) ()
            else refused (- EINVAL) ())"

definition bpf_tc_query :: "sock_env \<Rightarrow> tc_hook option \<Rightarrow> tc_opts option \<Rightarrow> tc_opts option nl_result" where
  "bpf_tc_query env hook opts =
     (case (hook, opts) of
        (Some h, Some ob) \<Rightarrow>
          if \<not> hook_valid h \<or> \<not> opts_valid ob then refused (- EINVAL) opts
          else if hook_ifindex h \<le> 0 \<or> opt_flags ob \<noteq> 0 \<or> opt_prog_fd ob \<noteq> 0 \<or> opt_prog_id ob \<noteq> 0 \<or>
            opt_handle ob = 0 \<or> opt_priority ob = 0 then refused (- EINVAL) opts
          else if opt_priority ob > 65535 then refused (- EINVAL) opts
          else case andthen (tc_get_tcm_parent (hook_attach_point h) (hook_parent h 0)) (\<lambda>parent.
                 add_data TCA_KIND kind_bpf (tc_req RTM_GETTFILTER NLM_F_REQUEST
                   (tcm_body (hook_ifindex h) (opt_handle ob) parent
                     (TC_H_MAKE (push_bit 16 (opt_priority ob)) htons_ETH_P_ALL)))) of
            Inl e \<Rightarrow> refused e opts
          | Inr req \<Rightarrow>
              map_outcome (\<lambda>ret info. apsnd Some (tc_finish ret info))
                (libbpf_netlink_send_recv (Some get_tc_info) env req
                  \<lparr>cx_opts = ob, cx_processed = False\<rparr>)
      | _ \<Rightarrow> refused (- EINVAL) opts)"

section \<open>The requests in canonical form\<close>

lemma length_tcm_body [simp]: "length (tcm_body ifindex handle parent info) = 20"
  by (simp add: tcm_body_def)

lemma tc_req_canonical:
  assumes "length body = 20"
  shows "tc_req type flags body = req_of (nl_hdr type flags 0 0 body) []"
proof -
  have z: "le_bytes 4 0 @ le_bytes 4 0 @ x = replicate 8 0 @ x" for x
    using replicate_add [of 4 4 "0 :: 8 word"] by (simp add: le_bytes_zero)
  show ?thesis
    unfolding tc_req_def req_of_def nl_hdr_def sizeof_req_def using assms by (simp add: z)
qed

lemma add_data_canonical:
  assumes "fits hdr as" and "fits hdr (as @ [(t, d)])" and "d \<noteq> []"
  shows "add_data t d (req_of hdr as) = Inr (req_of hdr (as @ [(t, d)]))"
  using nlattr_add_canonical [OF assms(1,2), of "Some d"] assms(3) by (simp add: add_data_def)

lemma length_decimal_le: "n < 10 ^ k \<Longrightarrow> 0 < k \<Longrightarrow> length (decimal n) \<le> k"
proof (induction k arbitrary: n)
  case (Suc k)
  show ?case
  proof (cases "n < 10")
    case True
    then show ?thesis by (subst decimal.simps) simp
  next
    case False
    with Suc.prems have k: "0 < k" by (cases k) auto
    from Suc.prems have "n div 10 < 10 ^ k" by (simp add: less_mult_imp_div_less mult.commute)
    from Suc.IH [OF this k] False show ?thesis by (subst decimal.simps) simp
  qed
qed simp

lemma length_prog_label: "length name \<le> 15 \<Longrightarrow> length (prog_label name pid) \<le> 28"
  using length_decimal_le [of "unat pid" 10] unat_less [of pid] by (simp add: prog_label_def)

lemma begin_nested_canonical:
  assumes "fits hdr as" and "fits hdr (as @ [(or t NLA_F_NESTED, [])])"
  shows "nlattr_begin_nested (req_of hdr as) t =
    (Some (4 + length hdr + length (nlas_enc as)), req_of hdr (as @ [(or t NLA_F_NESTED, [])]))"
  using nlattr_add_canonical [OF assms, of None] req_of_len [OF assms(1)]
  by (simp add: nlattr_begin_nested_def req_tail_def)

text \<open>The attributes of a request to attach: the kind and the nested options.\<close>

definition attach_inner :: "int \<Rightarrow> 8 word list \<Rightarrow> u32 \<Rightarrow> attribute list" where
  "attach_inner fd name pid =
     [(TCA_BPF_FD, le_bytes 4 (nat (fd mod 2 ^ 32))), (TCA_BPF_NAME, prog_label name pid @ [0]),
      (TCA_BPF_FLAGS, le_bytes 4 1)]"

definition attach_attrs :: "int \<Rightarrow> 8 word list \<Rightarrow> u32 \<Rightarrow> attribute list" where
  "attach_attrs fd name pid =
     [(TCA_KIND, kind_bpf), (or TCA_OPTIONS NLA_F_NESTED, nlas_enc (attach_inner fd name pid))]"

lemma label_room:
  assumes "length name \<le> 15"
  shows "align4 (Suc (length (prog_label name pid))) \<le> 32"
  using align4_mono [of "Suc (length (prog_label name pid))" 29] length_prog_label [OF assms, of pid]
  by (simp add: align4_def)

lemma align4_numerals [simp]: "align4 0 = 0" "align4 4 = 4" "align4 7 = 8"
  by (simp_all add: align4_def)

lemma tc_attach_request_ok:
  assumes "prog_info fd = Inr (name, pid)" and "length name \<le> 15"
  shows "tc_attach_request prog_info ifindex handle parent priority flags fd =
    Inr (req_of (nl_hdr RTM_NEWTFILTER
        (NLM_F_REQUEST + NLM_F_ACK + NLM_F_CREATE + NLM_F_ECHO_BIT + flags) 0 0
        (tcm_body ifindex handle parent (TC_H_MAKE (push_bit 16 priority) htons_ETH_P_ALL)))
      (attach_attrs fd name pid))"
proof -
  let ?body = "tcm_body ifindex handle parent (TC_H_MAKE (push_bit 16 priority) htons_ETH_P_ALL)"
  let ?hdr = "nl_hdr RTM_NEWTFILTER
    (NLM_F_REQUEST + NLM_F_ACK + NLM_F_CREATE + NLM_F_ECHO_BIT + flags) 0 0 ?body"
  let ?nest = "or TCA_OPTIONS NLA_F_NESTED"
  let ?fd = "le_bytes 4 (nat (fd mod 2 ^ 32))" and ?nm = "prog_label name pid @ [0]"
  note room = label_room [OF assms(2), of pid]
  have kb: "length kind_bpf = 4" "kind_bpf \<noteq> []" by (simp_all add: kind_bpf_def)
  have ne: "le_bytes 4 n \<noteq> []" for n
    using length_le_bytes [of 4 n] by (metis length_0_conv zero_neq_numeral)
  note fs = fits_def sizeof_req_def length_nla_enc NLA_HDRLEN_def kb
  have f0: "fits ?hdr []" by (simp add: fs)
  have f1: "fits ?hdr [(TCA_KIND, kind_bpf)]" by (simp add: fs)
  have f2: "fits ?hdr [(TCA_KIND, kind_bpf), (?nest, [])]" by (simp add: fs)
  have f3: "fits ?hdr [(TCA_KIND, kind_bpf), (?nest, []), (TCA_BPF_FD, ?fd)]" by (simp add: fs)
  have f4: "fits ?hdr [(TCA_KIND, kind_bpf), (?nest, []), (TCA_BPF_FD, ?fd), (TCA_BPF_NAME, ?nm)]"
    using room by (simp add: fs)
  have f5: "fits ?hdr [(TCA_KIND, kind_bpf), (?nest, []), (TCA_BPF_FD, ?fd), (TCA_BPF_NAME, ?nm),
      (TCA_BPF_FLAGS, le_bytes 4 1)]"
    using room by (simp add: fs)
  have r1: "add_data TCA_KIND kind_bpf (req_of ?hdr []) = Inr (req_of ?hdr [(TCA_KIND, kind_bpf)])"
    using add_data_canonical [OF f0, of TCA_KIND kind_bpf] f1 kb by simp
  have r2: "nlattr_begin_nested (req_of ?hdr [(TCA_KIND, kind_bpf)]) TCA_OPTIONS =
      (Some (4 + length ?hdr + length (nlas_enc [(TCA_KIND, kind_bpf)])),
       req_of ?hdr [(TCA_KIND, kind_bpf), (?nest, [])])"
    using begin_nested_canonical [OF f1, of TCA_OPTIONS] f2 by simp
  have r3: "add_data TCA_BPF_FD ?fd (req_of ?hdr [(TCA_KIND, kind_bpf), (?nest, [])]) =
      Inr (req_of ?hdr [(TCA_KIND, kind_bpf), (?nest, []), (TCA_BPF_FD, ?fd)])"
    using add_data_canonical [OF f2, of TCA_BPF_FD ?fd] f3 ne by simp
  have r4: "add_data TCA_BPF_NAME ?nm (req_of ?hdr [(TCA_KIND, kind_bpf), (?nest, []), (TCA_BPF_FD, ?fd)]) =
      Inr (req_of ?hdr [(TCA_KIND, kind_bpf), (?nest, []), (TCA_BPF_FD, ?fd), (TCA_BPF_NAME, ?nm)])"
    using add_data_canonical [OF f3, of TCA_BPF_NAME ?nm] f4 by simp
  have r5: "add_data TCA_BPF_FLAGS (le_bytes 4 1) (req_of ?hdr
        [(TCA_KIND, kind_bpf), (?nest, []), (TCA_BPF_FD, ?fd), (TCA_BPF_NAME, ?nm)]) =
      Inr (req_of ?hdr [(TCA_KIND, kind_bpf), (?nest, []), (TCA_BPF_FD, ?fd), (TCA_BPF_NAME, ?nm),
        (TCA_BPF_FLAGS, le_bytes 4 1)])"
    using add_data_canonical [OF f4, of TCA_BPF_FLAGS "le_bytes 4 1"] f5 ne by simp
  have r6: "nlattr_end_nested (req_of ?hdr [(TCA_KIND, kind_bpf), (?nest, []), (TCA_BPF_FD, ?fd),
        (TCA_BPF_NAME, ?nm), (TCA_BPF_FLAGS, le_bytes 4 1)])
      (4 + length ?hdr + length (nlas_enc [(TCA_KIND, kind_bpf)])) = req_of ?hdr (attach_attrs fd name pid)"
    using nlattr_end_canonical [of ?hdr "[(TCA_KIND, kind_bpf)]" ?nest "attach_inner fd name pid"] f5
    unfolding attach_inner_def attach_attrs_def by simp
  have "\<not> 256 \<le> length (prog_label name pid)" using length_prog_label [OF assms(2), of pid] by simp
  then have "tc_add_fd_and_name prog_info fd (req_of ?hdr [(TCA_KIND, kind_bpf), (?nest, [])]) =
      Inr (req_of ?hdr [(TCA_KIND, kind_bpf), (?nest, []), (TCA_BPF_FD, ?fd), (TCA_BPF_NAME, ?nm)])"
    unfolding tc_add_fd_and_name_def assms(1) by (simp only: andthen_simps prod.case r3 r4 if_False)
  then show ?thesis
    unfolding tc_attach_request_def tc_req_canonical [OF length_tcm_body]
    by (simp only: r1 r2 andthen_simps prod.case option.case r5 r6)
qed

section \<open>The notice of the kernel\<close>

text \<open>The message that describes a filter: its \<^verbatim>\<open>tcmsg\<close>, the kind and the options, among which the
  id of the program, with any other attributes around.\<close>

definition notice_inner :: "attribute list \<Rightarrow> u32 \<Rightarrow> attribute list \<Rightarrow> attribute list" where
  "notice_inner i1 pid i2 = i1 @ (TCA_BPF_ID, le_bytes 4 (unat pid)) # i2"

definition notice_attrs :: "8 word list \<Rightarrow> attribute list \<Rightarrow> u32 \<Rightarrow> attribute list \<Rightarrow> attribute list \<Rightarrow> attribute list" where
  "notice_attrs kind i1 pid i2 i3 =
     (TCA_KIND, kind) # (TCA_OPTIONS, nlas_enc (notice_inner i1 pid i2)) # i3"

definition notice_ok :: "8 word list \<Rightarrow> attribute list \<Rightarrow> u32 \<Rightarrow> attribute list \<Rightarrow> attribute list \<Rightarrow> bool" where
  "notice_ok kind i1 pid i2 i3 \<longleftrightarrow>
     list_all attr_ok (notice_inner i1 pid i2) \<and> list_all attr_ok (notice_attrs kind i1 pid i2 i3) \<and>
     TCA_BPF_ID \<notin> NLA_TYPE_OF ` fst ` List.set i2 \<and>
     NLA_TYPE_OF ` fst ` List.set i3 \<inter> {TCA_KIND, TCA_OPTIONS} = {}"

definition filter_notice :: "nat \<Rightarrow> nat \<Rightarrow> nat \<Rightarrow> int \<Rightarrow> u32 \<Rightarrow> u32 \<Rightarrow> u32 \<Rightarrow> attribute list \<Rightarrow> nlmsg" where
  "filter_notice flags seq pid ifindex handle parent info as =
     \<lparr>m_type = RTM_NEWTFILTER, m_flags = flags, m_seq = seq, m_pid = pid,
      m_payload = tcm_body ifindex handle parent info @ nlas_enc as\<rparr>"

lemma rd_tcm_body:
  "rd 4 (tcm_body ifindex handle parent info @ x) 8 = Some (unat handle)"
  "rd 4 (tcm_body ifindex handle parent info @ x) 16 = Some (unat info)"
proof -
  have b: "unat w < 256 ^ 4" for w :: u32 using unat_less [of w] by simp
  show "rd 4 (tcm_body ifindex handle parent info @ x) 8 = Some (unat handle)"
    using rd_le_bytes [OF b] by (simp add: tcm_body_def rd_skip)
  show "rd 4 (tcm_body ifindex handle parent info @ x) 16 = Some (unat info)"
    using rd_le_bytes [OF b] by (simp add: tcm_body_def rd_skip)
qed

lemma type_of_consts [simp]:
  "NLA_TYPE_OF TCA_KIND = TCA_KIND" "NLA_TYPE_OF TCA_OPTIONS = TCA_OPTIONS"
  "NLA_TYPE_OF TCA_BPF_ID = TCA_BPF_ID"
  by (simp_all add: NLA_TYPE_OF_def TCA_KIND_def TCA_OPTIONS_def TCA_BPF_ID_def)

lemma bpf_id_max: "TCA_BPF_ID \<le> TCA_BPF_MAX"
  by (simp add: TCA_BPF_MAX_def TCA_BPF_ID_def)

lemma notice_index:
  assumes "notice_ok kind i1 pid i2 i3"
  shows "index_of TCA_MAX pos (notice_attrs kind i1 pid i2 i3) tb TCA_KIND = Some pos"
    and "index_of TCA_MAX pos (notice_attrs kind i1 pid i2 i3) tb TCA_OPTIONS =
      Some (pos + length (nla_enc (TCA_KIND, kind)))"
    and "index_of TCA_BPF_MAX pos (notice_inner i1 pid i2) tb TCA_BPF_ID = Some (pos + length (nlas_enc i1))"
proof -
  note c = TCA_KIND_def TCA_OPTIONS_def TCA_MAX_def
  have ne: "TCA_KIND \<noteq> TCA_OPTIONS" "TCA_KIND \<le> TCA_MAX" "TCA_OPTIONS \<le> TCA_MAX" by (simp_all add: c)
  from assms have i3: "TCA_KIND \<notin> NLA_TYPE_OF ` fst ` List.set i3"
      "TCA_OPTIONS \<notin> NLA_TYPE_OF ` fst ` List.set i3"
    and i2: "TCA_BPF_ID \<notin> NLA_TYPE_OF ` fst ` List.set i2"
    unfolding notice_ok_def by blast+
  show "index_of TCA_MAX pos (notice_attrs kind i1 pid i2 i3) tb TCA_KIND = Some pos"
    using i3 ne unfolding notice_attrs_def by (simp add: index_of_other)
  show "index_of TCA_MAX pos (notice_attrs kind i1 pid i2 i3) tb TCA_OPTIONS =
      Some (pos + length (nla_enc (TCA_KIND, kind)))"
    using index_of_lookup [of "(TCA_OPTIONS, nlas_enc (notice_inner i1 pid i2))" TCA_MAX i3 pos
        "[(TCA_KIND, kind)]"] i3 ne unfolding notice_attrs_def by simp
  show "index_of TCA_BPF_MAX pos (notice_inner i1 pid i2) tb TCA_BPF_ID = Some (pos + length (nlas_enc i1))"
    using index_of_lookup [of "(TCA_BPF_ID, le_bytes 4 (unat pid))" TCA_BPF_MAX i2] i2
      type_of_consts(3) bpf_id_max unfolding notice_inner_def by simp
qed

text \<open>What the callback does with such a notice, wherever it lies in the datagram.\<close>

definition notice_effect :: "nat \<Rightarrow> u32 \<Rightarrow> u32 \<Rightarrow> u32 \<Rightarrow> tc_ctx \<Rightarrow> int \<times> tc_ctx" where
  "notice_effect flags handle info pid ctx =
     (if NLM_F_ECHO flags \<and> cx_processed ctx then (- EINVAL, ctx)
      else (if NLM_F_ECHO flags then 1 else 2,
        \<lparr>cx_opts = opts_set_info (cx_opts ctx) (unat pid) (unat handle) (unat info), cx_processed = True\<rparr>))"

lemma get_tc_info_of_notice:
  assumes ok: "notice_ok kind i1 pid i2 i3"
    and tb: "tb TCA_OPTIONS = Some (length (pre @ nla_enc (TCA_KIND, kind)))"
    and h: "rd 4 (pre @ nlas_enc (notice_attrs kind i1 pid i2 i3) @ post) (tc + 8) = Some (unat handle)"
    and inf: "rd 4 (pre @ nlas_enc (notice_attrs kind i1 pid i2 i3) @ post) (tc + 16) = Some (unat info)"
  shows "get_tc_info_of (pre @ nlas_enc (notice_attrs kind i1 pid i2 i3) @ post) tc tb (NLM_F_ECHO flags) ctx =
    Some (notice_effect flags handle info pid ctx)"
proof -
  let ?in = "notice_inner i1 pid i2" and ?pre = "pre @ nla_enc (TCA_KIND, kind)"
  let ?buf = "pre @ nlas_enc (notice_attrs kind i1 pid i2 i3) @ post"
  let ?h = "le_bytes 2 (NLA_HDRLEN + length (nlas_enc ?in)) @ le_bytes 2 TCA_OPTIONS"
  let ?id = "(TCA_BPF_ID, le_bytes 4 (unat pid)) :: attribute"
  have buf: "?buf = ?pre @ nla_enc (TCA_OPTIONS, nlas_enc ?in) @ (nlas_enc i3 @ post)"
    unfolding notice_attrs_def by simp
  from ok have in_ok: "list_all attr_ok ?in" and opt_ok: "attr_ok (TCA_OPTIONS, nlas_enc ?in)"
    unfolding notice_ok_def notice_attrs_def by simp_all
  note nested = parse_nested_enc [OF in_ok opt_ok, of TCA_BPF_MAX ?pre "nlas_enc i3 @ post"]
  have e: "nla_enc (TCA_OPTIONS, nlas_enc ?in) = ?h @ nlas_enc i1 @ nla_enc ?id @ nlas_enc i2"
    using align4_id [OF dvd_length_nlas [of ?in]]
    by (simp add: nla_enc_def [of "(TCA_OPTIONS, nlas_enc ?in)"]) (simp add: notice_inner_def)
  have buf2: "?buf = (?pre @ ?h @ nlas_enc i1) @ nla_enc ?id @ (nlas_enc i2 @ nlas_enc i3 @ post)"
    unfolding buf e by simp
  have len: "length ?pre + NLA_HDRLEN + length (nlas_enc i1) = length (?pre @ ?h @ nlas_enc i1)"
    by (simp add: NLA_HDRLEN_def)
  have "libbpf_nla_getattr_u32 ?buf (length ?pre + NLA_HDRLEN + length (nlas_enc i1)) =
      Some (le_val (take 4 (snd ?id)))"
    unfolding libbpf_nla_getattr_u32_def buf2 len by (rule attr_read) simp
  also have "le_val (take 4 (snd ?id)) = unat pid"
    using unat_less [of pid] by (simp add: le_val_le_bytes)
  finally have pid: "libbpf_nla_getattr_u32 ?buf (length ?pre + NLA_HDRLEN + length (nlas_enc i1)) =
      Some (unat pid)" .
  show ?thesis
    unfolding get_tc_info_of_def tb option.case nested [folded buf] notice_effect_def
    by (simp add: notice_index(3) [OF ok] pid [simplified] h inf)
qed

lemma get_tc_info_notice:
  assumes ok: "notice_ok kind i1 pid i2 i3"
    and m: "m = filter_notice flags seq port ifindex handle parent info (notice_attrs kind i1 pid i2 i3)"
    and wf: "nlmsg_ok m"
  shows "get_tc_info (pre @ nlmsg_enc m @ post) (length pre) ctx =
    Some (notice_effect flags handle info pid ctx)"
proof -
  let ?as = "notice_attrs kind i1 pid i2 i3" and ?body = "tcm_body ifindex handle parent info"
  let ?h = "le_bytes 4 (NLMSG_HDRLEN + length (m_payload m)) @ le_bytes 2 RTM_NEWTFILTER @
    le_bytes 2 flags @ le_bytes 4 seq @ le_bytes 4 port"
  let ?P = "pre @ ?h @ ?body" and ?buf = "pre @ nlmsg_enc m @ post"
  have fields: "m_type m = RTM_NEWTFILTER" "m_flags m = flags" "m_seq m = seq" "m_pid m = port"
    and pl: "m_payload m = ?body @ nlas_enc ?as"
    by (simp_all add: m filter_notice_def)
  have "4 dvd length (m_payload m)"
    using dvd_length_nlas [of ?as] unfolding pl by simp
  then have enc: "nlmsg_enc m = ?h @ ?body @ nlas_enc ?as"
    using align4_id [of "length (m_payload m)"] by (simp add: nlmsg_enc_def fields) (simp add: pl)
  have buf: "?buf = ?P @ nlas_enc ?as @ post" and P: "length ?P = length pre + 36"
    unfolding enc by simp_all
  have len: "nlmsg_len_at ?buf (length pre) = Some (36 + length (nlas_enc ?as))"
    using nlmsg_enc_fields(1) [OF wf] by (simp add: pl NLMSG_HDRLEN_def)
  have fl: "nlmsg_flags_at ?buf (length pre) = Some flags"
    using nlmsg_enc_fields(3) [OF wf] by (simp add: fields)
  define tb where "tb = index_of TCA_MAX (length ?P) ?as (\<lambda>_. None)"
  have "list_all attr_ok ?as" using ok by (simp add: notice_ok_def)
  from nla_loop_enc [OF this, of ?P post TCA_MAX "\<lambda>_. None"]
  have parse: "libbpf_nla_parse TCA_MAX ?buf (length pre + 36) (int (36 + length (nlas_enc ?as)) - 36) None =
      Some (0, tb)"
    unfolding libbpf_nla_parse_def buf tb_def P by simp
  have tb: "tb TCA_KIND = Some (length ?P)" "tb TCA_OPTIONS = Some (length (?P @ nla_enc (TCA_KIND, kind)))"
    unfolding tb_def using notice_index [OF ok] by simp_all
  have at: "rd 4 ?buf (length pre + NLMSG_HDRLEN + off) = rd 4 (?body @ nlas_enc ?as @ post) off" for off
  proof -
    have "?buf = (pre @ ?h) @ (?body @ nlas_enc ?as @ post)"
      and "length pre + NLMSG_HDRLEN = length (pre @ ?h)"
      unfolding enc by (simp_all add: NLMSG_HDRLEN_def)
    then show ?thesis by (simp only: rd_append)
  qed
  have r8: "rd 4 (?P @ nlas_enc ?as @ post) (length pre + NLMSG_HDRLEN + 8) = Some (unat handle)"
    and r16: "rd 4 (?P @ nlas_enc ?as @ post) (length pre + NLMSG_HDRLEN + 16) = Some (unat info)"
    unfolding buf [symmetric] at by (simp_all add: rd_tcm_body)
  have "get_tc_info_of ?buf (length pre + NLMSG_HDRLEN) tb (NLM_F_ECHO flags) ctx =
      Some (notice_effect flags handle info pid ctx)"
    unfolding buf
    by (rule get_tc_info_of_notice [OF ok], rule tb(2), rule r8, rule r16)
  then show ?thesis
    unfolding get_tc_info_def len fl by (simp add: parse [simplified] tb(1))
qed

section \<open>Properties\<close>

text \<open>What a caller of \<open>bpf_tc_attach\<close> has to provide.\<close>

definition attach_args_ok :: "tc_hook \<Rightarrow> tc_opts \<Rightarrow> bool" where
  "attach_args_ok h ob \<longleftrightarrow>
     hook_valid h \<and> opts_valid ob \<and> 0 < hook_ifindex h \<and> opt_prog_fd ob \<noteq> 0 \<and> opt_prog_id ob = 0 \<and>
     opt_priority ob \<le> 65535 \<and> and (opt_flags ob) (not 1) = 0"

definition attach_message :: "sock_env \<Rightarrow> tc_hook \<Rightarrow> tc_opts \<Rightarrow> u32 \<Rightarrow> 8 word list \<Rightarrow> u32 \<Rightarrow> nlmsg" where
  "attach_message env h ob parent name pid =
     \<lparr>m_type = RTM_NEWTFILTER,
      m_flags = NLM_F_REQUEST + NLM_F_ACK + NLM_F_CREATE + NLM_F_ECHO_BIT +
        (if and (opt_flags ob) 1 \<noteq> 0 then NLM_F_REPLACE else NLM_F_EXCL),
      m_seq = se_time env mod 2 ^ 32, m_pid = 0,
      m_payload = tcm_body (hook_ifindex h) (opt_handle ob) parent
          (TC_H_MAKE (push_bit 16 (opt_priority ob)) htons_ETH_P_ALL) @
        nlas_enc (attach_attrs (opt_prog_fd ob) name pid)\<rparr>"

lemma send_recv_open:
  assumes "libbpf_netlink_open env = (sock, port, 1)" and "0 \<le> sock" and "se_send_errno env = 0"
  shows "libbpf_netlink_send_recv fn env req c =
    (libbpf_netlink_recv fn port (se_time env mod 2 ^ 32) env c, Some (sent_bytes env req), 0)"
  using assms by (simp add: libbpf_netlink_send_recv_def)

lemma bpf_tc_attach_sends:
  assumes "attach_args_ok h ob" and "tc_get_tcm_parent (hook_attach_point h) (hook_parent h 0) = Inr parent"
    and "prog_info (opt_prog_fd ob) = Inr (name, pid)" and "length name \<le> 15"
    and "libbpf_netlink_open env = (sock, port, 1)" and "0 \<le> sock" and "se_send_errno env = 0"
  shows "bpf_tc_attach env prog_info (Some h) (Some ob) =
    map_outcome (\<lambda>ret info. apsnd Some (tc_finish ret info))
      (libbpf_netlink_recv (Some get_tc_info) port (se_time env mod 2 ^ 32) env
         \<lparr>cx_opts = ob, cx_processed = False\<rparr>,
       Some (nlmsg_enc (attach_message env h ob parent name pid)), 0)"
proof -
  let ?fl = "if and (opt_flags ob) 1 \<noteq> 0 then NLM_F_REPLACE else NLM_F_EXCL"
  let ?hdr = "nl_hdr RTM_NEWTFILTER (NLM_F_REQUEST + NLM_F_ACK + NLM_F_CREATE + NLM_F_ECHO_BIT + ?fl) 0 0
    (tcm_body (hook_ifindex h) (opt_handle ob) parent (TC_H_MAKE (push_bit 16 (opt_priority ob)) htons_ETH_P_ALL))"
  have kb: "length kind_bpf = 4" by (simp add: kind_bpf_def)
  have "fits ?hdr (attach_attrs (opt_prog_fd ob) name pid)"
    using label_room [OF assms(4), of pid] align4_id [OF dvd_length_nlas [of "attach_inner (opt_prog_fd ob) name pid"]]
    by (simp add: fits_def attach_attrs_def length_nla_enc NLA_HDRLEN_def kb sizeof_req_def)
      (simp add: attach_inner_def length_nla_enc NLA_HDRLEN_def)
  note sent = sent_bytes_canonical [OF this, of env]
  from assms(1) have args: "hook_valid h" "opts_valid ob" "\<not> hook_ifindex h \<le> 0" "opt_prog_fd ob \<noteq> 0"
    "opt_prog_id ob = 0" "\<not> opt_priority ob > 65535" "and (opt_flags ob) (not 1) = 0"
    unfolding attach_args_ok_def by auto
  show ?thesis
    unfolding bpf_tc_attach_def prod.case option.case assms(2) andthen_simps tc_attach_request_ok [where prog_info = prog_info, OF assms(3,4)]
      send_recv_open [OF assms(5-7)] attach_message_def
    by (simp only: args simp_thms if_False sum.case sent)
qed

text \<open>What the kernel answers: a refusal, or the echo of the filter it created and an
  acknowledgement.\<close>

definition is_ack :: "sock_env \<Rightarrow> nat \<Rightarrow> nlmsg \<Rightarrow> bool" where
  "is_ack env port m \<longleftrightarrow> nlmsg_ok m \<and> m_type m = NLMSG_ERROR \<and> m_seq m = se_time env mod 2 ^ 32 \<and>
     m_pid m = port \<and> \<not> NLM_F_MULTI (m_flags m)"

definition is_notice :: "sock_env \<Rightarrow> nat \<Rightarrow> u32 \<Rightarrow> u32 \<Rightarrow> u32 \<Rightarrow> nlmsg \<Rightarrow> bool" where
  "is_notice env port handle info pid m \<longleftrightarrow> nlmsg_ok m \<and>
     (\<exists>kind i1 i2 i3 flags ifindex parent. notice_ok kind i1 pid i2 i3 \<and> NLM_F_ECHO flags \<and>
        m = filter_notice flags (se_time env mod 2 ^ 32) port ifindex handle parent info
              (notice_attrs kind i1 pid i2 i3))"

lemma notice_handles:
  assumes "is_notice env port handle info pid m"
  shows "handles (Some get_tc_info) (Some (\<lambda>_. notice_effect (m_flags m) handle info pid)) m"
proof -
  from assms obtain kind i1 i2 i3 flags ifindex parent where ok: "nlmsg_ok m" "notice_ok kind i1 pid i2 i3"
    and m: "m = filter_notice flags (se_time env mod 2 ^ 32) port ifindex handle parent info
      (notice_attrs kind i1 pid i2 i3)"
    unfolding is_notice_def by blast
  have "m_flags m = flags" by (simp add: m filter_notice_def)
  with get_tc_info_notice [OF ok(2) m ok(1)] show ?thesis by (simp add: handles_def)
qed

text \<open>C17: attaching a program. With valid arguments \<open>bpf_tc_attach\<close> sends exactly one message:
  create a filter on the interface, at the clsact parent of the attach point, with the handle and
  priority asked for and all protocols, of kind bpf, with the descriptor, the label and the
  direct-action flag nested in its options, exclusive unless replacing was asked. When the kernel
  echoes the filter and acknowledges, 0 is returned and the caller's structure carries the id of
  the program and the handle and priority the kernel chose. No socket stays open.\<close>

theorem tc_attach_success:
  assumes args: "attach_args_ok h ob" "tc_get_tcm_parent (hook_attach_point h) (hook_parent h 0) = Inr parent"
      "prog_info (opt_prog_fd ob) = Inr (name, pid)" "length name \<le> 15"
    and open': "libbpf_netlink_open env = (sock, port, 1)" "0 \<le> sock" "se_send_errno env = 0"
      "se_alloc_ok env" "se_realloc_ok env"
    and reply: "se_recv env = deliver [(a, b, [notice]), (c, d, [ack])]"
      "is_notice env port handle info pid' notice" "is_ack env port ack" "m_error ack = 0"
  shows "bpf_tc_attach env prog_info (Some h) (Some ob) =
    (Done 0 (Some (opts_set_info ob (unat pid') (unat handle) (unat info))),
     Some (nlmsg_enc (attach_message env h ob parent name pid)), 0)"
proof -
  let ?ds = "[(a, b, [notice]), (c, d, [ack])]" and ?ctx = "\<lparr>cx_opts = ob, cx_processed = False\<rparr>"
  let ?g = "\<lambda>_ :: nlmsg. notice_effect (m_flags notice) handle info pid'"
  from reply(2) have n: "m_type notice = RTM_NEWTFILTER" "m_seq notice = se_time env mod 2 ^ 32"
      "m_pid notice = port" "NLM_F_ECHO (m_flags notice)" "nlmsg_ok notice"
    unfolding is_notice_def by (auto simp: filter_notice_def)
  from reply(3) have k: "nlmsg_ok ack" "m_type ack = NLMSG_ERROR" "m_seq ack = se_time env mod 2 ^ 32"
      "m_pid ack = port" "\<not> NLM_F_MULTI (m_flags ack)"
    unfolding is_ack_def by auto
  have hk: "handles (Some get_tc_info) (Some ?g) ack" using k by (simp add: handles_def)
  have ty: "RTM_NEWTFILTER \<noteq> NLMSG_ERROR" "RTM_NEWTFILTER \<noteq> NLMSG_DONE"
    by (simp_all add: RTM_NEWTFILTER_def NLMSG_ERROR_def NLMSG_DONE_def)
  have "libbpf_netlink_recv (Some get_tc_info) port (se_time env mod 2 ^ 32) env ?ctx =
      reply_rounds (Some ?g) port (se_time env mod 2 ^ 32) (map (\<lambda>(a, b, ms). ms) ?ds) ?ctx"
    using libbpf_netlink_recv_def rounds_refines [of ?ds "Some get_tc_info" "Some ?g" True 8192]
      open' n k notice_handles [OF reply(2)] hk by (simp add: libbpf_netlink_recv_def reply(1))
  also have "\<dots> = Done 0 \<lparr>cx_opts = opts_set_info ob (unat pid') (unat handle) (unat info), cx_processed = True\<rparr>"
    by (simp add: n k ty reply(4) notice_effect_def)
  finally show ?thesis
    unfolding bpf_tc_attach_sends [where prog_info = prog_info, OF args open'(1-3)]
    by (simp add: tc_finish_def)
qed

definition demo_hook :: tc_hook where
  "demo_hook = \<lparr>hk_sz = 32, hk_ifindex = 2, hk_attach_point = BPF_TC_INGRESS, hk_parent = 0,
     hk_handle = 0, hk_qdisc = None, hk_extra = []\<rparr>"

definition demo_opts :: tc_opts where
  "demo_opts = \<lparr>to_sz = 32, to_prog_fd = 5, to_flags = 0, to_prog_id = 0, to_handle = 1,
     to_priority = 1, to_extra = replicate 4 0\<rparr>"

definition demo_notice :: nlmsg where
  "demo_notice = filter_notice 8 7 9 2 1 0xFFFFFFF2 0x10300 (notice_attrs kind_bpf [] 77 [] [])"

lemma demo_args:
  "attach_args_ok demo_hook demo_opts"
  "tc_get_tcm_parent (hook_attach_point demo_hook) (hook_parent demo_hook 0) = Inr 0xFFFFFFF2"
  "opt_prog_fd demo_opts = 5"
  by (simp_all add: attach_args_ok_def demo_hook_def demo_opts_def hook_ifindex_def opt_prog_fd_def
      opt_prog_id_def opt_priority_def opt_flags_def opts_get_def libbpf_validate_opts_def
      libbpf_is_mem_zeroed_def hook_attach_point_def hook_parent_def tc_get_tcm_parent_def
      BPF_TC_INGRESS_def TC_H_MAKE_def TC_H_CLSACT_def list_all_iff)

lemma demo_notice_ok: "notice_ok kind_bpf [] 77 [] []"
  by (simp add: notice_ok_def notice_inner_def notice_attrs_def attr_ok_def length_nla_enc
      NLA_HDRLEN_def kind_bpf_def TCA_KIND_def TCA_OPTIONS_def TCA_BPF_ID_def)

lemma demo_is_notice: "is_notice (demo_sock rs) 9 1 0x10300 77 demo_notice"
proof -
  have "nlmsg_ok demo_notice"
    by (simp add: nlmsg_ok_def demo_notice_def filter_notice_def RTM_NEWTFILTER_def NLMSG_ERROR_def
        NLMSG_HDRLEN_def notice_attrs_def notice_inner_def length_nla_enc NLA_HDRLEN_def kind_bpf_def
        align4_def)
  moreover have "NLM_F_ECHO 8" by (simp add: NLM_F_ECHO_def bit_iff_odd)
  moreover have "demo_notice = filter_notice 8 (se_time (demo_sock rs) mod 2 ^ 32) 9 2 1 0xFFFFFFF2 0x10300
      (notice_attrs kind_bpf [] 77 [] [])"
    by (simp add: demo_notice_def demo_sock_def)
  ultimately show ?thesis unfolding is_notice_def using demo_notice_ok by blast
qed

lemma demo_is_ack: "e < 2 ^ 32 \<Longrightarrow> is_ack (demo_sock rs) 9 (demo_ack e)"
  using demo_ack_ok [of e] by (simp add: is_ack_def demo_ack_fields demo_sock_def NLM_F_MULTI_def)

lemma demo_sock_fields:
  "libbpf_netlink_open (demo_sock rs) = (5, 9, 1)" "se_send_errno (demo_sock rs) = 0"
  "se_alloc_ok (demo_sock rs)" "se_realloc_ok (demo_sock rs)" "se_recv (demo_sock rs) = rs"
  by (simp_all add: libbpf_netlink_open_def demo_sock_def)

theorem tc_attach_success_witness:
  "let env = demo_sock (deliver [(0, 1, [demo_notice]), (2, 0, [demo_ack 0])]) in
   fst (bpf_tc_attach env (\<lambda>_. Inr ([116, 99], 77)) (Some demo_hook) (Some demo_opts)) =
     Done 0 (Some (opts_set_info demo_opts (unat (77 :: u32)) (unat (1 :: u32)) (unat (0x10300 :: u32))))"
  unfolding Let_def
  by (subst tc_attach_success [where prog_info = "\<lambda>_. Inr ([116, 99], 77)" and name = "[116, 99]" and pid = 77,
      OF demo_args(1,2) refl _ demo_sock_fields(1) _ demo_sock_fields(2-5) demo_is_notice demo_is_ack])
    (simp_all add: demo_ack_error)

text \<open>When the kernel refuses, its error is what the caller gets, the caller's structure is as
  it was and no socket stays open.\<close>

theorem tc_attach_refused:
  assumes args: "attach_args_ok h ob" "tc_get_tcm_parent (hook_attach_point h) (hook_parent h 0) = Inr parent"
      "prog_info (opt_prog_fd ob) = Inr (name, pid)" "length name \<le> 15"
    and open': "libbpf_netlink_open env = (sock, port, 1)" "0 \<le> sock" "se_send_errno env = 0"
      "se_alloc_ok env" "se_realloc_ok env"
    and reply: "se_recv env = deliver [(a, b, [ack])]" "is_ack env port ack" "s32 (m_error ack) < 0"
  shows "bpf_tc_attach env prog_info (Some h) (Some ob) =
      (Done (s32 (m_error ack)) (Some ob), Some (nlmsg_enc (attach_message env h ob parent name pid)), 0)"
proof -
  let ?ctx = "\<lparr>cx_opts = ob, cx_processed = False\<rparr>"
  let ?g = "\<lambda>(m :: nlmsg) (c :: tc_ctx). (0 :: int, c)"
  from reply(2) have k: "nlmsg_ok ack" "m_type ack = NLMSG_ERROR" "m_seq ack = se_time env mod 2 ^ 32"
      "m_pid ack = port" "\<not> NLM_F_MULTI (m_flags ack)"
    unfolding is_ack_def by auto
  have hk: "handles (Some get_tc_info) (Some ?g) ack" using k by (simp add: handles_def)
  have "s32 0 = 0" by (simp add: s32_def)
  with reply(3) have nz: "m_error ack \<noteq> 0" by (metis less_irrefl)
  have "libbpf_netlink_recv (Some get_tc_info) port (se_time env mod 2 ^ 32) env ?ctx =
      reply_rounds (Some ?g) port (se_time env mod 2 ^ 32) [[ack]] ?ctx"
    using rounds_refines [of "[(a, b, [ack])]" "Some get_tc_info" "Some ?g" True 8192]
      open' k hk by (simp add: libbpf_netlink_recv_def reply(1))
  also have "\<dots> = Done (s32 (m_error ack)) ?ctx" using nz by (simp add: k)
  finally show ?thesis
    unfolding bpf_tc_attach_sends [where prog_info = prog_info, OF args open'(1-3)]
    using reply(3) by (simp add: tc_finish_def)
qed

theorem tc_attach_refused_witness:
  "fst (bpf_tc_attach (demo_sock (deliver [(1, 0, [demo_ack 4294967279])])) (\<lambda>_. Inr ([116, 99], 77))
     (Some demo_hook) (Some demo_opts)) = Done (- 17) (Some demo_opts)"
proof -
  have "s32 4294967279 = - 17" by (simp add: s32_def)
  then show ?thesis
    by (subst tc_attach_refused [where prog_info = "\<lambda>_. Inr ([116, 99], 77)" and name = "[116, 99]" and pid = 77,
      OF demo_args(1,2) refl _ demo_sock_fields(1) _ demo_sock_fields(2-5) demo_is_ack])
    (simp_all add: demo_ack_error)
qed

text \<open>With invalid arguments, or a parent that does not go with the attach point, attaching
  gives EINVAL: no socket is opened, nothing is sent and the caller's structure is as it was.
  The other operations reject their arguments before anything is sent too.\<close>

theorem tc_invalid_arguments:
  assumes "\<not> attach_args_ok h ob \<or> tc_get_tcm_parent (hook_attach_point h) (hook_parent h 0) = Inl e"
  shows "bpf_tc_attach env prog_info (Some h) (Some ob) = (Done (- EINVAL) (Some ob), None, 0)"
proof (cases "attach_args_ok h ob")
  case False
  then show ?thesis by (auto simp: bpf_tc_attach_def attach_args_ok_def refused_def not_le)
next
  case True
  with assms have p: "tc_get_tcm_parent (hook_attach_point h) (hook_parent h 0) = Inl e" by simp
  then have "e = - EINVAL" by (auto simp: tc_get_tcm_parent_def split: if_splits)
  with p show ?thesis by (simp add: bpf_tc_attach_def refused_def)
qed

theorem tc_invalid_arguments_witness:
  "bpf_tc_attach (demo_sock []) (\<lambda>_. Inl (- 9)) (Some (demo_hook\<lparr>hk_attach_point := 3\<rparr>)) (Some demo_opts) =
   (Done (- EINVAL) (Some demo_opts), None, 0)"
  by (rule tc_invalid_arguments [where e = "- EINVAL"])
    (simp add: demo_hook_def hook_attach_point_def opts_get_def tc_get_tcm_parent_def
      BPF_TC_INGRESS_def BPF_TC_EGRESS_def BPF_TC_CUSTOM_def)

lemma ack_result:
  assumes "se_alloc_ok env" and "se_realloc_ok env" and "se_recv env = deliver [(a, b, [ack])]"
    and "is_ack env port ack"
  shows "libbpf_netlink_recv None port (se_time env mod 2 ^ 32) env () = Done (s32 (m_error ack)) ()"
proof -
  from assms(4) have k: "nlmsg_ok ack" "m_type ack = NLMSG_ERROR" "m_seq ack = se_time env mod 2 ^ 32"
      "m_pid ack = port" "\<not> NLM_F_MULTI (m_flags ack)"
    unfolding is_ack_def by auto
  have "s32 0 = 0" by (simp add: s32_def)
  with k rounds_refines [of "[(a, b, [ack])]" None None True 8192 port "se_time env mod 2 ^ 32" "()"] assms(1,2)
  show ?thesis by (simp add: libbpf_netlink_recv_def assms(3) handles_def)
qed

definition tc_message :: "sock_env \<Rightarrow> nat \<Rightarrow> nat \<Rightarrow> 8 word list \<Rightarrow> attribute list \<Rightarrow> nlmsg" where
  "tc_message env type flags body as =
     \<lparr>m_type = type, m_flags = flags, m_seq = se_time env mod 2 ^ 32, m_pid = 0,
      m_payload = body @ nlas_enc as\<rparr>"

lemma tc_request_sent:
  assumes "length body = 20" and "kind \<noteq> []" and "length kind \<le> 16"
  shows "add_data TCA_KIND kind (tc_req type flags body) =
      Inr (req_of (nl_hdr type flags 0 0 body) [(TCA_KIND, kind)])"
    and "sent_bytes env (req_of (nl_hdr type flags 0 0 body) [(TCA_KIND, kind)]) =
      nlmsg_enc (tc_message env type flags body [(TCA_KIND, kind)])"
    and "sent_bytes env (tc_req type flags body) = nlmsg_enc (tc_message env type flags body [])"
proof -
  have "align4 (length kind) \<le> 16"
    using align4_mono [OF assms(3)] by (simp add: align4_def)
  then have f: "fits (nl_hdr type flags 0 0 body) []" "fits (nl_hdr type flags 0 0 body) [(TCA_KIND, kind)]"
    using assms(1) by (simp_all add: fits_def sizeof_req_def length_nla_enc NLA_HDRLEN_def)
  show "add_data TCA_KIND kind (tc_req type flags body) =
      Inr (req_of (nl_hdr type flags 0 0 body) [(TCA_KIND, kind)])"
    using add_data_canonical [OF f(1), of TCA_KIND kind] f(2) assms(2) by (simp add: tc_req_canonical [OF assms(1)])
  show "sent_bytes env (req_of (nl_hdr type flags 0 0 body) [(TCA_KIND, kind)]) =
      nlmsg_enc (tc_message env type flags body [(TCA_KIND, kind)])"
    using sent_bytes_canonical [OF f(2)] by (simp add: tc_message_def)
  show "sent_bytes env (tc_req type flags body) = nlmsg_enc (tc_message env type flags body [])"
    using sent_bytes_canonical [OF f(1)] by (simp add: tc_message_def tc_req_canonical [OF assms(1)])
qed

text \<open>A hook at ingress, egress or both is created as the clsact queueing discipline of the
  interface, exclusively; destroying both deletes it, destroying one flushes the filters at that
  parent. Exactly one message is sent, the kernel's verdict is returned, no socket stays open.\<close>

theorem tc_hook_requests:
  assumes hook: "hook_valid h" "0 < hook_ifindex h" "hook_parent h 0 = 0"
      "hook_attach_point h \<in> {BPF_TC_INGRESS, BPF_TC_EGRESS, BPF_TC_INGRESS + BPF_TC_EGRESS}"
    and open': "libbpf_netlink_open env = (sock, port, 1)" "0 \<le> sock" "se_send_errno env = 0"
      "se_alloc_ok env" "se_realloc_ok env"
    and reply: "se_recv env = deliver [(a, b, [ack])]" "is_ack env port ack"
  shows "bpf_tc_hook_create env (Some h) =
      (Done (s32 (m_error ack)) (),
       Some (nlmsg_enc (tc_message env RTM_NEWQDISC (NLM_F_REQUEST + NLM_F_ACK + (NLM_F_CREATE + NLM_F_EXCL))
         (tcm_body (hook_ifindex h) (TC_H_MAKE TC_H_CLSACT 0) TC_H_CLSACT 0) [(TCA_KIND, kind_clsact)])), 0) \<and>
    bpf_tc_hook_destroy env (Some h) =
      (Done (s32 (m_error ack)) (),
       Some (nlmsg_enc
         (if hook_attach_point h = BPF_TC_INGRESS + BPF_TC_EGRESS
          then tc_message env RTM_DELQDISC (NLM_F_REQUEST + NLM_F_ACK)
                 (tcm_body (hook_ifindex h) (TC_H_MAKE TC_H_CLSACT 0) TC_H_CLSACT 0) [(TCA_KIND, kind_clsact)]
          else tc_message env RTM_DELTFILTER (NLM_F_REQUEST + NLM_F_ACK)
                 (tcm_body (hook_ifindex h) 0
                   (TC_H_MAKE TC_H_CLSACT (if hook_attach_point h = BPF_TC_INGRESS then 0xFFF2 else 0xFFF3)) 0) [])), 0)"
proof -
  note recv = ack_result [OF open'(4,5) reply, simplified]
  have kind: "kind_clsact \<noteq> []" "length kind_clsact \<le> 16" by (simp_all add: kind_clsact_def)
  note sent = tc_request_sent [OF length_tcm_body kind]
  note points = BPF_TC_INGRESS_def BPF_TC_EGRESS_def BPF_TC_QDISC_def BPF_TC_CUSTOM_def
  have "attach_point_to_config h =
      Inr (Some ((TC_H_CLSACT, TC_H_MAKE TC_H_CLSACT 0), kind_clsact))"
    using hook by (auto simp: attach_point_to_config_def Let_def clsact_config_def)
  then have modify: "tc_qdisc_modify env h cmd flags =
      (Done (s32 (m_error ack)) (),
       Some (nlmsg_enc (tc_message env cmd (NLM_F_REQUEST + NLM_F_ACK + flags)
         (tcm_body (hook_ifindex h) (TC_H_MAKE TC_H_CLSACT 0) TC_H_CLSACT 0) [(TCA_KIND, kind_clsact)])), 0)"
    for cmd flags
    by (simp add: tc_qdisc_modify_def sent send_recv_open [OF open'(1-3)] recv)
  have detach: "bpf_tc_detach_flush env (Some h) None True =
      (Done (s32 (m_error ack)) (),
       Some (nlmsg_enc (tc_message env RTM_DELTFILTER (NLM_F_REQUEST + NLM_F_ACK)
         (tcm_body (hook_ifindex h) 0
           (TC_H_MAKE TC_H_CLSACT (if hook_attach_point h = BPF_TC_INGRESS then 0xFFF2 else 0xFFF3)) 0) [])), 0)"
    if "hook_attach_point h \<noteq> BPF_TC_INGRESS + BPF_TC_EGRESS"
  proof -
    have "tc_get_tcm_parent (hook_attach_point h) (hook_parent h 0) =
        Inr (TC_H_MAKE TC_H_CLSACT (if hook_attach_point h = BPF_TC_INGRESS then 0xFFF2 else 0xFFF3))"
      using hook(3,4) that by (auto simp: tc_get_tcm_parent_def points)
    then show ?thesis
      using hook by (simp add: bpf_tc_detach_flush_def opt_fields_def tc_detach_request_def
          send_recv_open [OF open'(1-3)] sent(3) recv)
  qed
  have "bpf_tc_hook_create env (Some h) = tc_qdisc_modify env h RTM_NEWQDISC (NLM_F_CREATE + NLM_F_EXCL)"
    using hook by (simp add: bpf_tc_hook_create_def tc_qdisc_create_excl_def)
  moreover have "bpf_tc_hook_destroy env (Some h) =
      (if hook_attach_point h = BPF_TC_INGRESS + BPF_TC_EGRESS then tc_qdisc_modify env h RTM_DELQDISC 0
       else bpf_tc_detach_flush env (Some h) None True)"
    using hook by (auto simp: bpf_tc_hook_destroy_def tc_qdisc_delete_def Let_def points)
  ultimately show ?thesis by (auto simp: modify detach)
qed

theorem tc_hook_requests_witness:
  "fst (bpf_tc_hook_create (demo_sock (deliver [(1, 0, [demo_ack 4294967279])])) (Some demo_hook)) = Done (- 17) ()"
proof -
  have "s32 4294967279 = - 17" by (simp add: s32_def)
  have "hook_valid demo_hook" "0 < hook_ifindex demo_hook" "hook_parent demo_hook 0 = 0"
    "hook_attach_point demo_hook \<in> {BPF_TC_INGRESS, BPF_TC_EGRESS, BPF_TC_INGRESS + BPF_TC_EGRESS}"
    using demo_args(1)
    by (simp_all add: attach_args_ok_def demo_hook_def hook_parent_def hook_attach_point_def opts_get_def)
  from conjunct1 [OF tc_hook_requests [OF this demo_sock_fields(1) _ demo_sock_fields(2-5) demo_is_ack]]
  show ?thesis by (simp del: deliver.simps add: demo_ack_error \<open>s32 4294967279 = - 17\<close>)
qed

text \<open>A hook for an arbitrary queueing discipline that names none.\<close>

lemma hook_create_without_qdisc:
  assumes "hook_valid h" and "0 < hook_ifindex h" and "hook_attach_point h = BPF_TC_QDISC"
    and "hook_qdisc h = None"
  shows "fst (bpf_tc_hook_create env (Some h)) = Crash"
  using assms by (simp add: bpf_tc_hook_create_def tc_qdisc_create_excl_def tc_qdisc_modify_def
      attach_point_to_config_def Let_def qdisc_config_def BPF_TC_INGRESS_def BPF_TC_EGRESS_def
      BPF_TC_QDISC_def BPF_TC_CUSTOM_def)

end
