(* ===== verification/Zip.thy ===== *)
theory Zip
  imports Bytes
begin

text \<open>
  The reader of zip archives of libbpf, \<^verbatim>\<open>libbpf/src/zip.c\<close>, on the bytes of the mapped file. Offsets
  are 32-bit and wrap. A read outside the mapping is \<open>None\<close>, so "not \<open>None\<close>" is memory safety. An
  archive that was written is read back.
\<close>

abbreviation (input) ENOTSUP :: int where "ENOTSUP \<equiv> 95"

section \<open>The archive\<close>

record zip_archive =
  za_data :: "8 word list"
  za_size :: u32
  za_cd_offset :: u32
  za_cd_records :: u32

text \<open>Pointers into the mapping are offsets.\<close>

record zip_entry =
  ze_compression :: nat
  ze_name :: nat
  ze_name_length :: nat
  ze_data :: nat
  ze_data_length :: u32
  ze_data_offset :: u32

definition END_OF_CD_RECORD_MAGIC :: nat where "END_OF_CD_RECORD_MAGIC = 0x06054b50"
definition CD_FILE_HEADER_MAGIC :: nat where "CD_FILE_HEADER_MAGIC = 0x02014b50"
definition LOCAL_FILE_HEADER_MAGIC :: nat where "LOCAL_FILE_HEADER_MAGIC = 0x04034b50"

text \<open>Sizes of the packed structures.\<close>

definition eocd_size :: nat where "eocd_size = 22"
definition cdfh_size :: nat where "cdfh_size = 46"
definition lfh_size :: nat where "lfh_size = 30"

definition FLAG_ENCRYPTED :: "nat \<Rightarrow> bool" where "FLAG_ENCRYPTED flags = bit flags 0"
definition FLAG_HAS_DATA_DESCRIPTOR :: "nat \<Rightarrow> bool" where "FLAG_HAS_DATA_DESCRIPTOR flags = bit flags 3"

definition check_access :: "zip_archive \<Rightarrow> u32 \<Rightarrow> u32 \<Rightarrow> nat option" where
  "check_access archive offset sz =
     (if offset + sz > za_size archive \<or> offset > offset + sz then None else Some (unat offset))"

definition try_parse_end_of_cd :: "zip_archive \<Rightarrow> u32 \<Rightarrow> (int \<times> zip_archive) option" where
  "try_parse_end_of_cd archive offset =
     (let d = za_data archive in
      case check_access archive offset (of_nat eocd_size) of
        None \<Rightarrow> Some (- EINVAL, archive)
      | Some eocd \<Rightarrow>
          do { magic \<leftarrow> rd 4 d eocd;
               if magic \<noteq> END_OF_CD_RECORD_MAGIC then Some (- EINVAL, archive)
               else do { comment_length \<leftarrow> rd 2 d (eocd + 20);
                    if unat offset + eocd_size + comment_length \<noteq> unat (za_size archive) then Some (- EINVAL, archive)
                    else do { cd_records \<leftarrow> rd 2 d (eocd + 8);
                         this_disk \<leftarrow> rd 2 d (eocd + 4);
                         cd_disk \<leftarrow> rd 2 d (eocd + 6);
                         cd_records_total \<leftarrow> rd 2 d (eocd + 10);
                         if this_disk \<noteq> 0 \<or> cd_disk \<noteq> 0 \<or> cd_records_total \<noteq> cd_records then Some (- ENOTSUP, archive)
                         else do { cd_offset \<leftarrow> rd 4 d (eocd + 16);
                              cd_size \<leftarrow> rd 4 d (eocd + 12);
                              if check_access archive (of_nat cd_offset) (of_nat cd_size) = None
                              then Some (- EINVAL, archive)
                              else Some (0, archive\<lparr>za_cd_offset := of_nat cd_offset,
                                                    za_cd_records := of_nat cd_records\<rparr>) } } } })"

text \<open>The scan from the end of the file; the third argument is the offset plus one.\<close>

fun cd_scan :: "zip_archive \<Rightarrow> int \<Rightarrow> nat \<Rightarrow> int \<Rightarrow> (int \<times> zip_archive) option" where
  "cd_scan archive limit 0 rc = Some (rc, archive)"
| "cd_scan archive limit (Suc offset) rc =
     (if int offset > limit \<and> rc \<noteq> 0
      then do { (rc', archive') \<leftarrow> try_parse_end_of_cd archive (of_nat offset);
                if rc' = - ENOTSUP then Some (rc', archive') else cd_scan archive' limit offset rc' }
      else Some (rc, archive))"

definition find_cd :: "zip_archive \<Rightarrow> (int \<times> zip_archive) option" where
  "find_cd archive =
     (if unat (za_size archive) \<le> eocd_size then Some (- EINVAL, archive)
      else let offset = int (unat (za_size archive)) - int eocd_size; limit = offset - 65536
           in cd_scan archive limit (nat offset + 1) (- EINVAL))"

text \<open>Opening: what the calls return, and the descriptors, mappings and blocks held.\<close>

record zip_env =
  zv_open :: "int + unit"
  zv_lseek :: "int option"
  zv_mmap :: "int + 8 word list"
  zv_malloc :: bool

record zip_world =
  zw_fds :: nat
  zw_maps :: nat
  zw_blocks :: nat

definition zip_archive_open :: "zip_env \<Rightarrow> zip_world \<Rightarrow> ((int + zip_archive) \<times> zip_world) option" where
  "zip_archive_open env w =
     (case zv_open env of
        Inl e \<Rightarrow> Some (Inl (- e), w)
      | Inr _ \<Rightarrow>
          let w1 = w\<lparr>zw_fds := zw_fds w + 1\<rparr>
          in case zv_lseek env of
               None \<Rightarrow> Some (Inl (- EINVAL), w1\<lparr>zw_fds := zw_fds w1 - 1\<rparr>)
             | Some sz \<Rightarrow>
                 if sz > 2 ^ 32 - 1 then Some (Inl (- EINVAL), w1\<lparr>zw_fds := zw_fds w1 - 1\<rparr>)
                 else case zv_mmap env of
                        Inl e \<Rightarrow> Some (Inl (- e), w1\<lparr>zw_fds := zw_fds w1 - 1\<rparr>)
                      | Inr d \<Rightarrow>
                          let w2 = w1\<lparr>zw_fds := zw_fds w1 - 1, zw_maps := zw_maps w1 + 1\<rparr>
                          in if \<not> zv_malloc env then Some (Inl (- ENOMEM), w2\<lparr>zw_maps := zw_maps w2 - 1\<rparr>)
                             else let w3 = w2\<lparr>zw_blocks := zw_blocks w2 + 1\<rparr>
                                  in do { (err, archive) \<leftarrow> find_cd \<lparr>za_data = d, za_size = of_int sz,
                                            za_cd_offset = 0, za_cd_records = 0\<rparr>;
                                          Some (if err \<noteq> 0
                                                then (Inl err, w3\<lparr>zw_maps := zw_maps w3 - 1, zw_blocks := zw_blocks w3 - 1\<rparr>)
                                                else (Inr archive, w3)) })"

definition zip_archive_close :: "zip_world \<Rightarrow> zip_world" where
  "zip_archive_close w = w\<lparr>zw_maps := zw_maps w - 1, zw_blocks := zw_blocks w - 1\<rparr>"

section \<open>Entries\<close>

definition local_file_header_at_offset :: "zip_archive \<Rightarrow> u32 \<Rightarrow> nat option option" where
  "local_file_header_at_offset archive offset =
     (case check_access archive offset (of_nat lfh_size) of
        None \<Rightarrow> Some None
      | Some lfh \<Rightarrow>
          do { magic \<leftarrow> rd 4 (za_data archive) lfh;
               Some (if magic \<noteq> LOCAL_FILE_HEADER_MAGIC then None else Some lfh) })"

definition get_entry_at_offset :: "zip_archive \<Rightarrow> u32 \<Rightarrow> zip_entry \<Rightarrow> (int \<times> zip_entry) option" where
  "get_entry_at_offset archive offset0 out =
     (let d = za_data archive in
      do { r \<leftarrow> local_file_header_at_offset archive offset0;
           case r of
             None \<Rightarrow> Some (- EINVAL, out)
           | Some lfh \<Rightarrow>
               do { let offset1 = offset0 + of_nat lfh_size;
                    flags \<leftarrow> rd 2 d (lfh + 6);
                    if FLAG_ENCRYPTED flags \<or> FLAG_HAS_DATA_DESCRIPTOR flags then Some (- EINVAL, out)
                    else do { file_name_length \<leftarrow> rd 2 d (lfh + 26);
                      case check_access archive offset1 (of_nat file_name_length) of
                        None \<Rightarrow> Some (- EINVAL, out)
                      | Some name \<Rightarrow>
                          do { let offset2 = offset1 + of_nat file_name_length;
                               extra_field_length \<leftarrow> rd 2 d (lfh + 28);
                               if check_access archive offset2 (of_nat extra_field_length) = None
                               then Some (- EINVAL, out)
                               else do { let offset3 = offset2 + of_nat extra_field_length;
                                 compressed_size \<leftarrow> rd 4 d (lfh + 18);
                                 case check_access archive offset3 (of_nat compressed_size) of
                                   None \<Rightarrow> Some (- EINVAL, out)
                                 | Some p \<Rightarrow>
                                     do { compression \<leftarrow> rd 2 d (lfh + 8);
                                          Some (0, \<lparr>ze_compression = compression, ze_name = name,
                                            ze_name_length = file_name_length, ze_data = p,
                                            ze_data_length = of_nat compressed_size,
                                            ze_data_offset = offset3\<rparr>) } } } } } })"

text \<open>The loop over the central directory, \<open>n\<close> records to go.\<close>

fun find_loop :: "zip_archive \<Rightarrow> 8 word list \<Rightarrow> nat \<Rightarrow> u32 \<Rightarrow> zip_entry \<Rightarrow> (int \<times> zip_entry) option" where
  "find_loop archive file_name 0 offset out = Some (- ENOENT, out)"
| "find_loop archive file_name (Suc n) offset out =
     (let d = za_data archive in
      case check_access archive offset (of_nat cdfh_size) of
        None \<Rightarrow> Some (- EINVAL, out)
      | Some cdfh \<Rightarrow>
          do { magic \<leftarrow> rd 4 d cdfh;
               if magic \<noteq> CD_FILE_HEADER_MAGIC then Some (- EINVAL, out)
               else do { let offset1 = offset + of_nat cdfh_size;
                    cdfh_name_length \<leftarrow> rd 2 d (cdfh + 28);
                    case check_access archive offset1 (of_nat cdfh_name_length) of
                      None \<Rightarrow> Some (- EINVAL, out)
                    | Some cdfh_name \<Rightarrow>
                        do { cdfh_flags \<leftarrow> rd 2 d (cdfh + 8);
                             if \<not> FLAG_ENCRYPTED cdfh_flags \<and> \<not> FLAG_HAS_DATA_DESCRIPTOR cdfh_flags \<and>
                                length file_name = cdfh_name_length \<and>
                                take (length file_name) (drop (unat offset1) d) = file_name
                             then do { lofs \<leftarrow> rd 4 d (cdfh + 42); get_entry_at_offset archive (of_nat lofs) out }
                             else do { extra_field_length \<leftarrow> rd 2 d (cdfh + 30);
                                       file_comment_length \<leftarrow> rd 2 d (cdfh + 32);
                                       find_loop archive file_name n
                                         (offset1 + of_nat cdfh_name_length + of_nat extra_field_length +
                                          of_nat file_comment_length) out } } } })"

definition zip_archive_find_entry :: "zip_archive \<Rightarrow> 8 word list \<Rightarrow> zip_entry \<Rightarrow> (int \<times> zip_entry) option" where
  "zip_archive_find_entry archive file_name out =
     find_loop archive file_name (unat (za_cd_records archive)) (za_cd_offset archive) out"

section \<open>No read outside the mapping\<close>

definition za_ok :: "zip_archive \<Rightarrow> bool" where
  "za_ok a \<longleftrightarrow> length (za_data a) = unat (za_size a)"

lemma check_access_Some:
  assumes "check_access a off sz = Some p" and "za_ok a"
  shows "p = unat off \<and> p + unat sz \<le> length (za_data a)"
proof -
  from assms(1) have "off \<le> off + sz" and le: "off + sz \<le> za_size a" and p: "p = unat off"
    by (auto simp: check_access_def split: if_splits)
  then have "unat (off + sz) = unat off + unat sz"
    by (metis unat_plus_simple)
  with le p assms(2) show ?thesis by (simp add: za_ok_def word_le_nat_alt)
qed

lemma rd_at: "off + k \<le> length buf \<Longrightarrow> \<exists>v. rd k buf off = Some v"
  by (simp add: rd_def)

lemma rd_fields:
  assumes "p + n \<le> length d"
  shows "c + 2 \<le> n \<Longrightarrow> \<exists>v < 65536. rd 2 d (p + c) = Some v"
    and "c + 4 \<le> n \<Longrightarrow> \<exists>v < 2 ^ 32. rd 4 d (p + c) = Some v"
proof -
  have less: "rd k d (p + c) = Some v \<Longrightarrow> v < 256 ^ k" for k v using rd_Some by blast
  show "c + 2 \<le> n \<Longrightarrow> \<exists>v < 65536. rd 2 d (p + c) = Some v"
    using rd_at [of "p + c" 2 d] less [of 2] assms by fastforce
  show "c + 4 \<le> n \<Longrightarrow> \<exists>v < 2 ^ 32. rd 4 d (p + c) = Some v"
    using rd_at [of "p + c" 4 d] less [of 4] assms by fastforce
qed

lemma rd_magic: "p + n \<le> length d \<Longrightarrow> 4 \<le> n \<Longrightarrow> \<exists>v. rd 4 d p = Some v"
  by (simp add: rd_def)

lemma try_parse_safe:
  assumes "za_ok a"
  shows "\<exists>rc a'. try_parse_end_of_cd a off = Some (rc, a') \<and> za_data a' = za_data a \<and> za_size a' = za_size a"
proof (cases "check_access a off (of_nat eocd_size)")
  case None
  then show ?thesis by (simp add: try_parse_end_of_cd_def)
next
  case (Some p)
  have in_file: "p + 22 \<le> length (za_data a)"
    using check_access_Some [OF Some assms] by (simp add: eocd_size_def)
  obtain m where "rd 4 (za_data a) p = Some m" using rd_magic [OF in_file] by auto
  moreover obtain cl where "rd 2 (za_data a) (p + 20) = Some cl" using rd_fields(1) [OF in_file, of 20] by auto
  moreover obtain n where "rd 2 (za_data a) (p + 8) = Some n" using rd_fields(1) [OF in_file, of 8] by auto
  moreover obtain td where "rd 2 (za_data a) (p + 4) = Some td" using rd_fields(1) [OF in_file, of 4] by auto
  moreover obtain cd where "rd 2 (za_data a) (p + 6) = Some cd" using rd_fields(1) [OF in_file, of 6] by auto
  moreover obtain nt where "rd 2 (za_data a) (p + 10) = Some nt" using rd_fields(1) [OF in_file, of 10] by auto
  moreover obtain co where "rd 4 (za_data a) (p + 16) = Some co" using rd_fields(2) [OF in_file, of 16] by auto
  moreover obtain cs where "rd 4 (za_data a) (p + 12) = Some cs" using rd_fields(2) [OF in_file, of 12] by auto
  ultimately show ?thesis using Some by (simp add: try_parse_end_of_cd_def Let_def)
qed

lemma cd_scan_safe:
  assumes "za_ok a"
  shows "\<exists>rc' a'. cd_scan a limit n rc = Some (rc', a') \<and> za_data a' = za_data a \<and> za_size a' = za_size a"
  using assms
proof (induction a limit n rc rule: cd_scan.induct)
  case (2 a limit offset rc)
  obtain rc1 a1 where t: "try_parse_end_of_cd a (of_nat offset) = Some (rc1, a1)"
    "za_data a1 = za_data a" "za_size a1 = za_size a"
    using try_parse_safe [OF 2(2)] by blast
  then have "za_ok a1" using 2(2) by (simp add: za_ok_def)
  then have "\<exists>rc' a'. cd_scan a1 limit offset rc1 = Some (rc', a') \<and> za_data a' = za_data a1 \<and> za_size a' = za_size a1"
    if "int offset > limit \<and> rc \<noteq> 0" and "rc1 \<noteq> - ENOTSUP"
    using 2(1) [OF that(1) t(1) refl that(2)] by simp
  with t show ?case by auto
qed simp

lemma find_cd_safe:
  assumes "za_ok a"
  shows "\<exists>rc a'. find_cd a = Some (rc, a') \<and> za_data a' = za_data a \<and> za_size a' = za_size a"
  using cd_scan_safe [OF assms] by (simp add: find_cd_def Let_def del: cd_scan.simps)

text \<open>The name and the data of an entry lie in the mapping.\<close>

definition entry_ok :: "zip_archive \<Rightarrow> zip_entry \<Rightarrow> bool" where
  "entry_ok a e \<longleftrightarrow> ze_name e + ze_name_length e \<le> length (za_data a) \<and>
     ze_data e + unat (ze_data_length e) \<le> length (za_data a) \<and> ze_data e = unat (ze_data_offset e)"

definition safe_result :: "zip_archive \<Rightarrow> zip_entry \<Rightarrow> (int \<times> zip_entry) option \<Rightarrow> bool" where
  "safe_result a out r \<longleftrightarrow>
     (case r of None \<Rightarrow> False | Some (rc, out') \<Rightarrow> if rc = 0 then entry_ok a out' else out' = out)"

lemma get_entry_safe:
  assumes "za_ok a"
  shows "safe_result a out (get_entry_at_offset a off out)"
proof (cases "check_access a off (of_nat lfh_size)")
  case None
  then show ?thesis by (simp add: get_entry_at_offset_def local_file_header_at_offset_def safe_result_def)
next
  case (Some p)
  have in_file: "p + 30 \<le> length (za_data a)"
    using check_access_Some [OF Some assms] by (simp add: lfh_size_def)
  obtain m where m: "rd 4 (za_data a) p = Some m" using rd_magic [OF in_file] by auto
  obtain fl where fl: "rd 2 (za_data a) (p + 6) = Some fl" using rd_fields(1) [OF in_file, of 6] by auto
  obtain nl where nl: "rd 2 (za_data a) (p + 26) = Some nl" "nl < 65536" using rd_fields(1) [OF in_file, of 26] by auto
  obtain el where el: "rd 2 (za_data a) (p + 28) = Some el" using rd_fields(1) [OF in_file, of 28] by auto
  obtain cs where cs: "rd 4 (za_data a) (p + 18) = Some cs" "cs < 2 ^ 32" using rd_fields(2) [OF in_file, of 18] by auto
  obtain co where co: "rd 2 (za_data a) (p + 8) = Some co" using rd_fields(1) [OF in_file, of 8] by auto
  let ?o1 = "off + of_nat lfh_size" and ?o2 = "off + of_nat lfh_size + of_nat nl"
  let ?o3 = "off + of_nat lfh_size + of_nat nl + of_nat el"
  have "unat (of_nat nl :: u32) = nl" using nl(2) by (simp add: unat_of_nat_small)
  then have name: "q + nl \<le> length (za_data a)" if "check_access a ?o1 (of_nat nl) = Some q" for q
    using check_access_Some [OF that assms] by simp
  have dat: "q + unat (of_nat cs :: u32) \<le> length (za_data a) \<and> q = unat ?o3"
    if "check_access a ?o3 (of_nat cs) = Some q" for q
    using check_access_Some [OF that assms] by simp
  show ?thesis
    using Some m fl nl(1) el cs(1) co name dat
    by (auto simp: get_entry_at_offset_def local_file_header_at_offset_def entry_ok_def Let_def
        safe_result_def split: option.splits)
qed

lemma find_loop_safe:
  assumes "za_ok a"
  shows "safe_result a out (find_loop a file_name n off out)"
proof (induction n arbitrary: off)
  case (Suc n)
  show ?case
  proof (cases "check_access a off (of_nat cdfh_size)")
    case None
    then show ?thesis by (simp add: safe_result_def)
  next
    case (Some p)
    have in_file: "p + 46 \<le> length (za_data a)"
      using check_access_Some [OF Some assms] by (simp add: cdfh_size_def)
    obtain m where m: "rd 4 (za_data a) p = Some m" using rd_magic [OF in_file] by auto
    obtain fl where fl: "rd 2 (za_data a) (p + 8) = Some fl" using rd_fields(1) [OF in_file, of 8] by auto
    obtain nl where nl: "rd 2 (za_data a) (p + 28) = Some nl" using rd_fields(1) [OF in_file, of 28] by auto
    obtain el where el: "rd 2 (za_data a) (p + 30) = Some el" using rd_fields(1) [OF in_file, of 30] by auto
    obtain cl where cl: "rd 2 (za_data a) (p + 32) = Some cl" using rd_fields(1) [OF in_file, of 32] by auto
    obtain lo where lo: "rd 4 (za_data a) (p + 42) = Some lo" using rd_fields(2) [OF in_file, of 42] by auto
    note get = get_entry_safe [OF assms, of out "of_nat lo"]
    let ?next = "off + of_nat cdfh_size + of_nat nl + of_nat el + of_nat cl"
    from Some m fl nl el cl lo get Suc.IH [of ?next] show ?thesis
      by (auto simp: Let_def safe_result_def split: option.split)
  qed
qed (simp add: safe_result_def)

section \<open>Archives as they are written\<close>

text \<open>A file of an archive, its record with the data, its record in the central directory, and the
  archive: all files, the directory, the end record without a comment.\<close>

record zip_file =
  zf_name :: "8 word list"
  zf_data :: "8 word list"
  zf_compression :: nat
  zf_crc :: nat
  zf_extra :: "8 word list"
  zf_comment :: "8 word list"

definition local_bytes :: "zip_file \<Rightarrow> 8 word list" where
  "local_bytes f = le_bytes 4 LOCAL_FILE_HEADER_MAGIC @ le_bytes 2 20 @ le_bytes 2 0 @
     le_bytes 2 (zf_compression f) @ le_bytes 2 0 @ le_bytes 2 0 @ le_bytes 4 (zf_crc f) @
     le_bytes 4 (length (zf_data f)) @ le_bytes 4 (length (zf_data f)) @ le_bytes 2 (length (zf_name f)) @
     le_bytes 2 (length (zf_extra f)) @ zf_name f @ zf_extra f @ zf_data f"

definition cd_bytes :: "zip_file \<Rightarrow> nat \<Rightarrow> 8 word list" where
  "cd_bytes f ofs = le_bytes 4 CD_FILE_HEADER_MAGIC @ le_bytes 2 20 @ le_bytes 2 20 @ le_bytes 2 0 @
     le_bytes 2 (zf_compression f) @ le_bytes 2 0 @ le_bytes 2 0 @ le_bytes 4 (zf_crc f) @
     le_bytes 4 (length (zf_data f)) @ le_bytes 4 (length (zf_data f)) @ le_bytes 2 (length (zf_name f)) @
     le_bytes 2 (length (zf_extra f)) @ le_bytes 2 (length (zf_comment f)) @ le_bytes 2 0 @ le_bytes 2 0 @
     le_bytes 4 0 @ le_bytes 4 ofs @ zf_name f @ zf_extra f @ zf_comment f"

fun cd_of :: "nat \<Rightarrow> zip_file list \<Rightarrow> 8 word list" where
  "cd_of ofs [] = []"
| "cd_of ofs (f # fs) = cd_bytes f ofs @ cd_of (ofs + length (local_bytes f)) fs"

definition eocd_bytes :: "nat \<Rightarrow> nat \<Rightarrow> nat \<Rightarrow> 8 word list" where
  "eocd_bytes n sz ofs = le_bytes 4 END_OF_CD_RECORD_MAGIC @ le_bytes 2 0 @ le_bytes 2 0 @ le_bytes 2 n @
     le_bytes 2 n @ le_bytes 4 sz @ le_bytes 4 ofs @ le_bytes 2 0"

definition zip_bytes :: "zip_file list \<Rightarrow> 8 word list" where
  "zip_bytes fs = (let locals = concat (map local_bytes fs); cd = cd_of 0 fs
     in locals @ cd @ eocd_bytes (length fs) (length cd) (length locals))"

definition zip_file_ok :: "zip_file \<Rightarrow> bool" where
  "zip_file_ok f \<longleftrightarrow> length (zf_name f) < 2 ^ 16 \<and> length (zf_extra f) < 2 ^ 16 \<and>
     length (zf_comment f) < 2 ^ 16 \<and> zf_compression f < 2 ^ 16 \<and> zf_crc f < 2 ^ 32"

definition zip_ok :: "zip_file list \<Rightarrow> bool" where
  "zip_ok fs \<longleftrightarrow> fs \<noteq> [] \<and> length fs < 2 ^ 16 \<and> length (zip_bytes fs) < 2 ^ 32 \<and> (\<forall>f \<in> set fs. zip_file_ok f)"

lemma length_records [simp]:
  "length (local_bytes f) = 30 + length (zf_name f) + length (zf_extra f) + length (zf_data f)"
  "length (cd_bytes f ofs) = 46 + length (zf_name f) + length (zf_extra f) + length (zf_comment f)"
  "length (eocd_bytes n sz o') = 22"
  by (simp_all add: local_bytes_def cd_bytes_def eocd_bytes_def)

text \<open>The fields of the records, behind any bytes.\<close>

lemma local_fields:
  assumes "zip_file_ok f" and "length (zf_data f) < 2 ^ 32"
  shows "rd 4 (pre @ local_bytes f @ post) (length pre) = Some LOCAL_FILE_HEADER_MAGIC"
    "rd 2 (pre @ local_bytes f @ post) (length pre + 6) = Some 0"
    "rd 2 (pre @ local_bytes f @ post) (length pre + 8) = Some (zf_compression f)"
    "rd 4 (pre @ local_bytes f @ post) (length pre + 18) = Some (length (zf_data f))"
    "rd 2 (pre @ local_bytes f @ post) (length pre + 26) = Some (length (zf_name f))"
    "rd 2 (pre @ local_bytes f @ post) (length pre + 28) = Some (length (zf_extra f))"
  using assms
  by (simp_all add: rd_append rd_append0 local_bytes_def rd_skip rd_le_bytes zip_file_ok_def LOCAL_FILE_HEADER_MAGIC_def)

lemma cd_fields:
  assumes "zip_file_ok f" and "ofs < 2 ^ 32"
  shows "rd 4 (pre @ cd_bytes f ofs @ post) (length pre) = Some CD_FILE_HEADER_MAGIC"
    "rd 2 (pre @ cd_bytes f ofs @ post) (length pre + 8) = Some 0"
    "rd 2 (pre @ cd_bytes f ofs @ post) (length pre + 28) = Some (length (zf_name f))"
    "rd 2 (pre @ cd_bytes f ofs @ post) (length pre + 30) = Some (length (zf_extra f))"
    "rd 2 (pre @ cd_bytes f ofs @ post) (length pre + 32) = Some (length (zf_comment f))"
    "rd 4 (pre @ cd_bytes f ofs @ post) (length pre + 42) = Some ofs"
  using assms
  by (simp_all add: rd_append rd_append0 cd_bytes_def rd_skip rd_le_bytes zip_file_ok_def CD_FILE_HEADER_MAGIC_def)

lemma eocd_fields:
  assumes "n < 2 ^ 16" and "sz < 2 ^ 32" and "ofs < 2 ^ 32"
  shows "rd 4 (pre @ eocd_bytes n sz ofs) (length pre) = Some END_OF_CD_RECORD_MAGIC"
    "rd 2 (pre @ eocd_bytes n sz ofs) (length pre + 4) = Some 0"
    "rd 2 (pre @ eocd_bytes n sz ofs) (length pre + 6) = Some 0"
    "rd 2 (pre @ eocd_bytes n sz ofs) (length pre + 8) = Some n"
    "rd 2 (pre @ eocd_bytes n sz ofs) (length pre + 10) = Some n"
    "rd 4 (pre @ eocd_bytes n sz ofs) (length pre + 12) = Some sz"
    "rd 4 (pre @ eocd_bytes n sz ofs) (length pre + 16) = Some ofs"
    "rd 2 (pre @ eocd_bytes n sz ofs) (length pre + 20) = Some 0"
  using assms
  by (simp_all add: rd_append rd_append0 eocd_bytes_def rd_skip rd_le_bytes [where k = 2] rd_le_bytes [where k = 4]
      rd_le_bytes [where rest = "[]", simplified] END_OF_CD_RECORD_MAGIC_def)

lemma check_access_in:
  assumes "za_ok a" and "p + n \<le> length (za_data a)"
  shows "check_access a (of_nat p) (of_nat n) = Some p"
proof -
  have "length (za_data a) < 2 ^ 32" using assms(1) unat_less [of "za_size a"] by (simp add: za_ok_def)
  then have u: "unat (of_nat (p + n) :: u32) = p + n" "unat (of_nat p :: u32) = p"
    using assms(2) by - (rule unat_of_nat_small, simp)+
  have "(of_nat p :: u32) + of_nat n = of_nat (p + n)" by simp
  then show ?thesis
    using u assms by (simp add: check_access_def za_ok_def word_le_nat_alt word_less_nat_alt del: of_nat_add)
qed

section \<open>Reading an archive back\<close>

text \<open>The entry of a file whose record begins at \<open>p\<close>.\<close>

definition entry_of :: "zip_file \<Rightarrow> nat \<Rightarrow> zip_entry" where
  "entry_of f p =
     (let q = p + 30 + length (zf_name f) + length (zf_extra f)
      in \<lparr>ze_compression = zf_compression f, ze_name = p + 30, ze_name_length = length (zf_name f), ze_data = q,
          ze_data_length = of_nat (length (zf_data f)), ze_data_offset = of_nat q\<rparr>)"

lemma get_entry_written:
  assumes "za_ok a" and "za_data a = pre @ local_bytes f @ post" and "zip_file_ok f"
  shows "get_entry_at_offset a (of_nat (length pre)) out = Some (0, entry_of f (length pre))"
proof -
  have "length (za_data a) < 2 ^ 32" using assms(1) unat_less [of "za_size a"] by (simp add: za_ok_def)
  then have d: "length (zf_data f) < 2 ^ 32" by (simp add: assms(2))
  note fields = local_fields [OF assms(3) d, of pre post, folded assms(2)]
  have c: "check_access a (of_nat (length pre + k)) (of_nat n) = Some (length pre + k)"
    if "k + n \<le> length (local_bytes f)" for k n
    by (rule check_access_in [OF assms(1)]) (use that assms(2) in simp)
  have c30: "check_access a (of_nat (length pre)) 30 = Some (length pre)"
    using c [of 0 30] by simp
  have c1: "check_access a (of_nat (length pre) + 30) (of_nat (length (zf_name f))) = Some (length pre + 30)"
    using c [of 30 "length (zf_name f)"] by simp
  have c2: "check_access a (of_nat (length pre) + 30 + of_nat (length (zf_name f))) (of_nat (length (zf_extra f))) =
      Some (length pre + 30 + length (zf_name f))"
    using c [of "30 + length (zf_name f)" "length (zf_extra f)"] by (simp add: add.assoc)
  have c3: "check_access a (of_nat (length pre) + 30 + of_nat (length (zf_name f)) + of_nat (length (zf_extra f)))
      (of_nat (length (zf_data f))) = Some (length pre + 30 + length (zf_name f) + length (zf_extra f))"
    using c [of "30 + length (zf_name f) + length (zf_extra f)" "length (zf_data f)"] by (simp add: add.assoc)
  show ?thesis
    by (simp add: get_entry_at_offset_def local_file_header_at_offset_def lfh_size_def c30 c1 c2 c3 fields
        FLAG_ENCRYPTED_def FLAG_HAS_DATA_DESCRIPTOR_def entry_of_def Let_def)
qed

text \<open>The first file of a given name, with its offset.\<close>

fun lookup_file :: "8 word list \<Rightarrow> nat \<Rightarrow> zip_file list \<Rightarrow> (zip_file \<times> nat) option" where
  "lookup_file nm p [] = None"
| "lookup_file nm p (f # fs) = (if zf_name f = nm then Some (f, p) else lookup_file nm (p + length (local_bytes f)) fs)"

lemma find_loop_written:
  assumes "za_ok a" and "za_data a = pre @ cd_of ofs fs @ post" and "\<forall>f \<in> set fs. zip_file_ok f"
    and "ofs + length (concat (map local_bytes fs)) < 2 ^ 32"
  shows "find_loop a nm (length fs) (of_nat (length pre)) out =
    (case lookup_file nm ofs fs of None \<Rightarrow> Some (- ENOENT, out) | Some (f, q) \<Rightarrow> get_entry_at_offset a (of_nat q) out)"
  using assms(2-)
proof (induction fs arbitrary: pre ofs)
  case (Cons f fs)
  let ?n = "length (zf_name f)" and ?e = "length (zf_extra f)" and ?c = "length (zf_comment f)"
  let ?post = "cd_of (ofs + length (local_bytes f)) fs @ post"
  have f: "zip_file_ok f" and d: "za_data a = pre @ cd_bytes f ofs @ ?post" and ofs: "ofs < 2 ^ 32"
    using Cons.prems by simp_all
  note fields = cd_fields [OF f ofs, of pre ?post, folded d]
  have c: "check_access a (of_nat (length pre + k)) (of_nat n) = Some (length pre + k)"
    if "k + n \<le> length (cd_bytes f ofs)" for k n
    by (rule check_access_in [OF assms(1)]) (use that d in simp)
  have c46: "check_access a (of_nat (length pre)) 46 = Some (length pre)" using c [of 0 46] by simp
  have c1: "check_access a (of_nat (length pre) + 46) (of_nat ?n) = Some (length pre + 46)"
    using c [of 46 ?n] by simp
  have len: "length (za_data a) < 2 ^ 32" using assms(1) unat_less [of "za_size a"] by (simp add: za_ok_def)
  then have "unat (of_nat (length pre + 46) :: u32) = length pre + 46"
    by - (rule unat_of_nat_small, simp add: d)
  then have u: "unat (of_nat (length pre) + 46 :: u32) = length pre + 46" by simp
  have name: "take ?n (drop (length pre + 46) (za_data a)) = zf_name f"
    by (simp add: d cd_bytes_def)
  have test: "?n = length nm \<and> take (length nm) (drop (length pre + 46) (za_data a)) = nm \<longleftrightarrow> zf_name f = nm"
    using name by auto
  have skip: "of_nat (length pre) + 46 + of_nat ?n + of_nat ?e + of_nat ?c =
      (of_nat (length (pre @ cd_bytes f ofs)) :: u32)"
    by simp
  have IH: "find_loop a nm (length fs) (of_nat (length (pre @ cd_bytes f ofs))) out =
      (case lookup_file nm (ofs + length (local_bytes f)) fs of None \<Rightarrow> Some (- ENOENT, out)
       | Some (f, q) \<Rightarrow> get_entry_at_offset a (of_nat q) out)"
    by (rule Cons.IH) (use Cons.prems in \<open>simp_all add: add.assoc\<close>)
  show ?case
  proof (cases "zf_name f = nm")
    case True
    show ?thesis unfolding True [symmetric]
      by (simp add: name cdfh_size_def c46 c1 fields u Let_def FLAG_ENCRYPTED_def FLAG_HAS_DATA_DESCRIPTOR_def)
  next
    case False
    with test have "\<not> (length nm = ?n \<and> take (length nm) (drop (length pre + 46) (za_data a)) = nm)" by auto
    with False show ?thesis
      by (simp add: cdfh_size_def c46 c1 fields u Let_def FLAG_ENCRYPTED_def FLAG_HAS_DATA_DESCRIPTOR_def
          IH [unfolded skip [symmetric]]) auto
  qed
qed simp

lemma find_cd_written:
  assumes "zip_ok fs" and "za_data a = zip_bytes fs" and "za_ok a"
  shows "find_cd a = Some (0, a\<lparr>za_cd_offset := of_nat (length (concat (map local_bytes fs))),
    za_cd_records := of_nat (length fs)\<rparr>)"
proof -
  define ls where "ls = concat (map local_bytes fs)"
  define cd where "cd = cd_of 0 fs"
  have d: "za_data a = (ls @ cd) @ eocd_bytes (length fs) (length cd) (length ls)"
    using assms(2) by (simp add: zip_bytes_def ls_def cd_def Let_def)
  have len: "length ls + length cd + 22 < 2 ^ 32" "unat (za_size a) = length ls + length cd + 22"
    using assms by (simp_all add: zip_ok_def za_ok_def zip_bytes_def ls_def cd_def Let_def)
  have pos: "0 < length ls" using assms(1) by (cases fs) (simp_all add: zip_ok_def ls_def)
  have n: "length fs < 2 ^ 16" using assms(1) by (simp add: zip_ok_def)
  note fields = eocd_fields [OF n, of "length cd" "length ls" "ls @ cd", folded d]
  have c: "check_access a (of_nat (length (ls @ cd))) (of_nat 22) = Some (length (ls @ cd))"
    by (rule check_access_in [OF assms(3)]) (simp add: d)
  have c': "check_access a (of_nat (length ls)) (of_nat (length cd)) \<noteq> None"
    using check_access_in [OF assms(3), of "length ls" "length cd"] by (simp add: d)
  have u: "unat (of_nat (length (ls @ cd)) :: u32) = length (ls @ cd)"
    by (rule unat_of_nat_small) (use len in simp)
  have t: "try_parse_end_of_cd a (of_nat (length (ls @ cd))) =
      Some (0, a\<lparr>za_cd_offset := of_nat (length ls), za_cd_records := of_nat (length fs)\<rparr>)"
    using c c' fields len u by (simp add: try_parse_end_of_cd_def eocd_size_def Let_def)
  have ofs: "nat (int (unat (za_size a)) - int eocd_size) + 1 = Suc (length (ls @ cd))"
    using len by (simp add: eocd_size_def)
  have s: "cd_scan b l k 0 = Some (0, b)" for b l k by (cases k) simp_all
  show ?thesis
    using len(2) pos t
    by (simp add: find_cd_def Let_def ofs s eocd_size_def ls_def [symmetric])
qed

text \<open>Where the files are.\<close>

lemma lookup_file_place:
  assumes "lookup_file nm p fs = Some (f, q)"
  shows "\<exists>pre post. concat (map local_bytes fs) = pre @ local_bytes f @ post \<and> q = p + length pre \<and>
    find (\<lambda>f. zf_name f = nm) fs = Some f"
  using assms
proof (induction fs arbitrary: p)
  case (Cons g fs)
  show ?case
  proof (cases "zf_name g = nm")
    case True
    with Cons.prems show ?thesis by (intro exI [of _ "[]"] exI [of _ "concat (map local_bytes fs)"]) simp
  next
    case False
    then have "lookup_file nm (p + length (local_bytes g)) fs = Some (f, q)" using Cons.prems by simp
    from Cons.IH [OF this] obtain pre post where
      "concat (map local_bytes fs) = pre @ local_bytes f @ post" "q = p + length (local_bytes g) + length pre"
      "find (\<lambda>f. zf_name f = nm) fs = Some f" by blast
    with False show ?thesis
      by (intro exI [of _ "local_bytes g @ pre"] exI [of _ post]) simp
  qed
qed simp

lemma lookup_file_None: "lookup_file nm p fs = None \<longleftrightarrow> find (\<lambda>f. zf_name f = nm) fs = None"
  by (induction fs arbitrary: p) simp_all

section \<open>Properties\<close>


definition demo_zip :: "zip_file list" where
  "demo_zip = [\<lparr>zf_name = [97], zf_data = [1, 2, 3], zf_compression = 0, zf_crc = 0, zf_extra = [], zf_comment = []\<rparr>]"

definition demo_entry :: zip_entry where
  "demo_entry = \<lparr>ze_compression = 0, ze_name = 0, ze_name_length = 0, ze_data = 0, ze_data_length = 0, ze_data_offset = 0\<rparr>"

definition demo_env :: "8 word list \<Rightarrow> zip_env" where
  "demo_env d = \<lparr>zv_open = Inr (), zv_lseek = Some (int (length d)), zv_mmap = Inr d, zv_malloc = True\<rparr>"


text \<open>C25: an archive that was written is read back: for every list of files, whatever their names,
  data, extra fields and comments, as long as the lengths fit their fields, the archive opens, and
  looking up a name gives the data, the name and the method of the first file of that name, or
  reports that there is none.\<close>

theorem zip_roundtrip:
  assumes "zip_ok fs"
  shows "\<exists>a. zip_archive_open (demo_env (zip_bytes fs)) w =
      Some (Inr a, w\<lparr>zw_maps := zw_maps w + 1, zw_blocks := zw_blocks w + 1\<rparr>) \<and>
    (case find (\<lambda>f. zf_name f = nm) fs of
       None \<Rightarrow> zip_archive_find_entry a nm out = Some (- ENOENT, out)
     | Some f \<Rightarrow> \<exists>e. zip_archive_find_entry a nm out = Some (0, e) \<and> ze_compression e = zf_compression f \<and>
         take (ze_name_length e) (drop (ze_name e) (za_data a)) = nm \<and>
         take (unat (ze_data_length e)) (drop (ze_data e) (za_data a)) = zf_data f)"
proof -
  let ?d = "zip_bytes fs" and ?ls = "concat (map local_bytes fs)" and ?cd = "cd_of 0 fs"
  let ?start = "\<lparr>za_data = ?d, za_size = of_nat (length ?d), za_cd_offset = 0, za_cd_records = 0\<rparr>"
  have len: "length ?d < 2 ^ 32" and n: "length fs < 2 ^ 16" and each: "\<forall>f \<in> set fs. zip_file_ok f"
    using assms by (simp_all add: zip_ok_def)
  have "unat (of_nat (length ?d) :: u32) = length ?d" using len by - (rule unat_of_nat_small, simp)
  then have ok0: "za_ok ?start" by (simp add: za_ok_def)
  let ?a = "?start\<lparr>za_cd_offset := of_nat (length ?ls), za_cd_records := of_nat (length fs)\<rparr>"
  have fc: "find_cd ?start = Some (0, ?a)" by (rule find_cd_written [OF assms _ ok0]) simp
  have opened: "zip_archive_open (demo_env ?d) w = Some (Inr ?a, w\<lparr>zw_maps := zw_maps w + 1, zw_blocks := zw_blocks w + 1\<rparr>)"
    using fc len by (simp add: zip_archive_open_def demo_env_def Let_def)
  have ok: "za_ok ?a" using ok0 by (simp add: za_ok_def)
  have d: "za_data ?a = ?ls @ ?cd @ eocd_bytes (length fs) (length ?cd) (length ?ls)"
    by (simp add: zip_bytes_def Let_def)
  have ls: "0 + length ?ls < 2 ^ 32" using len d by simp
  have "unat (of_nat (length fs) :: u32) = length fs" using n by - (rule unat_of_nat_small, simp)
  then have found: "zip_archive_find_entry ?a nm out =
      (case lookup_file nm 0 fs of None \<Rightarrow> Some (- ENOENT, out) | Some (f, q) \<Rightarrow> get_entry_at_offset ?a (of_nat q) out)"
    unfolding zip_archive_find_entry_def using find_loop_written [OF ok d each ls, of nm out] by simp
  show ?thesis
  proof (cases "lookup_file nm 0 fs")
    case None
    with found opened lookup_file_None [of nm 0 fs] show ?thesis by auto
  next
    case (Some r)
    then obtain f q where r: "lookup_file nm 0 fs = Some (f, q)" by (cases r) auto
    from lookup_file_place [OF r] obtain pre post where p: "?ls = pre @ local_bytes f @ post" "q = length pre"
      "find (\<lambda>f. zf_name f = nm) fs = Some f" by auto
    have f: "f \<in> set fs" "zf_name f = nm" using p(3) by (auto simp: find_Some_iff)
    have df: "za_data ?a = pre @ local_bytes f @ (post @ ?cd @ eocd_bytes (length fs) (length ?cd) (length ?ls))"
      using d by (simp add: p(1))
    have "get_entry_at_offset ?a (of_nat (length pre)) out = Some (0, entry_of f (length pre))"
      by (rule get_entry_written [OF ok df]) (use each f in simp)
    moreover have "length (zf_data f) < 2 ^ 32" using ls unfolding p(1) by simp
    then have "unat (of_nat (length (zf_data f)) :: u32) = length (zf_data f)" by - (rule unat_of_nat_small, simp)
    moreover have zb: "?d = pre @ local_bytes f @ (post @ ?cd @ eocd_bytes (length fs) (length ?cd) (length ?ls))"
      using df by simp
    then have "take (length (zf_name f)) (drop (length pre + 30) ?d) = nm"
      "take (length (zf_data f)) (drop (length pre + 30 + length (zf_name f) + length (zf_extra f)) ?d) = zf_data f"
      unfolding zb by (simp_all add: local_bytes_def f(2))
    ultimately show ?thesis
      using opened found r p(2,3)
      by (intro exI [of _ ?a]) (simp add: entry_of_def Let_def)
  qed
qed

theorem zip_roundtrip_witness:
  "\<exists>a e. zip_archive_open (demo_env (zip_bytes demo_zip)) \<lparr>zw_fds = 0, zw_maps = 0, zw_blocks = 0\<rparr> =
      Some (Inr a, \<lparr>zw_fds = 0, zw_maps = 1, zw_blocks = 1\<rparr>) \<and>
    zip_archive_find_entry a [97] demo_entry = Some (0, e) \<and>
    take (unat (ze_data_length e)) (drop (ze_data e) (za_data a)) = [1, 2, 3]"
proof -
  have "zip_ok demo_zip"
    by (simp add: zip_ok_def demo_zip_def zip_file_ok_def zip_bytes_def Let_def)
  from zip_roundtrip [OF this, of "\<lparr>zw_fds = 0, zw_maps = 0, zw_blocks = 0\<rparr>" "[97]" demo_entry]
  show ?thesis by (auto simp: demo_zip_def)
qed

end
