(* ===== verification/Messages.thy ===== *)
theory Messages
  imports CpuStatReader NetMonitor
begin

text \<open>
  The sample a worker sends: the message \<^verbatim>\<open>MonitorInfo\<close> of \<^verbatim>\<open>proto/monitor_info.proto\<close> with the
  parts the monitors fill in. A singular field that may be absent is an \<open>option\<close>, a repeated one
  a list. The numbers of the messages are rationals.
\<close>

record CpuLoadMsg =
  cl_load_avg_1 :: rat
  cl_load_avg_3 :: rat
  cl_load_avg_15 :: rat

record HostInfoMsg =
  hi_hostname :: string
  hi_ip_address :: string

record MemInfoMsg =
  mi_used_percent :: rat
  mi_total :: rat
  mi_free :: rat
  mi_avail :: rat
  mi_buffers :: rat
  mi_cached :: rat
  mi_swap_cached :: rat
  mi_active :: rat
  mi_inactive :: rat
  mi_active_anon :: rat
  mi_inactive_anon :: rat
  mi_active_file :: rat
  mi_inactive_file :: rat
  mi_dirty :: rat
  mi_writeback :: rat
  mi_anon_pages :: rat
  mi_mapped :: rat
  mi_kreclaimable :: rat
  mi_sreclaimable :: rat
  mi_sunreclaim :: rat

record DiskInfoMsg =
  di_name :: string
  di_reads :: u64
  di_writes :: u64
  di_sectors_read :: u64
  di_sectors_written :: u64
  di_read_time_ms :: u64
  di_write_time_ms :: u64
  di_io_in_progress :: u64
  di_io_time_ms :: u64
  di_weighted_io_time_ms :: u64
  di_read_bytes_per_sec :: rat
  di_write_bytes_per_sec :: rat
  di_read_iops :: rat
  di_write_iops :: rat
  di_avg_read_latency_ms :: rat
  di_avg_write_latency_ms :: rat
  di_util_percent :: rat

record MonitorInfo =
  mo_name :: string
  mo_host_info :: "HostInfoMsg option"
  mo_sequence :: u64
  mo_cpu_load :: "CpuLoadMsg option"
  mo_cpu_stat :: "CpuStatMsg list"
  mo_mem_info :: "MemInfoMsg option"
  mo_net_info :: "NetInfoMsg list"
  mo_disk_info :: "DiskInfoMsg list"
  mo_process_net_info :: "ProcessNetInfoMsg list"

definition MonitorInfo0 :: MonitorInfo where
  "MonitorInfo0 = \<lparr>mo_name = [], mo_host_info = None, mo_sequence = 0, mo_cpu_load = None,
     mo_cpu_stat = [], mo_mem_info = None, mo_net_info = [], mo_disk_info = [],
     mo_process_net_info = []\<rparr>"

end
