(* ===== verification/TextScan.thy ===== *)
theory TextScan
  imports Prelude
begin

text \<open>
  Reading text the way the monitors do: lines of a file, words of a line
  (\<^verbatim>\<open>worker/src/utils/read_file.cpp\<close>), and what the code uses of \<^verbatim>\<open>std::getline\<close>, \<^verbatim>\<open>std::stoll\<close> and the
  extraction of numbers and words from a stream. Printed numbers are read back.
\<close>

section \<open>Characters and lines\<close>

definition is_space :: "char \<Rightarrow> bool" where
  "is_space c \<longleftrightarrow> (let n = of_char c :: nat in n = 32 \<or> 9 \<le> n \<and> n \<le> 13)"

definition is_digit :: "char \<Rightarrow> bool" where
  "is_digit c \<longleftrightarrow> (let n = of_char c :: nat in 48 \<le> n \<and> n \<le> 57)"

definition newline :: char where "newline = CHR 0x0A"

text \<open>One \<^verbatim>\<open>std::getline\<close>: the line, whether the end of the file was met, and the rest.\<close>

definition getline :: "string \<Rightarrow> string \<times> bool \<times> string" where
  "getline s =
     (let l = takeWhile (\<lambda>c. c \<noteq> newline) s
      in case drop (length l) s of [] \<Rightarrow> (l, True, []) | _ # r \<Rightarrow> (l, False, r))"

text \<open>The loop that splits a line; a line that ends in a blank gives a last, empty word.\<close>

function read_words :: "string \<Rightarrow> string list" where
  "read_words s =
     (let r = dropWhile is_space s;
          w = takeWhile (\<lambda>c. \<not> is_space c) r;
          rest = dropWhile (\<lambda>c. \<not> is_space c) r
      in if rest = [] then [w] else w # read_words rest)"
  by pat_completeness auto

lemma words_shrink:
  assumes "dropWhile (\<lambda>c. \<not> is_space c) (dropWhile is_space s) \<noteq> []"
  shows "length (dropWhile (\<lambda>c. \<not> is_space c) (dropWhile is_space s)) < length s"
proof -
  obtain c r where r: "dropWhile is_space s = c # r" using assms by (cases "dropWhile is_space s") auto
  then have "\<not> is_space c" by (metis hd_dropWhile list.distinct(1) list.sel(1))
  moreover have "length (c # r) \<le> length s" using length_dropWhile_le [of is_space s] by (simp add: r)
  ultimately show ?thesis using length_dropWhile_le [of "\<lambda>c. \<not> is_space c" r] by (simp add: r)
qed

termination read_words
  by (relation "measure length") (simp_all add: words_shrink)

declare read_words.simps [simp del]

definition ReadLine :: "string \<Rightarrow> string list option \<times> string" where
  "ReadLine s =
     (let (line, eof, r) = getline s
      in if eof \<or> line = [] then (None, r) else (Some (read_words line), r))"

lemma getline_shrink: "getline s = (l, eof, r) \<Longrightarrow> s \<noteq> [] \<Longrightarrow> length r < length s"
  by (auto simp: getline_def Let_def split: list.splits dest: arg_cong [where f = length])

lemma getline_append [simp]: "newline \<notin> set l \<Longrightarrow> getline (l @ newline # r) = (l, False, r)"
proof -
  assume "newline \<notin> set l"
  then have "takeWhile (\<lambda>c. c \<noteq> newline) (l @ newline # r) = l" by (subst takeWhile_append2) auto
  then show ?thesis by (simp add: getline_def Let_def)
qed

section \<open>Numbers\<close>

definition digits_value :: "string \<Rightarrow> nat" where
  "digits_value ds = foldl (\<lambda>n c. n * 10 + (of_char c - 48)) 0 ds"

text \<open>Blanks, a sign and digits: the sign, the value, the rest. \<open>None\<close> when there is no digit.\<close>

definition scan_num :: "string \<Rightarrow> (bool \<times> nat \<times> string) option" where
  "scan_num s =
     (let r = dropWhile is_space s;
          (neg, r1) = (case r of [] \<Rightarrow> (False, []) | c # t \<Rightarrow>
             if c = CHR ''-'' then (True, t) else if c = CHR ''+'' then (False, t) else (False, r));
          ds = takeWhile is_digit r1
      in if ds = [] then None else Some (neg, digits_value ds, dropWhile is_digit r1))"

text \<open>\<^verbatim>\<open>std::stoll\<close>; \<open>None\<close> when it throws.\<close>

definition stoll :: "string \<Rightarrow> int option" where
  "stoll s =
     (case scan_num s of
        None \<Rightarrow> None
      | Some (neg, n, _) \<Rightarrow>
          let v = (if neg then - int n else int n) in if - (2 ^ 63) \<le> v \<and> v < 2 ^ 63 then Some v else None)"

text \<open>Extraction of an \<^verbatim>\<open>int\<close>, of a \<^verbatim>\<open>uint64_t\<close> (a negative number wraps) and of a word.\<close>

definition scan_int :: "string \<Rightarrow> (int \<times> string) option" where
  "scan_int s =
     (case scan_num s of
        None \<Rightarrow> None
      | Some (neg, n, r) \<Rightarrow>
          let v = (if neg then - int n else int n) in if - (2 ^ 31) \<le> v \<and> v < 2 ^ 31 then Some (v, r) else None)"

definition scan_u64 :: "string \<Rightarrow> (u64 \<times> string) option" where
  "scan_u64 s =
     (case scan_num s of
        None \<Rightarrow> None
      | Some (neg, n, r) \<Rightarrow> if n < 2 ^ 64 then Some (if neg then - of_nat n else of_nat n, r) else None)"

definition scan_word :: "string \<Rightarrow> (string \<times> string) option" where
  "scan_word s =
     (let r = dropWhile is_space s; w = takeWhile (\<lambda>c. \<not> is_space c) r
      in if w = [] then None else Some (w, dropWhile (\<lambda>c. \<not> is_space c) r))"

section \<open>Printed numbers\<close>

definition no_space :: "string \<Rightarrow> bool" where
  "no_space w \<longleftrightarrow> w \<noteq> [] \<and> (\<forall>c \<in> set w. \<not> is_space c)"

lemma of_digit_char: "d < 10 \<Longrightarrow> (of_char (digit_char d) :: nat) = 48 + d"
  by (simp add: digit_char_def)

lemma is_digit_char [simp]: "d < 10 \<Longrightarrow> is_digit (digit_char d)"
  by (simp add: is_digit_def of_digit_char)

lemma digit_no_space: "is_digit c \<Longrightarrow> \<not> is_space c"
  by (auto simp: is_digit_def is_space_def Let_def)

lemma to_string_digits: "\<forall>c \<in> set (to_string n). is_digit c"
  by (induction n rule: to_string.induct) (subst to_string.simps, auto)

lemma to_string_no_space [simp]: "no_space (to_string n)"
  using to_string_digits [of n] digit_no_space by (auto simp: no_space_def to_string_nonempty)

lemma digits_value_to_string [simp]: "digits_value (to_string n) = n"
proof (induction n rule: to_string.induct)
  case (1 n)
  show ?case
  proof (cases "n < 10")
    case True
    then show ?thesis by (subst to_string.simps) (simp add: digits_value_def of_digit_char)
  next
    case False
    with 1 have "foldl (\<lambda>n c. n * 10 + (of_char c - 48)) 0 (to_string (n div 10)) = n div 10"
      by (simp add: digits_value_def)
    with False show ?thesis
      by (subst to_string.simps) (simp add: digits_value_def of_digit_char)
  qed
qed

abbreviation blanks :: "nat \<Rightarrow> string" where "blanks k \<equiv> replicate k (CHR '' '')"

lemma is_space_blank [simp]: "is_space (CHR '' '')"
  by (simp add: is_space_def)

lemma is_space_newline [simp]: "is_space newline"
  by (simp add: is_space_def newline_def)

lemma dropWhile_blanks: "no_space w \<Longrightarrow> dropWhile is_space (blanks k @ w @ r) = w @ r"
  by (induction k) (auto simp: no_space_def neq_Nil_conv)

definition ends :: "(char \<Rightarrow> bool) \<Rightarrow> string \<Rightarrow> bool" where
  "ends P r \<longleftrightarrow> (case r of [] \<Rightarrow> True | c # _ \<Rightarrow> \<not> P c)"

lemma take_drop_ends:
  assumes "\<forall>c \<in> set w. P c" and "ends P r"
  shows "takeWhile P (w @ r) = w" and "dropWhile P (w @ r) = r"
  using assms by (auto simp: takeWhile_append2 dropWhile_append2 ends_def split: list.splits)

lemma scan_num_print:
  assumes "ends is_digit r"
  shows "scan_num (blanks k @ to_string n @ r) = Some (False, n, r)"
proof -
  obtain c ds where t: "to_string n = c # ds" using to_string_nonempty [of n] by (cases "to_string n") auto
  then have "is_digit c" using to_string_digits [of n] by simp
  then have "c \<noteq> CHR ''-''" "c \<noteq> CHR ''+''" by (auto simp: is_digit_def)
  then have "(case to_string n @ r of [] \<Rightarrow> (False, []) | c # t \<Rightarrow>
      if c = CHR ''-'' then (True, t) else if c = CHR ''+'' then (False, t) else (False, to_string n @ r)) =
      (False, to_string n @ r)"
    by (simp add: t)
  then show ?thesis
    using take_drop_ends [OF to_string_digits assms, of n] to_string_nonempty [of n]
    by (simp add: scan_num_def dropWhile_blanks)
qed

lemma scan_print:
  assumes "ends is_digit r"
  shows "n < 2 ^ 63 \<Longrightarrow> stoll (blanks k @ to_string n @ r) = Some (int n)"
    and "n < 2 ^ 31 \<Longrightarrow> scan_int (blanks k @ to_string n @ r) = Some (int n, r)"
    and "n < 2 ^ 64 \<Longrightarrow> scan_u64 (blanks k @ to_string n @ r) = Some (of_nat n, r)"
  by (simp_all add: stoll_def scan_int_def scan_u64_def scan_num_print [OF assms] Let_def)

lemma scan_word_print:
  assumes "no_space w" and "ends (\<lambda>c. \<not> is_space c) r"
  shows "scan_word (blanks k @ w @ r) = Some (w, r)"
  using assms take_drop_ends [of w "\<lambda>c. \<not> is_space c" r]
  by (auto simp: scan_word_def dropWhile_blanks no_space_def)

lemma read_words_last:
  assumes "no_space w"
  shows "read_words (blanks k @ w) = [w]"
  using assms dropWhile_blanks [OF assms, of k "[]"] take_drop_ends [of w "\<lambda>c. \<not> is_space c" "[]"]
  by (subst read_words.simps) (simp add: no_space_def ends_def)

lemma read_words_Cons:
  assumes "no_space w" and "r \<noteq> []" and "is_space (hd r)"
  shows "read_words (blanks k @ w @ r) = w # read_words r"
  using assms dropWhile_blanks [OF assms(1), of k r] take_drop_ends [of w "\<lambda>c. \<not> is_space c" r]
  by (subst read_words.simps) (auto simp: no_space_def ends_def neq_Nil_conv)

end
