(* ===== verification/SysMonitors.thy ===== *)
theory SysMonitors
  imports Messages TextScan
begin

text \<open>
  The monitors of the worker that read \<^verbatim>\<open>/proc\<close>: load (\<^verbatim>\<open>worker/src/monitor/cpu_load_monitor.cpp\<close>), memory
  (\<^verbatim>\<open>mem_monitor.cpp\<close>), disks (\<^verbatim>\<open>disk_monitor.cpp\<close>), and the name and address of the host
  (\<^verbatim>\<open>host_info_monitor.cpp\<close>). A file is its text; a file that cannot be opened is empty.
\<close>

section \<open>Load\<close>

text \<open>\<open>scanned\<close>: how many numbers \<^verbatim>\<open>fscanf\<close> converts, and the numbers; \<open>None\<close> without the file.\<close>

definition ReadLoadFromProc :: "(int \<times> rat \<times> rat \<times> rat) option \<Rightarrow> (rat \<times> rat \<times> rat) option" where
  "ReadLoadFromProc scanned =
     (case scanned of None \<Rightarrow> None | Some (ret, l1, l5, l15) \<Rightarrow> if ret = 3 then Some (l1, l5, l15) else None)"

definition CpuLoad_UpdateOnce :: "(int \<times> rat \<times> rat \<times> rat) option \<Rightarrow> MonitorInfo \<Rightarrow> MonitorInfo" where
  "CpuLoad_UpdateOnce scanned info =
     (case ReadLoadFromProc scanned of
        None \<Rightarrow> info
      | Some (load1, load5, load15) \<Rightarrow>
          info\<lparr>mo_cpu_load := Some \<lparr>cl_load_avg_1 = load1, cl_load_avg_3 = load5, cl_load_avg_15 = load15\<rparr>\<rparr>)"

section \<open>Memory\<close>

record MenInfo =
  mn_total :: int
  mn_free :: int
  mn_avail :: int
  mn_buffers :: int
  mn_cached :: int
  mn_swap_cached :: int
  mn_active :: int
  mn_in_active :: int
  mn_active_anon :: int
  mn_inactive_anon :: int
  mn_active_file :: int
  mn_inactive_file :: int
  mn_dirty :: int
  mn_writeback :: int
  mn_anon_pages :: int
  mn_mapped :: int
  mn_kReclaimable :: int
  mn_sReclaimable :: int
  mn_sUnreclaim :: int

text \<open>The words the monitor looks for, and the field each one sets.\<close>

datatype mem_key = MemTotal | MemFree | MemAvailable | Buffers | Cached | SwapCached | Active | Inactive |
  Active_anon | Inactive_anon | Active_file | Inactive_file | Dirty | Writeback | AnonPages | Mapped | KReclaimable | SReclaimable | SUnreclaim

definition mem_key_of :: "string \<Rightarrow> mem_key option" where
  "mem_key_of k =
     (if k = ''MemTotal:'' then Some MemTotal
      else if k = ''MemFree:'' then Some MemFree
      else if k = ''MemAvailable:'' then Some MemAvailable
      else if k = ''Buffers:'' then Some Buffers
      else if k = ''Cached:'' then Some Cached
      else if k = ''SwapCached:'' then Some SwapCached
      else if k = ''Active:'' then Some Active
      else if k = ''Inactive:'' then Some Inactive
      else if k = ''Active(anon):'' then Some Active_anon
      else if k = ''Inactive(anon):'' then Some Inactive_anon
      else if k = ''Active(file):'' then Some Active_file
      else if k = ''Inactive(file):'' then Some Inactive_file
      else if k = ''Dirty:'' then Some Dirty
      else if k = ''Writeback:'' then Some Writeback
      else if k = ''AnonPages:'' then Some AnonPages
      else if k = ''Mapped:'' then Some Mapped
      else if k = ''KReclaimable:'' then Some KReclaimable
      else if k = ''SReclaimable:'' then Some SReclaimable
      else if k = ''SUnreclaim:'' then Some SUnreclaim
      else None)"

fun set_mem :: "mem_key \<Rightarrow> int \<Rightarrow> MenInfo \<Rightarrow> MenInfo" where
  "set_mem MemTotal v m = m\<lparr>mn_total := v\<rparr>"
| "set_mem MemFree v m = m\<lparr>mn_free := v\<rparr>"
| "set_mem MemAvailable v m = m\<lparr>mn_avail := v\<rparr>"
| "set_mem Buffers v m = m\<lparr>mn_buffers := v\<rparr>"
| "set_mem Cached v m = m\<lparr>mn_cached := v\<rparr>"
| "set_mem SwapCached v m = m\<lparr>mn_swap_cached := v\<rparr>"
| "set_mem Active v m = m\<lparr>mn_active := v\<rparr>"
| "set_mem Inactive v m = m\<lparr>mn_in_active := v\<rparr>"
| "set_mem Active_anon v m = m\<lparr>mn_active_anon := v\<rparr>"
| "set_mem Inactive_anon v m = m\<lparr>mn_inactive_anon := v\<rparr>"
| "set_mem Active_file v m = m\<lparr>mn_active_file := v\<rparr>"
| "set_mem Inactive_file v m = m\<lparr>mn_inactive_file := v\<rparr>"
| "set_mem Dirty v m = m\<lparr>mn_dirty := v\<rparr>"
| "set_mem Writeback v m = m\<lparr>mn_writeback := v\<rparr>"
| "set_mem AnonPages v m = m\<lparr>mn_anon_pages := v\<rparr>"
| "set_mem Mapped v m = m\<lparr>mn_mapped := v\<rparr>"
| "set_mem KReclaimable v m = m\<lparr>mn_kReclaimable := v\<rparr>"
| "set_mem SReclaimable v m = m\<lparr>mn_sReclaimable := v\<rparr>"
| "set_mem SUnreclaim v m = m\<lparr>mn_sUnreclaim := v\<rparr>"

text \<open>One line; \<open>None\<close> when the number is missing or \<^verbatim>\<open>std::stoll\<close> throws.\<close>

definition mem_line :: "string list \<Rightarrow> MenInfo \<Rightarrow> MenInfo option" where
  "mem_line mem_datas m =
     (case mem_key_of (hd mem_datas) of
        None \<Rightarrow> Some m
      | Some k \<Rightarrow>
          if length mem_datas < 2 then None
          else (case stoll (mem_datas ! 1) of None \<Rightarrow> None | Some v \<Rightarrow> Some (set_mem k v m)))"

function mem_loop :: "string \<Rightarrow> MenInfo \<Rightarrow> MenInfo option" where
  "mem_loop file m =
     (case ReadLine file of
        (None, _) \<Rightarrow> Some m
      | (Some mem_datas, r) \<Rightarrow> (case mem_line mem_datas m of None \<Rightarrow> None | Some m' \<Rightarrow> mem_loop r m'))"
  by pat_completeness auto
termination
  by (relation "measure (length \<circ> fst)")
    (auto simp: ReadLine_def split: prod.splits if_splits intro!: getline_shrink, auto simp: getline_def)

declare mem_loop.simps [simp del]

definition KBToGB :: rat where "KBToGB = 1000 * 1000"

definition mem_msg :: "MenInfo \<Rightarrow> MemInfoMsg" where
  "mem_msg m =
     \<lparr>mi_used_percent = of_int (mn_total m - mn_avail m) / of_int (mn_total m) * 100,
      mi_total = of_int (mn_total m) / KBToGB, mi_free = of_int (mn_free m) / KBToGB,
      mi_avail = of_int (mn_avail m) / KBToGB, mi_buffers = of_int (mn_buffers m) / KBToGB,
      mi_cached = of_int (mn_cached m) / KBToGB, mi_swap_cached = of_int (mn_swap_cached m) / KBToGB,
      mi_active = of_int (mn_active m) / KBToGB, mi_inactive = of_int (mn_in_active m) / KBToGB,
      mi_active_anon = of_int (mn_active_anon m) / KBToGB,
      mi_inactive_anon = of_int (mn_inactive_anon m) / KBToGB,
      mi_active_file = of_int (mn_active_file m) / KBToGB,
      mi_inactive_file = of_int (mn_inactive_file m) / KBToGB,
      mi_dirty = of_int (mn_dirty m) / KBToGB, mi_writeback = of_int (mn_writeback m) / KBToGB,
      mi_anon_pages = of_int (mn_anon_pages m) / KBToGB, mi_mapped = of_int (mn_mapped m) / KBToGB,
      mi_kreclaimable = of_int (mn_kReclaimable m) / KBToGB,
      mi_sreclaimable = of_int (mn_sReclaimable m) / KBToGB,
      mi_sunreclaim = of_int (mn_sUnreclaim m) / KBToGB\<rparr>"

text \<open>\<open>Mem_not_finite\<close>: the total is 0, so the percentage is not a number.\<close>

datatype mem_outcome = Mem_throws | Mem_not_finite | Mem_done MonitorInfo

definition MenInfo0 :: MenInfo where
  "MenInfo0 = \<lparr>mn_total = 0, mn_free = 0, mn_avail = 0, mn_buffers = 0, mn_cached = 0, mn_swap_cached = 0,
     mn_active = 0, mn_in_active = 0, mn_active_anon = 0, mn_inactive_anon = 0, mn_active_file = 0,
     mn_inactive_file = 0, mn_dirty = 0, mn_writeback = 0, mn_anon_pages = 0, mn_mapped = 0,
     mn_kReclaimable = 0, mn_sReclaimable = 0, mn_sUnreclaim = 0\<rparr>"

definition Mem_UpdateOnce :: "string \<Rightarrow> MonitorInfo \<Rightarrow> mem_outcome" where
  "Mem_UpdateOnce file info =
     (case mem_loop file MenInfo0 of
        None \<Rightarrow> Mem_throws
      | Some m \<Rightarrow> if mn_total m = 0 then Mem_not_finite else Mem_done (info\<lparr>mo_mem_info := Some (mem_msg m)\<rparr>))"

section \<open>Disks\<close>

record DiskSample =
  ds_reads :: u64
  ds_writes :: u64
  ds_sectors_read :: u64
  ds_sectors_written :: u64
  ds_read_time_ms :: u64
  ds_write_time_ms :: u64
  ds_io_in_progress :: u64
  ds_io_time_ms :: u64
  ds_weighted_io_time_ms :: u64

record DiskMonitor =
  dm_last_samples :: "string \<rightharpoonup> DiskSample"
  dm_last_time :: "string \<Rightarrow> rat"

definition DiskMonitor0 :: DiskMonitor where
  "DiskMonitor0 = \<lparr>dm_last_samples = Map.empty, dm_last_time = (\<lambda>_. 0)\<rparr>"

text \<open>The chain of extractions.\<close>

definition scan_disk :: "string \<Rightarrow> (string \<times> DiskSample) option" where
  "scan_disk line =
     do { (major, s) \<leftarrow> scan_int line;
          (minor, s) \<leftarrow> scan_int s;
          (name, s) \<leftarrow> scan_word s;
          (reads, s) \<leftarrow> scan_u64 s;
          (reads_merged, s) \<leftarrow> scan_u64 s;
          (sectors_read, s) \<leftarrow> scan_u64 s;
          (read_time_ms, s) \<leftarrow> scan_u64 s;
          (writes, s) \<leftarrow> scan_u64 s;
          (writes_merged, s) \<leftarrow> scan_u64 s;
          (sectors_written, s) \<leftarrow> scan_u64 s;
          (write_time_ms, s) \<leftarrow> scan_u64 s;
          (io_in_progress, s) \<leftarrow> scan_u64 s;
          (io_time_ms, s) \<leftarrow> scan_u64 s;
          (weighted_io_time_ms, s) \<leftarrow> scan_u64 s;
          Some (name, \<lparr>ds_reads = reads, ds_writes = writes, ds_sectors_read = sectors_read,
                       ds_sectors_written = sectors_written, ds_read_time_ms = read_time_ms,
                       ds_write_time_ms = write_time_ms, ds_io_in_progress = io_in_progress,
                       ds_io_time_ms = io_time_ms, ds_weighted_io_time_ms = weighted_io_time_ms\<rparr>) }"

definition virtual_disk :: "string \<Rightarrow> bool" where
  "virtual_disk name \<longleftrightarrow> take 4 name = ''loop'' \<or> take 3 name = ''ram'' \<or> take 2 name = ''fd'' \<or>
     take 2 name = ''sr''"

text \<open>The difference of two counters, as a number; it wraps.\<close>

definition delta :: "u64 \<Rightarrow> u64 \<Rightarrow> rat" where
  "delta now_val old_val = of_nat (unat (now_val - old_val))"

definition disk_msg :: "string \<Rightarrow> DiskSample \<Rightarrow> DiskSample option \<Rightarrow> rat \<Rightarrow> DiskInfoMsg" where
  "disk_msg name c it dt =
     (let m = \<lparr>di_name = name, di_reads = ds_reads c, di_writes = ds_writes c,
               di_sectors_read = ds_sectors_read c, di_sectors_written = ds_sectors_written c,
               di_read_time_ms = ds_read_time_ms c, di_write_time_ms = ds_write_time_ms c,
               di_io_in_progress = ds_io_in_progress c, di_io_time_ms = ds_io_time_ms c,
               di_weighted_io_time_ms = ds_weighted_io_time_ms c, di_read_bytes_per_sec = 0,
               di_write_bytes_per_sec = 0, di_read_iops = 0, di_write_iops = 0,
               di_avg_read_latency_ms = 0, di_avg_write_latency_ms = 0, di_util_percent = 0\<rparr>
      in case it of
           None \<Rightarrow> m
         | Some prev \<Rightarrow>
             if dt > 0 then
               (let read_ios = delta (ds_reads c) (ds_reads prev);
                    write_ios = delta (ds_writes c) (ds_writes prev);
                    read_bytes = delta (ds_sectors_read c) (ds_sectors_read prev) * 512;
                    write_bytes = delta (ds_sectors_written c) (ds_sectors_written prev) * 512;
                    read_time = delta (ds_read_time_ms c) (ds_read_time_ms prev);
                    write_time = delta (ds_write_time_ms c) (ds_write_time_ms prev);
                    io_time = delta (ds_io_time_ms c) (ds_io_time_ms prev)
                in m\<lparr>di_read_bytes_per_sec := read_bytes / dt, di_write_bytes_per_sec := write_bytes / dt,
                     di_read_iops := read_ios / dt, di_write_iops := write_ios / dt,
                     di_avg_read_latency_ms := if read_ios > 0 then read_time / read_ios else 0,
                     di_avg_write_latency_ms := if write_ios > 0 then write_time / write_ios else 0,
                     di_util_percent := io_time / (dt * 10)\<rparr>)
             else m)"

definition disk_line :: "rat \<Rightarrow> string \<Rightarrow> MonitorInfo \<times> DiskMonitor \<Rightarrow> MonitorInfo \<times> DiskMonitor" where
  "disk_line now line = (\<lambda>(info, d).
     (case scan_disk line of
        None \<Rightarrow> (info, d)
      | Some (name, sample) \<Rightarrow>
          if virtual_disk name then (info, d)
          else (info\<lparr>mo_disk_info := mo_disk_info info @
                       [disk_msg name sample (dm_last_samples d name) (now - dm_last_time d name)]\<rparr>,
                \<lparr>dm_last_samples = (dm_last_samples d)(name \<mapsto> sample),
                 dm_last_time = (dm_last_time d)(name := now)\<rparr>)))"

function file_lines :: "string \<Rightarrow> string list" where
  "file_lines file =
     (if file = [] then [] else let (line, eof, r) = getline file in line # file_lines r)"
  by pat_completeness auto
termination
  by (relation "measure length") (auto dest!: getline_shrink [OF sym])

declare file_lines.simps [simp del]

definition Disk_UpdateOnce :: "string \<Rightarrow> rat \<Rightarrow> DiskMonitor \<Rightarrow> MonitorInfo \<Rightarrow> MonitorInfo \<times> DiskMonitor" where
  "Disk_UpdateOnce file now d info = fold (disk_line now) (file_lines file) (info, d)"

section \<open>The host\<close>

record ifaddr =
  ia_name :: string
  ia_family :: "int option"
  ia_ntop :: "string option"

definition AF_INET :: int where "AF_INET = 2"

text \<open>\<open>None\<close>: \<^verbatim>\<open>getifaddrs\<close> fails. The loop skips all but the first address that can be printed.\<close>

fun first_address :: "ifaddr list \<Rightarrow> string" where
  "first_address [] = []"
| "first_address (ifa # rest) =
     (if ia_family ifa = None then first_address rest
      else if ia_family ifa \<noteq> Some AF_INET then first_address rest
      else if ia_name ifa = ''lo'' then first_address rest
      else if take 6 (ia_name ifa) = ''docker'' \<or> take 4 (ia_name ifa) = ''veth'' \<or>
              take 3 (ia_name ifa) = ''br-'' \<or> take 5 (ia_name ifa) = ''virbr'' then first_address rest
      else case ia_ntop ifa of Some ip_str \<Rightarrow> ip_str | None \<Rightarrow> first_address rest)"

definition GetPrimaryIpAddress :: "ifaddr list option \<Rightarrow> string" where
  "GetPrimaryIpAddress ifs = (case ifs of None \<Rightarrow> [] | Some l \<Rightarrow> first_address l)"

definition GetHostname :: "string option \<Rightarrow> string" where
  "GetHostname h = (case h of Some n \<Rightarrow> n | None \<Rightarrow> ''unknown'')"

record HostInfoMonitor =
  hm_cached_hostname :: string
  hm_cached_ip :: string
  hm_info_cached :: bool

definition HostInfo_UpdateOnce :: "string option \<Rightarrow> ifaddr list option \<Rightarrow> HostInfoMonitor \<Rightarrow> MonitorInfo \<Rightarrow>
    MonitorInfo \<times> HostInfoMonitor" where
  "HostInfo_UpdateOnce h ifs m info =
     (let m1 = (if \<not> hm_info_cached m
                then \<lparr>hm_cached_hostname = GetHostname h, hm_cached_ip = GetPrimaryIpAddress ifs, hm_info_cached = True\<rparr>
                else m)
      in (info\<lparr>mo_host_info := Some \<lparr>hi_hostname = hm_cached_hostname m1, hi_ip_address = hm_cached_ip m1\<rparr>\<rparr>, m1))"

section \<open>The memory file is read back\<close>

text \<open>A row of \<^verbatim>\<open>/proc/meminfo\<close>: its key, the blanks after it, the value, and whether a unit follows.\<close>

record mem_row =
  mr_key :: string
  mr_pad :: nat
  mr_value :: nat
  mr_kb :: bool

definition mem_row_text :: "mem_row \<Rightarrow> string" where
  "mem_row_text r = (mr_key r @ '':'') @ blanks (Suc (mr_pad r)) @ to_string (mr_value r) @
     (if mr_kb r then '' kB'' else []) @ [newline]"

definition mem_row_ok :: "mem_row \<Rightarrow> bool" where
  "mem_row_ok r \<longleftrightarrow> no_space (mr_key r) \<and> mr_value r < 2 ^ 63"

definition mem_file :: "mem_row list \<Rightarrow> string" where
  "mem_file rows = concat (map mem_row_text rows)"

text \<open>The record whose fields are the values of their words.\<close>

definition mem_of :: "(mem_key \<Rightarrow> int) \<Rightarrow> MenInfo" where
  "mem_of f = \<lparr>mn_total = f MemTotal,
     mn_free = f MemFree,
     mn_avail = f MemAvailable,
     mn_buffers = f Buffers,
     mn_cached = f Cached,
     mn_swap_cached = f SwapCached,
     mn_active = f Active,
     mn_in_active = f Inactive,
     mn_active_anon = f Active_anon,
     mn_inactive_anon = f Inactive_anon,
     mn_active_file = f Active_file,
     mn_inactive_file = f Inactive_file,
     mn_dirty = f Dirty,
     mn_writeback = f Writeback,
     mn_anon_pages = f AnonPages,
     mn_mapped = f Mapped,
     mn_kReclaimable = f KReclaimable,
     mn_sReclaimable = f SReclaimable,
     mn_sUnreclaim = f SUnreclaim\<rparr>"

lemma set_mem_of: "set_mem k v (mem_of f) = mem_of (f(k := v))"
  by (cases k) (simp_all add: mem_of_def)

fun mem_word :: "mem_key \<Rightarrow> string" where
  "mem_word MemTotal = ''MemTotal:''"
| "mem_word MemFree = ''MemFree:''"
| "mem_word MemAvailable = ''MemAvailable:''"
| "mem_word Buffers = ''Buffers:''"
| "mem_word Cached = ''Cached:''"
| "mem_word SwapCached = ''SwapCached:''"
| "mem_word Active = ''Active:''"
| "mem_word Inactive = ''Inactive:''"
| "mem_word Active_anon = ''Active(anon):''"
| "mem_word Inactive_anon = ''Inactive(anon):''"
| "mem_word Active_file = ''Active(file):''"
| "mem_word Inactive_file = ''Inactive(file):''"
| "mem_word Dirty = ''Dirty:''"
| "mem_word Writeback = ''Writeback:''"
| "mem_word AnonPages = ''AnonPages:''"
| "mem_word Mapped = ''Mapped:''"
| "mem_word KReclaimable = ''KReclaimable:''"
| "mem_word SReclaimable = ''SReclaimable:''"
| "mem_word SUnreclaim = ''SUnreclaim:''"

lemma mem_key_word: "mem_key_of k = Some m \<Longrightarrow> mem_word m = k"
  by (simp add: mem_key_of_def split: if_splits)

lemma no_newline: "no_space w \<Longrightarrow> newline \<notin> set w"
  by (auto simp: no_space_def)

lemma no_space_append [simp]: "no_space a \<Longrightarrow> \<forall>c \<in> set b. \<not> is_space c \<Longrightarrow> no_space (a @ b)"
  by (auto simp: no_space_def)

lemma ReadLine_mem_row:
  assumes "mem_row_ok r"
  shows "\<exists>u. ReadLine (mem_row_text r @ rest) = (Some ((mr_key r @ '':'') # to_string (mr_value r) # u), rest)"
proof -
  let ?k = "mr_key r @ '':''" and ?v = "to_string (mr_value r)"
  let ?line = "?k @ blanks (Suc (mr_pad r)) @ ?v @ (if mr_kb r then '' kB'' else [])"
  have k: "no_space ?k" using assms by (simp add: mem_row_ok_def is_space_def)
  have "newline \<notin> set ?line"
    using no_newline [OF k] no_newline [OF to_string_no_space, of "mr_value r"] by (auto simp: newline_def)
  then have g: "getline (mem_row_text r @ rest) = (?line, False, rest)"
    using getline_append [of ?line rest] by (simp add: mem_row_text_def)
  have "read_words (blanks (Suc (mr_pad r)) @ ?v @ (if mr_kb r then '' kB'' else [])) =
      ?v # (if mr_kb r then read_words '' kB'' else [])"
    using read_words_Cons [OF to_string_no_space, of "'' kB''" "Suc (mr_pad r)" "mr_value r"]
      read_words_last [OF to_string_no_space, of "Suc (mr_pad r)" "mr_value r"] by simp
  then have "read_words ?line = ?k # ?v # (if mr_kb r then read_words '' kB'' else [])"
    using read_words_Cons [OF k, of "blanks (Suc (mr_pad r)) @ ?v @ (if mr_kb r then '' kB'' else [])" 0] by simp
  with g show ?thesis by (auto simp: ReadLine_def)
qed

definition mem_upd :: "mem_row \<Rightarrow> (mem_key \<Rightarrow> int) \<Rightarrow> mem_key \<Rightarrow> int" where
  "mem_upd r f = (case mem_key_of (mr_key r @ '':'') of None \<Rightarrow> f | Some k \<Rightarrow> f(k := int (mr_value r)))"

lemma mem_loop_rows:
  assumes "\<forall>r \<in> set rows. mem_row_ok r"
  shows "mem_loop (mem_file rows) (mem_of f) =
    Some (mem_of (fold mem_upd rows f))"
  using assms
proof (induction rows arbitrary: f)
  case Nil
  show ?case by (subst mem_loop.simps) (simp add: mem_file_def ReadLine_def getline_def)
next
  case (Cons r rows)
  obtain u where rl: "ReadLine (mem_row_text r @ mem_file rows) =
      (Some ((mr_key r @ '':'') # to_string (mr_value r) # u), mem_file rows)"
    using ReadLine_mem_row [of r "mem_file rows"] Cons.prems by auto
  have "stoll (to_string (mr_value r)) = Some (int (mr_value r))"
    using scan_print(1) [of "[]" "mr_value r" 0] Cons.prems by (simp add: ends_def mem_row_ok_def)
  then have "mem_line ((mr_key r @ '':'') # to_string (mr_value r) # u) (mem_of f) =
      Some (mem_of (mem_upd r f))"
    by (simp add: mem_line_def mem_upd_def set_mem_of split: option.split)
  with rl Cons show ?case
    by (subst mem_loop.simps) (simp add: mem_file_def)
qed

text \<open>The value of a field in a file without repeated keys.\<close>

definition mem_value :: "mem_row list \<Rightarrow> mem_key \<Rightarrow> int" where
  "mem_value rows k =
     (case map_of (map (\<lambda>r. (mem_key_of (mr_key r @ '':''), int (mr_value r))) rows) (Some k) of
        None \<Rightarrow> 0 | Some v \<Rightarrow> v)"

lemma fold_mem_value:
  assumes "distinct (map mr_key rows)"
  shows "fold mem_upd rows f k =
    (case map_of (map (\<lambda>r. (mem_key_of (mr_key r @ '':''), int (mr_value r))) rows) (Some k) of
       None \<Rightarrow> f k | Some v \<Rightarrow> v)"
  using assms
proof (induction rows arbitrary: f)
  case (Cons r rows)
  let ?key = "\<lambda>r. mem_key_of (mr_key r @ '':'')"
  have IH: "fold mem_upd (r # rows) f k = (case map_of (map (\<lambda>r. (?key r, int (mr_value r))) rows) (Some k) of
      None \<Rightarrow> mem_upd r f k | Some v \<Rightarrow> v)"
    using Cons by simp
  show ?case
  proof (cases "?key r = Some k")
    case True
    have ne: "?key r' \<noteq> Some k" if "r' \<in> set rows" for r'
    proof
      assume "?key r' = Some k"
      then have "mr_key r' @ '':'' = mr_key r @ '':''" using mem_key_word mem_key_word [OF True] by metis
      then have "mr_key r = mr_key r'" by simp
      with that Cons.prems show False by simp
    qed
    have "Some k \<notin> ?key ` set rows"
    proof
      assume "Some k \<in> ?key ` set rows"
      then obtain r' where "Some k = ?key r'" "r' \<in> set rows" by (rule imageE)
      with ne [of r'] show False by simp
    qed
    then have "map_of (map (\<lambda>r. (?key r, int (mr_value r))) rows) (Some k) = None"
      by (simp add: map_of_eq_None_iff image_image)
    then show ?thesis unfolding IH by (simp add: True mem_upd_def)
  next
    case False
    then have upd: "mem_upd r f k = f k" by (auto simp: mem_upd_def split: option.split)
    from False show ?thesis unfolding IH upd by simp
  qed
qed simp

section \<open>The disk file is read back\<close>

text \<open>A line of \<^verbatim>\<open>/proc/diskstats\<close>: device numbers, name, and at least eleven counters.\<close>

record disk_row =
  dr_major :: nat
  dr_minor :: nat
  dr_pad :: nat
  dr_name :: string
  dr_counts :: "nat list"

definition disk_row_ok :: "disk_row \<Rightarrow> bool" where
  "disk_row_ok r \<longleftrightarrow> dr_major r < 2 ^ 31 \<and> dr_minor r < 2 ^ 31 \<and> no_space (dr_name r) \<and>
     11 \<le> length (dr_counts r) \<and> (\<forall>n \<in> set (dr_counts r). n < 2 ^ 64)"

definition nums_text :: "nat list \<Rightarrow> string" where
  "nums_text ns = concat (map (\<lambda>n. blanks 1 @ to_string n) ns)"

definition disk_row_line :: "disk_row \<Rightarrow> string" where
  "disk_row_line r = blanks (dr_pad r) @ to_string (dr_major r) @ blanks (Suc (dr_pad r)) @
     to_string (dr_minor r) @ blanks 1 @ dr_name r @ nums_text (dr_counts r)"

definition disk_file :: "disk_row list \<Rightarrow> string" where
  "disk_file rows = concat (map (\<lambda>r. disk_row_line r @ [newline]) rows)"

definition sample_of :: "nat list \<Rightarrow> DiskSample" where
  "sample_of ns =
     \<lparr>ds_reads = of_nat (ns ! 0), ds_writes = of_nat (ns ! 4), ds_sectors_read = of_nat (ns ! 2),
      ds_sectors_written = of_nat (ns ! 6), ds_read_time_ms = of_nat (ns ! 3), ds_write_time_ms = of_nat (ns ! 7),
      ds_io_in_progress = of_nat (ns ! 8), ds_io_time_ms = of_nat (ns ! 9), ds_weighted_io_time_ms = of_nat (ns ! 10)\<rparr>"

lemma ends_nums [simp]: "ends is_digit (nums_text ns)"
  by (cases ns) (simp_all add: nums_text_def ends_def is_digit_def)

lemma ends_blank [simp]: "ends is_digit (CHR '' '' # s)" "ends (\<lambda>c. \<not> is_space c) (CHR '' '' # s)"
  by (simp_all add: ends_def is_digit_def)

lemma scan_nums: "n < 2 ^ 64 \<Longrightarrow> scan_u64 (nums_text (n # ns)) = Some (of_nat n, nums_text ns)"
  using scan_print(3) [OF ends_nums, of n 1 ns] by (simp add: nums_text_def)

lemma eleven:
  fixes ns :: "nat list"
  assumes "11 \<le> length ns"
  shows "\<exists>a b c d e f g h i j k u. ns = [a, b, c, d, e, f, g, h, i, j, k] @ u"
proof -
  have "\<exists>a b c d e f g h i j k. xs = [a, b, c, d, e, f, g, h, i, j, k]" if "length xs = 11" for xs :: "nat list"
    using that by (auto simp: length_Suc_conv eval_nat_numeral)
  from this [of "take 11 ns"] assms have "\<exists>a b c d e f g h i j k. take 11 ns = [a, b, c, d, e, f, g, h, i, j, k]"
    by simp
  moreover have "ns = take 11 ns @ drop 11 ns" by simp
  ultimately show ?thesis by metis
qed

lemma scan_disk_row:
  assumes "disk_row_ok r"
  shows "scan_disk (disk_row_line r) = Some (dr_name r, sample_of (dr_counts r))"
proof -
  obtain a b c d e f g h i j k u where ns: "dr_counts r = [a, b, c, d, e, f, g, h, i, j, k] @ u"
    using eleven [of "dr_counts r"] assms unfolding disk_row_ok_def by blast
  let ?t3 = "nums_text (dr_counts r)"
  let ?t2 = "blanks 1 @ dr_name r @ ?t3"
  let ?t1 = "blanks (Suc (dr_pad r)) @ to_string (dr_minor r) @ ?t2"
  have s1: "scan_int (disk_row_line r) = Some (int (dr_major r), ?t1)"
    using scan_print(2) [of ?t1 "dr_major r" "dr_pad r"] assms by (simp add: disk_row_line_def disk_row_ok_def)
  have s2: "scan_int ?t1 = Some (int (dr_minor r), ?t2)"
    using scan_print(2) [of ?t2 "dr_minor r" "Suc (dr_pad r)"] assms by (simp add: disk_row_ok_def)
  have "ends (\<lambda>c. \<not> is_space c) ?t3" by (simp add: ns nums_text_def)
  then have s3: "scan_word ?t2 = Some (dr_name r, ?t3)"
    using assms by (intro scan_word_print) (simp_all add: disk_row_ok_def)
  have small: "\<forall>n \<in> set (dr_counts r). n < 2 ^ 64" using assms by (simp add: disk_row_ok_def)
  show ?thesis
    using small
    by (simp only: scan_disk_def s1 s2 s3 Option.bind.simps prod.case) (simp add: ns scan_nums sample_of_def)
qed

lemma nums_no_newline: "newline \<notin> set (nums_text ns)"
  using no_newline [OF to_string_no_space] by (auto simp: nums_text_def newline_def)

lemma file_lines_rows:
  assumes "\<forall>r \<in> set rows. disk_row_ok r"
  shows "file_lines (disk_file rows) = map disk_row_line rows"
  using assms
proof (induction rows)
  case Nil
  show ?case by (subst file_lines.simps) (simp add: disk_file_def)
next
  case (Cons r rows)
  then have "newline \<notin> set (disk_row_line r)"
    using no_newline [OF to_string_no_space] no_newline [of "dr_name r"] nums_no_newline [of "dr_counts r"]
    by (auto simp: disk_row_line_def disk_row_ok_def newline_def)
  then have "getline (disk_file (r # rows)) = (disk_row_line r, False, disk_file rows)"
    by (simp add: disk_file_def)
  moreover have "disk_file (r # rows) \<noteq> []" by (simp add: disk_file_def)
  ultimately show ?case using Cons by (subst file_lines.simps) simp
qed

text \<open>What a file of disks with different names adds: a message for each that is not virtual.\<close>

definition disk_known :: "disk_row \<Rightarrow> rat \<Rightarrow> DiskMonitor \<Rightarrow> DiskInfoMsg" where
  "disk_known r now d = disk_msg (dr_name r) (sample_of (dr_counts r)) (dm_last_samples d (dr_name r))
     (now - dm_last_time d (dr_name r))"

lemma disk_fold:
  assumes "\<forall>r \<in> set rows. disk_row_ok r" and "distinct (map dr_name rows)"
    and "fold (disk_line now) (map disk_row_line rows) (info, d) = (info', d')"
  shows "info' = info\<lparr>mo_disk_info := mo_disk_info info @
      map (\<lambda>r. disk_known r now d) (filter (\<lambda>r. \<not> virtual_disk (dr_name r)) rows)\<rparr> \<and>
    (\<forall>r \<in> set rows. \<not> virtual_disk (dr_name r) \<longrightarrow>
       dm_last_samples d' (dr_name r) = Some (sample_of (dr_counts r)) \<and> dm_last_time d' (dr_name r) = now) \<and>
    (\<forall>n. n \<notin> dr_name ` set rows \<longrightarrow> dm_last_samples d' n = dm_last_samples d n \<and> dm_last_time d' n = dm_last_time d n)"
  using assms
proof (induction rows arbitrary: info d)
  case (Cons r rows)
  define d1 where "d1 = \<lparr>dm_last_samples = (dm_last_samples d)(dr_name r \<mapsto> sample_of (dr_counts r)),
    dm_last_time = (dm_last_time d)(dr_name r := now)\<rparr>"
  have one: "disk_line now (disk_row_line r) (info, d) = (if virtual_disk (dr_name r) then (info, d)
      else (info\<lparr>mo_disk_info := mo_disk_info info @ [disk_known r now d]\<rparr>, d1))"
    using scan_disk_row [of r] Cons.prems(1) by (simp add: disk_line_def disk_known_def d1_def)
  have notin: "dr_name r \<notin> dr_name ` set rows" using Cons.prems(2) by simp
  show ?case
  proof (cases "virtual_disk (dr_name r)")
    case True
    then have "fold (disk_line now) (map disk_row_line rows) (info, d) = (info', d')"
      using Cons.prems(3) one by simp
    from Cons.IH [OF _ _ this] Cons.prems True show ?thesis by auto
  next
    case False
    have "fold (disk_line now) (map disk_row_line rows)
        (info\<lparr>mo_disk_info := mo_disk_info info @ [disk_known r now d]\<rparr>, d1) = (info', d')"
      using Cons.prems(3) one False by simp
    note IH = Cons.IH [OF _ _ this]
    have "disk_known r' now d1 = disk_known r' now d" if "r' \<in> set rows" for r'
    proof -
      have "dr_name r' \<noteq> dr_name r" using that notin by (metis image_eqI)
      then show ?thesis by (simp add: disk_known_def d1_def)
    qed
    then have "map (\<lambda>r. disk_known r now d1) (filter (\<lambda>r. \<not> virtual_disk (dr_name r)) rows) =
        map (\<lambda>r. disk_known r now d) (filter (\<lambda>r. \<not> virtual_disk (dr_name r)) rows)"
      by (intro map_cong) auto
    with IH Cons.prems False notin show ?thesis by (auto simp: d1_def)
  qed
qed simp

section \<open>Properties\<close>

text \<open>The memory monitor reads the file the kernel prints: for every file of rows with different
  keys, in any order and with any other rows between them, the message holds the printed value of
  each of the nineteen fields in units of a million, 0 for a row that is missing, and the share of
  the memory that is not available, a number between 0 and 100.\<close>

theorem meminfo_read_back:
  assumes "\<forall>r \<in> set rows. mem_row_ok r" and "distinct (map mr_key rows)"
    and "0 < mem_value rows MemTotal" and "mem_value rows MemAvailable \<le> mem_value rows MemTotal"
  shows "\<exists>m. Mem_UpdateOnce (mem_file rows) info = Mem_done (info\<lparr>mo_mem_info := Some (mem_msg m)\<rparr>) \<and>
    m = mem_of (mem_value rows) \<and>
    mi_total (mem_msg m) = of_int (mem_value rows MemTotal) / 1000000 \<and>
    0 \<le> mi_used_percent (mem_msg m) \<and> mi_used_percent (mem_msg m) \<le> 100"
proof -
  let ?m = "mem_of (mem_value rows)"
  have "MenInfo0 = mem_of (\<lambda>_. 0)" by (simp add: MenInfo0_def mem_of_def)
  moreover have "fold mem_upd rows (\<lambda>_. 0) = mem_value rows"
    by (simp add: fun_eq_iff fold_mem_value [OF assms(2)] mem_value_def)
  ultimately have "mem_loop (mem_file rows) MenInfo0 = Some ?m"
    using mem_loop_rows [OF assms(1), of "\<lambda>_. 0"] by simp
  moreover have "mn_total ?m = mem_value rows MemTotal" "mn_avail ?m = mem_value rows MemAvailable"
    by (simp_all add: mem_of_def)
  moreover have "0 \<le> mem_value rows MemAvailable"
    by (auto simp: mem_value_def split: option.split dest!: map_of_SomeD)
  ultimately show ?thesis using assms(3,4)
    by (intro exI [of _ ?m]) (simp add: Mem_UpdateOnce_def mem_msg_def KBToGB_def field_simps)
qed

definition demo_mem :: "mem_row list" where
  "demo_mem = [\<lparr>mr_key = ''MemTotal'', mr_pad = 6, mr_value = 8000000, mr_kb = True\<rparr>,
     \<lparr>mr_key = ''MemAvailable'', mr_pad = 2, mr_value = 6000000, mr_kb = True\<rparr>,
     \<lparr>mr_key = ''HugePages_Total'', mr_pad = 6, mr_value = 0, mr_kb = False\<rparr>]"

theorem meminfo_read_back_witness:
  "\<exists>m. Mem_UpdateOnce (mem_file demo_mem) MonitorInfo0 = Mem_done (MonitorInfo0\<lparr>mo_mem_info := Some (mem_msg m)\<rparr>) \<and>
    mi_total (mem_msg m) = 8"
  using meminfo_read_back [of demo_mem MonitorInfo0]
  by (auto simp: demo_mem_def mem_row_ok_def no_space_def is_space_def mem_value_def mem_key_of_def)

text \<open>The disk monitor reports what the disks did between two readings: for the files the kernel
  prints at two times there is one message for each disk that is not virtual, and its rates are the
  increases of the printed counters divided by the time between, the utilisation being at most 100
  exactly when the disk was busy for no longer than that time.\<close>

theorem disk_rates:
  assumes "\<forall>r \<in> set rows0 \<union> set rows1. disk_row_ok r" and "distinct (map dr_name rows0)" "distinct (map dr_name rows1)"
    and "r0 \<in> set rows0" and "r1 \<in> set rows1" and "dr_name r0 = dr_name r1" and "\<not> virtual_disk (dr_name r1)"
    and "\<forall>i < 11. dr_counts r0 ! i \<le> dr_counts r1 ! i" and "t0 < t1"
    and "Disk_UpdateOnce (disk_file rows0) t0 d info0 = (info0', d0)"
    and "Disk_UpdateOnce (disk_file rows1) t1 d0 info1 = (info1', d1)"
  shows "map di_name (mo_disk_info info1') = map di_name (mo_disk_info info1) @
      filter (\<lambda>n. \<not> virtual_disk n) (map dr_name rows1) \<and>
    (\<exists>msg \<in> set (mo_disk_info info1').
       let inc = (\<lambda>i. of_nat (dr_counts r1 ! i - dr_counts r0 ! i)); dt = t1 - t0
       in di_name msg = dr_name r1 \<and>
          di_read_iops msg = inc 0 / dt \<and> di_read_bytes_per_sec msg = inc 2 * 512 / dt \<and>
          di_write_iops msg = inc 4 / dt \<and> di_write_bytes_per_sec msg = inc 6 * 512 / dt \<and>
          di_avg_read_latency_ms msg = (if inc 0 > 0 then inc 3 / inc 0 else 0) \<and>
          di_util_percent msg = inc 9 / (dt * 10) \<and> (di_util_percent msg \<le> 100 \<longleftrightarrow> inc 9 \<le> dt * 1000))"
proof -
  have f0: "fold (disk_line t0) (map disk_row_line rows0) (info0, d) = (info0', d0)"
    and f1: "fold (disk_line t1) (map disk_row_line rows1) (info1, d0) = (info1', d1)"
    using assms(1,10,11) by (simp_all add: Disk_UpdateOnce_def file_lines_rows)
  have ok: "\<forall>r \<in> set rows0. disk_row_ok r" "\<forall>r \<in> set rows1. disk_row_ok r" using assms(1) by auto
  note k0 = disk_fold [OF ok(1) assms(2) f0] and k1 = disk_fold [OF ok(2) assms(3) f1]
  have "dm_last_samples d0 (dr_name r1) = Some (sample_of (dr_counts r0))" "dm_last_time d0 (dr_name r1) = t0"
    using k0 assms(4,6,7) by auto
  then have msg: "disk_known r1 t1 d0 = disk_msg (dr_name r1) (sample_of (dr_counts r1))
      (Some (sample_of (dr_counts r0))) (t1 - t0)"
    by (simp add: disk_known_def)
  have names: "di_name (disk_known r t1 d0) = dr_name r" for r
    by (simp add: disk_known_def disk_msg_def Let_def split: option.split)
  have inc: "delta (of_nat (dr_counts r1 ! i)) (of_nat (dr_counts r0 ! i)) = of_nat (dr_counts r1 ! i - dr_counts r0 ! i)"
    if "i < 11" for i
  proof -
    have "dr_counts r1 ! i < 2 ^ 64" "dr_counts r0 ! i \<le> dr_counts r1 ! i"
      using ok(2) assms(5,8) that by (auto simp: disk_row_ok_def)
    then show ?thesis
      by (simp add: delta_def unat_sub_le unat_of_nat_small word_le_nat_alt)
  qed
  have "disk_known r1 t1 d0 \<in> set (mo_disk_info info1')" using k1 assms(5,7) by auto
  moreover have "map di_name (mo_disk_info info1') = map di_name (mo_disk_info info1) @
      filter (\<lambda>n. \<not> virtual_disk n) (map dr_name rows1)"
    using k1 by (simp add: names filter_map o_def)
  ultimately show ?thesis using assms(9)
    by (intro conjI bexI [of _ "disk_known r1 t1 d0"])
      (simp_all add: msg disk_msg_def sample_of_def inc Let_def field_simps)
qed

definition demo_disk :: "nat \<Rightarrow> disk_row list" where
  "demo_disk k = [\<lparr>dr_major = 7, dr_minor = 0, dr_pad = 3, dr_name = ''loop0'', dr_counts = replicate 17 0\<rparr>,
     \<lparr>dr_major = 8, dr_minor = 0, dr_pad = 3, dr_name = ''sda'', dr_counts = replicate 17 (1000 * k)\<rparr>]"

theorem disk_rates_witness:
  "\<exists>msg \<in> set (mo_disk_info (fst (Disk_UpdateOnce (disk_file (demo_disk 2)) 14
      (snd (Disk_UpdateOnce (disk_file (demo_disk 1)) 10 DiskMonitor0 MonitorInfo0)) MonitorInfo0))).
    di_name msg = ''sda'' \<and> di_util_percent msg = 25"
proof -
  obtain i0 d0 where u0: "Disk_UpdateOnce (disk_file (demo_disk 1)) 10 DiskMonitor0 MonitorInfo0 = (i0, d0)" by fastforce
  obtain i1 d1 where u1: "Disk_UpdateOnce (disk_file (demo_disk 2)) 14 d0 MonitorInfo0 = (i1, d1)" by fastforce
  have "\<forall>r \<in> set (demo_disk 1) \<union> set (demo_disk 2). disk_row_ok r" "distinct (map dr_name (demo_disk k))" for k
    by (auto simp: demo_disk_def disk_row_ok_def no_space_def is_space_def)
  note r = disk_rates [OF this(1) this(2) this(2), of "demo_disk 1 ! 1" "demo_disk 2 ! 1" 10 14, OF _ _ _ _ _ _ u0 u1]
  show ?thesis unfolding u0 snd_conv u1 fst_conv
    using r by (auto simp: demo_disk_def virtual_disk_def Let_def)
qed

end
