(* ===== verification/RingBuffer.thy ===== *)
theory RingBuffer
  imports Prelude
begin

text \<open>
  The ring buffer of the worker, \<^verbatim>\<open>worker/include/utils/ring_buffer.h\<close>, which keeps the samples
  that could not be sent, and the contract of a bounded queue that drops its oldest element. Each
  operation holds the mutex of the buffer, so it is one step. \<open>None\<close> is an access out of bounds or a
  remainder by zero.
\<close>

section \<open>The buffer\<close>

record 'a ring_buffer =
  rb_buffer :: "'a list"
  rb_head :: nat
  rb_tail :: nat
  rb_size :: nat
  rb_capacity :: nat

text \<open>\<open>d\<close> is the default-constructed element.\<close>

definition RingBuffer_new :: "'a \<Rightarrow> nat \<Rightarrow> 'a ring_buffer" where
  "RingBuffer_new d capacity = \<lparr>rb_buffer = replicate capacity d, rb_head = 0, rb_tail = 0, rb_size = 0,
     rb_capacity = capacity\<rparr>"

definition Push :: "'a \<Rightarrow> 'a ring_buffer \<Rightarrow> 'a ring_buffer option" where
  "Push item b =
     (if rb_head b < length (rb_buffer b) \<and> rb_capacity b \<noteq> 0
      then let b1 = b\<lparr>rb_buffer := (rb_buffer b)[rb_head b := item],
                      rb_head := (rb_head b + 1) mod rb_capacity b\<rparr>
           in Some (if rb_size b1 < rb_capacity b1 then b1\<lparr>rb_size := rb_size b1 + 1\<rparr>
                    else b1\<lparr>rb_tail := (rb_tail b1 + 1) mod rb_capacity b1\<rparr>)
      else None)"

definition Drain :: "'a ring_buffer \<Rightarrow> 'a list \<times> 'a ring_buffer" where
  "Drain b =
     (map (\<lambda>i. rb_buffer b ! ((rb_tail b + i) mod rb_capacity b)) [0..<rb_size b],
      b\<lparr>rb_head := 0, rb_tail := 0, rb_size := 0\<rparr>)"

definition Empty :: "'a ring_buffer \<Rightarrow> bool" where
  "Empty b = (rb_size b = 0)"

definition Size :: "'a ring_buffer \<Rightarrow> nat" where
  "Size b = rb_size b"

section \<open>The contract of a bounded queue\<close>

text \<open>\<open>keep_last n xs\<close>: the last \<open>n\<close> elements.\<close>

definition keep_last :: "nat \<Rightarrow> 'a list \<Rightarrow> 'a list" where
  "keep_last n xs = drop (length xs - n) xs"

lemma keep_last_all [simp]: "length xs \<le> n \<Longrightarrow> keep_last n xs = xs"
  by (simp add: keep_last_def)

lemma length_keep_last [simp]: "length (keep_last n xs) = min n (length xs)"
  by (simp add: keep_last_def)

lemma keep_last_append:
  "keep_last n (keep_last n xs @ ys) = keep_last n (xs @ ys)"
proof (cases "length xs \<le> n")
  case False
  then have "drop (length xs - n) (xs @ ys) = keep_last n xs @ ys" by (simp add: keep_last_def)
  then have "keep_last n (keep_last n xs @ ys) =
      drop (length (keep_last n xs @ ys) - n) (drop (length xs - n) (xs @ ys))"
    by (simp add: keep_last_def)
  also have "\<dots> = drop (length (xs @ ys) - n) (xs @ ys)"
    using False by (simp add: add.commute)
  finally show ?thesis unfolding keep_last_def .
qed simp

locale bounded_queue =
  fixes push :: "'a \<Rightarrow> 'q \<Rightarrow> 'q option"
    and drain :: "'q \<Rightarrow> 'a list \<times> 'q"
    and items :: "'q \<Rightarrow> 'a list"
    and ok :: "'q \<Rightarrow> bool"
    and cap :: nat
  assumes push_law: "ok q \<Longrightarrow> \<exists>q'. push x q = Some q' \<and> ok q' \<and> items q' = keep_last cap (items q @ [x])"
    and drain_law: "ok q \<Longrightarrow> fst (drain q) = items q \<and> ok (snd (drain q)) \<and> items (snd (drain q)) = []"
    and size_law: "ok q \<Longrightarrow> length (items q) \<le> cap"
begin

text \<open>Pushing a list of elements one after the other.\<close>

fun push_all :: "'a list \<Rightarrow> 'q \<Rightarrow> 'q option" where
  "push_all [] q = Some q"
| "push_all (x # xs) q = Option.bind (push x q) (push_all xs)"

lemma push_all_items:
  assumes "ok q"
  shows "\<exists>q'. push_all xs q = Some q' \<and> ok q' \<and> items q' = keep_last cap (items q @ xs)"
  using assms
proof (induction xs arbitrary: q)
  case Nil
  with size_law show ?case by simp
next
  case (Cons x xs)
  from push_law [OF Cons.prems, of x] obtain q1 where q1: "push x q = Some q1" "ok q1"
    "items q1 = keep_last cap (items q @ [x])" by blast
  from Cons.IH [OF q1(2)] obtain q2 where "push_all xs q1 = Some q2" "ok q2"
    "items q2 = keep_last cap (items q1 @ xs)" by blast
  with q1 keep_last_append [of cap "items q @ [x]" xs] show ?case by simp
qed

text \<open>Draining and pushing back some of the elements loses none of them.\<close>

lemma drain_push_back:
  assumes "ok q" and "length xs \<le> length (items q)"
  shows "\<exists>q'. push_all xs (snd (drain q)) = Some q' \<and> ok q' \<and> items q' = xs"
  using push_all_items [of "snd (drain q)" xs] drain_law [OF assms(1)] size_law [OF assms(1)] assms(2)
  by auto

end

section \<open>The buffer meets the contract\<close>

definition rb_ok :: "nat \<Rightarrow> 'a ring_buffer \<Rightarrow> bool" where
  "rb_ok cap b \<longleftrightarrow> rb_capacity b = cap \<and> length (rb_buffer b) = cap \<and> 0 < cap \<and> rb_tail b < cap \<and>
     rb_size b \<le> cap \<and> rb_head b = (rb_tail b + rb_size b) mod cap"

definition rb_items :: "'a ring_buffer \<Rightarrow> 'a list" where
  "rb_items b = map (\<lambda>i. rb_buffer b ! ((rb_tail b + i) mod rb_capacity b)) [0..<rb_size b]"

lemma rb_ok_new: "0 < cap \<Longrightarrow> rb_ok cap (RingBuffer_new d cap)"
  by (simp add: rb_ok_def RingBuffer_new_def)

lemma mod_add_inj:
  fixes i j t c :: nat
  assumes "(t + i) mod c = (t + j) mod c" and "i < c" and "j < c"
  shows "i = j"
proof -
  have "j \<le> i \<Longrightarrow> (t + i) mod c = (t + j) mod c \<Longrightarrow> i < c \<Longrightarrow> i = j" for i j
    using mod_eq_dvd_iff_nat [of "t + j" "t + i" c] by (auto dest: dvd_imp_le)
  from this [of j i] this [of i j] assms show ?thesis by (metis linorder_le_cases)
qed

lemma nth_rb_items:
  "i < rb_size b \<Longrightarrow> rb_items b ! i = rb_buffer b ! ((rb_tail b + i) mod rb_capacity b)"
  by (simp add: rb_items_def)

lemma length_rb_items [simp]: "length (rb_items b) = rb_size b"
  by (simp add: rb_items_def)

lemma Push_room:
  assumes "rb_ok cap b" and "rb_size b < cap"
  shows "\<exists>b'. Push x b = Some b' \<and> rb_ok cap b' \<and> rb_items b' = rb_items b @ [x]"
proof -
  let ?h = "(rb_tail b + rb_size b) mod cap"
  define b' where "b' = b\<lparr>rb_buffer := (rb_buffer b)[?h := x], rb_head := (?h + 1) mod cap,
    rb_size := rb_size b + 1\<rparr>"
  from assms have f: "rb_capacity b = cap" "length (rb_buffer b) = cap" "0 < cap" "rb_tail b < cap"
    "rb_head b = ?h" by (simp_all add: rb_ok_def)
  then have hl: "?h < cap" by simp
  have "Push x b = Some b'"
    using f hl assms(2) by (simp add: Push_def Let_def b'_def)
  moreover have "rb_ok cap b'"
    using f assms(2) by (simp add: rb_ok_def b'_def mod_Suc_eq)
  moreover have "rb_items b' = rb_items b @ [x]"
  proof (rule nth_equalityI)
    show "length (rb_items b') = length (rb_items b @ [x])" by (simp add: b'_def)
  next
    fix i assume "i < length (rb_items b')"
    then have i: "i \<le> rb_size b" by (simp add: b'_def)
    show "rb_items b' ! i = (rb_items b @ [x]) ! i"
    proof (cases "i = rb_size b")
      case True
      with f hl show ?thesis by (simp add: nth_rb_items nth_append b'_def)
    next
      case False
      with i mod_add_inj [of "rb_tail b" i cap "rb_size b"] assms(2)
      have "(rb_tail b + i) mod cap \<noteq> ?h" by auto
      with False i f show ?thesis by (simp add: nth_rb_items nth_append b'_def)
    qed
  qed
  ultimately show ?thesis by blast
qed

lemma Push_full:
  assumes "rb_ok cap b" and "rb_size b = cap"
  shows "\<exists>b'. Push x b = Some b' \<and> rb_ok cap b' \<and> rb_items b' = tl (rb_items b) @ [x]"
proof -
  let ?t = "rb_tail b"
  define b' where "b' = b\<lparr>rb_buffer := (rb_buffer b)[?t := x], rb_head := (?t + 1) mod cap,
    rb_tail := (?t + 1) mod cap\<rparr>"
  from assms have f: "rb_capacity b = cap" "length (rb_buffer b) = cap" "0 < cap" "?t < cap"
    "rb_head b = ?t" by (simp_all add: rb_ok_def)
  have "Push x b = Some b'"
    using f assms(2) by (simp add: Push_def Let_def b'_def)
  moreover have "rb_ok cap b'"
    using f assms(2) by (simp add: rb_ok_def b'_def)
  moreover have "rb_items b' = tl (rb_items b) @ [x]"
  proof (rule nth_equalityI)
    show "length (rb_items b') = length (tl (rb_items b) @ [x])" using f assms(2) by (simp add: b'_def)
  next
    fix i assume "i < length (rb_items b')"
    then have i: "i < cap" using assms(2) by (simp add: b'_def)
    have idx: "((?t + 1) mod cap + i) mod cap = (?t + (i + 1)) mod cap"
      by (simp add: mod_add_left_eq)
    show "rb_items b' ! i = (tl (rb_items b) @ [x]) ! i"
    proof (cases "i = cap - 1")
      case True
      with f assms(2) idx show ?thesis by (simp add: nth_rb_items nth_append b'_def)
    next
      case False
      with i have i1: "i + 1 < cap" by linarith
      with mod_add_inj [of ?t "i + 1" cap 0] f(3,4) have "(?t + (i + 1)) mod cap \<noteq> ?t"
        by auto
      moreover have "i < cap - 1" using i1 by simp
      ultimately show ?thesis using i f assms(2) idx
        by (simp add: nth_rb_items nth_append nth_tl b'_def)
    qed
  qed
  ultimately show ?thesis by blast
qed

lemma rb_items_Drain: "fst (Drain b) = rb_items b"
  by (simp add: Drain_def rb_items_def)

interpretation backlog: bounded_queue Push Drain rb_items "rb_ok cap" cap for cap
proof
  fix q :: "'a ring_buffer" and x
  assume ok: "rb_ok cap q"
  show "\<exists>q'. Push x q = Some q' \<and> rb_ok cap q' \<and> rb_items q' = keep_last cap (rb_items q @ [x])"
  proof (cases "rb_size q < cap")
    case True
    with Push_room [OF ok True, of x] show ?thesis by simp
  next
    case False
    with ok have full: "rb_size q = cap" "0 < cap" by (simp_all add: rb_ok_def)
    then have "keep_last cap (rb_items q @ [x]) = tl (rb_items q) @ [x]"
      by (simp add: keep_last_def drop_Suc)
    with Push_full [OF ok full(1), of x] show ?thesis by simp
  qed
  show "fst (Drain q) = rb_items q \<and> rb_ok cap (snd (Drain q)) \<and> rb_items (snd (Drain q)) = []"
    using ok by (simp add: rb_items_Drain) (simp add: Drain_def rb_ok_def rb_items_def)
  show "length (rb_items q) \<le> cap" using ok by (simp add: rb_ok_def)
qed

section \<open>Properties\<close>



end
