(* ===== verification/Pusher.thy ===== *)
theory Pusher
  imports Messages RingBuffer "HOL-Library.Sublist" "HOL-Library.Multiset"
begin

text \<open>
  The sending side of the worker: numbering the samples (\<^verbatim>\<open>worker/src/monitor/metric_collector.cpp\<close>),
  sending them, keeping the ones that could not be sent and sending them again
  (\<^verbatim>\<open>worker/src/rpc/monitor_pusher.cpp\<close>). The network with everything behind it is a function of
  the sample and its state: it tells whether the call reported success, whatever the manager did.
\<close>

section \<open>Collecting\<close>

record collector =
  co_hostname :: string
  co_collect_seq :: u64

text \<open>\<open>host\<close> is what \<^verbatim>\<open>gethostname\<close> gives, \<open>epoch_ms\<close> the clock.\<close>

definition MetricCollector :: "string option \<Rightarrow> u64 \<Rightarrow> collector" where
  "MetricCollector host epoch_ms =
     \<lparr>co_hostname = (case host of Some h \<Rightarrow> h | None \<Rightarrow> ''unknown''), co_collect_seq = epoch_ms\<rparr>"

text \<open>\<open>monitors\<close>: what each monitor adds to the message in this round.\<close>

definition CollectAll :: "(MonitorInfo \<Rightarrow> MonitorInfo) list \<Rightarrow> collector \<Rightarrow> MonitorInfo \<Rightarrow> MonitorInfo \<times> collector" where
  "CollectAll monitors c info =
     (let c' = c\<lparr>co_collect_seq := co_collect_seq c + 1\<rparr>;
          info1 = info\<lparr>mo_name := co_hostname c', mo_sequence := co_collect_seq c'\<rparr>
      in (fold (\<lambda>monitor m. monitor m) monitors info1, c'))"

section \<open>Sending\<close>

type_synonym 'w network = "MonitorInfo \<Rightarrow> 'w \<Rightarrow> bool \<times> 'w"

record pusher =
  pu_running :: bool
  pu_thread :: bool
  pu_backlog :: "MonitorInfo ring_buffer"

definition MonitorPusher :: pusher where
  "MonitorPusher = \<lparr>pu_running = False, pu_thread = False, pu_backlog = RingBuffer_new MonitorInfo0 120\<rparr>"

definition Start :: "pusher \<Rightarrow> pusher" where
  "Start p = (if pu_running p then p else p\<lparr>pu_running := True, pu_thread := True\<rparr>)"

text \<open>After \<open>Stop\<close> the thread has been joined.\<close>

definition Stop :: "pusher \<Rightarrow> pusher" where
  "Stop p = p\<lparr>pu_running := False, pu_thread := False\<rparr>"

text \<open>One call of \<^verbatim>\<open>SetMonitorInfo\<close>: the status it reports.\<close>

definition PushData :: "'w network \<Rightarrow> 'w network" where
  "PushData net info w = net info w"

fun replay :: "'w network \<Rightarrow> MonitorInfo list \<Rightarrow> MonitorInfo ring_buffer \<Rightarrow> 'w \<Rightarrow>
    (MonitorInfo ring_buffer \<times> 'w) option" where
  "replay net [] b w = Some (b, w)"
| "replay net (info # pending) b w =
     (case PushData net info w of
        (True, w') \<Rightarrow> replay net pending b w'
      | (False, w') \<Rightarrow> do { b' \<leftarrow> Push info b; replay net pending b' w' })"

definition FlushBacklog :: "'w network \<Rightarrow> pusher \<Rightarrow> 'w \<Rightarrow> (pusher \<times> 'w) option" where
  "FlushBacklog net p w =
     (let (pending, b) = Drain (pu_backlog p)
      in if pending = [] then Some (p\<lparr>pu_backlog := b\<rparr>, w)
         else do { (b', w') \<leftarrow> replay net pending b w; Some (p\<lparr>pu_backlog := b'\<rparr>, w') })"

definition PushOnce :: "'w network \<Rightarrow> (MonitorInfo \<Rightarrow> MonitorInfo) list \<Rightarrow> collector \<Rightarrow> pusher \<Rightarrow> 'w \<Rightarrow>
    (bool \<times> collector \<times> pusher \<times> 'w) option" where
  "PushOnce net monitors c p w =
     (let (info, c') = CollectAll monitors c MonitorInfo0;
          (ok, w') = PushData net info w
      in if \<not> ok then do { b \<leftarrow> Push info (pu_backlog p); Some (ok, c', p\<lparr>pu_backlog := b\<rparr>, w') }
         else Some (ok, c', p, w'))"

text \<open>The loop of the thread, for the rounds until it is stopped.\<close>

fun PushLoop :: "'w network \<Rightarrow> (MonitorInfo \<Rightarrow> MonitorInfo) list list \<Rightarrow> collector \<Rightarrow> pusher \<Rightarrow> 'w \<Rightarrow>
    (collector \<times> pusher \<times> 'w) option" where
  "PushLoop net [] c p w = Some (c, p, w)"
| "PushLoop net (monitors # rounds) c p w =
     do { (p1, w1) \<leftarrow> (if \<not> Empty (pu_backlog p) then FlushBacklog net p w else Some (p, w));
          (ok, c', p2, w2) \<leftarrow> PushOnce net monitors c p1 w1;
          PushLoop net rounds c' p2 w2 }"

section \<open>What was collected and what was acknowledged\<close>

text \<open>The samples of a run, and the network with a log of the samples it acknowledged.\<close>

fun run_samples :: "(MonitorInfo \<Rightarrow> MonitorInfo) list list \<Rightarrow> collector \<Rightarrow> MonitorInfo list" where
  "run_samples [] c = []"
| "run_samples (monitors # rounds) c =
     fst (CollectAll monitors c MonitorInfo0) # run_samples rounds (snd (CollectAll monitors c MonitorInfo0))"

definition logged :: "'w network \<Rightarrow> ('w \<times> MonitorInfo list) network" where
  "logged net info wl =
     (let (ok, w') = net info (fst wl) in (ok, w', if ok then snd wl @ [info] else snd wl))"

lemma length_collected [simp]: "length (run_samples rounds c) = length rounds"
  by (induction rounds c rule: run_samples.induct) simp_all

lemma collected_append:
  "run_samples (rs @ [m]) c = run_samples rs c @ [fst (CollectAll m (foldl (\<lambda>c m. snd (CollectAll m c MonitorInfo0)) c rs) MonitorInfo0)]"
  by (induction rs c rule: run_samples.induct) simp_all

text \<open>Replaying: the samples that fail again stay in the buffer, in order.\<close>

lemma replay_keeps:
  assumes "rb_ok cap b" and "length (rb_items b) + length xs \<le> cap"
  shows "\<exists>b' w' acked kept. replay (logged net) xs b (w, acks) = Some (b', w', acks @ acked) \<and> rb_ok cap b' \<and>
    rb_items b' = rb_items b @ kept \<and> subseq kept xs \<and> mset xs = mset acked + mset kept"
  using assms
proof (induction xs arbitrary: b w acks)
  case Nil
  then show ?case by auto
next
  case (Cons x xs)
  obtain ok w1 where n: "net x w = (ok, w1)" by fastforce
  show ?case
  proof (cases ok)
    case True
    have st: "replay (logged net) (x # xs) b (w, acks) = replay (logged net) xs b (w1, acks @ [x])"
      using True n by (simp add: PushData_def logged_def)
    have len: "length (rb_items b) + length xs \<le> cap" using Cons.prems(2) by simp
    from Cons.IH [OF Cons.prems(1) len, of w1 "acks @ [x]"] obtain b' w' acked kept where
      r: "replay (logged net) xs b (w1, acks @ [x]) = Some (b', w', (acks @ [x]) @ acked)" "rb_ok cap b'"
        "rb_items b' = rb_items b @ kept" "subseq kept xs" "mset xs = mset acked + mset kept"
      by blast
    have "replay (logged net) (x # xs) b (w, acks) = Some (b', w', acks @ (x # acked))"
      using r(1) st by simp
    moreover have "subseq kept (x # xs)" using r(4) by auto
    moreover have "mset (x # xs) = mset (x # acked) + mset kept" using r(5) by simp
    ultimately show ?thesis using r(2,3) by blast
  next
    case False
    from Cons.prems(2) have "keep_last cap (rb_items b @ [x]) = rb_items b @ [x]" by simp
    with backlog.push_law [OF Cons.prems(1), of x] obtain b1 where
      b1: "Push x b = Some b1" "rb_ok cap b1" "rb_items b1 = rb_items b @ [x]" by auto
    have st: "replay (logged net) (x # xs) b (w, acks) = replay (logged net) xs b1 (w1, acks)"
      using False n b1 by (simp add: PushData_def logged_def)
    have len: "length (rb_items b1) + length xs \<le> cap"
      unfolding b1(3) using Cons.prems(2) by simp
    from Cons.IH [OF b1(2) len, of w1 acks] obtain b' w' acked kept where
      r: "replay (logged net) xs b1 (w1, acks) = Some (b', w', acks @ acked)" "rb_ok cap b'"
        "rb_items b' = rb_items b1 @ kept" "subseq kept xs" "mset xs = mset acked + mset kept"
      by blast
    have "rb_items b' = rb_items b @ (x # kept)" using r(3) b1(3) by simp
    moreover have "subseq (x # kept) (x # xs)" using r(4) by simp
    moreover have "mset (x # xs) = mset acked + mset (x # kept)" using r(5) by simp
    ultimately show ?thesis using r(1,2) st by metis
  qed
qed

text \<open>What the loop keeps true: the samples so far are the acknowledged, the waiting and the lost
  ones; those waiting are in the order they were collected; a loss needs a full buffer.\<close>

definition push_inv :: "MonitorInfo list \<Rightarrow> MonitorInfo list \<Rightarrow> MonitorInfo ring_buffer \<Rightarrow> MonitorInfo list \<Rightarrow> bool" where
  "push_inv infos acks b lost \<longleftrightarrow> rb_ok 120 b \<and> mset infos = mset acks + mset (rb_items b) + mset lost \<and>
     subseq (rb_items b) infos \<and> length lost \<le> length infos - 120"

lemma flush_inv:
  assumes "push_inv infos acks (pu_backlog p) lost"
  shows "\<exists>p' w' acks'. FlushBacklog (logged net) p (w, acks) = Some (p', w', acks') \<and>
    push_inv infos acks' (pu_backlog p') lost"
proof -
  let ?b = "pu_backlog p"
  from assms have ok: "rb_ok 120 ?b" and ms: "mset infos = mset acks + mset (rb_items ?b) + mset lost"
    and sub: "subseq (rb_items ?b) infos" and lo: "length lost \<le> length infos - 120"
    by (simp_all add: push_inv_def)
  note d = backlog.drain_law [OF ok]
  obtain pending b0 where dr: "Drain ?b = (pending, b0)" by fastforce
  with d have p0: "pending = rb_items ?b" "rb_ok 120 b0" "rb_items b0 = []" by simp_all
  have "length (rb_items b0) + length pending \<le> 120"
    using p0 ok by (simp add: rb_ok_def)
  from replay_keeps [OF p0(2) this, of net w acks] obtain b' w' acked kept where
    r: "replay (logged net) pending b0 (w, acks) = Some (b', w', acks @ acked)" "rb_ok 120 b'"
      "rb_items b' = kept" "subseq kept pending" "mset pending = mset acked + mset kept"
    using p0(3) by auto
  show ?thesis
  proof (cases "pending = []")
    case True
    with dr p0 ms sub lo show ?thesis by (auto simp: FlushBacklog_def push_inv_def)
  next
    case False
    have "subseq kept infos" using r(4) sub p0(1) subseq_order.order_trans by blast
    with False dr r ms lo p0(1) show ?thesis
      by (auto simp: FlushBacklog_def push_inv_def)
  qed
qed

lemma subseq_snoc: "subseq xs ys \<Longrightarrow> subseq (xs @ [x]) (ys @ [x])"
  by (rule list_emb_append_mono) simp_all

lemma once_inv:
  assumes "push_inv infos acks (pu_backlog p) lost" and "CollectAll monitors c MonitorInfo0 = (info, c')"
  shows "\<exists>ok p' w' acks' lost'. PushOnce (logged net) monitors c p (w, acks) = Some (ok, c', p', w', acks') \<and>
    push_inv (infos @ [info]) acks' (pu_backlog p') lost'"
proof -
  let ?b = "pu_backlog p"
  from assms(1) have rok: "rb_ok 120 ?b" and ms: "mset infos = mset acks + mset (rb_items ?b) + mset lost"
    and sub: "subseq (rb_items ?b) infos" and lo: "length lost \<le> length infos - 120"
    by (simp_all add: push_inv_def)
  obtain ok w' where n: "net info w = (ok, w')" by fastforce
  show ?thesis
  proof (cases ok)
    case True
    have "subseq (rb_items ?b) (infos @ [info])" 
      using sub by (rule subseq_order.order_trans) (simp add: prefix_imp_subseq)
    then have "push_inv (infos @ [info]) (acks @ [info]) ?b lost"
      using rok ms lo by (auto simp: push_inv_def)
    with True n assms(2) show ?thesis by (auto simp: PushOnce_def PushData_def logged_def)
  next
    case False
    from backlog.push_law [OF rok, of info] obtain b' where
      b': "Push info ?b = Some b'" "rb_ok 120 b'" "rb_items b' = keep_last 120 (rb_items ?b @ [info])"
      by blast
    have run: "PushOnce (logged net) monitors c p (w, acks) = Some (False, c', p\<lparr>pu_backlog := b'\<rparr>, w', acks)"
      using False n assms(2) b'(1) by (simp add: PushOnce_def PushData_def logged_def)
    have "\<exists>lost'. push_inv (infos @ [info]) acks b' lost'"
    proof (cases "rb_size ?b < 120")
      case True
      then have "rb_items b' = rb_items ?b @ [info]" using b'(3) by simp
      then have "push_inv (infos @ [info]) acks b' lost"
        using b'(2) ms subseq_snoc [OF sub] lo by (simp add: push_inv_def)
      then show ?thesis ..
    next
      case full: False
      then have sz: "rb_size ?b = 120" using rok by (simp add: rb_ok_def)
      then obtain y ys where items: "rb_items ?b = y # ys" and ys: "length ys = 119"
        using length_rb_items [of ?b] by (cases "rb_items ?b") auto
      have items': "rb_items b' = ys @ [info]"
        using b'(3) ys by (simp add: items keep_last_def)
      have "length infos = length acks + 120 + length lost"
        using arg_cong [OF ms, of size] sz by simp
      moreover have "subseq ys infos" using sub unfolding items by (rule subseq_Cons')
      ultimately have "push_inv (infos @ [info]) acks b' (y # lost)"
        using b'(2) ms subseq_snoc [of ys infos info] unfolding push_inv_def items items' by simp
      then show ?thesis ..
    qed
    with run show ?thesis by force
  qed
qed

lemma loop_inv:
  assumes "push_inv infos acks (pu_backlog p) lost"
  shows "\<exists>c' p' w' acks' lost'. PushLoop (logged net) rounds c p (w, acks) = Some (c', p', w', acks') \<and>
    push_inv (infos @ run_samples rounds c) acks' (pu_backlog p') lost'"
  using assms
proof (induction rounds arbitrary: infos acks c p lost w)
  case Nil
  then show ?case by auto
next
  case (Cons monitors rounds)
  obtain info c1 where ca: "CollectAll monitors c MonitorInfo0 = (info, c1)" by fastforce
  have "\<exists>p1 w1 acks1. (if \<not> Empty (pu_backlog p) then FlushBacklog (logged net) p (w, acks)
      else Some (p, w, acks)) = Some (p1, w1, acks1) \<and> push_inv infos acks1 (pu_backlog p1) lost"
    using flush_inv [OF Cons.prems, of net w] Cons.prems by auto
  then obtain p1 w1 acks1 where f: "(if \<not> Empty (pu_backlog p) then FlushBacklog (logged net) p (w, acks)
      else Some (p, w, acks)) = Some (p1, w1, acks1)" and i1: "push_inv infos acks1 (pu_backlog p1) lost"
    by blast
  from once_inv [OF i1 ca, of net w1] obtain ok p2 w2 acks2 lost2 where
    o: "PushOnce (logged net) monitors c p1 (w1, acks1) = Some (ok, c1, p2, w2, acks2)"
    and i2: "push_inv (infos @ [info]) acks2 (pu_backlog p2) lost2" by blast
  from Cons.IH [OF i2, of c1 w2] show ?case
    by (simp add: f o ca)
qed

section \<open>Numbers\<close>

lemma CollectAll_seq:
  assumes "\<forall>f \<in> List.set monitors. \<forall>m. mo_sequence (f m) = mo_sequence m"
  shows "mo_sequence (fst (CollectAll monitors c m)) = co_collect_seq c + 1"
    and "co_collect_seq (snd (CollectAll monitors c m)) = co_collect_seq c + 1"
proof -
  have "mo_sequence (fold (\<lambda>f m. f m) monitors m') = mo_sequence m'" for m'
    using assms by (induction monitors arbitrary: m') auto
  then show "mo_sequence (fst (CollectAll monitors c m)) = co_collect_seq c + 1"
    by (simp add: CollectAll_def Let_def)
  show "co_collect_seq (snd (CollectAll monitors c m)) = co_collect_seq c + 1"
    by (simp add: CollectAll_def Let_def)
qed

text \<open>The numbers of a run that does not reach the end of the 64 bits.\<close>

lemma collected_seqs:
  assumes "\<forall>monitors \<in> List.set rounds. \<forall>f \<in> List.set monitors. \<forall>m. mo_sequence (f m) = mo_sequence m"
  shows "map mo_sequence (run_samples rounds c) =
    map (\<lambda>i. co_collect_seq c + 1 + of_nat i) [0..<length rounds]"
  using assms
proof (induction rounds c rule: run_samples.induct)
  case (2 monitors rounds c)
  have "map (\<lambda>i. co_collect_seq c + 1 + 1 + of_nat i) [0..<length rounds] =
      map (\<lambda>i. co_collect_seq c + 1 + of_nat i) (map Suc [0..<length rounds])"
    by (simp add: add.assoc)
  with 2 CollectAll_seq [of monitors c MonitorInfo0] show ?case
    by (simp only: list.set_intros list.set list.map run_samples.simps length_Cons map_Suc_upt upt_conv_Cons)
      (simp add: add.assoc map_Suc_upt [symmetric] del: map_Suc_upt upt_Suc)
qed simp

section \<open>The log is a ghost\<close>

definition unlog :: "'a \<times> 'w \<times> MonitorInfo list \<Rightarrow> 'a \<times> 'w" where
  "unlog = (\<lambda>(x, w, acks). (x, w))"

lemma replay_unlog: "replay net xs b w = map_option unlog (replay (logged net) xs b (w, acks))"
proof (induction xs arbitrary: b w acks)
  case (Cons info pending)
  obtain ok w' where n: "net info w = (ok, w')" by fastforce
  have la: "logged net info (w, as) = (ok, w', if ok then as @ [info] else as)" for as
    by (simp add: logged_def n)
  show ?case
  proof (cases ok)
    case True
    then show ?thesis using Cons.IH [of b w' "acks @ [info]"] by (simp add: PushData_def n la)
  next
    case False
    then show ?thesis using Cons.IH [of _ w' acks] by (cases "Push info b") (simp_all add: PushData_def n la)
  qed
qed (simp add: unlog_def)

lemma FlushBacklog_unlog: "FlushBacklog net p w = map_option unlog (FlushBacklog (logged net) p (w, acks))"
proof -
  obtain pending b where "Drain (pu_backlog p) = (pending, b)" by fastforce
  with replay_unlog [of net pending b w acks] show ?thesis
    by (cases "replay (logged net) pending b (w, acks)") (auto simp: FlushBacklog_def unlog_def)
qed

definition unlog3 :: "'a \<times> 'b \<times> 'w \<times> MonitorInfo list \<Rightarrow> 'a \<times> 'b \<times> 'w" where
  "unlog3 = (\<lambda>(x, y, w, acks). (x, y, w))"

lemma PushOnce_unlog:
  "PushOnce net ms c p w = map_option (apsnd unlog3) (PushOnce (logged net) ms c p (w, acks))"
proof -
  obtain info c' where ca: "CollectAll ms c MonitorInfo0 = (info, c')" by fastforce
  obtain ok w' where n: "net info w = (ok, w')" by fastforce
  have la: "logged net info (w, acks) = (ok, w', if ok then acks @ [info] else acks)"
    by (simp add: logged_def n)
  show ?thesis
    by (cases ok; cases "Push info (pu_backlog p)")
      (simp_all add: PushOnce_def PushData_def ca n la unlog3_def)
qed

lemma PushLoop_unlog:
  "PushLoop net rounds c p w = map_option unlog3 (PushLoop (logged net) rounds c p (w, acks))"
proof (induction rounds arbitrary: c p w acks)
  case (Cons monitors rounds)
  define fl where "fl = (if \<not> Empty (pu_backlog p) then FlushBacklog (logged net) p (w, acks)
      else Some (p, w, acks))"
  have f: "(if \<not> Empty (pu_backlog p) then FlushBacklog net p w else Some (p, w)) = map_option unlog fl"
    unfolding fl_def FlushBacklog_unlog [of net p w acks] by (simp add: unlog_def)
  show ?case
  proof (cases fl)
    case None
    then show ?thesis unfolding PushLoop.simps f fl_def [symmetric] by simp
  next
    case (Some r)
    then obtain p1 w1 acks1 where r: "fl = Some (p1, w1, acks1)" by (cases r) auto
    define on where "on = PushOnce (logged net) monitors c p1 (w1, acks1)"
    have o: "PushOnce net monitors c p1 w1 = map_option (apsnd unlog3) on"
      unfolding on_def by (rule PushOnce_unlog)
    show ?thesis
    proof (cases on)
      case None
      with o show ?thesis
        unfolding PushLoop.simps f fl_def [symmetric] r by (simp add: unlog_def on_def [symmetric])
    next
      case (Some s)
      then obtain ok c2 p2 w2 acks2 where s: "on = Some (ok, c2, p2, w2, acks2)" by (cases s) auto
      with o Cons.IH [of c2 p2 w2 acks2] show ?thesis
        unfolding PushLoop.simps f fl_def [symmetric] r
        by (simp add: unlog_def unlog3_def on_def [symmetric])
    qed
  qed
qed (simp add: unlog3_def)

section \<open>What the network keeps\<close>

lemma replay_rule:
  assumes "replay net xs b w = Some (b', w')" and "I w" and step: "\<And>info w. I w \<Longrightarrow> I (snd (net info w))"
  shows "I w'"
  using assms(1,2)
proof (induction xs arbitrary: b w)
  case (Cons info pending)
  obtain ok w1 where n: "net info w = (ok, w1)" by fastforce
  with step [OF Cons.prems(2), of info] have "I w1" by simp
  with Cons n show ?case by (cases ok) (auto simp: PushData_def bind_eq_Some_conv)
qed simp

lemma PushLoop_rule:
  assumes "PushLoop net rounds c p w = Some (c', p', w')" and "I w" and step: "\<And>info w. I w \<Longrightarrow> I (snd (net info w))"
  shows "I w'"
  using assms(1,2)
proof (induction rounds arbitrary: c p w)
  case (Cons monitors rounds)
  from Cons.prems(1) obtain p1 w1 ok c2 p2 w2 where
    f: "(if \<not> Empty (pu_backlog p) then FlushBacklog net p w else Some (p, w)) = Some (p1, w1)"
    and o: "PushOnce net monitors c p1 w1 = Some (ok, c2, p2, w2)" and l: "PushLoop net rounds c2 p2 w2 = Some (c', p', w')"
    by (auto simp: bind_eq_Some_conv)
  have r: "replay net xs b w = Some (b', v) \<Longrightarrow> I v" for xs b b' v
    by (rule replay_rule [where I = I], assumption, rule Cons.prems(2), rule step)
  have "I w1" using f Cons.prems(2)
    by (auto simp: FlushBacklog_def bind_eq_Some_conv dest: r split: if_splits prod.splits)
  with o step have "I w2"
    by (auto simp: PushOnce_def PushData_def bind_eq_Some_conv split: prod.splits if_splits) (metis snd_conv)+
  with Cons.IH [OF l] show ?case .
qed simp

lemma push_loop_no_loss_aux:
  "\<exists>c' p' w' acks lost.
     PushLoop net rounds c MonitorPusher w = Some (c', p', w') \<and>
     PushLoop (logged net) rounds c MonitorPusher (w, []) = Some (c', p', w', acks) \<and>
     mset (run_samples rounds c) = mset acks + mset (fst (Drain (pu_backlog p'))) + mset lost \<and>
     subseq (fst (Drain (pu_backlog p'))) (run_samples rounds c) \<and>
     length lost \<le> length rounds - 120"
proof -
  have "push_inv [] [] (pu_backlog MonitorPusher) []"
    using rb_ok_new [of 120 MonitorInfo0]
    by (simp add: push_inv_def MonitorPusher_def) (simp add: rb_items_def RingBuffer_new_def)
  from loop_inv [OF this, of net rounds c w] obtain c' p' w' acks lost where
    "PushLoop (logged net) rounds c MonitorPusher (w, []) = Some (c', p', w', acks)"
    "push_inv (run_samples rounds c) acks (pu_backlog p') lost" by auto
  with PushLoop_unlog [of net rounds c MonitorPusher w "[]"] show ?thesis
    by (auto simp: push_inv_def rb_items_Drain unlog3_def)
qed

section \<open>Properties\<close>

text \<open>C33: no sample gets lost between collection and acknowledgement while at most 120 are
  waiting. Whatever the network does, the loop never touches memory outside the buffer, and the
  samples collected are exactly those acknowledged, those still waiting (in the order they were
  collected) and those overwritten; of \<open>n\<close> samples at most \<open>n - 120\<close> are overwritten.\<close>

theorem push_loop_no_loss:
  "\<exists>c' p' w' acks lost.
     PushLoop net rounds c MonitorPusher w = Some (c', p', w') \<and>
     PushLoop (logged net) rounds c MonitorPusher (w, []) = Some (c', p', w', acks) \<and>
     mset (run_samples rounds c) = mset acks + mset (fst (Drain (pu_backlog p'))) + mset lost \<and>
     subseq (fst (Drain (pu_backlog p'))) (run_samples rounds c) \<and>
     length lost \<le> length rounds - 120"
  by (rule push_loop_no_loss_aux)

text \<open>The samples of a run carry consecutive numbers that start after the clock value the
  collector was seeded with, so no two samples of one worker share a number, as long as the
  numbers fit in 64 bits.\<close>

theorem sample_numbers:
  assumes "\<forall>monitors \<in> List.set rounds. \<forall>f \<in> List.set monitors. \<forall>m. mo_sequence (f m) = mo_sequence m"
    and "unat epoch_ms + length rounds < 2 ^ 64"
  shows "map (unat \<circ> mo_sequence) (run_samples rounds (MetricCollector host epoch_ms)) =
    [unat epoch_ms + 1..<unat epoch_ms + 1 + length rounds]"
proof -
  have u: "unat (epoch_ms + 1 + of_nat i) = unat epoch_ms + 1 + i" if "i < length rounds" for i
    using assms(2) that unat_of_nat_small [where 'a = 64, of i] unat_add_small [of epoch_ms "of_nat (i + 1)"]
      unat_of_nat_small [where 'a = 64, of "i + 1"] by (simp add: add.assoc)
  have "map (unat \<circ> mo_sequence) (run_samples rounds (MetricCollector host epoch_ms)) =
      map unat (map mo_sequence (run_samples rounds (MetricCollector host epoch_ms)))" by simp
  also have "\<dots> = map (\<lambda>i. unat (epoch_ms + 1 + of_nat i)) [0..<length rounds]"
    unfolding collected_seqs [OF assms(1)] by (simp add: MetricCollector_def o_def)
  also have "\<dots> = map (\<lambda>i. i + (unat epoch_ms + 1)) [0..<length rounds]"
    using u by (intro map_cong) (simp_all add: ac_simps)
  also have "\<dots> = [unat epoch_ms + 1..<unat epoch_ms + 1 + length rounds]"
    by (simp only: map_add_upt) (simp add: ac_simps)
  finally show ?thesis .
qed

theorem sample_numbers_witness:
  "map (unat \<circ> mo_sequence) (run_samples [[], [], []] (MetricCollector None 41)) = [42, 43, 44]"
  using sample_numbers [of "[[], [], []]" 41 None] by (simp add: upt_rec)

end
