(* ===== verification/Scoring.thy ===== *)
theory Scoring
  imports Messages
begin

text \<open>
  Scoring a host and choosing one: \<open>CalcScore\<close>, \<open>GetBestHost\<close> and their helpers in
  \<^verbatim>\<open>manager/src/host_manager.cpp\<close>. The hash tables of the manager are finite maps; the order in
  which they are walked is an argument. Floating point is exact rational arithmetic.
\<close>

section \<open>The score of a sample\<close>

definition clamp01 :: "rat \<Rightarrow> rat" where
  "clamp01 v = (if v < 0 then 0 else if v > 1 then 1 else v)"

definition max_disk_util :: "DiskInfoMsg list \<Rightarrow> rat" where
  "max_disk_util disks = foldl (\<lambda>u d. if di_util_percent d > u then di_util_percent d else u) 0 disks"

text \<open>What the score depends on: processor, memory, load per core, disk, and the network rates of
  the first interface.\<close>

record usage =
  us_cpu :: rat
  us_mem :: rat
  us_load :: rat
  us_cores :: int
  us_disk :: rat
  us_recv :: rat
  us_send :: rat

definition usage_of :: "MonitorInfo \<Rightarrow> usage" where
  "usage_of info =
     \<lparr>us_cpu = (case mo_cpu_stat info of [] \<Rightarrow> 0 | c # _ \<Rightarrow> cm_cpu_percent c),
      us_mem = (case mo_mem_info info of None \<Rightarrow> 0 | Some m \<Rightarrow> mi_used_percent m),
      us_load = (case mo_cpu_load info of None \<Rightarrow> 0 | Some l \<Rightarrow> cl_load_avg_1 l),
      us_cores = (case mo_cpu_stat info of [] \<Rightarrow> 1
        | _ # _ \<Rightarrow> (let n = int (length (mo_cpu_stat info)) - 1 in if n < 1 then 1 else n)),
      us_disk = max_disk_util (mo_disk_info info),
      us_recv = (case mo_net_info info of [] \<Rightarrow> 0 | n # _ \<Rightarrow> ni_rcv_rate n),
      us_send = (case mo_net_info info of [] \<Rightarrow> 0 | n # _ \<Rightarrow> ni_send_rate n)\<rparr>"

definition max_bandwidth :: rat where "max_bandwidth = 125000000"

definition weighted_score :: "usage \<Rightarrow> rat" where
  "weighted_score u =
     (let cpu_score = clamp01 (1 - us_cpu u / 100);
          mem_score = clamp01 (1 - us_mem u / 100);
          load_score = clamp01 (1 - us_load u / (of_int (us_cores u) * (3 / 2)));
          disk_score = clamp01 (1 - us_disk u / 100);
          net_recv_score = clamp01 (1 - us_recv u / max_bandwidth);
          net_send_score = clamp01 (1 - us_send u / max_bandwidth);
          net_score = (net_recv_score + net_send_score) / 2
      in (cpu_score * (35 / 100) + mem_score * (30 / 100) + load_score * (15 / 100) +
          disk_score * (15 / 100) + net_score * (5 / 100)) * 100)"

definition CalcScore :: "MonitorInfo \<Rightarrow> rat" where
  "CalcScore info =
     (let score = weighted_score (usage_of info)
      in if score < 0 then 0 else if score > 100 then 100 else score)"

lemma clamp01_bounds: "0 \<le> clamp01 v" "clamp01 v \<le> 1"
  by (simp_all add: clamp01_def)

lemma clamp01_mono: "v \<le> w \<Longrightarrow> clamp01 v \<le> clamp01 w"
  by (simp add: clamp01_def)

lemma weighted_score_eq:
  "weighted_score u = 35 * clamp01 (1 - us_cpu u / 100) + 30 * clamp01 (1 - us_mem u / 100) +
     15 * clamp01 (1 - us_load u / (of_int (us_cores u) * (3 / 2))) + 15 * clamp01 (1 - us_disk u / 100) +
     5 / 2 * clamp01 (1 - us_recv u / max_bandwidth) + 5 / 2 * clamp01 (1 - us_send u / max_bandwidth)"
  unfolding weighted_score_def Let_def by (simp add: field_simps)

lemma weighted_bounds: "0 \<le> weighted_score u \<and> weighted_score u \<le> 100"
  unfolding weighted_score_eq
  using clamp01_bounds [of "1 - us_cpu u / 100"] clamp01_bounds [of "1 - us_mem u / 100"]
    clamp01_bounds [of "1 - us_load u / (of_int (us_cores u) * (3 / 2))"]
    clamp01_bounds [of "1 - us_disk u / 100"] clamp01_bounds [of "1 - us_recv u / max_bandwidth"]
    clamp01_bounds [of "1 - us_send u / max_bandwidth"]
  by (intro conjI; linarith)

lemma CalcScore_weighted: "CalcScore info = weighted_score (usage_of info)"
  using weighted_bounds [of "usage_of info"] by (simp add: CalcScore_def Let_def)

text \<open>One host is at least as busy as another.\<close>

definition busier :: "usage \<Rightarrow> usage \<Rightarrow> bool" where
  "busier u v \<longleftrightarrow> us_cpu v \<le> us_cpu u \<and> us_mem v \<le> us_mem u \<and> us_disk v \<le> us_disk u \<and>
     us_recv v \<le> us_recv u \<and> us_send v \<le> us_send u \<and>
     us_load v / of_int (us_cores v) \<le> us_load u / of_int (us_cores u)"

lemma load_term:
  assumes "us_load v / of_int (us_cores v) \<le> us_load u / (of_int (us_cores u) :: rat)"
  shows "clamp01 (1 - us_load u / (of_int (us_cores u) * (3 / 2))) \<le>
    clamp01 (1 - us_load v / (of_int (us_cores v) * (3 / 2)))"
proof (rule clamp01_mono)
  have d: "x / (y * (3 / 2)) = x / y / (3 / 2)" for x y :: rat by simp
  show "1 - us_load u / (of_int (us_cores u) * (3 / 2)) \<le> 1 - us_load v / (of_int (us_cores v) * (3 / 2))"
    unfolding d using divide_right_mono [OF assms, of "3 / 2"] by simp
qed



text \<open>The rates of the messages are in kB/s, while the score divides them by the bytes per
  second of a gigabit link. A host whose first interface runs at the full 125000 kB/s in both
  directions scores at most 1/200 of a point (of 100) below the same host with an idle network,
  although the weight of the network is five points.\<close>

theorem net_load_hardly_counts:
  assumes "us_cpu (usage_of a) = us_cpu (usage_of b)" and "us_mem (usage_of a) = us_mem (usage_of b)"
    and "us_load (usage_of a) = us_load (usage_of b)" and "us_cores (usage_of a) = us_cores (usage_of b)"
    and "us_disk (usage_of a) = us_disk (usage_of b)"
    and "us_recv (usage_of a) \<in> {0..125000}" and "us_send (usage_of a) \<in> {0..125000}"
    and "us_recv (usage_of b) = 0" and "us_send (usage_of b) = 0"
  shows "CalcScore b - CalcScore a \<le> 1 / 200"
proof -
  have c: "1 - clamp01 (1 - x / max_bandwidth) \<le> 1 / 1000" if "x \<in> {0..125000}" for x
    using that by (simp add: clamp01_def max_bandwidth_def)
  have "clamp01 (1 - 0 / max_bandwidth) = 1" by (simp add: clamp01_def)
  then show ?thesis
    using c [OF assms(6)] c [OF assms(7)]
    unfolding CalcScore_weighted weighted_score_eq assms(1-5,8,9)
    by simp
qed

theorem net_load_hardly_counts_witness:
  "CalcScore MonitorInfo0 - CalcScore (MonitorInfo0\<lparr>mo_net_info := [\<lparr>ni_name = ''eth0'', ni_send_rate = 125000,
     ni_rcv_rate = 125000, ni_send_packets_rate = 0, ni_rcv_packets_rate = 0\<rparr>]\<rparr>) \<le> 1 / 200"
  by (rule net_load_hardly_counts) (simp_all add: usage_of_def MonitorInfo0_def)

end
