(* ===== verification/HostScheduler.thy ===== *)
theory HostScheduler
  imports Scoring
begin

text \<open>
  Choosing a host by smooth weighted round robin: \<open>GetBestHost\<close> and its helpers in
  \<^verbatim>\<open>manager/src/host_manager.cpp\<close>. The two hash tables are finite maps; the order in which
  \<^verbatim>\<open>host_scores_\<close> is walked is the argument \<open>order\<close>.
\<close>

section \<open>The scheduler\<close>

record HostScore =
  hs_info :: MonitorInfo
  hs_score :: rat
  hs_timestamp :: rat

record ScheduleState =
  ss_base_weight :: rat
  ss_current_weight :: rat

definition ScheduleState0 :: ScheduleState where
  "ScheduleState0 = \<lparr>ss_base_weight = 0, ss_current_weight = 0\<rparr>"

type_synonym scores = "string \<rightharpoonup> HostScore"
type_synonym schedule = "string \<rightharpoonup> ScheduleState"

text \<open>\<^verbatim>\<open>operator[]\<close> of a hash table creates what is missing.\<close>

definition schedule_of :: "schedule \<Rightarrow> string \<Rightarrow> ScheduleState" where
  "schedule_of st host = (case st host of None \<Rightarrow> ScheduleState0 | Some s \<Rightarrow> s)"

definition score_of :: "scores \<Rightarrow> string \<Rightarrow> rat" where
  "score_of scores host = (case scores host of None \<Rightarrow> 0 | Some d \<Rightarrow> hs_score d)"

definition CalcSchedulingWeight :: "rat \<Rightarrow> rat" where
  "CalcSchedulingWeight score = (if score > 0 then score else 0)"

text \<open>\<open>best\<close> is \<open>None\<close> for minus infinity.\<close>

fun best_loop :: "scores \<Rightarrow> string list \<Rightarrow> schedule \<Rightarrow> rat \<Rightarrow> rat option \<Rightarrow> string \<Rightarrow>
    schedule \<times> rat \<times> rat option \<times> string" where
  "best_loop scores [] st total_weight best best_host = (st, total_weight, best, best_host)"
| "best_loop scores (host # hosts) st total_weight best best_host =
     (let s0 = schedule_of st host;
          s1 = (if ss_base_weight s0 \<le> 0
                then s0\<lparr>ss_base_weight := CalcSchedulingWeight (score_of scores host)\<rparr> else s0)
      in if ss_base_weight s1 \<le> 0
         then best_loop scores hosts (st(host \<mapsto> s1)) total_weight best best_host
         else let s2 = s1\<lparr>ss_current_weight := ss_current_weight s1 + ss_base_weight s1\<rparr>;
                  total' = total_weight + ss_base_weight s1;
                  better = (case best of None \<Rightarrow> True | Some b \<Rightarrow> ss_current_weight s2 > b)
              in best_loop scores hosts (st(host \<mapsto> s2)) total'
                   (if better then Some (ss_current_weight s2) else best)
                   (if better then host else best_host))"

fun highest_loop :: "scores \<Rightarrow> string list \<Rightarrow> rat \<Rightarrow> string \<Rightarrow> string" where
  "highest_loop scores [] best_score best_host = best_host"
| "highest_loop scores (host # hosts) best_score best_host =
     (if score_of scores host > best_score
      then highest_loop scores hosts (score_of scores host) host
      else highest_loop scores hosts best_score best_host)"

definition SelectHighestScoreHostLocked :: "scores \<Rightarrow> string list \<Rightarrow> string" where
  "SelectHighestScoreHostLocked scores order = highest_loop scores order (- 1) []"

definition GetBestHost :: "scores \<Rightarrow> string list \<Rightarrow> schedule \<Rightarrow> string \<times> schedule" where
  "GetBestHost scores order st =
     (if order = [] then ([], st)
      else case best_loop scores order st 0 None [] of
        (st', total_weight, best, best_host) \<Rightarrow>
          if best_host = [] \<or> total_weight \<le> 0
          then (SelectHighestScoreHostLocked scores order, st')
          else (best_host, st'(best_host \<mapsto> (schedule_of st' best_host)\<lparr>ss_current_weight :=
                  ss_current_weight (schedule_of st' best_host) - total_weight\<rparr>)))"

text \<open>Several choices in a row, each with its own walking order.\<close>

fun picks :: "scores \<Rightarrow> string list list \<Rightarrow> schedule \<Rightarrow> string list \<times> schedule" where
  "picks scores [] st = ([], st)"
| "picks scores (order # orders) st =
     (let (host, st1) = GetBestHost scores order st; (hosts, st2) = picks scores orders st1
      in (host # hosts, st2))"

section \<open>One choice\<close>

text \<open>The hosts \<open>H\<close> have positive weights \<open>w\<close> and current weights \<open>c\<close>.\<close>

definition balanced :: "string set \<Rightarrow> (string \<Rightarrow> rat) \<Rightarrow> (string \<Rightarrow> rat) \<Rightarrow> schedule \<Rightarrow> bool" where
  "balanced H w c st \<longleftrightarrow>
     (\<forall>h\<in>H. 0 < w h \<and> st h = Some \<lparr>ss_base_weight = w h, ss_current_weight = c h\<rparr>)"

definition walked :: "(string \<Rightarrow> rat) \<Rightarrow> (string \<Rightarrow> rat) \<Rightarrow> string list \<Rightarrow> schedule \<Rightarrow> rat \<Rightarrow> rat option \<Rightarrow>
    string \<Rightarrow> schedule \<times> rat \<times> rat option \<times> string \<Rightarrow> bool" where
  "walked w c hosts st tw best bh r \<longleftrightarrow>
     (case r of (st', tw', best', bh') \<Rightarrow>
        st' = (\<lambda>h. if h \<in> List.set hosts then Some \<lparr>ss_base_weight = w h, ss_current_weight = c h + w h\<rparr> else st h) \<and>
        tw' = tw + sum_list (map w hosts) \<and>
        (best' = best \<and> bh' = bh \<or> bh' \<in> List.set hosts \<and> best' = Some (c bh' + w bh')) \<and>
        (\<forall>h \<in> List.set hosts. \<exists>b. best' = Some b \<and> c h + w h \<le> b) \<and>
        (\<forall>b. best = Some b \<longrightarrow> (\<exists>b'. best' = Some b' \<and> b \<le> b')))"

lemma best_loop_walk:
  assumes "balanced (List.set hosts) w c st" and "distinct hosts"
  shows "walked w c hosts st tw best bh (best_loop scores hosts st tw best bh)"
  using assms
proof (induction hosts arbitrary: st tw best bh)
  case Nil
  then show ?case by (simp add: walked_def)
next
  case (Cons x hosts)
  let ?s = "\<lparr>ss_base_weight = w x, ss_current_weight = c x + w x\<rparr>"
  define better where "better = (case best of None \<Rightarrow> True | Some b \<Rightarrow> c x + w x > b)"
  let ?best = "if better then Some (c x + w x) else best" and ?bh = "if better then x else bh"
  from Cons.prems(1) have s: "schedule_of st x = \<lparr>ss_base_weight = w x, ss_current_weight = c x\<rparr>" "\<not> w x \<le> 0"
    by (simp_all add: balanced_def schedule_of_def)
  have run: "best_loop scores (x # hosts) st tw best bh =
      best_loop scores hosts (st(x \<mapsto> ?s)) (tw + w x) ?best ?bh"
    using s by (cases best) (simp_all add: Let_def better_def)
  have bal: "balanced (List.set hosts) w c (st(x \<mapsto> ?s))" and dis: "distinct hosts" and x: "x \<notin> List.set hosts"
    using Cons.prems by (auto simp: balanced_def)
  obtain st' tw' best' bh' where r: "best_loop scores hosts (st(x \<mapsto> ?s)) (tw + w x) ?best ?bh = (st', tw', best', bh')"
    by (cases "best_loop scores hosts (st(x \<mapsto> ?s)) (tw + w x) ?best ?bh") auto
  have "walked w c hosts (st(x \<mapsto> ?s)) (tw + w x) ?best ?bh (st', tw', best', bh')"
    using Cons.IH [OF bal dis] r by metis
  then have IH: "st' = (\<lambda>h. if h \<in> List.set hosts then Some \<lparr>ss_base_weight = w h, ss_current_weight = c h + w h\<rparr>
        else (st(x \<mapsto> ?s)) h)"
      "tw' = tw + w x + sum_list (map w hosts)"
      "best' = ?best \<and> bh' = ?bh \<or> bh' \<in> List.set hosts \<and> best' = Some (c bh' + w bh')"
      "\<forall>h \<in> List.set hosts. \<exists>b. best' = Some b \<and> c h + w h \<le> b"
      "\<forall>b. ?best = Some b \<longrightarrow> (\<exists>b'. best' = Some b' \<and> b \<le> b')"
    unfolding walked_def by simp_all
  have "st' = (\<lambda>h. if h \<in> List.set (x # hosts) then Some \<lparr>ss_base_weight = w h, ss_current_weight = c h + w h\<rparr> else st h)"
    unfolding IH(1) using x by (auto simp: fun_eq_iff)
  moreover have "\<exists>b. best' = Some b \<and> c x + w x \<le> b"
  proof (cases better)
    case True
    with IH(5) show ?thesis by simp
  next
    case False
    then obtain b where "best = Some b" "c x + w x \<le> b"
      by (auto simp: better_def not_less split: option.splits)
    with False IH(5) show ?thesis by (auto intro: order_trans)
  qed
  moreover have "\<exists>b'. best' = Some b' \<and> b \<le> b'" if "best = Some b" for b
    using that IH(5) by (auto simp: better_def split: if_splits)
  moreover have "best' = best \<and> bh' = bh \<or> bh' \<in> List.set (x # hosts) \<and> best' = Some (c bh' + w bh')"
    using IH(3) by (auto split: if_splits)
  ultimately show ?case
    using IH(2,4) unfolding walked_def run r by (simp add: add.assoc)
qed

definition after_pick :: "string set \<Rightarrow> (string \<Rightarrow> rat) \<Rightarrow> (string \<Rightarrow> rat) \<Rightarrow> string \<Rightarrow> string \<Rightarrow> rat" where
  "after_pick H w c p h = c h + w h - (if h = p then sum w H else 0)"

lemma GetBestHost_step:
  assumes bal: "balanced H w c st" and ord: "distinct order" "List.set order = H" and H: "H \<noteq> {}" "[] \<notin> H"
  shows "\<exists>p \<in> H. \<exists>st'. GetBestHost scores order st = (p, st') \<and> balanced H w (after_pick H w c p) st' \<and>
    (\<forall>h \<in> H. c h + w h \<le> c p + w p)"
proof -
  obtain st1 tw best p where r: "best_loop scores order st 0 None [] = (st1, tw, best, p)"
    by (cases "best_loop scores order st 0 None []") auto
  have "walked w c order st 0 None [] (st1, tw, best, p)"
    using best_loop_walk [where hosts = order and scores = scores and tw = 0 and best = None and bh = "[]"]
      bal ord r by metis
  then have st1: "st1 = (\<lambda>h. if h \<in> H then Some \<lparr>ss_base_weight = w h, ss_current_weight = c h + w h\<rparr> else st h)"
    and tw: "tw = sum_list (map w order)"
    and pb: "best = None \<and> p = [] \<or> p \<in> H \<and> best = Some (c p + w p)"
    and mx: "\<forall>h \<in> H. \<exists>b. best = Some b \<and> c h + w h \<le> b"
    unfolding walked_def ord(2) by simp_all
  from mx H(1) pb have p: "p \<in> H" "best = Some (c p + w p)" by auto
  have W: "tw = sum w H" unfolding tw using sum_list_distinct_conv_sum_set [OF ord(1), of w] ord(2) by simp
  have "finite H" using ord(2) by auto
  then have pos: "0 < sum w H" using H(1) bal by (intro sum_pos) (auto simp: balanced_def)
  have ne: "order \<noteq> []" "p \<noteq> []" using ord(2) H p(1) by auto
  define st' where "st' = st1(p \<mapsto> \<lparr>ss_base_weight = w p, ss_current_weight = c p + w p - sum w H\<rparr>)"
  have "schedule_of st1 p = \<lparr>ss_base_weight = w p, ss_current_weight = c p + w p\<rparr>"
    using p(1) by (simp add: st1 schedule_of_def)
  then have "GetBestHost scores order st = (p, st')"
    using ne pos by (simp add: GetBestHost_def r W st'_def)
  moreover have "balanced H w (after_pick H w c p) st'"
    using bal by (auto simp: balanced_def st'_def st1 after_pick_def)
  ultimately show ?thesis using mx p by auto
qed

section \<open>Many choices\<close>

text \<open>The invariant of a fair run: the current weights are what the hosts are owed, they add up to
  zero and no host has been served a whole round too often.\<close>

definition fair_state :: "string set \<Rightarrow> (string \<Rightarrow> rat) \<Rightarrow> (string \<Rightarrow> rat) \<Rightarrow> bool" where
  "fair_state H w c \<longleftrightarrow> sum c H = 0 \<and> (\<forall>h \<in> H. - sum w H < c h)"

lemma fair_step:
  assumes f: "fair_state H w c" and w: "\<forall>h \<in> H. 0 < w h" and fin: "finite H" and p: "p \<in> H"
    and mx: "\<forall>h \<in> H. c h + w h \<le> c p + w p"
  shows "fair_state H w (after_pick H w c p)"
proof -
  let ?W = "sum w H"
  have W: "0 < ?W" using w fin p by (intro sum_pos) auto
  have "(\<Sum>h\<in>H. if h = p then ?W else 0) = ?W" using fin p by simp
  then have s: "sum (after_pick H w c p) H = sum c H"
    by (simp add: after_pick_def sum.distrib sum_subtractf)
  have "0 < c p + w p"
  proof (rule ccontr)
    assume "\<not> 0 < c p + w p"
    with mx have "\<forall>h \<in> H. c h + w h \<le> 0" by force
    then have "(\<Sum>h\<in>H. c h + w h) \<le> 0" by (intro sum_nonpos) auto
    moreover have "(\<Sum>h\<in>H. c h + w h) = ?W" using f by (simp add: sum.distrib fair_state_def)
    ultimately show False using W by simp
  qed
  moreover have "- ?W < c h + w h" if "h \<in> H" for h
    using f w that by (fastforce simp: fair_state_def)
  ultimately have "\<forall>h \<in> H. - ?W < after_pick H w c p h" by (simp add: after_pick_def)
  with s f show ?thesis by (simp add: fair_state_def)
qed

lemma picks_fair:
  assumes "balanced H w c st" and "fair_state H w c" and "H \<noteq> {}" and "[] \<notin> H"
    and "\<forall>order \<in> List.set orders. distinct order \<and> List.set order = H"
  shows "\<exists>hosts st' c'. picks scores orders st = (hosts, st') \<and> length hosts = length orders \<and>
    List.set hosts \<subseteq> H \<and> balanced H w c' st' \<and> fair_state H w c' \<and>
    (\<forall>h \<in> H. c' h = c h + of_nat (length orders) * w h - of_nat (count_list hosts h) * sum w H)"
  using assms
proof (induction orders arbitrary: c st)
  case Nil
  then show ?case by auto
next
  case (Cons order orders)
  from Cons.prems(5) have ord: "distinct order" "List.set order = H" by simp_all
  from GetBestHost_step [OF Cons.prems(1) ord Cons.prems(3,4), of scores] obtain p st1 where
    p: "p \<in> H" "GetBestHost scores order st = (p, st1)" "balanced H w (after_pick H w c p) st1"
      "\<forall>h \<in> H. c h + w h \<le> c p + w p" by blast
  have fin: "finite H" using ord(2) by auto
  have w: "\<forall>h \<in> H. 0 < w h" using Cons.prems(1) by (simp add: balanced_def)
  note fs = fair_step [OF Cons.prems(2) w fin p(1,4)]
  from Cons.prems(5) have rest: "\<forall>order \<in> List.set orders. distinct order \<and> List.set order = H" by simp
  from Cons.IH [OF p(3) fs Cons.prems(3,4) rest] obtain hosts st' c' where
    r: "picks scores orders st1 = (hosts, st')" "length hosts = length orders" "List.set hosts \<subseteq> H"
      "balanced H w c' st'" "fair_state H w c'"
      "\<forall>h \<in> H. c' h = after_pick H w c p h + of_nat (length orders) * w h - of_nat (count_list hosts h) * sum w H"
    by blast
  have run: "picks scores (order # orders) st = (p # hosts, st')" by (simp add: p(2) r(1))
  have "\<forall>h \<in> H. c' h = c h + of_nat (length (order # orders)) * w h -
      of_nat (count_list (p # hosts) h) * sum w H"
    using r(6) by (auto simp: after_pick_def algebra_simps)
  moreover have "List.set (p # hosts) \<subseteq> H" using p(1) r(3) by simp
  moreover have "length (p # hosts) = length (order # orders)" using r(2) by simp
  ultimately show ?case using run r(4,5) by blast
qed

section \<open>Properties\<close>

text \<open>C26: the choice is fair. With \<open>k\<close> hosts of positive weights (the current weights starting at
  zero), after any number of choices in any walking orders each host has been chosen its share of
  the times, up to less than one choice too many and at most \<open>k - 1\<close> too few: no host is starved
  and none gets all the load.\<close>

theorem best_host_fair:
  assumes "balanced H w (\<lambda>_. 0) st" and "H \<noteq> {}" and "[] \<notin> H"
    and "\<forall>order \<in> List.set orders. distinct order \<and> List.set order = H"
    and "picks scores orders st = (hosts, st')" and "h \<in> H" and "finite H"
  shows "of_nat (count_list hosts h) < of_nat (length orders) * w h / sum w H + 1 \<and>
    of_nat (length orders) * w h / sum w H - of_nat (card H - 1) \<le> of_nat (count_list hosts h) \<and>
    length hosts = length orders \<and> List.set hosts \<subseteq> H"
proof -
  let ?W = "sum w H" and ?n = "of_nat (length orders) :: rat" and ?k = "of_nat (count_list hosts h) :: rat"
  have w: "\<forall>h \<in> H. 0 < w h" using assms(1) by (simp add: balanced_def)
  then have W: "0 < ?W" using assms(6,7) by (intro sum_pos) auto
  have f0: "fair_state H w (\<lambda>_. 0)" using W by (simp add: fair_state_def)
  from picks_fair [OF assms(1) f0 assms(2-4), of scores] assms(5) obtain c' where
    c': "fair_state H w c'" "c' h = ?n * w h - ?k * ?W"
    and hs: "length hosts = length orders" "List.set hosts \<subseteq> H" using assms(6) by auto
  from c'(1) have lo: "\<forall>h \<in> H. - ?W < c' h" and s0: "sum c' H = 0" by (simp_all add: fair_state_def)
  have "sum c' H = c' h + sum c' (H - {h})" using assms(6,7) by (simp add: sum.remove)
  moreover have "sum (\<lambda>_. - ?W) (H - {h}) \<le> sum c' (H - {h})"
    using lo by (intro sum_mono) (simp add: less_imp_le)
  moreover have "card (H - {h}) = card H - 1" using assms(6,7) by simp
  then have "sum (\<lambda>_. - ?W) (H - {h}) = - (of_nat (card H - 1) * ?W)" by simp
  ultimately have up: "c' h \<le> of_nat (card H - 1) * ?W" using s0 by linarith
  have "?k * ?W < ?n * w h + ?W" using lo assms(6) c'(2) by force
  then have "?k < (?n * w h + ?W) / ?W" using W by (simp add: pos_less_divide_eq)
  moreover have "(?n * w h + ?W) / ?W = ?n * w h / ?W + 1" using W by (simp add: add_divide_distrib)
  moreover have "?n * w h - of_nat (card H - 1) * ?W \<le> ?k * ?W" using up c'(2) by simp
  then have "(?n * w h - of_nat (card H - 1) * ?W) / ?W \<le> ?k" using W by (simp add: pos_divide_le_eq)
  moreover have "(?n * w h - of_nat (card H - 1) * ?W) / ?W = ?n * w h / ?W - of_nat (card H - 1)"
    using W by (simp add: diff_divide_distrib)
  ultimately show ?thesis using hs by simp
qed

definition demo_schedule :: schedule where
  "demo_schedule = [''a'' \<mapsto> \<lparr>ss_base_weight = 5, ss_current_weight = 0\<rparr>,
     ''b'' \<mapsto> \<lparr>ss_base_weight = 1, ss_current_weight = 0\<rparr>]"

theorem best_host_fair_witness:
  "of_nat (count_list (fst (picks Map.empty [[''a'', ''b''], [''b'', ''a'']] demo_schedule)) ''b'') <
   (2 * 1 / 6 + 1 :: rat)"
proof -
  let ?w = "\<lambda>h. if h = ''a'' then 5 else (1 :: rat)" and ?os = "[[''a'', ''b''], [''b'', ''a'']]"
  obtain hosts st' where r: "picks Map.empty ?os demo_schedule = (hosts, st')" by fastforce
  have "balanced {''a'', ''b''} ?w (\<lambda>_. 0) demo_schedule" by (simp add: balanced_def demo_schedule_def)
  from best_host_fair [OF this _ _ _ r, of "''b''"] show ?thesis
    unfolding r by (simp add: insert_commute del: picks.simps)
qed

end
