(* ===== verification/HostManager.thy ===== *)
theory HostManager
  imports HostScheduler "HOL-Library.List_Lexorder" "HOL-Library.Char_ord"
begin

text \<open>
  The state of the manager and what changes it, \<^verbatim>\<open>manager/src/host_manager.cpp\<close> and
  \<^verbatim>\<open>manager/src/rpc/grpc_server.cpp\<close>: receiving a sample (\<open>OnDataReceived\<close>), removing hosts that
  stopped reporting (\<open>ProcessLoop\<close>), choosing a host. Hash tables are finite maps, output is left
  out, time is a rational number of seconds.
\<close>

section \<open>State\<close>

record PerfSample =
  ps_cpu_percent :: rat
  ps_usr_percent :: rat
  ps_system_percent :: rat
  ps_nice_percent :: rat
  ps_idle_percent :: rat
  ps_io_wait_percent :: rat
  ps_irq_percent :: rat
  ps_soft_irq_percent :: rat
  ps_steal_percent :: rat
  ps_guest_percent :: rat
  ps_guest_nice_percent :: rat
  ps_load_avg_1 :: rat
  ps_load_avg_3 :: rat
  ps_load_avg_15 :: rat
  ps_mem_used_percent :: rat
  ps_mem_total :: rat
  ps_mem_free :: rat
  ps_mem_avail :: rat
  ps_disk_util_percent :: rat
  ps_net_in_rate :: rat
  ps_net_out_rate :: rat
  ps_score :: rat

definition PerfSample0 :: PerfSample where
  "PerfSample0 = \<lparr>ps_cpu_percent = 0, ps_usr_percent = 0, ps_system_percent = 0, ps_nice_percent = 0,
     ps_idle_percent = 0, ps_io_wait_percent = 0, ps_irq_percent = 0, ps_soft_irq_percent = 0,
     ps_steal_percent = 0, ps_guest_percent = 0, ps_guest_nice_percent = 0,
     ps_load_avg_1 = 0, ps_load_avg_3 = 0, ps_load_avg_15 = 0, ps_mem_used_percent = 0,
     ps_mem_total = 0, ps_mem_free = 0, ps_mem_avail = 0, ps_disk_util_percent = 0,
     ps_net_in_rate = 0, ps_net_out_rate = 0, ps_score = 0\<rparr>"

record MysqlWriteTask =
  tk_host_name :: string
  tk_host_score :: HostScore
  tk_sequence :: u64
  tk_cpu_percent_rate :: rat
  tk_load_avg_1_rate :: rat
  tk_mem_used_percent_rate :: rat
  tk_disk_util_percent_rate :: rat
  tk_net_in_rate_rate :: rat
  tk_net_out_rate_rate :: rat

record manager =
  mg_host_scores :: scores
  mg_schedule_states :: schedule
  mg_last_sequences :: "string \<rightharpoonup> u64"
  mg_last_perf_samples :: "string \<rightharpoonup> PerfSample"
  mg_mysql_write_queue :: "MysqlWriteTask list"
  mg_running :: bool

definition HostManager_init :: manager where
  "HostManager_init = \<lparr>mg_host_scores = Map.empty, mg_schedule_states = Map.empty, mg_last_sequences = Map.empty,
     mg_last_perf_samples = Map.empty, mg_mysql_write_queue = [], mg_running = False\<rparr>"

definition mgr_Start :: "manager \<Rightarrow> manager" where
  "mgr_Start m = (if mg_running m then m else m\<lparr>mg_running := True\<rparr>)"

definition mgr_Stop :: "manager \<Rightarrow> manager" where
  "mgr_Stop m = (if \<not> mg_running m then m else m\<lparr>mg_running := False\<rparr>)"

section \<open>Receiving a sample\<close>

text \<open>Under which name a host is known; empty when the message does not identify it.\<close>

definition server_id :: "MonitorInfo \<Rightarrow> string" where
  "server_id info =
     (let host_name =
        (case mo_host_info info of
           None \<Rightarrow> []
         | Some host_info \<Rightarrow>
             let hostname = hi_hostname host_info; ip = hi_ip_address host_info
             in if hostname \<noteq> [] \<and> ip \<noteq> [] then hostname @ ''_'' @ ip
                else if hostname \<noteq> [] then hostname
                else if ip \<noteq> [] then ip else [])
      in if host_name = [] then mo_name info else host_name)"

definition perf_sample :: "MonitorInfo \<Rightarrow> rat \<Rightarrow> PerfSample" where
  "perf_sample info score =
     (let c0 = PerfSample0;
          c1 = (case mo_cpu_stat info of [] \<Rightarrow> c0
                | cpu # _ \<Rightarrow> c0\<lparr>ps_cpu_percent := cm_cpu_percent cpu, ps_usr_percent := cm_usr_percent cpu,
                    ps_system_percent := cm_system_percent cpu, ps_nice_percent := cm_nice_percent cpu,
                    ps_idle_percent := cm_idle_percent cpu, ps_io_wait_percent := cm_io_wait_percent cpu,
                    ps_irq_percent := cm_irq_percent cpu, ps_soft_irq_percent := cm_soft_irq_percent cpu\<rparr>);
          c2 = (case mo_cpu_load info of None \<Rightarrow> c1
                | Some l \<Rightarrow> c1\<lparr>ps_load_avg_1 := cl_load_avg_1 l, ps_load_avg_3 := cl_load_avg_3 l,
                    ps_load_avg_15 := cl_load_avg_15 l\<rparr>);
          c3 = (case mo_mem_info info of None \<Rightarrow> c2
                | Some mem \<Rightarrow> c2\<lparr>ps_mem_used_percent := mi_used_percent mem, ps_mem_total := mi_total mem,
                    ps_mem_free := mi_free mem, ps_mem_avail := mi_avail mem\<rparr>)
      in c3\<lparr>ps_disk_util_percent := max_disk_util (mo_disk_info info),
            ps_net_in_rate := sum_list (map ni_rcv_rate (mo_net_info info)),
            ps_net_out_rate := sum_list (map ni_send_rate (mo_net_info info)),
            ps_score := score\<rparr>)"

definition change_rate :: "rat \<Rightarrow> rat \<Rightarrow> rat" where
  "change_rate now_val last_val = (if last_val = 0 then 0 else (now_val - last_val) / last_val)"

definition make_task :: "string \<Rightarrow> HostScore \<Rightarrow> u64 \<Rightarrow> PerfSample \<Rightarrow> PerfSample \<Rightarrow> MysqlWriteTask" where
  "make_task host_name host_score seq cs ls =
     \<lparr>tk_host_name = host_name, tk_host_score = host_score, tk_sequence = seq,
      tk_cpu_percent_rate = change_rate (ps_cpu_percent cs) (ps_cpu_percent ls),
      tk_load_avg_1_rate = change_rate (ps_load_avg_1 cs) (ps_load_avg_1 ls),
      tk_mem_used_percent_rate = change_rate (ps_mem_used_percent cs) (ps_mem_used_percent ls),
      tk_disk_util_percent_rate = change_rate (ps_disk_util_percent cs) (ps_disk_util_percent ls),
      tk_net_in_rate_rate = change_rate (ps_net_in_rate cs) (ps_net_in_rate ls),
      tk_net_out_rate_rate = change_rate (ps_net_out_rate cs) (ps_net_out_rate ls)\<rparr>"

definition kScheduleWeightSmoothing :: rat where "kScheduleWeightSmoothing = 3 / 10"

definition update_weight :: "rat \<Rightarrow> ScheduleState \<Rightarrow> ScheduleState" where
  "update_weight score state =
     (let new_weight = CalcSchedulingWeight score
      in if new_weight \<le> 0 then state\<lparr>ss_base_weight := 0, ss_current_weight := 0\<rparr>
         else if ss_base_weight state \<le> 0 then state\<lparr>ss_base_weight := new_weight\<rparr>
         else state\<lparr>ss_base_weight := ss_base_weight state * (1 - kScheduleWeightSmoothing) +
                new_weight * kScheduleWeightSmoothing\<rparr>)"

definition EnqueueMysqlWrite :: "MysqlWriteTask \<Rightarrow> manager \<Rightarrow> manager" where
  "EnqueueMysqlWrite task m = m\<lparr>mg_mysql_write_queue := mg_mysql_write_queue m @ [task]\<rparr>"

text \<open>The first critical section: whether the sample is a retransmission of the last one.\<close>

definition check_duplicate :: "string \<Rightarrow> u64 \<Rightarrow> manager \<Rightarrow> bool \<times> manager" where
  "check_duplicate host_name seq m =
     (if seq > 0 \<and> mg_last_sequences m host_name = Some seq then (True, m)
      else (False, if seq > 0 then m\<lparr>mg_last_sequences := (mg_last_sequences m)(host_name \<mapsto> seq)\<rparr> else m))"

text \<open>The second one: the new score and the smoothed weight of the host.\<close>

definition store_score :: "string \<Rightarrow> HostScore \<Rightarrow> manager \<Rightarrow> manager" where
  "store_score host_name host_score m =
     m\<lparr>mg_host_scores := (mg_host_scores m)(host_name \<mapsto> host_score),
       mg_schedule_states := (mg_schedule_states m)(host_name \<mapsto>
         update_weight (hs_score host_score) (schedule_of (mg_schedule_states m) host_name))\<rparr>"

definition mgr_GetBestHost :: "string list \<Rightarrow> manager \<Rightarrow> string \<times> manager" where
  "mgr_GetBestHost order m =
     (let (host, st) = GetBestHost (mg_host_scores m) order (mg_schedule_states m)
      in (host, m\<lparr>mg_schedule_states := st\<rparr>))"

text \<open>\<open>walk\<close> gives the order in which a hash table with given keys is walked.\<close>

definition OnDataReceived :: "(string set \<Rightarrow> string list) \<Rightarrow> rat \<Rightarrow> MonitorInfo \<Rightarrow> manager \<Rightarrow> manager" where
  "OnDataReceived walk now info m =
     (let host_name = server_id info
      in if host_name = [] then m
         else case check_duplicate host_name (mo_sequence info) m of
           (True, m1) \<Rightarrow> m1
         | (False, m1) \<Rightarrow>
             let score = CalcScore info;
                 cs = perf_sample info score;
                 ls = (case mg_last_perf_samples m1 host_name of None \<Rightarrow> PerfSample0 | Some p \<Rightarrow> p);
                 m2 = m1\<lparr>mg_last_perf_samples := (mg_last_perf_samples m1)(host_name \<mapsto> cs)\<rparr>;
                 host_score = \<lparr>hs_info = info, hs_score = score, hs_timestamp = now\<rparr>;
                 m3 = store_score host_name host_score m2;
                 (best_host, m4) = mgr_GetBestHost (walk (dom (mg_host_scores m3))) m3
             in EnqueueMysqlWrite (make_task host_name host_score (mo_sequence info) cs ls) m4)"

section \<open>Removing silent hosts\<close>

definition kHostExpireWindow :: rat where "kHostExpireWindow = 60"

definition stale :: "rat \<Rightarrow> manager \<Rightarrow> string \<Rightarrow> bool" where
  "stale now m host =
     (case mg_host_scores m host of None \<Rightarrow> False | Some d \<Rightarrow> now - hs_timestamp d > kHostExpireWindow)"

text \<open>One round of the cleanup thread.\<close>

definition cleanup :: "rat \<Rightarrow> manager \<Rightarrow> manager" where
  "cleanup now m =
     m\<lparr>mg_host_scores := (\<lambda>h. if stale now m h then None else mg_host_scores m h),
       mg_schedule_states := (\<lambda>h. if stale now m h then None else mg_schedule_states m h),
       mg_last_sequences := (\<lambda>h. if stale now m h then None else mg_last_sequences m h)\<rparr>"

section \<open>The receiving service\<close>

record HostData =
  hd_info :: MonitorInfo
  hd_timestamp :: rat

datatype status = OK | INVALID_ARGUMENT | UNAVAILABLE | INTERNAL

record service =
  sv_host_data :: "string \<rightharpoonup> HostData"
  sv_manager :: manager

definition SetMonitorInfo :: "(string set \<Rightarrow> string list) \<Rightarrow> rat \<Rightarrow> MonitorInfo option \<Rightarrow> service \<Rightarrow> status \<times> service" where
  "SetMonitorInfo walk now request s =
     (case request of
        None \<Rightarrow> (INVALID_ARGUMENT, s)
      | Some info \<Rightarrow>
          let hostname = (if mo_name info = []
                then (case mo_host_info info of None \<Rightarrow> [] | Some h \<Rightarrow> hi_hostname h) else mo_name info)
          in if hostname = [] then (INVALID_ARGUMENT, s)
             else (OK, s\<lparr>sv_host_data := (sv_host_data s)(hostname \<mapsto> \<lparr>hd_info = info, hd_timestamp = now\<rparr>),
                         sv_manager := OnDataReceived walk now info (sv_manager s)\<rparr>))"

definition GetHostData :: "string \<Rightarrow> service \<Rightarrow> HostData option" where
  "GetHostData hostname s = sv_host_data s hostname"

section \<open>What every operation keeps\<close>

definition walk_ok :: "(string set \<Rightarrow> string list) \<Rightarrow> bool" where
  "walk_ok walk \<longleftrightarrow> (\<forall>D. finite D \<longrightarrow> distinct (walk D) \<and> List.set (walk D) = D)"

text \<open>The tables hold the same hosts, scores and weights are between 0 and 100, and no sample is from
  the future.\<close>

definition mgr_inv :: "rat \<Rightarrow> manager \<Rightarrow> bool" where
  "mgr_inv now m \<longleftrightarrow> finite (dom (mg_host_scores m)) \<and> [] \<notin> dom (mg_host_scores m) \<and>
     dom (mg_schedule_states m) = dom (mg_host_scores m) \<and>
     dom (mg_last_sequences m) \<subseteq> dom (mg_host_scores m) \<and>
     (\<forall>h d. mg_host_scores m h = Some d \<longrightarrow> 0 \<le> hs_score d \<and> hs_score d \<le> 100 \<and> hs_timestamp d \<le> now) \<and>
     (\<forall>h s. mg_schedule_states m h = Some s \<longrightarrow> 0 \<le> ss_base_weight s \<and> ss_base_weight s \<le> 100)"

definition weights_ok :: "schedule \<Rightarrow> bool" where
  "weights_ok st \<longleftrightarrow> (\<forall>h s. st h = Some s \<longrightarrow> 0 \<le> ss_base_weight s \<and> ss_base_weight s \<le> 100)"

lemma weights_schedule_of: "weights_ok st \<Longrightarrow> 0 \<le> ss_base_weight (schedule_of st h) \<and> ss_base_weight (schedule_of st h) \<le> 100"
  by (auto simp: weights_ok_def schedule_of_def ScheduleState0_def split: option.split)

lemma best_loop_tables:
  assumes "best_loop scores hosts st tw best bh = (st', tw', best', bh')"
    and "weights_ok st" and "\<forall>h d. scores h = Some d \<longrightarrow> 0 \<le> hs_score d \<and> hs_score d \<le> 100"
  shows "dom st' = dom st \<union> List.set hosts \<and> weights_ok st' \<and> (bh' = bh \<or> bh' \<in> List.set hosts)"
  using assms
proof (induction hosts arbitrary: st tw best bh)
  case (Cons x hosts)
  define s0 where "s0 = schedule_of st x"
  define s1 where "s1 = (if ss_base_weight s0 \<le> 0
    then s0\<lparr>ss_base_weight := CalcSchedulingWeight (score_of scores x)\<rparr> else s0)"
  have sc: "0 \<le> score_of scores x \<and> score_of scores x \<le> 100"
    using Cons.prems(3) by (auto simp: score_of_def split: option.split)
  have w1: "0 \<le> ss_base_weight s1 \<and> ss_base_weight s1 \<le> 100"
    using sc weights_schedule_of [OF Cons.prems(2), of x]
    by (simp add: s1_def s0_def CalcSchedulingWeight_def)
  define s2 where "s2 = s1\<lparr>ss_current_weight := ss_current_weight s1 + ss_base_weight s1\<rparr>"
  have upd: "weights_ok (st(x \<mapsto> s1))" "weights_ok (st(x \<mapsto> s2))"
    using Cons.prems(2) w1 by (simp_all add: weights_ok_def s2_def)
  note run = Cons.prems(1) [unfolded best_loop.simps Let_def, folded s0_def, folded s1_def, folded s2_def]
  show ?case
  proof (cases "ss_base_weight s1 \<le> 0")
    case True
    with run have "best_loop scores hosts (st(x \<mapsto> s1)) tw best bh = (st', tw', best', bh')" by simp
    from Cons.IH [OF this upd(1) Cons.prems(3)] show ?thesis by auto
  next
    case False
    with run obtain b1 h1 where "best_loop scores hosts (st(x \<mapsto> s2)) (tw + ss_base_weight s1) b1 h1 = (st', tw', best', bh')"
      and "h1 = x \<or> h1 = bh" by (auto split: if_splits)
    with Cons.IH [OF this(1) upd(2) Cons.prems(3)] show ?thesis by auto
  qed
qed simp

lemma highest_in: "highest_loop scores hosts b bh = bh \<or> highest_loop scores hosts b bh \<in> List.set hosts"
  by (induction hosts arbitrary: b bh) auto

lemma highest_some:
  assumes "hosts \<noteq> []" and "\<forall>h \<in> List.set hosts. score_of scores h > b"
  shows "highest_loop scores hosts b bh \<in> List.set hosts"
proof (cases hosts)
  case (Cons x xs)
  then show ?thesis using assms(2) highest_in [of scores xs "score_of scores x" x] by auto
qed (use assms(1) in simp)

lemma GetBestHost_tables:
  assumes "GetBestHost scores order st = (host, st')" and "weights_ok st" and "[] \<notin> List.set order"
    and "\<forall>h d. scores h = Some d \<longrightarrow> 0 \<le> hs_score d \<and> hs_score d \<le> 100"
  shows "dom st' = dom st \<union> List.set order \<and> weights_ok st' \<and> (order \<noteq> [] \<longrightarrow> host \<in> List.set order)"
proof (cases "order = []")
  case True
  with assms(1,2) show ?thesis by (simp add: GetBestHost_def)
next
  case False
  obtain st1 tw best bh where r: "best_loop scores order st 0 None [] = (st1, tw, best, bh)"
    by (cases "best_loop scores order st 0 None []") auto
  note t = best_loop_tables [OF r assms(2,4)]
  show ?thesis
  proof (cases "bh = [] \<or> tw \<le> 0")
    case True
    have "SelectHighestScoreHostLocked scores order \<in> List.set order"
      unfolding SelectHighestScoreHostLocked_def using False assms(4)
      by (intro highest_some) (force simp: score_of_def split: option.split)+
    with True False r t assms(1) show ?thesis by (auto simp: GetBestHost_def)
  next
    case nofall: False
    with False r assms(1) have e: "host = bh" "st' = st1(bh \<mapsto> (schedule_of st1 bh)\<lparr>ss_current_weight :=
        ss_current_weight (schedule_of st1 bh) - tw\<rparr>)"
      by (auto simp: GetBestHost_def)
    have "bh \<in> List.set order" using t nofall by auto
    moreover have "weights_ok st'"
      using t weights_schedule_of [of st1 bh] unfolding e(2) by (simp add: weights_ok_def)
    ultimately show ?thesis using t e by auto
  qed
qed

lemma CalcScore_range: "0 \<le> CalcScore info \<and> CalcScore info \<le> 100"
  by (simp add: CalcScore_def Let_def)

lemma update_weight_range:
  assumes "0 \<le> score" and "score \<le> 100" and "0 \<le> ss_base_weight s" and "ss_base_weight s \<le> 100"
  shows "0 \<le> ss_base_weight (update_weight score s) \<and> ss_base_weight (update_weight score s) \<le> 100"
  using assms
  by (auto simp: update_weight_def Let_def CalcSchedulingWeight_def kScheduleWeightSmoothing_def)

lemma mgr_inv_weights: "mgr_inv now m \<Longrightarrow> weights_ok (mg_schedule_states m)"
  by (simp add: mgr_inv_def weights_ok_def)

lemma store_inv:
  assumes "mgr_inv t m" and "t \<le> now" and "host \<noteq> []" and "0 \<le> hs_score d" and "hs_score d \<le> 100"
    and "hs_timestamp d = now" and "dom (mg_last_sequences m1) \<subseteq> insert host (dom (mg_last_sequences m))"
    and "mg_host_scores m1 = mg_host_scores m" and "mg_schedule_states m1 = mg_schedule_states m"
  shows "mgr_inv now (store_score host d m1)"
proof -
  note w = weights_schedule_of [OF mgr_inv_weights [OF assms(1)], of host]
  have "ts \<le> t \<Longrightarrow> ts \<le> now" for ts using assms(2) by simp
  moreover have "dom (mg_last_sequences m1) \<subseteq> insert host (dom (mg_host_scores m))"
    using assms(1,7) unfolding mgr_inv_def by blast
  ultimately show ?thesis
    using assms(1,3-6,8,9) update_weight_range [OF assms(4,5) conjunct1 [OF w] conjunct2 [OF w]]
    by (auto simp: mgr_inv_def store_score_def split: if_splits)
qed

lemma pick_inv:
  assumes "mgr_inv t m" and "walk_ok walk" and "mgr_GetBestHost (walk (dom (mg_host_scores m))) m = (host, m')"
  shows "mgr_inv t m' \<and> mg_host_scores m' = mg_host_scores m \<and> mg_last_sequences m' = mg_last_sequences m \<and>
    mg_last_perf_samples m' = mg_last_perf_samples m \<and> mg_mysql_write_queue m' = mg_mysql_write_queue m \<and>
    (dom (mg_host_scores m) \<noteq> {} \<longrightarrow> host \<in> dom (mg_host_scores m))"
proof -
  let ?o = "walk (dom (mg_host_scores m))"
  from assms(1,2) have o: "List.set ?o = dom (mg_host_scores m)" by (simp add: walk_ok_def mgr_inv_def)
  obtain st' where g: "GetBestHost (mg_host_scores m) ?o (mg_schedule_states m) = (host, st')"
    and m': "m' = m\<lparr>mg_schedule_states := st'\<rparr>"
    using assms(3) by (auto simp: mgr_GetBestHost_def split: prod.splits)
  have "[] \<notin> List.set ?o" using assms(1) o by (simp add: mgr_inv_def)
  moreover have "\<forall>h d. mg_host_scores m h = Some d \<longrightarrow> 0 \<le> hs_score d \<and> hs_score d \<le> 100"
    using assms(1) by (simp add: mgr_inv_def)
  ultimately have t: "dom st' = dom (mg_schedule_states m) \<union> List.set ?o \<and> weights_ok st' \<and>
      (?o \<noteq> [] \<longrightarrow> host \<in> List.set ?o)"
    using GetBestHost_tables [OF g mgr_inv_weights [OF assms(1)]] by blast
  moreover have "?o \<noteq> [] \<longleftrightarrow> dom (mg_host_scores m) \<noteq> {}" using o by (metis set_empty)
  ultimately have "dom st' = dom (mg_host_scores m)" "weights_ok st'"
    "dom (mg_host_scores m) \<noteq> {} \<longrightarrow> host \<in> dom (mg_host_scores m)"
    using assms(1) unfolding o mgr_inv_def by simp_all
  then show ?thesis using assms(1) unfolding m' mgr_inv_def weights_ok_def by simp
qed

lemma receive_inv:
  assumes inv: "mgr_inv t m" and t: "t \<le> now" and w: "walk_ok walk"
  shows "mgr_inv now (OnDataReceived walk now info m)"
proof -
  let ?h = "server_id info" and ?seq = "mo_sequence info"
  have later: "mgr_inv now m"
    using inv t unfolding mgr_inv_def by (meson order_trans)
  show ?thesis
  proof (cases "?h = []")
    case True
    with later show ?thesis by (simp add: OnDataReceived_def Let_def)
  next
    case False
    obtain dup m1 where c: "check_duplicate ?h ?seq m = (dup, m1)" by fastforce
    show ?thesis
    proof (cases dup)
      case True
      with c have "m1 = m" by (auto simp: check_duplicate_def split: if_splits)
      with True False c later show ?thesis by (simp add: OnDataReceived_def Let_def)
    next
      case fresh: False
      define cs where "cs = perf_sample info (CalcScore info)"
      define m2 where "m2 = m1\<lparr>mg_last_perf_samples := (mg_last_perf_samples m1)(?h \<mapsto> cs)\<rparr>"
      define d where "d = \<lparr>hs_info = info, hs_score = CalcScore info, hs_timestamp = now\<rparr>"
      have m1: "dom (mg_last_sequences m1) \<subseteq> insert ?h (dom (mg_last_sequences m))"
        "mg_host_scores m1 = mg_host_scores m" "mg_schedule_states m1 = mg_schedule_states m"
        using c fresh by (auto simp: check_duplicate_def split: if_splits)
      have i3: "mgr_inv now (store_score ?h d m2)"
        using m1 CalcScore_range [of info] by (intro store_inv [OF inv t False]) (auto simp: d_def m2_def)
      obtain best m4 where b: "mgr_GetBestHost (walk (dom (mg_host_scores (store_score ?h d m2)))) (store_score ?h d m2) = (best, m4)"
        by fastforce
      from pick_inv [OF i3 w b] have "mgr_inv now m4" by simp
      moreover have "OnDataReceived walk now info m = EnqueueMysqlWrite (make_task ?h d ?seq cs
          (case mg_last_perf_samples m1 ?h of None \<Rightarrow> PerfSample0 | Some p \<Rightarrow> p)) m4"
        using False c fresh b by (simp add: OnDataReceived_def Let_def d_def m2_def cs_def)
      ultimately show ?thesis by (simp add: EnqueueMysqlWrite_def mgr_inv_def)
    qed
  qed
qed

lemma cleanup_inv:
  assumes "mgr_inv t m" and "t \<le> now"
  shows "mgr_inv now (cleanup now m)"
proof -
  have "dom (mg_host_scores (cleanup now m)) = dom (mg_host_scores m) - {h. stale now m h}"
    "dom (mg_schedule_states (cleanup now m)) = dom (mg_schedule_states m) - {h. stale now m h}"
    "dom (mg_last_sequences (cleanup now m)) = dom (mg_last_sequences m) - {h. stale now m h}"
    by (auto simp: cleanup_def split: if_splits)
  moreover have "ts \<le> t \<Longrightarrow> ts \<le> now" for ts using assms(2) by simp
  ultimately show ?thesis using assms(1) by (auto simp: mgr_inv_def cleanup_def split: if_splits)
qed

section \<open>Properties\<close>

text \<open>The states of the manager: samples arrive, the cleanup thread runs, hosts are chosen, in any
  order, while the clock advances.\<close>

inductive mgr_reach :: "(string set \<Rightarrow> string list) \<Rightarrow> rat \<Rightarrow> manager \<Rightarrow> bool" for walk :: "string set \<Rightarrow> string list" where
  started: "mgr_reach walk t (mgr_Start HostManager_init)"
| received: "mgr_reach walk t m \<Longrightarrow> t \<le> now \<Longrightarrow> mgr_reach walk now (OnDataReceived walk now info m)"
| cleaned: "mgr_reach walk t m \<Longrightarrow> t \<le> now \<Longrightarrow> mgr_reach walk now (cleanup now m)"
| chosen: "mgr_reach walk t m \<Longrightarrow> mgr_reach walk t (snd (mgr_GetBestHost (walk (dom (mg_host_scores m))) m))"
| written: "mgr_reach walk t m \<Longrightarrow> mgr_reach walk t (m\<lparr>mg_mysql_write_queue := tl (mg_mysql_write_queue m)\<rparr>)"

inductive_cases mgr_reach_E: "mgr_reach walk t m"

lemma mgr_reach_inv:
  assumes "mgr_reach walk t m" and "walk_ok walk"
  shows "mgr_inv t m"
  using assms
proof (induction rule: mgr_reach.induct)
  case (started t)
  show ?case by (simp add: mgr_inv_def mgr_Start_def HostManager_init_def)
next
  case (received t m now info)
  then show ?case by (intro receive_inv) simp_all
next
  case (cleaned t m now)
  then show ?case by (intro cleanup_inv) simp_all
next
  case (chosen t m)
  then show ?case
    using pick_inv [of t m walk] by (cases "mgr_GetBestHost (walk (dom (mg_host_scores m))) m") simp
next
  case (written t m)
  then show ?case by (simp add: mgr_inv_def)
qed


lemma sorted_walk_ok: "walk_ok sorted_list_of_set"
  by (simp add: walk_ok_def)

definition demo_info :: MonitorInfo where
  "demo_info = MonitorInfo0\<lparr>mo_name := ''web1'', mo_sequence := 7\<rparr>"


text \<open>Whenever a host is known, a host is chosen, and it is one of those the manager knows;
  choosing changes nothing but the scheduling weights.\<close>

theorem best_host_known:
  assumes "walk_ok walk" and "mgr_reach walk t m" and "mg_host_scores m h = Some d"
    and "mgr_GetBestHost (walk (dom (mg_host_scores m))) m = (host, m')"
  shows "host \<in> dom (mg_host_scores m) \<and> host \<noteq> [] \<and> m' = m\<lparr>mg_schedule_states := mg_schedule_states m'\<rparr>"
proof -
  note inv = mgr_reach_inv [OF assms(2,1)]
  have "m' = m\<lparr>mg_schedule_states := mg_schedule_states m'\<rparr>"
    using assms(4) by (auto simp: mgr_GetBestHost_def split: prod.splits)
  moreover have "dom (mg_host_scores m) \<noteq> {}" using assms(3) by auto
  then have "host \<in> dom (mg_host_scores m)" using pick_inv [OF inv assms(1,4)] by blast
  ultimately show ?thesis using inv by (auto simp: mgr_inv_def)
qed

theorem best_host_known_witness:
  "fst (mgr_GetBestHost (sorted_list_of_set (dom (mg_host_scores
      (OnDataReceived sorted_list_of_set 5 demo_info (mgr_Start HostManager_init)))))
      (OnDataReceived sorted_list_of_set 5 demo_info (mgr_Start HostManager_init))) \<noteq> []"
proof -
  let ?m = "OnDataReceived sorted_list_of_set 5 demo_info (mgr_Start HostManager_init)"
  have r: "mgr_reach sorted_list_of_set 5 ?m" using received [OF started [of _ 0]] by simp
  have "mg_host_scores ?m ''web1'' \<noteq> None"
    by (simp add: OnDataReceived_def Let_def check_duplicate_def demo_info_def MonitorInfo0_def server_id_def
        mgr_Start_def HostManager_init_def store_score_def mgr_GetBestHost_def EnqueueMysqlWrite_def
        split: prod.split)
  then obtain d where d: "mg_host_scores ?m ''web1'' = Some d" by blast
  obtain host m' where g: "mgr_GetBestHost (sorted_list_of_set (dom (mg_host_scores ?m))) ?m = (host, m')"
    by fastforce
  from best_host_known [OF sorted_walk_ok r d g] show ?thesis by (simp add: g)
qed

text \<open>The choice of the highest score is made when no host has a positive score.\<close>

lemma best_host_all_zero:
  assumes "order \<noteq> []" and "\<forall>h \<in> List.set order. st h = None \<and> score_of scores h = 0"
  shows "fst (GetBestHost scores order st) = SelectHighestScoreHostLocked scores order"
proof -
  have "snd (best_loop scores order st 0 None []) = (0, None, [])" if "\<forall>h \<in> List.set order. st h = None \<or>
      st h = Some ScheduleState0" for st
    using assms(2) that
  proof (induction order arbitrary: st)
    case (Cons x xs)
    have s: "schedule_of st x = ScheduleState0" using Cons.prems(2) by (auto simp: schedule_of_def)
    have "\<forall>h \<in> List.set xs. (st(x \<mapsto> ScheduleState0)) h = None \<or> (st(x \<mapsto> ScheduleState0)) h = Some ScheduleState0"
      using Cons.prems(2) by simp
    with Cons.IH Cons.prems(1) s show ?case
      by (simp add: Let_def CalcSchedulingWeight_def ScheduleState0_def)
  qed simp
  then have "snd (best_loop scores order st 0 None []) = (0, None, [])" using assms(2) by simp
  then show ?thesis using assms(1) by (cases "best_loop scores order st 0 None []") (simp add: GetBestHost_def)
qed

text \<open>A retransmission is ignored: receiving a numbered sample again, right after it was
  received, changes nothing at all: no score, no scheduling turn, no second row to write.\<close>

theorem retransmission_ignored:
  assumes "mo_sequence info > 0"
  shows "OnDataReceived walk' now' info (OnDataReceived walk now info m) = OnDataReceived walk now info m"
proof (cases "server_id info = []")
  case True
  then show ?thesis by (simp add: OnDataReceived_def Let_def)
next
  case False
  have "mg_last_sequences (OnDataReceived walk now info m) (server_id info) = Some (mo_sequence info)"
    using False assms
    by (auto simp: OnDataReceived_def Let_def check_duplicate_def EnqueueMysqlWrite_def mgr_GetBestHost_def
        store_score_def split: prod.splits)
  with False assms show ?thesis
    by (simp add: OnDataReceived_def [where m = "OnDataReceived walk now info m"] Let_def check_duplicate_def)
qed

theorem retransmission_ignored_witness:
  "length (mg_mysql_write_queue (OnDataReceived sorted_list_of_set 9 demo_info
     (OnDataReceived sorted_list_of_set 5 demo_info HostManager_init))) = 1"
  by (subst retransmission_ignored)
    (simp_all add: demo_info_def OnDataReceived_def Let_def check_duplicate_def server_id_def MonitorInfo0_def
      HostManager_init_def EnqueueMysqlWrite_def store_score_def mgr_GetBestHost_def split: prod.split)

text \<open>C39: only the number received last is remembered. A sample that is sent again after a newer one
  was received counts as new: its score replaces the newer one, with the time of its arrival, and
  it is queued for the database again.\<close>

theorem late_replay_overwrites:
  assumes "server_id info' = server_id info" and "server_id info \<noteq> []" and "mo_sequence info' > 0"
    and "mo_sequence info' \<noteq> mo_sequence info"
    and "m' = OnDataReceived walk now info' (OnDataReceived walk now info m)"
  shows "mg_host_scores (OnDataReceived walk now' info m') (server_id info) =
      Some \<lparr>hs_info = info, hs_score = CalcScore info, hs_timestamp = now'\<rparr> \<and>
    length (mg_mysql_write_queue (OnDataReceived walk now' info m')) = Suc (length (mg_mysql_write_queue m'))"
proof -
  let ?m1 = "OnDataReceived walk now info m"
  have "mg_last_sequences m' (server_id info) = Some (mo_sequence info')"
    using assms(1-4) unfolding assms(5) OnDataReceived_def [where m = ?m1]
    by (auto simp: Let_def check_duplicate_def EnqueueMysqlWrite_def mgr_GetBestHost_def
        store_score_def split: prod.splits)
  with assms(2,4) show ?thesis
    by (simp add: OnDataReceived_def [where m = m'] Let_def check_duplicate_def EnqueueMysqlWrite_def
        mgr_GetBestHost_def store_score_def split: prod.split)
qed

theorem late_replay_overwrites_witness:
  "length (mg_mysql_write_queue (OnDataReceived sorted_list_of_set 9 demo_info
      (OnDataReceived sorted_list_of_set 5 (demo_info\<lparr>mo_sequence := 8\<rparr>)
        (OnDataReceived sorted_list_of_set 5 demo_info HostManager_init)))) =
    Suc (length (mg_mysql_write_queue (OnDataReceived sorted_list_of_set 5 (demo_info\<lparr>mo_sequence := 8\<rparr>)
        (OnDataReceived sorted_list_of_set 5 demo_info HostManager_init))))"
  by (rule late_replay_overwrites [where info = demo_info, THEN conjunct2, OF _ _ _ _ refl])
    (simp_all add: demo_info_def server_id_def MonitorInfo0_def)

end
