(* ===== verification/MysqlWriter.thy ===== *)
theory MysqlWriter
  imports HostManager "HOL-Library.Sublist"
begin

text \<open>
  Persisting the samples: the prepared statements, the transaction that writes one sample into five
  tables, and the thread that takes the tasks off the queue (\<^verbatim>\<open>manager/src/host_manager.cpp\<close>), on the
  tables and unique keys of \<^verbatim>\<open>manager/sql/init_server_performance.sql\<close>. The database is a list of
  rows; each call of the client library answers with success, with a failure, or with a failure
  after having taken effect (the answer was lost).
\<close>

section \<open>The database\<close>

datatype sql_val = SqlStr string | SqlFloat rat | SqlInt nat

datatype table = server_performance | server_cpu_detail | server_net_detail | server_disk_detail |
  server_net_process_detail

type_synonym row = "(string \<times> sql_val) list"

text \<open>The column lists of the \<^verbatim>\<open>INSERT IGNORE\<close> statements, and the unique keys.\<close>

definition perf_columns :: "string list" where
  "perf_columns = [''server_name'', ''cpu_percent'', ''load_avg_1'', ''load_avg_3'', ''load_avg_15'',
     ''mem_used_percent'', ''disk_util_percent'', ''send_rate'', ''rcv_rate'', ''score'',
     ''cpu_percent_rate'', ''load_avg_1_rate'', ''mem_used_percent_rate'', ''disk_util_percent_rate'',
     ''send_rate_rate'', ''rcv_rate_rate'', ''sequence'', ''timestamp'']"

definition cpu_columns :: "string list" where
  "cpu_columns = [''server_name'', ''usr_percent'', ''system_percent'', ''nice_percent'', ''idle_percent'',
     ''io_wait_percent'', ''irq_percent'', ''soft_irq_percent'', ''sequence'', ''timestamp'']"

definition net_columns :: "string list" where
  "net_columns = [''server_name'', ''net_name'', ''rcv_bytes_rate'', ''rcv_packets_rate'',
     ''snd_bytes_rate'', ''snd_packets_rate'', ''sequence'', ''timestamp'']"

definition disk_columns :: "string list" where
  "disk_columns = [''server_name'', ''disk_name'', ''read_bytes_per_sec'', ''write_bytes_per_sec'',
     ''read_iops'', ''write_iops'', ''avg_read_latency_ms'', ''avg_write_latency_ms'', ''util_percent'',
     ''sequence'', ''timestamp'']"

definition proc_columns :: "string list" where
  "proc_columns = [''server_name'', ''pid'', ''proc_name'', ''snd_bytes_rate'', ''rcv_bytes_rate'',
     ''total_bytes_rate'', ''share_percent'', ''sequence'', ''timestamp'']"

fun key_columns :: "table \<Rightarrow> string list" where
  "key_columns server_performance = [''server_name'', ''sequence'']"
| "key_columns server_cpu_detail = [''server_name'', ''sequence'']"
| "key_columns server_net_detail = [''server_name'', ''sequence'', ''net_name'']"
| "key_columns server_disk_detail = [''server_name'', ''sequence'', ''disk_name'']"
| "key_columns server_net_process_detail = [''server_name'', ''sequence'', ''pid'']"

type_synonym db = "(table \<times> row) list"

definition row_key :: "table \<times> row \<Rightarrow> table \<times> sql_val option list" where
  "row_key r = (fst r, map (map_of (snd r)) (key_columns (fst r)))"

text \<open>\<^verbatim>\<open>INSERT IGNORE\<close>: a row whose key is there already is left out, without an error.\<close>

definition insert_ignore :: "table \<times> row \<Rightarrow> db \<Rightarrow> db" where
  "insert_ignore r rows = (if row_key r \<in> row_key ` List.set rows then rows else rows @ [r])"

definition insert_all :: "(table \<times> row) list \<Rightarrow> db \<Rightarrow> db" where
  "insert_all rs rows = fold insert_ignore rs rows"

datatype reply = R_ok | R_fail | R_lost

record conn =
  cn_committed :: db
  cn_working :: db
  cn_replies :: "reply list"

text \<open>The next answer; when the script is used up every call succeeds.\<close>

definition next_reply :: "conn \<Rightarrow> reply \<times> conn" where
  "next_reply c = (case cn_replies c of [] \<Rightarrow> (R_ok, c) | r # rs \<Rightarrow> (r, c\<lparr>cn_replies := rs\<rparr>))"

definition db_call :: "(conn \<Rightarrow> conn) \<Rightarrow> conn \<Rightarrow> bool \<times> conn" where
  "db_call effect c =
     (case next_reply c of
        (R_ok, c') \<Rightarrow> (True, effect c')
      | (R_fail, c') \<Rightarrow> (False, c')
      | (R_lost, c') \<Rightarrow> (False, effect c'))"

definition start_transaction :: "conn \<Rightarrow> bool \<times> conn" where
  "start_transaction = db_call (\<lambda>c. c\<lparr>cn_working := cn_committed c\<rparr>)"

definition execute_insert :: "table \<Rightarrow> row \<Rightarrow> conn \<Rightarrow> bool \<times> conn" where
  "execute_insert t r = db_call (\<lambda>c. c\<lparr>cn_working := insert_ignore (t, r) (cn_working c)\<rparr>)"

definition rollback :: "conn \<Rightarrow> bool \<times> conn" where
  "rollback = db_call (\<lambda>c. c\<lparr>cn_working := cn_committed c\<rparr>)"

definition commit :: "conn \<Rightarrow> bool \<times> conn" where
  "commit = db_call (\<lambda>c. c\<lparr>cn_committed := cn_working c\<rparr>)"

section \<open>Prepared statements\<close>

record StmtPerfCtx =
  sp_stmt :: bool
  sp_srv_name :: string
  sp_fvals :: "rat list"
  sp_seq_val :: u64
  sp_ts_buf :: string

record StmtCpuCtx =
  sc_stmt :: bool
  sc_srv_name :: string
  sc_fvals :: "rat list"
  sc_seq_val :: u64
  sc_ts_buf :: string

record StmtNetCtx =
  sn_stmt :: bool
  sn_srv_name :: string
  sn_net_name :: string
  sn_fvals :: "rat list"
  sn_seq_val :: u64
  sn_ts_buf :: string

record StmtDiskCtx =
  sd_stmt :: bool
  sd_srv_name :: string
  sd_disk_name :: string
  sd_fvals :: "rat list"
  sd_seq_val :: u64
  sd_ts_buf :: string

record StmtProcNetCtx =
  sq_stmt :: bool
  sq_srv_name :: string
  sq_pid_val :: u32
  sq_proc_name :: string
  sq_fvals :: "rat list"
  sq_seq_val :: u64
  sq_ts_buf :: string

text \<open>The answers of \<^verbatim>\<open>mysql_stmt_init\<close>, \<^verbatim>\<open>mysql_stmt_prepare\<close> and \<^verbatim>\<open>mysql_stmt_bind_param\<close>: the result of
  \<^verbatim>\<open>Prepare\<close> and whether there is a statement afterwards.\<close>

type_synonym prep = "bool \<times> bool \<times> bool"

definition prepared :: "prep \<Rightarrow> bool \<times> bool" where
  "prepared p = (case p of (init_ok, prepare_ok, bind_ok) \<Rightarrow> (init_ok \<and> prepare_ok \<and> bind_ok, init_ok))"

definition perf_Prepare :: "prep \<Rightarrow> StmtPerfCtx \<Rightarrow> bool \<times> StmtPerfCtx" where
  "perf_Prepare p s = (fst (prepared p), s\<lparr>sp_stmt := snd (prepared p)\<rparr>)"

definition cpu_Prepare :: "prep \<Rightarrow> StmtCpuCtx \<Rightarrow> bool \<times> StmtCpuCtx" where
  "cpu_Prepare p s = (fst (prepared p), s\<lparr>sc_stmt := snd (prepared p)\<rparr>)"

definition net_Prepare :: "prep \<Rightarrow> StmtNetCtx \<Rightarrow> bool \<times> StmtNetCtx" where
  "net_Prepare p s = (fst (prepared p), s\<lparr>sn_stmt := snd (prepared p)\<rparr>)"

definition disk_Prepare :: "prep \<Rightarrow> StmtDiskCtx \<Rightarrow> bool \<times> StmtDiskCtx" where
  "disk_Prepare p s = (fst (prepared p), s\<lparr>sd_stmt := snd (prepared p)\<rparr>)"

definition proc_Prepare :: "prep \<Rightarrow> StmtProcNetCtx \<Rightarrow> bool \<times> StmtProcNetCtx" where
  "proc_Prepare p s = (fst (prepared p), s\<lparr>sq_stmt := snd (prepared p)\<rparr>)"

text \<open>The row a statement inserts: its columns with what is bound to them.\<close>

definition perf_row :: "StmtPerfCtx \<Rightarrow> row" where
  "perf_row s = zip perf_columns ([SqlStr (sp_srv_name s)] @ map SqlFloat (sp_fvals s) @
     [SqlInt (unat (sp_seq_val s)), SqlStr (sp_ts_buf s)])"

definition cpu_row :: "StmtCpuCtx \<Rightarrow> row" where
  "cpu_row s = zip cpu_columns ([SqlStr (sc_srv_name s)] @ map SqlFloat (sc_fvals s) @
     [SqlInt (unat (sc_seq_val s)), SqlStr (sc_ts_buf s)])"

definition net_row :: "StmtNetCtx \<Rightarrow> row" where
  "net_row s = zip net_columns ([SqlStr (sn_srv_name s), SqlStr (sn_net_name s)] @
     map SqlFloat (sn_fvals s) @ [SqlInt (unat (sn_seq_val s)), SqlStr (sn_ts_buf s)])"

definition disk_row :: "StmtDiskCtx \<Rightarrow> row" where
  "disk_row s = zip disk_columns ([SqlStr (sd_srv_name s), SqlStr (sd_disk_name s)] @
     map SqlFloat (sd_fvals s) @ [SqlInt (unat (sd_seq_val s)), SqlStr (sd_ts_buf s)])"

definition proc_row :: "StmtProcNetCtx \<Rightarrow> row" where
  "proc_row s = zip proc_columns ([SqlStr (sq_srv_name s), SqlInt (unat (sq_pid_val s)),
     SqlStr (sq_proc_name s)] @ map SqlFloat (sq_fvals s) @
     [SqlInt (unat (sq_seq_val s)), SqlStr (sq_ts_buf s)])"

section \<open>Writing one sample\<close>

record ctxs =
  cx_perf :: StmtPerfCtx
  cx_cpu :: StmtCpuCtx
  cx_net :: StmtNetCtx
  cx_disk :: StmtDiskCtx
  cx_proc :: StmtProcNetCtx

definition all_prepared :: "ctxs \<Rightarrow> bool" where
  "all_prepared x \<longleftrightarrow> sp_stmt (cx_perf x) \<and> sc_stmt (cx_cpu x) \<and> sn_stmt (cx_net x) \<and>
     sd_stmt (cx_disk x) \<and> sq_stmt (cx_proc x)"

text \<open>Name, time and number are the same in all five statements.\<close>

definition bind_common :: "string \<Rightarrow> string \<Rightarrow> u64 \<Rightarrow> ctxs \<Rightarrow> ctxs" where
  "bind_common host_name ts seq x =
     (let n = take 255 host_name in
      \<lparr>cx_perf = (cx_perf x)\<lparr>sp_srv_name := n, sp_ts_buf := ts, sp_seq_val := seq\<rparr>,
       cx_cpu = (cx_cpu x)\<lparr>sc_srv_name := n, sc_ts_buf := ts, sc_seq_val := seq\<rparr>,
       cx_net = (cx_net x)\<lparr>sn_srv_name := n, sn_ts_buf := ts, sn_seq_val := seq\<rparr>,
       cx_disk = (cx_disk x)\<lparr>sd_srv_name := n, sd_ts_buf := ts, sd_seq_val := seq\<rparr>,
       cx_proc = (cx_proc x)\<lparr>sq_srv_name := n, sq_ts_buf := ts, sq_seq_val := seq\<rparr>\<rparr>)"

definition perf_fvals :: "MysqlWriteTask \<Rightarrow> rat list" where
  "perf_fvals task =
     (let info = hs_info (tk_host_score task);
          p = perf_sample info 0
      in [ps_cpu_percent p, ps_load_avg_1 p, ps_load_avg_3 p, ps_load_avg_15 p, ps_mem_used_percent p,
          ps_disk_util_percent p, sum_list (map ni_send_rate (mo_net_info info)),
          sum_list (map ni_rcv_rate (mo_net_info info)), hs_score (tk_host_score task),
          tk_cpu_percent_rate task, tk_load_avg_1_rate task, tk_mem_used_percent_rate task,
          tk_disk_util_percent_rate task, tk_net_in_rate_rate task, tk_net_out_rate_rate task])"

definition cpu_fvals :: "MonitorInfo \<Rightarrow> rat list" where
  "cpu_fvals info =
     (let p = perf_sample info 0
      in [ps_usr_percent p, ps_system_percent p, ps_nice_percent p, ps_idle_percent p,
          ps_io_wait_percent p, ps_irq_percent p, ps_soft_irq_percent p])"

definition net_bind :: "NetInfoMsg \<Rightarrow> StmtNetCtx \<Rightarrow> StmtNetCtx" where
  "net_bind net s = s\<lparr>sn_net_name := take 63 (ni_name net),
     sn_fvals := [ni_rcv_rate net, ni_rcv_packets_rate net, ni_send_rate net, ni_send_packets_rate net]\<rparr>"

definition disk_bind :: "DiskInfoMsg \<Rightarrow> StmtDiskCtx \<Rightarrow> StmtDiskCtx" where
  "disk_bind disk s = s\<lparr>sd_disk_name := take 63 (di_name disk),
     sd_fvals := [di_read_bytes_per_sec disk, di_write_bytes_per_sec disk, di_read_iops disk,
       di_write_iops disk, di_avg_read_latency_ms disk, di_avg_write_latency_ms disk,
       di_util_percent disk]\<rparr>"

definition proc_bind :: "ProcessNetInfoMsg \<Rightarrow> StmtProcNetCtx \<Rightarrow> StmtProcNetCtx" where
  "proc_bind proc s = s\<lparr>sq_proc_name := take 63 (pn_name proc), sq_pid_val := pn_pid proc,
     sq_fvals := [pn_send_rate proc, pn_rcv_rate proc, pn_total_rate proc, pn_share_percent proc]\<rparr>"

text \<open>The three loops: bind, execute, stop at the first failure.\<close>

fun insert_loop :: "table \<Rightarrow> ('m \<Rightarrow> 's \<Rightarrow> 's) \<Rightarrow> ('s \<Rightarrow> row) \<Rightarrow> 'm list \<Rightarrow> 's \<Rightarrow> conn \<Rightarrow> bool \<times> 's \<times> conn" where
  "insert_loop t bd rw [] s c = (True, s, c)"
| "insert_loop t bd rw (m # ms) s c =
     (let s1 = bd m s; (ok, c1) = execute_insert t (rw s1) c
      in if \<not> ok then (False, s1, c1) else insert_loop t bd rw ms s1 c1)"

definition net_inserts :: "NetInfoMsg list \<Rightarrow> StmtNetCtx \<Rightarrow> conn \<Rightarrow> bool \<times> StmtNetCtx \<times> conn" where
  "net_inserts = insert_loop server_net_detail net_bind net_row"

definition disk_inserts :: "DiskInfoMsg list \<Rightarrow> StmtDiskCtx \<Rightarrow> conn \<Rightarrow> bool \<times> StmtDiskCtx \<times> conn" where
  "disk_inserts = insert_loop server_disk_detail disk_bind disk_row"

definition proc_inserts :: "ProcessNetInfoMsg list \<Rightarrow> StmtProcNetCtx \<Rightarrow> conn \<Rightarrow> bool \<times> StmtProcNetCtx \<times> conn" where
  "proc_inserts = insert_loop server_net_process_detail proc_bind proc_row"

definition failed :: "ctxs \<Rightarrow> conn \<Rightarrow> bool \<times> ctxs \<times> conn" where
  "failed x c = (False, x, snd (rollback c))"

text \<open>\<open>fmt\<close> is \<^verbatim>\<open>FormatTimestamp\<close>.\<close>

definition WriteToMysql :: "(rat \<Rightarrow> string) \<Rightarrow> MysqlWriteTask \<Rightarrow> ctxs \<Rightarrow> conn \<Rightarrow> bool \<times> ctxs \<times> conn" where
  "WriteToMysql fmt task x c =
     (if \<not> all_prepared x then (False, x, c)
      else
        let info = hs_info (tk_host_score task);
            x1 = bind_common (tk_host_name task) (fmt (hs_timestamp (tk_host_score task))) (mo_sequence info) x;
            x2 = x1\<lparr>cx_perf := (cx_perf x1)\<lparr>sp_fvals := perf_fvals task\<rparr>,
                    cx_cpu := (cx_cpu x1)\<lparr>sc_fvals := cpu_fvals info\<rparr>\<rparr>;
            (ok0, c0) = start_transaction c
        in if \<not> ok0 then (False, x2, c0)
           else let (ok1, c1) = execute_insert server_performance (perf_row (cx_perf x2)) c0
           in if \<not> ok1 then failed x2 c1
           else let (ok2, c2) = execute_insert server_cpu_detail (cpu_row (cx_cpu x2)) c1
           in if \<not> ok2 then failed x2 c2
           else let (ok3, sn, c3) = net_inserts (mo_net_info info) (cx_net x2) c2; x3 = x2\<lparr>cx_net := sn\<rparr>
           in if \<not> ok3 then failed x3 c3
           else let (ok4, sd, c4) = disk_inserts (mo_disk_info info) (cx_disk x3) c3; x4 = x3\<lparr>cx_disk := sd\<rparr>
           in if \<not> ok4 then failed x4 c4
           else let (ok5, sq, c5) = proc_inserts (mo_process_net_info info) (cx_proc x4) c4;
                    x5 = x4\<lparr>cx_proc := sq\<rparr>
           in if \<not> ok5 then failed x5 c5
           else let (ok6, c6) = commit c5
           in if \<not> ok6 then failed x5 c6 else (True, x5, c6))"

section \<open>The writing thread\<close>

record writer =
  wr_conn :: bool
  wr_ctxs :: ctxs
  wr_db :: db

text \<open>How the calls of one round turn out.\<close>

record round =
  rd_init :: bool
  rd_connect :: bool
  rd_prep :: "table \<Rightarrow> prep"
  rd_replies :: "reply list"

definition close_all :: "ctxs \<Rightarrow> ctxs" where
  "close_all x =
     \<lparr>cx_perf = (cx_perf x)\<lparr>sp_stmt := False\<rparr>, cx_cpu = (cx_cpu x)\<lparr>sc_stmt := False\<rparr>,
      cx_net = (cx_net x)\<lparr>sn_stmt := False\<rparr>, cx_disk = (cx_disk x)\<lparr>sd_stmt := False\<rparr>,
      cx_proc = (cx_proc x)\<lparr>sq_stmt := False\<rparr>\<rparr>"

text \<open>Preparing stops at the first failure.\<close>

definition prepare_all :: "(table \<Rightarrow> prep) \<Rightarrow> ctxs \<Rightarrow> bool \<times> ctxs" where
  "prepare_all pr x =
     (let (ok1, s1) = perf_Prepare (pr server_performance) (cx_perf x); x1 = x\<lparr>cx_perf := s1\<rparr> in
      if \<not> ok1 then (False, x1)
      else let (ok2, s2) = cpu_Prepare (pr server_cpu_detail) (cx_cpu x1); x2 = x1\<lparr>cx_cpu := s2\<rparr> in
      if \<not> ok2 then (False, x2)
      else let (ok3, s3) = net_Prepare (pr server_net_detail) (cx_net x2); x3 = x2\<lparr>cx_net := s3\<rparr> in
      if \<not> ok3 then (False, x3)
      else let (ok4, s4) = disk_Prepare (pr server_disk_detail) (cx_disk x3); x4 = x3\<lparr>cx_disk := s4\<rparr> in
      if \<not> ok4 then (False, x4)
      else let (ok5, s5) = proc_Prepare (pr server_net_process_detail) (cx_proc x4); x5 = x4\<lparr>cx_proc := s5\<rparr> in
      (ok5, x5))"

definition connect_and_prepare :: "round \<Rightarrow> writer \<Rightarrow> bool \<times> writer" where
  "connect_and_prepare rd w =
     (let w0 = (if wr_conn w then w\<lparr>wr_conn := False, wr_ctxs := close_all (wr_ctxs w)\<rparr> else w) in
      if \<not> rd_init rd then (False, w0)
      else if \<not> rd_connect rd then (False, w0)
      else let (ok, x) = prepare_all (rd_prep rd) (wr_ctxs w0)
           in if \<not> ok then (False, w0\<lparr>wr_conn := False, wr_ctxs := close_all x\<rparr>)
              else (True, w0\<lparr>wr_conn := True, wr_ctxs := x\<rparr>))"

text \<open>One task taken off the queue. Closing the connection discards what was not committed.\<close>

definition write_task :: "(rat \<Rightarrow> string) \<Rightarrow> round \<Rightarrow> MysqlWriteTask \<Rightarrow> writer \<Rightarrow> writer" where
  "write_task fmt rd task w =
     (let (ready, w1) = (if \<not> wr_conn w then connect_and_prepare rd w else (True, w)) in
      if \<not> ready then w1
      else case WriteToMysql fmt task (wr_ctxs w1)
              \<lparr>cn_committed = wr_db w1, cn_working = wr_db w1, cn_replies = rd_replies rd\<rparr> of
        (write_ok, x, c) \<Rightarrow>
          if \<not> write_ok then w1\<lparr>wr_conn := False, wr_ctxs := close_all x, wr_db := cn_committed c\<rparr>
          else w1\<lparr>wr_ctxs := x, wr_db := cn_committed c\<rparr>)"

fun MysqlWriteLoop :: "(rat \<Rightarrow> string) \<Rightarrow> (round \<times> MysqlWriteTask) list \<Rightarrow> writer \<Rightarrow> writer" where
  "MysqlWriteLoop fmt [] w = (if wr_conn w then w\<lparr>wr_conn := False, wr_ctxs := close_all (wr_ctxs w)\<rparr> else w)"
| "MysqlWriteLoop fmt ((rd, task) # rest) w = MysqlWriteLoop fmt rest (write_task fmt rd task w)"

section \<open>The rows of a sample\<close>

text \<open>What a sample adds to the database, as one list of rows; the statements it goes through leave
  no trace of what they were used for before.\<close>

definition rows_of :: "(rat \<Rightarrow> string) \<Rightarrow> MysqlWriteTask \<Rightarrow> (table \<times> row) list" where
  "rows_of fmt task =
     (let info = hs_info (tk_host_score task);
          n = take 255 (tk_host_name task); ts = fmt (hs_timestamp (tk_host_score task)); seq = mo_sequence info
      in [(server_performance, perf_row \<lparr>sp_stmt = True, sp_srv_name = n, sp_fvals = perf_fvals task,
             sp_seq_val = seq, sp_ts_buf = ts\<rparr>),
          (server_cpu_detail, cpu_row \<lparr>sc_stmt = True, sc_srv_name = n, sc_fvals = cpu_fvals info,
             sc_seq_val = seq, sc_ts_buf = ts\<rparr>)] @
         map (\<lambda>net. (server_net_detail, net_row (net_bind net \<lparr>sn_stmt = True, sn_srv_name = n,
             sn_net_name = [], sn_fvals = [], sn_seq_val = seq, sn_ts_buf = ts\<rparr>))) (mo_net_info info) @
         map (\<lambda>disk. (server_disk_detail, disk_row (disk_bind disk \<lparr>sd_stmt = True, sd_srv_name = n,
             sd_disk_name = [], sd_fvals = [], sd_seq_val = seq, sd_ts_buf = ts\<rparr>))) (mo_disk_info info) @
         map (\<lambda>proc. (server_net_process_detail, proc_row (proc_bind proc \<lparr>sq_stmt = True, sq_srv_name = n,
             sq_pid_val = 0, sq_proc_name = [], sq_fvals = [], sq_seq_val = seq, sq_ts_buf = ts\<rparr>)))
           (mo_process_net_info info))"

lemma insert_all_simps [simp]:
  "insert_all [] rows = rows" "insert_all (r # rs) rows = insert_all rs (insert_ignore r rows)"
  "insert_all (rs @ qs) rows = insert_all qs (insert_all rs rows)"
  by (simp_all add: insert_all_def)

lemma next_reply_same:
  "next_reply c = (r, c') \<Longrightarrow> cn_committed c' = cn_committed c \<and> cn_working c' = cn_working c"
  by (auto simp: next_reply_def split: list.splits)

lemma call_effect:
  "execute_insert t r c = (ok, c') \<Longrightarrow> cn_committed c' = cn_committed c \<and>
     (ok \<longrightarrow> cn_working c' = insert_ignore (t, r) (cn_working c))"
  "start_transaction c = (ok, c') \<Longrightarrow> cn_committed c' = cn_committed c \<and> (ok \<longrightarrow> cn_working c' = cn_committed c)"
  "rollback c = (ok, c') \<Longrightarrow> cn_committed c' = cn_committed c"
  "commit c = (ok, c') \<Longrightarrow> (cn_committed c' = cn_committed c \<or> cn_committed c' = cn_working c) \<and>
     (ok \<longrightarrow> cn_committed c' = cn_working c)"
  unfolding execute_insert_def start_transaction_def rollback_def commit_def db_call_def
  by (auto split: prod.splits reply.splits dest!: next_reply_same)

lemma failed_effect: "failed x c = (ok, x', c') \<Longrightarrow> \<not> ok \<and> cn_committed c' = cn_committed c"
  using call_effect(3) [of c] by (auto simp: failed_def) (metis prod.collapse)

lemma rebind [simp]:
  "net_bind n (net_bind n' s) = net_bind n s" "disk_bind d (disk_bind d' t) = disk_bind d t"
  "proc_bind p (proc_bind p' u) = proc_bind p u"
  by (simp_all add: net_bind_def disk_bind_def proc_bind_def)

lemma insert_loop_effect:
  assumes "insert_loop t bd rw ms s c = (ok, s', c')" and "\<And>m m' s. bd m (bd m' s) = bd m s"
  shows "cn_committed c' = cn_committed c \<and>
    (ok \<longrightarrow> cn_working c' = insert_all (map (\<lambda>m. (t, rw (bd m s))) ms) (cn_working c))"
  using assms(1)
proof (induction ms arbitrary: s c)
  case (Cons m ms)
  obtain ok1 c1 where e: "execute_insert t (rw (bd m s)) c = (ok1, c1)" by fastforce
  note ce = call_effect(1) [OF e]
  show ?case
  proof (cases ok1)
    case True
    with Cons.prems e have "insert_loop t bd rw ms (bd m s) c1 = (ok, s', c')" by simp
    from Cons.IH [OF this] ce True show ?thesis by (simp add: assms(2))
  qed (use Cons.prems e ce in \<open>auto simp: Let_def\<close>)
qed simp

lemmas inserts_effect =
  insert_loop_effect [where t = server_net_detail and bd = net_bind and rw = net_row, OF _ rebind(1), folded net_inserts_def]
  insert_loop_effect [where t = server_disk_detail and bd = disk_bind and rw = disk_row, OF _ rebind(2), folded disk_inserts_def]
  insert_loop_effect [where t = server_net_process_detail and bd = proc_bind and rw = proc_row, OF _ rebind(3), folded proc_inserts_def]

definition atomic_write :: "(rat \<Rightarrow> string) \<Rightarrow> MysqlWriteTask \<Rightarrow> bool \<Rightarrow> db \<Rightarrow> db \<Rightarrow> bool" where
  "atomic_write fmt task ok old new \<longleftrightarrow>
     (new = old \<or> new = insert_all (rows_of fmt task) old) \<and> (ok \<longrightarrow> new = insert_all (rows_of fmt task) old)"

lemma WriteToMysql_atomic:
  assumes "WriteToMysql fmt task x c = (ok, x', c')"
  shows "atomic_write fmt task ok (cn_committed c) (cn_committed c')"
proof (cases "all_prepared x")
  case False
  with assms show ?thesis by (simp add: WriteToMysql_def atomic_write_def)
next
  case True
  define info where "info = hs_info (tk_host_score task)"
  define x1 where "x1 = bind_common (tk_host_name task) (fmt (hs_timestamp (tk_host_score task))) (mo_sequence info) x"
  define x2 where "x2 = x1\<lparr>cx_perf := (cx_perf x1)\<lparr>sp_fvals := perf_fvals task\<rparr>,
    cx_cpu := (cx_cpu x1)\<lparr>sc_fvals := cpu_fvals info\<rparr>\<rparr>"
  have same: "atomic_write fmt task False r r" for r by (simp add: atomic_write_def)
  have fail: "atomic_write fmt task ok (cn_committed c) (cn_committed c')"
    if "failed y d = (ok, x', c')" "cn_committed d = cn_committed c" for y d
    using failed_effect [OF that(1)] that(2) same by simp
  obtain ok0 c0 where s0: "start_transaction c = (ok0, c0)" by fastforce
  obtain ok1 c1 where s1: "execute_insert server_performance (perf_row (cx_perf x2)) c0 = (ok1, c1)" by fastforce
  obtain ok2 c2 where s2: "execute_insert server_cpu_detail (cpu_row (cx_cpu x2)) c1 = (ok2, c2)" by fastforce
  obtain ok3 sn c3 where s3: "net_inserts (mo_net_info info) (cx_net x2) c2 = (ok3, sn, c3)" by (rule prod_cases3)
  define x3 where "x3 = x2\<lparr>cx_net := sn\<rparr>"
  obtain ok4 sd c4 where s4: "disk_inserts (mo_disk_info info) (cx_disk x3) c3 = (ok4, sd, c4)" by (rule prod_cases3)
  define x4 where "x4 = x3\<lparr>cx_disk := sd\<rparr>"
  obtain ok5 sq c5 where s5: "proc_inserts (mo_process_net_info info) (cx_proc x4) c4 = (ok5, sq, c5)"
    by (rule prod_cases3)
  define x5 where "x5 = x4\<lparr>cx_proc := sq\<rparr>"
  obtain ok6 c6 where s6: "commit c5 = (ok6, c6)" by fastforce
  note eff = call_effect(2) [OF s0] call_effect(1) [OF s1] call_effect(1) [OF s2] inserts_effect(1) [OF s3]
    inserts_effect(2) [OF s4] inserts_effect(3) [OF s5] call_effect(4) [OF s6]
  have run: "(if \<not> ok0 then (False, x2, c0) else if \<not> ok1 then failed x2 c1 else if \<not> ok2 then failed x2 c2
      else if \<not> ok3 then failed x3 c3 else if \<not> ok4 then failed x4 c4 else if \<not> ok5 then failed x5 c5
      else if \<not> ok6 then failed x5 c6 else (True, x5, c6)) = (ok, x', c')"
    using assms True unfolding WriteToMysql_def Let_def info_def [symmetric] x1_def [symmetric] x2_def [symmetric]
    by (simp only: s0 s1 s2 s3 s4 s5 s6 x3_def [symmetric] x4_def [symmetric] x5_def [symmetric]
        prod.case not_True_eq_False if_False split: if_split)
  have work: "cn_working c5 = insert_all (rows_of fmt task) (cn_committed c)"
    if "ok0" "ok1" "ok2" "ok3" "ok4" "ok5"
    using eff that unfolding rows_of_def Let_def info_def [symmetric]
    by (simp add: x4_def x3_def x2_def x1_def bind_common_def Let_def perf_row_def cpu_row_def net_row_def
        net_bind_def disk_row_def disk_bind_def proc_row_def proc_bind_def)
  show ?thesis
  proof (cases "ok0 \<and> ok1 \<and> ok2 \<and> ok3 \<and> ok4 \<and> ok5")
    case True
    have c5: "cn_committed c5 = cn_committed c" using eff by simp
    show ?thesis
    proof (cases ok6)
      case yes: True
      with True run eff work show ?thesis by (auto simp: atomic_write_def)
    next
      case no: False
      with True run have f: "failed x5 c6 = (ok, x', c')" by simp
      have "cn_committed c6 = cn_committed c \<or> cn_committed c6 = insert_all (rows_of fmt task) (cn_committed c)"
        using eff(7) c5 work True by metis
      with failed_effect [OF f] show ?thesis by (auto simp: atomic_write_def)
    qed
  next
    case False
    with run eff fail same show ?thesis by (auto split: if_splits)
  qed
qed

lemma write_task_db:
  "\<exists>ok. atomic_write fmt task ok (wr_db w) (wr_db (write_task fmt rd task w))"
proof -
  obtain ready w1 where c: "(if \<not> wr_conn w then connect_and_prepare rd w else (True, w)) = (ready, w1)"
    by fastforce
  then have "wr_db w1 = wr_db w"
    by (auto simp: connect_and_prepare_def Let_def split: if_splits prod.splits)
  moreover obtain ok x c1 where wr: "WriteToMysql fmt task (wr_ctxs w1)
      \<lparr>cn_committed = wr_db w1, cn_working = wr_db w1, cn_replies = rd_replies rd\<rparr> = (ok, x, c1)"
    by (rule prod_cases3)
  note WriteToMysql_atomic [OF wr]
  moreover have "wr_db (write_task fmt rd task w) = (if ready then cn_committed c1 else wr_db w1)"
    using c wr by (simp add: write_task_def)
  ultimately show ?thesis by (intro exI [of _ "ready \<and> ok"]) (auto simp: atomic_write_def)
qed

lemma insert_ignore_distinct: "distinct (map row_key rows) \<Longrightarrow> distinct (map row_key (insert_ignore r rows))"
  by (auto simp: insert_ignore_def)

lemma insert_all_distinct: "distinct (map row_key rows) \<Longrightarrow> distinct (map row_key (insert_all rs rows))"
  by (induction rs arbitrary: rows) (auto intro: insert_ignore_distinct)

lemma write_loop_db:
  "\<exists>written. subseq written (map snd ts) \<and>
     wr_db (MysqlWriteLoop fmt ts w) = insert_all (concat (map (rows_of fmt) written)) (wr_db w)"
proof (induction fmt ts w rule: MysqlWriteLoop.induct)
  case (2 fmt rd task rest w)
  then obtain written where s: "subseq written (map snd rest)"
    and d: "wr_db (MysqlWriteLoop fmt rest (write_task fmt rd task w)) =
      insert_all (concat (map (rows_of fmt) written)) (wr_db (write_task fmt rd task w))"
    by blast
  from write_task_db [of fmt task w rd] consider
      "wr_db (write_task fmt rd task w) = wr_db w"
    | "wr_db (write_task fmt rd task w) = insert_all (rows_of fmt task) (wr_db w)"
    by (auto simp: atomic_write_def)
  then show ?case
  proof cases
    case 1
    with s d show ?thesis by (intro exI [of _ written]) auto
  next
    case 2
    with s d show ?thesis by (intro exI [of _ "task # written"]) auto
  qed
next
  case (1 fmt w)
  show ?case by (intro exI [of _ "[]"]) simp
qed

section \<open>Properties\<close>


definition writer0 :: writer where
  "writer0 = \<lparr>wr_conn = False,
     wr_ctxs =
       \<lparr>cx_perf = \<lparr>sp_stmt = False, sp_srv_name = [], sp_fvals = [], sp_seq_val = 0, sp_ts_buf = []\<rparr>,
        cx_cpu = \<lparr>sc_stmt = False, sc_srv_name = [], sc_fvals = [], sc_seq_val = 0, sc_ts_buf = []\<rparr>,
        cx_net = \<lparr>sn_stmt = False, sn_srv_name = [], sn_net_name = [], sn_fvals = [], sn_seq_val = 0, sn_ts_buf = []\<rparr>,
        cx_disk = \<lparr>sd_stmt = False, sd_srv_name = [], sd_disk_name = [], sd_fvals = [], sd_seq_val = 0, sd_ts_buf = []\<rparr>,
        cx_proc = \<lparr>sq_stmt = False, sq_srv_name = [], sq_pid_val = 0, sq_proc_name = [], sq_fvals = [],
          sq_seq_val = 0, sq_ts_buf = []\<rparr>\<rparr>,
     wr_db = []\<rparr>"

definition demo_task :: MysqlWriteTask where
  "demo_task = make_task ''web1'' \<lparr>hs_info = demo_info, hs_score = 90, hs_timestamp = 5\<rparr> 7 PerfSample0 PerfSample0"

definition round_up :: "reply list \<Rightarrow> round" where
  "round_up rs = \<lparr>rd_init = True, rd_connect = True, rd_prep = (\<lambda>t. (True, True, True)), rd_replies = rs\<rparr>"


text \<open>Keys of the rows of a sample: host and number, and the name of the part.\<close>

lemma rows_of_keys:
  "map row_key (rows_of fmt task) =
     (let info = hs_info (tk_host_score task);
          k = [Some (SqlStr (take 255 (tk_host_name task))), Some (SqlInt (unat (mo_sequence info)))]
      in [(server_performance, k), (server_cpu_detail, k)] @
         map (\<lambda>net. (server_net_detail, k @ [Some (SqlStr (take 63 (ni_name net)))])) (mo_net_info info) @
         map (\<lambda>disk. (server_disk_detail, k @ [Some (SqlStr (take 63 (di_name disk)))])) (mo_disk_info info) @
         map (\<lambda>proc. (server_net_process_detail, k @ [Some (SqlInt (unat (pn_pid proc)))]))
           (mo_process_net_info info))"
  by (simp add: rows_of_def Let_def row_key_def perf_row_def cpu_row_def net_row_def disk_row_def proc_row_def
      perf_fvals_def cpu_fvals_def net_bind_def disk_bind_def proc_bind_def perf_columns_def cpu_columns_def
      net_columns_def disk_columns_def proc_columns_def)

lemma insert_ignore_keys: "row_key ` List.set (insert_ignore r rows) = insert (row_key r) (row_key ` List.set rows)"
  by (auto simp: insert_ignore_def)

lemma insert_all_keys: "row_key ` List.set (insert_all rs rows) = row_key ` List.set rs \<union> row_key ` List.set rows"
  by (induction rs arbitrary: rows) (auto simp: insert_ignore_keys)

lemma insert_all_known: "row_key ` List.set rs \<subseteq> row_key ` List.set rows \<Longrightarrow> insert_all rs rows = rows"
  by (induction rs) (auto simp: insert_ignore_def)

text \<open>Writing a sample a second time, whenever it was received again, with whatever score and
  whatever rates of change, leaves the database as it is.\<close>

theorem repeated_sample_ignored:
  assumes "tk_host_name t1 = tk_host_name t2" and "hs_info (tk_host_score t1) = hs_info (tk_host_score t2)"
  shows "insert_all (rows_of fmt t2) (insert_all (rows_of fmt t1) rows) = insert_all (rows_of fmt t1) rows"
proof -
  have "map row_key (rows_of fmt t2) = map row_key (rows_of fmt t1)"
    by (simp only: rows_of_keys assms)
  then have "row_key ` List.set (rows_of fmt t2) = row_key ` List.set (rows_of fmt t1)"
    by (metis list.set_map)
  then show ?thesis by (intro insert_all_known) (simp add: insert_all_keys)
qed

theorem repeated_sample_ignored_witness:
  "insert_all (rows_of (\<lambda>t. ''later'') demo_task) (insert_all (rows_of (\<lambda>t. ''later'') (demo_task\<lparr>tk_cpu_percent_rate := 1\<rparr>)) []) =
   insert_all (rows_of (\<lambda>t. ''later'') (demo_task\<lparr>tk_cpu_percent_rate := 1\<rparr>)) []"
  by (rule repeated_sample_ignored) (simp_all add: demo_task_def make_task_def)

text \<open>A host whose samples carry no number (number 0, an old worker) gets one row in the main
  table and in the table of CPU details, ever: after a sample of it was written, the rows of the
  next one, whatever they hold, do not reach these tables.\<close>

theorem unnumbered_host_one_row:
  assumes "tk_host_name t1 = tk_host_name t2" and "mo_sequence (hs_info (tk_host_score t1)) = 0"
    and "mo_sequence (hs_info (tk_host_score t2)) = 0"
  shows "filter (\<lambda>r. fst r = server_performance \<or> fst r = server_cpu_detail)
      (insert_all (rows_of fmt t2) (insert_all (rows_of fmt t1) rows)) =
    filter (\<lambda>r. fst r = server_performance \<or> fst r = server_cpu_detail) (insert_all (rows_of fmt t1) rows)"
proof -
  let ?main = "\<lambda>r :: table \<times> row. fst r = server_performance \<or> fst r = server_cpu_detail"
  have keep: "filter ?main (insert_all rs db) = filter ?main db"
    if "\<And>r. r \<in> List.set rs \<Longrightarrow> ?main r \<Longrightarrow> row_key r \<in> row_key ` List.set db" for rs db
    using that by (induction rs arbitrary: db) (force simp: insert_ignore_def)+
  show ?thesis
  proof (rule keep)
    fix r assume r: "r \<in> List.set (rows_of fmt t2)" "?main r"
    then have "row_key r \<in> List.set (map row_key (rows_of fmt t2))" "fst (row_key r) = fst r"
      by (simp_all add: row_key_def)
    with r(2) have "row_key r \<in> List.set (map row_key (rows_of fmt t1))"
      unfolding rows_of_keys Let_def assms by auto
    then show "row_key r \<in> row_key ` List.set (insert_all (rows_of fmt t1) rows)"
      unfolding insert_all_keys by simp
  qed
qed

theorem unnumbered_host_one_row_witness:
  "let d1 = \<lparr>hs_info = MonitorInfo0, hs_score = 90, hs_timestamp = 5\<rparr>;
       d2 = \<lparr>hs_info = MonitorInfo0\<lparr>mo_name := ''x''\<rparr>, hs_score = 20, hs_timestamp = 15\<rparr>;
       t1 = make_task ''old'' d1 0 PerfSample0 PerfSample0; t2 = make_task ''old'' d2 0 PerfSample0 PerfSample0;
       main = \<lambda>r. fst r = server_performance \<or> fst r = server_cpu_detail;
       db1 = insert_all (rows_of (\<lambda>t. ''now'') t1) []
   in filter main (insert_all (rows_of (\<lambda>t. ''now'') t2) db1) = filter main db1"
  unfolding Let_def
  by (rule unnumbered_host_one_row) (simp_all add: make_task_def MonitorInfo0_def)

text \<open>C40: in the row of the main table the column of the send rate holds the sum of the send rates,
  but the column of its rate of change holds the rate of change of the \<^emph>\<open>receive\<close> rate, and the other
  way round.\<close>

theorem rate_columns_swapped:
  "\<exists>r rest. rows_of fmt (make_task host d seq cs ls) = (server_performance, r) # rest \<and>
     map_of r ''send_rate'' = Some (SqlFloat (sum_list (map ni_send_rate (mo_net_info (hs_info d))))) \<and>
     map_of r ''rcv_rate'' = Some (SqlFloat (sum_list (map ni_rcv_rate (mo_net_info (hs_info d))))) \<and>
     map_of r ''send_rate_rate'' = Some (SqlFloat (change_rate (ps_net_in_rate cs) (ps_net_in_rate ls))) \<and>
     map_of r ''rcv_rate_rate'' = Some (SqlFloat (change_rate (ps_net_out_rate cs) (ps_net_out_rate ls)))"
  by (simp add: rows_of_def Let_def perf_row_def perf_fvals_def perf_columns_def make_task_def)

subsection \<open>When the server answers\<close>

definition server_up :: "round \<Rightarrow> bool" where
  "server_up rd \<longleftrightarrow> rd_init rd \<and> rd_connect rd \<and>
     rd_prep rd = (\<lambda>t. (True, True, True)) \<and> rd_replies rd = []"

lemma calls_succeed:
  assumes "cn_replies c = []"
  shows "start_transaction c = (True, c\<lparr>cn_working := cn_committed c\<rparr>)"
    "execute_insert t r c = (True, c\<lparr>cn_working := insert_ignore (t, r) (cn_working c)\<rparr>)"
    "commit c = (True, c\<lparr>cn_committed := cn_working c\<rparr>)"
  using assms
  by (simp_all add: start_transaction_def execute_insert_def commit_def db_call_def next_reply_def)

lemma insert_loop_succeeds:
  assumes "cn_replies c = []"
  shows "\<exists>s' c'. insert_loop t bd rw ms s c = (True, s', c') \<and> cn_replies c' = []"
  using assms by (induction ms arbitrary: s c) (simp_all add: calls_succeed Let_def)

lemmas inserts_succeed =
  insert_loop_succeeds [where t = server_net_detail and bd = net_bind and rw = net_row, folded net_inserts_def]
  insert_loop_succeeds [where t = server_disk_detail and bd = disk_bind and rw = disk_row, folded disk_inserts_def]
  insert_loop_succeeds [where t = server_net_process_detail and bd = proc_bind and rw = proc_row,
    folded proc_inserts_def]

lemma insert_loop_keeps:
  assumes "insert_loop t bd rw ms s c = (ok, s', c')" and "\<And>m s. f (bd m s) = f s"
  shows "f s' = f s"
  using assms by (induction ms arbitrary: s c) (auto simp: Let_def split: prod.splits if_splits)

lemma stmts_kept:
  "net_inserts ns sn c = (ok, sn', c') \<Longrightarrow> sn_stmt sn' = sn_stmt sn"
  "disk_inserts ds sd c = (ok, sd', c') \<Longrightarrow> sd_stmt sd' = sd_stmt sd"
  "proc_inserts ps sq c = (ok, sq', c') \<Longrightarrow> sq_stmt sq' = sq_stmt sq"
  unfolding net_inserts_def disk_inserts_def proc_inserts_def
  by (erule insert_loop_keeps, simp add: net_bind_def disk_bind_def proc_bind_def)+

lemma WriteToMysql_succeeds:
  assumes "all_prepared x" and "cn_replies c = []"
  shows "\<exists>x' c'. WriteToMysql fmt task x c = (True, x', c') \<and> all_prepared x'"
proof -
  define info where "info = hs_info (tk_host_score task)"
  define x1 where "x1 = bind_common (tk_host_name task) (fmt (hs_timestamp (tk_host_score task))) (mo_sequence info) x"
  define x2 where "x2 = x1\<lparr>cx_perf := (cx_perf x1)\<lparr>sp_fvals := perf_fvals task\<rparr>,
    cx_cpu := (cx_cpu x1)\<lparr>sc_fvals := cpu_fvals info\<rparr>\<rparr>"
  have p2: "all_prepared x2"
    using assms(1) by (simp add: x2_def x1_def bind_common_def Let_def all_prepared_def)
  define c2 where "c2 = snd (execute_insert server_cpu_detail (cpu_row (cx_cpu x2))
    (snd (execute_insert server_performance (perf_row (cx_perf x2)) (snd (start_transaction c)))))"
  have r2: "cn_replies c2 = []" using assms(2) by (simp add: c2_def calls_succeed)
  obtain sn c3 where s3: "net_inserts (mo_net_info info) (cx_net x2) c2 = (True, sn, c3)" "cn_replies c3 = []"
    using inserts_succeed(1) [OF r2] by blast
  obtain sd c4 where s4: "disk_inserts (mo_disk_info info) (cx_disk x2) c3 = (True, sd, c4)" "cn_replies c4 = []"
    using inserts_succeed(2) [OF s3(2)] by blast
  obtain sq c5 where s5: "proc_inserts (mo_process_net_info info) (cx_proc x2) c4 = (True, sq, c5)" "cn_replies c5 = []"
    using inserts_succeed(3) [OF s4(2)] by blast
  let ?x = "x2\<lparr>cx_net := sn, cx_disk := sd, cx_proc := sq\<rparr>"
  have "WriteToMysql fmt task x c = (True, ?x, snd (commit c5))"
    using assms s3 s4 s5 unfolding WriteToMysql_def Let_def info_def [symmetric] x1_def [symmetric] x2_def [symmetric]
    by (simp add: calls_succeed c2_def)
  moreover have "all_prepared ?x"
    using p2 stmts_kept(1) [OF s3(1)] stmts_kept(2) [OF s4(1)] stmts_kept(3) [OF s5(1)]
    by (simp add: all_prepared_def)
  ultimately show ?thesis by blast
qed

lemma write_task_up:
  assumes "server_up rd" and "wr_conn w \<longrightarrow> all_prepared (wr_ctxs w)"
  shows "wr_conn (write_task fmt rd task w) \<and> all_prepared (wr_ctxs (write_task fmt rd task w)) \<and>
    wr_db (write_task fmt rd task w) = insert_all (rows_of fmt task) (wr_db w)"
proof -
  obtain ready w1 where c: "(if \<not> wr_conn w then connect_and_prepare rd w else (True, w)) = (ready, w1)"
    by fastforce
  with assms have w1: "ready" "wr_conn w1" "all_prepared (wr_ctxs w1)" "wr_db w1 = wr_db w"
    by (auto simp: connect_and_prepare_def server_up_def prepare_all_def prepared_def perf_Prepare_def
        cpu_Prepare_def net_Prepare_def disk_Prepare_def proc_Prepare_def all_prepared_def Let_def split: if_splits)
  let ?c = "\<lparr>cn_committed = wr_db w1, cn_working = wr_db w1, cn_replies = rd_replies rd\<rparr>"
  obtain x' c' where wr: "WriteToMysql fmt task (wr_ctxs w1) ?c = (True, x', c')" "all_prepared x'"
    using WriteToMysql_succeeds [OF w1(3), of ?c fmt task] assms(1) by (auto simp: server_up_def)
  from WriteToMysql_atomic [OF wr(1)] wr c w1 show ?thesis
    by (simp add: write_task_def atomic_write_def)
qed

lemma write_loop_up:
  assumes "\<forall>rd \<in> fst ` List.set ts. server_up rd" and "wr_conn w \<longrightarrow> all_prepared (wr_ctxs w)"
  shows "wr_db (MysqlWriteLoop fmt ts w) = insert_all (concat (map (rows_of fmt \<circ> snd) ts)) (wr_db w)"
  using assms
proof (induction fmt ts w rule: MysqlWriteLoop.induct)
  case (2 fmt rd task rest w)
  then show ?case using write_task_up [of rd w fmt task] by simp
qed simp



end
