(* ===== verification/ClusterQuery.thy ===== *)
theory ClusterQuery
  imports HostManager "HOL-Library.Multiset"
begin

text \<open>
  The current-state half of the query service, \<^verbatim>\<open>manager/src/rpc/query_service.cpp\<close>: the overview of the
  cluster with its order and statistics, and the query for the best host. The order in which the
  hash table is walked is an argument, and does not matter for the overview.
\<close>

section \<open>One line per host\<close>

datatype ServerStatus = ONLINE | OFFLINE

record ServerOverviewRecord =
  so_server_name :: string
  so_score :: rat
  so_last_update :: rat
  so_status :: ServerStatus
  so_cpu_percent :: rat
  so_mem_used_percent :: rat
  so_disk_util_percent :: rat
  so_load_avg_1 :: rat
  so_send_rate :: rat
  so_rcv_rate :: rat

definition kHostOnlineWindow :: int where "kHostOnlineWindow = 60"

text \<open>\<^verbatim>\<open>duration_cast\<close> to seconds drops the fraction.\<close>

definition truncated :: "rat \<Rightarrow> int" where
  "truncated x = (if x < 0 then \<lceil>x\<rceil> else \<lfloor>x\<rfloor>)"

definition BuildServerOverviewRecord :: "string \<Rightarrow> HostScore \<Rightarrow> rat \<Rightarrow> ServerOverviewRecord" where
  "BuildServerOverviewRecord server_name host_score now =
     (let info = hs_info host_score; age = truncated (now - hs_timestamp host_score)
      in \<lparr>so_server_name = server_name, so_score = hs_score host_score,
          so_last_update = hs_timestamp host_score,
          so_status = (if age > kHostOnlineWindow then OFFLINE else ONLINE),
          so_cpu_percent = (case mo_cpu_stat info of [] \<Rightarrow> 0 | c # _ \<Rightarrow> cm_cpu_percent c),
          so_mem_used_percent = (case mo_mem_info info of None \<Rightarrow> 0 | Some mem \<Rightarrow> mi_used_percent mem),
          so_disk_util_percent = max_disk_util (mo_disk_info info),
          so_load_avg_1 = (case mo_cpu_load info of None \<Rightarrow> 0 | Some l \<Rightarrow> cl_load_avg_1 l),
          so_send_rate = sum_list (map ni_send_rate (mo_net_info info)),
          so_rcv_rate = sum_list (map ni_rcv_rate (mo_net_info info))\<rparr>)"

section \<open>The order of the lines\<close>

text \<open>What the comparison looks at: score, time of the last sample, name.\<close>

datatype overview_rank = Rank rat rat string

fun ranked_before :: "overview_rank \<Rightarrow> overview_rank \<Rightarrow> bool" where
  "ranked_before (Rank s t n) (Rank s' t' n') =
     (if s \<noteq> s' then s > s' else if t \<noteq> t' then t > t' else n < n')"

instantiation overview_rank :: linorder
begin

definition less_overview_rank :: "overview_rank \<Rightarrow> overview_rank \<Rightarrow> bool" where
  "less_overview_rank a b = ranked_before a b"

definition less_eq_overview_rank :: "overview_rank \<Rightarrow> overview_rank \<Rightarrow> bool" where
  "less_eq_overview_rank a b = (a = b \<or> ranked_before a b)"

instance
proof
  fix a b c :: overview_rank
  show "(a < b) = (a \<le> b \<and> \<not> b \<le> a)"
    by (cases a; cases b) (auto simp: less_overview_rank_def less_eq_overview_rank_def split: if_splits)
  show "a \<le> a" by (simp add: less_eq_overview_rank_def)
  show "a \<le> b \<Longrightarrow> b \<le> c \<Longrightarrow> a \<le> c"
    by (cases a; cases b; cases c) (auto simp: less_eq_overview_rank_def split: if_splits)
  show "a \<le> b \<Longrightarrow> b \<le> a \<Longrightarrow> a = b"
    by (cases a; cases b) (auto simp: less_eq_overview_rank_def split: if_splits)
  show "a \<le> b \<or> b \<le> a"
    by (cases a; cases b) (auto simp: less_eq_overview_rank_def)
qed

end

definition rank_of :: "ServerOverviewRecord \<Rightarrow> overview_rank" where
  "rank_of r = Rank (so_score r) (so_last_update r) (so_server_name r)"

section \<open>The statistics\<close>

record ClusterStats =
  cs_total_servers :: nat
  cs_online_servers :: nat
  cs_offline_servers :: nat
  cs_avg_score :: rat
  cs_max_score :: rat
  cs_min_score :: rat
  cs_best_server :: string
  cs_worst_server :: string

definition ClusterStats0 :: ClusterStats where
  "ClusterStats0 = \<lparr>cs_total_servers = 0, cs_online_servers = 0, cs_offline_servers = 0, cs_avg_score = 0,
     cs_max_score = 0, cs_min_score = 0, cs_best_server = [], cs_worst_server = []\<rparr>"

text \<open>The largest \<^verbatim>\<open>float\<close>.\<close>

definition FLT_MAX :: rat where "FLT_MAX = 2 ^ 128 - 2 ^ 104"

record stats_loop =
  sl_total_score :: rat
  sl_online :: nat
  sl_offline :: nat
  sl_max_score :: rat
  sl_best_server :: string
  sl_min_score :: rat
  sl_worst_server :: string
  sl_best_online_score :: rat
  sl_best_online_server :: string
  sl_worst_online_score :: rat
  sl_worst_online_server :: string

definition stats_start :: stats_loop where
  "stats_start = \<lparr>sl_total_score = 0, sl_online = 0, sl_offline = 0, sl_max_score = - FLT_MAX,
     sl_best_server = [], sl_min_score = FLT_MAX, sl_worst_server = [], sl_best_online_score = - FLT_MAX,
     sl_best_online_server = [], sl_worst_online_score = FLT_MAX, sl_worst_online_server = []\<rparr>"

definition stats_step :: "ServerOverviewRecord \<Rightarrow> stats_loop \<Rightarrow> stats_loop" where
  "stats_step r a =
     (let a0 = a\<lparr>sl_total_score := sl_total_score a + so_score r\<rparr>;
          a1 = (if so_status r = ONLINE
                then let b0 = a0\<lparr>sl_online := sl_online a0 + 1\<rparr>;
                         b1 = (if so_score r > sl_best_online_score b0
                               then b0\<lparr>sl_best_online_score := so_score r, sl_best_online_server := so_server_name r\<rparr>
                               else b0)
                     in if so_score r < sl_worst_online_score b1
                        then b1\<lparr>sl_worst_online_score := so_score r, sl_worst_online_server := so_server_name r\<rparr>
                        else b1
                else a0\<lparr>sl_offline := sl_offline a0 + 1\<rparr>);
          a2 = (if so_score r > sl_max_score a1
                then a1\<lparr>sl_max_score := so_score r, sl_best_server := so_server_name r\<rparr> else a1)
      in if so_score r < sl_min_score a2
         then a2\<lparr>sl_min_score := so_score r, sl_worst_server := so_server_name r\<rparr> else a2)"

definition stats_of :: "ServerOverviewRecord list \<Rightarrow> ClusterStats" where
  "stats_of records =
     (if records = [] then ClusterStats0
      else let a = fold stats_step records stats_start
           in \<lparr>cs_total_servers = length records, cs_online_servers = sl_online a,
               cs_offline_servers = sl_offline a,
               cs_avg_score = sl_total_score a / of_nat (length records),
               cs_max_score = sl_max_score a, cs_min_score = sl_min_score a,
               cs_best_server = (if sl_best_online_server a = [] then sl_best_server a else sl_best_online_server a),
               cs_worst_server = (if sl_worst_online_server a = [] then sl_worst_server a
                 else sl_worst_online_server a)\<rparr>)"

definition BuildCurrentClusterSnapshot :: "scores \<Rightarrow> string list \<Rightarrow> rat \<Rightarrow>
    ServerOverviewRecord list \<times> ClusterStats" where
  "BuildCurrentClusterSnapshot host_scores order now =
     (let records = sort_key rank_of (List.map_filter (\<lambda>server_name.
            map_option (\<lambda>host_score. BuildServerOverviewRecord server_name host_score now) (host_scores server_name)) order)
      in (records, stats_of records))"

section \<open>The queries\<close>

text \<open>Messages carry whole seconds.\<close>

definition FillServerOverview :: "ServerOverviewRecord \<Rightarrow> ServerOverviewRecord" where
  "FillServerOverview r = r\<lparr>so_last_update := of_int (truncated (so_last_update r))\<rparr>"

definition GetAllHostScores :: "manager \<Rightarrow> scores" where
  "GetAllHostScores m = mg_host_scores m"

definition QueryClusterOverview :: "(string set \<Rightarrow> string list) \<Rightarrow> rat \<Rightarrow> manager option \<Rightarrow>
    status \<times> ServerOverviewRecord list \<times> ClusterStats" where
  "QueryClusterOverview walk now host_manager =
     (case host_manager of
        None \<Rightarrow> (UNAVAILABLE, [], ClusterStats0)
      | Some m \<Rightarrow>
          let scores = GetAllHostScores m;
              (records, stats) = BuildCurrentClusterSnapshot scores (walk (dom scores)) now
          in (OK, map FillServerOverview records, stats))"

text \<open>\<open>other\<close> is what other threads do between the choice and the copy of the scores; the clock is read
  for the line of the host and again for the statistics.\<close>

definition QueryBestHost :: "(string set \<Rightarrow> string list) \<Rightarrow> (manager \<Rightarrow> manager) \<Rightarrow> rat \<Rightarrow> rat \<Rightarrow> manager option \<Rightarrow>
    (status \<times> (ServerOverviewRecord \<times> ClusterStats) option) \<times> manager option" where
  "QueryBestHost walk other now snap_now host_manager =
     (case host_manager of
        None \<Rightarrow> ((UNAVAILABLE, None), None)
      | Some m \<Rightarrow>
          let (best_host, m1) = mgr_GetBestHost (walk (dom (mg_host_scores m))) m
          in if best_host = [] then ((UNAVAILABLE, None), Some m1)
             else let m2 = other m1; host_scores = GetAllHostScores m2
                  in case host_scores best_host of
                       None \<Rightarrow> ((INTERNAL, None), Some m2)
                     | Some d \<Rightarrow>
                         ((OK, Some (FillServerOverview (BuildServerOverviewRecord best_host d now),
                            snd (BuildCurrentClusterSnapshot host_scores (walk (dom host_scores)) snap_now))), Some m2))"

section \<open>The loop of the statistics\<close>

text \<open>The loop keeps two maxima and two minima, each with the name it was found at.\<close>

fun pick_max :: "ServerOverviewRecord \<Rightarrow> rat \<times> string \<Rightarrow> rat \<times> string" where
  "pick_max r (s, n) = (if so_score r > s then (so_score r, so_server_name r) else (s, n))"

fun pick_min :: "ServerOverviewRecord \<Rightarrow> rat \<times> string \<Rightarrow> rat \<times> string" where
  "pick_min r (s, n) = (if so_score r < s then (so_score r, so_server_name r) else (s, n))"

definition online :: "ServerOverviewRecord \<Rightarrow> bool" where
  "online r = (so_status r = ONLINE)"

lemma stats_fold:
  "sl_total_score (fold stats_step rs a) = sl_total_score a + sum_list (map so_score rs)"
  "sl_online (fold stats_step rs a) = sl_online a + length (filter online rs)"
  "sl_offline (fold stats_step rs a) = sl_offline a + length (filter (\<lambda>r. \<not> online r) rs)"
  "(sl_max_score (fold stats_step rs a), sl_best_server (fold stats_step rs a)) =
     fold pick_max rs (sl_max_score a, sl_best_server a)"
  "(sl_min_score (fold stats_step rs a), sl_worst_server (fold stats_step rs a)) =
     fold pick_min rs (sl_min_score a, sl_worst_server a)"
  "(sl_best_online_score (fold stats_step rs a), sl_best_online_server (fold stats_step rs a)) =
     fold pick_max (filter online rs) (sl_best_online_score a, sl_best_online_server a)"
  "(sl_worst_online_score (fold stats_step rs a), sl_worst_online_server (fold stats_step rs a)) =
     fold pick_min (filter online rs) (sl_worst_online_score a, sl_worst_online_server a)"
  by (induction rs arbitrary: a) (simp_all add: stats_step_def Let_def online_def)

lemma pick_max_fold:
  "\<exists>s n. fold pick_max rs (s0, n0) = (s, n) \<and> s0 \<le> s \<and> (\<forall>r \<in> List.set rs. so_score r \<le> s) \<and>
     ((s, n) = (s0, n0) \<or> (\<exists>r \<in> List.set rs. so_score r = s \<and> so_server_name r = n))"
proof (induction rs arbitrary: s0 n0)
  case (Cons r rs)
  show ?case
  proof (cases "so_score r > s0")
    case True
    with Cons.IH [of "so_score r" "so_server_name r"] show ?thesis by fastforce
  next
    case False
    with Cons.IH [of s0 n0] show ?thesis by fastforce
  qed
qed simp

lemma pick_min_fold:
  "\<exists>s n. fold pick_min rs (s0, n0) = (s, n) \<and> s \<le> s0 \<and> (\<forall>r \<in> List.set rs. s \<le> so_score r) \<and>
     ((s, n) = (s0, n0) \<or> (\<exists>r \<in> List.set rs. so_score r = s \<and> so_server_name r = n))"
proof (induction rs arbitrary: s0 n0)
  case (Cons r rs)
  show ?case
  proof (cases "so_score r < s0")
    case True
    with Cons.IH [of "so_score r" "so_server_name r"] show ?thesis by fastforce
  next
    case False
    with Cons.IH [of s0 n0] show ?thesis by fastforce
  qed
qed simp

text \<open>Starting outside the range of the scores, the result is one of the records.\<close>

definition top_of :: "ServerOverviewRecord set \<Rightarrow> rat \<Rightarrow> string \<Rightarrow> bool" where
  "top_of R s n \<longleftrightarrow> (\<exists>r \<in> R. so_score r = s \<and> so_server_name r = n \<and> (\<forall>q \<in> R. so_score q \<le> s))"

definition bottom_of :: "ServerOverviewRecord set \<Rightarrow> rat \<Rightarrow> string \<Rightarrow> bool" where
  "bottom_of R s n \<longleftrightarrow> (\<exists>r \<in> R. so_score r = s \<and> so_server_name r = n \<and> (\<forall>q \<in> R. s \<le> so_score q))"

lemma pick_max_top:
  assumes "rs \<noteq> []" and "\<forall>r \<in> List.set rs. s0 < so_score r" and "fold pick_max rs (s0, n0) = (s, n)"
  shows "top_of (List.set rs) s n"
proof -
  obtain s' n' where p: "fold pick_max rs (s0, n0) = (s', n')" "\<forall>r \<in> List.set rs. so_score r \<le> s'"
    "(s', n') = (s0, n0) \<or> (\<exists>r \<in> List.set rs. so_score r = s' \<and> so_server_name r = n')"
    using pick_max_fold [of rs s0 n0] by blast
  moreover obtain r where "r \<in> List.set rs" using assms(1) by (cases rs) auto
  ultimately have "s' \<noteq> s0" using assms(2) by fastforce
  with p assms(3) show ?thesis by (auto simp: top_of_def)
qed

lemma pick_min_bottom:
  assumes "rs \<noteq> []" and "\<forall>r \<in> List.set rs. so_score r < s0" and "fold pick_min rs (s0, n0) = (s, n)"
  shows "bottom_of (List.set rs) s n"
proof -
  obtain s' n' where p: "fold pick_min rs (s0, n0) = (s', n')" "\<forall>r \<in> List.set rs. s' \<le> so_score r"
    "(s', n') = (s0, n0) \<or> (\<exists>r \<in> List.set rs. so_score r = s' \<and> so_server_name r = n')"
    using pick_min_fold [of rs s0 n0] by blast
  moreover obtain r where "r \<in> List.set rs" using assms(1) by (cases rs) auto
  ultimately have "s' \<noteq> s0" using assms(2) by fastforce
  with p assms(3) show ?thesis by (auto simp: bottom_of_def)
qed

text \<open>The hosts among which the best and the worst are named: the online ones, if there is one.\<close>

definition candidates :: "ServerOverviewRecord list \<Rightarrow> ServerOverviewRecord set" where
  "candidates rs = (if \<exists>r \<in> List.set rs. online r then {r \<in> List.set rs. online r} else List.set rs)"

lemma stats_of_correct:
  assumes "rs \<noteq> []" and range: "\<forall>r \<in> List.set rs. 0 \<le> so_score r \<and> so_score r \<le> 100"
    and named: "\<forall>r \<in> List.set rs. so_server_name r \<noteq> []" and "st = stats_of rs"
  shows "cs_total_servers st = length rs \<and> cs_online_servers st = length (filter online rs) \<and>
    cs_online_servers st + cs_offline_servers st = cs_total_servers st \<and>
    cs_avg_score st * of_nat (length rs) = sum_list (map so_score rs) \<and>
    (\<exists>n. top_of (List.set rs) (cs_max_score st) n) \<and> (\<exists>n. bottom_of (List.set rs) (cs_min_score st) n) \<and>
    (\<exists>s. top_of (candidates rs) s (cs_best_server st)) \<and> (\<exists>s. bottom_of (candidates rs) s (cs_worst_server st))"
proof -
  define a where "a = fold stats_step rs stats_start"
  have lo: "\<forall>r \<in> List.set rs. - FLT_MAX < so_score r" and hi: "\<forall>r \<in> List.set rs. so_score r < FLT_MAX"
    using range by (fastforce simp: FLT_MAX_def)+
  note f = stats_fold [of rs stats_start, folded a_def]
  have top: "top_of (List.set rs) (sl_max_score a) (sl_best_server a)"
    using f(4) by (intro pick_max_top [OF assms(1) lo]) (simp add: stats_start_def)
  have bot: "bottom_of (List.set rs) (sl_min_score a) (sl_worst_server a)"
    using f(5) by (intro pick_min_bottom [OF assms(1) hi]) (simp add: stats_start_def)
  have cand: "(\<exists>s. top_of (candidates rs) s (cs_best_server st)) \<and> (\<exists>s. bottom_of (candidates rs) s (cs_worst_server st))"
  proof (cases "filter online rs = []")
    case True
    then have "candidates rs = List.set rs" by (auto simp: candidates_def filter_empty_conv)
    moreover have "sl_best_online_server a = []" "sl_worst_online_server a = []"
      using f(6,7) True by (simp_all add: stats_start_def)
    ultimately show ?thesis using top bot assms(1,4) by (auto simp: stats_of_def Let_def a_def)
  next
    case False
    then have c: "candidates rs = List.set (filter online rs)"
      by (auto simp: candidates_def filter_empty_conv)
    have "top_of (candidates rs) (sl_best_online_score a) (sl_best_online_server a)" unfolding c
      using f(6) lo by (intro pick_max_top [OF False, of "- FLT_MAX" "[]"]) (simp_all add: stats_start_def)
    moreover have "bottom_of (candidates rs) (sl_worst_online_score a) (sl_worst_online_server a)" unfolding c
      using f(7) hi by (intro pick_min_bottom [OF False, of FLT_MAX "[]"]) (simp_all add: stats_start_def)
    moreover from calculation have "sl_best_online_server a \<noteq> []" "sl_worst_online_server a \<noteq> []"
      using named unfolding c by (auto simp: top_of_def bottom_of_def)
    ultimately show ?thesis using assms(1,4) by (auto simp: stats_of_def Let_def a_def)
  qed
  have "length (filter online rs) + length (filter (\<lambda>r. \<not> online r) rs) = length rs"
    by (rule sum_length_filter_compl)
  with f(1-3) assms(1,4) top bot cand show ?thesis
    by (auto simp: stats_of_def Let_def a_def stats_start_def)
qed

section \<open>The snapshot\<close>

definition lines_of :: "scores \<Rightarrow> rat \<Rightarrow> string list \<Rightarrow> ServerOverviewRecord list" where
  "lines_of scores now order = List.map_filter (\<lambda>h. map_option (\<lambda>d. BuildServerOverviewRecord h d now) (scores h)) order"

lemma line_fields [simp]:
  "so_server_name (BuildServerOverviewRecord h d now) = h"
  "so_score (BuildServerOverviewRecord h d now) = hs_score d"
  "so_last_update (BuildServerOverviewRecord h d now) = hs_timestamp d"
  by (simp_all add: BuildServerOverviewRecord_def Let_def)

lemma online_line: "online (BuildServerOverviewRecord h d now) \<longleftrightarrow> now - hs_timestamp d < 61"
  by (auto simp: online_def BuildServerOverviewRecord_def Let_def truncated_def kHostOnlineWindow_def
      ceiling_le_iff floor_le_iff le_less_trans not_less)

lemma lines_of_all:
  assumes "List.set order = dom scores"
  shows "lines_of scores now order = map (\<lambda>h. BuildServerOverviewRecord h (the (scores h)) now) order"
proof -
  have "List.set os \<subseteq> dom scores \<Longrightarrow>
      lines_of scores now os = map (\<lambda>h. BuildServerOverviewRecord h (the (scores h)) now) os" for os
    by (induction os) (auto simp: lines_of_def List.map_filter_simps)
  then show ?thesis using assms by simp
qed

lemma rank_inj: "inj_on rank_of (List.set (map (\<lambda>h. BuildServerOverviewRecord h (f h) now) order))"
  by (auto simp: inj_on_def rank_of_def)

lemma snapshot_records:
  assumes "distinct order" and "List.set order = dom scores"
    and "BuildCurrentClusterSnapshot scores order now = (records, stats)"
  shows "sorted (map rank_of records) \<and>
    mset records = mset (map (\<lambda>h. BuildServerOverviewRecord h (the (scores h)) now) order) \<and> stats = stats_of records"
  using assms(3) lines_of_all [OF assms(2), of now]
  by (auto simp: BuildCurrentClusterSnapshot_def Let_def lines_of_def)

text \<open>The walk of the hash table has no influence on the overview.\<close>

lemma snapshot_walk_irrelevant:
  assumes "distinct xs" and "List.set xs = dom scores" and "distinct ys" and "List.set ys = dom scores"
  shows "BuildCurrentClusterSnapshot scores xs now = BuildCurrentClusterSnapshot scores ys now"
proof -
  let ?f = "\<lambda>h. BuildServerOverviewRecord h (the (scores h)) now"
  have "mset xs = mset ys" using assms by (simp add: set_eq_iff_mset_eq_distinct [symmetric])
  then have "mset (map ?f xs) = mset (sort_key rank_of (map ?f ys))" by simp
  moreover have "inj_on rank_of (List.set (map ?f xs))" by (rule rank_inj)
  ultimately have "sort_key rank_of (map ?f xs) = sort_key rank_of (map ?f ys)"
    by (rule sort_key_inj_key_eq) simp
  then show ?thesis
    using lines_of_all [OF assms(2), of now] lines_of_all [OF assms(4), of now]
    by (simp add: BuildCurrentClusterSnapshot_def Let_def lines_of_def)
qed

lemma sent_fields [simp]:
  "so_server_name (FillServerOverview r) = so_server_name r" "so_score (FillServerOverview r) = so_score r"
  "so_status (FillServerOverview r) = so_status r"
  by (simp_all add: FillServerOverview_def)

text \<open>What the statistics say of the stored scores.\<close>

definition reporting :: "scores \<Rightarrow> rat \<Rightarrow> string set" where
  "reporting scores now = {h. \<exists>d. scores h = Some d \<and> now - hs_timestamp d < 61}"

lemma online_count:
  assumes "finite (dom scores)" and "distinct order" and "List.set order = dom scores"
    and "mset records = mset (map (\<lambda>h. BuildServerOverviewRecord h (the (scores h)) now) order)"
  shows "length (filter online records) = card (reporting scores now)"
proof -
  let ?lines = "map (\<lambda>h. BuildServerOverviewRecord h (the (scores h)) now) order"
  have "mset (filter online records) = mset (filter online ?lines)" by (simp only: mset_filter assms(4))
  then have "length (filter online records) = length (filter online ?lines)" by (rule mset_eq_length)
  also have "\<dots> = length (filter (\<lambda>h. now - hs_timestamp (the (scores h)) < 61) order)"
    by (simp add: filter_map comp_def online_line)
  also have "\<dots> = card (List.set (filter (\<lambda>h. now - hs_timestamp (the (scores h)) < 61) order))"
    using assms(2) by (metis distinct_card distinct_filter)
  also have "List.set (filter (\<lambda>h. now - hs_timestamp (the (scores h)) < 61) order) = reporting scores now"
    using assms(3) by (force simp: reporting_def)
  finally show ?thesis .
qed

text \<open>A host of best (worst) score among some hosts.\<close>

definition best_among :: "scores \<Rightarrow> string set \<Rightarrow> string \<Rightarrow> bool" where
  "best_among scores H h \<longleftrightarrow> h \<in> H \<and> (\<forall>k \<in> H. score_of scores k \<le> score_of scores h)"

definition worst_among :: "scores \<Rightarrow> string set \<Rightarrow> string \<Rightarrow> bool" where
  "worst_among scores H h \<longleftrightarrow> h \<in> H \<and> (\<forall>k \<in> H. score_of scores h \<le> score_of scores k)"

lemma among_lines:
  assumes "R = (\<lambda>h. BuildServerOverviewRecord h (the (scores h)) now) ` H" and "H \<subseteq> dom scores"
  shows "top_of R s n \<longleftrightarrow> best_among scores H n \<and> s = score_of scores n"
    and "bottom_of R s n \<longleftrightarrow> worst_among scores H n \<and> s = score_of scores n"
proof -
  have *: "h \<in> H \<Longrightarrow> hs_score (the (scores h)) = score_of scores h" for h
    using assms(2) by (auto simp: score_of_def)
  show "top_of R s n \<longleftrightarrow> best_among scores H n \<and> s = score_of scores n"
    unfolding assms(1) top_of_def best_among_def using * by auto
  show "bottom_of R s n \<longleftrightarrow> worst_among scores H n \<and> s = score_of scores n"
    unfolding assms(1) bottom_of_def worst_among_def using * by auto
qed

section \<open>Properties\<close>

lemma snapshot_stats:
  assumes inv: "mgr_inv t m" and w: "walk_ok walk" and ne: "dom (mg_host_scores m) \<noteq> {}"
    and snap: "BuildCurrentClusterSnapshot (mg_host_scores m) (walk (dom (mg_host_scores m))) now = (records, stats)"
  shows "sorted (map rank_of records) \<and> distinct (map so_server_name records) \<and>
    List.set records = {BuildServerOverviewRecord h d now | h d. mg_host_scores m h = Some d} \<and>
    cs_total_servers stats = card (dom (mg_host_scores m)) \<and>
    cs_online_servers stats = card (reporting (mg_host_scores m) now) \<and>
    cs_online_servers stats + cs_offline_servers stats = cs_total_servers stats \<and>
    (\<forall>h d. mg_host_scores m h = Some d \<longrightarrow> cs_min_score stats \<le> hs_score d \<and> hs_score d \<le> cs_max_score stats) \<and>
    (let H = (if reporting (mg_host_scores m) now = {} then dom (mg_host_scores m) else reporting (mg_host_scores m) now)
     in best_among (mg_host_scores m) H (cs_best_server stats) \<and> worst_among (mg_host_scores m) H (cs_worst_server stats))"
proof -
  let ?S = "mg_host_scores m"
  let ?o = "walk (dom ?S)"
  let ?line = "\<lambda>h. BuildServerOverviewRecord h (the (?S h)) now"
  from inv have fin: "finite (dom ?S)" and named: "[] \<notin> dom ?S"
    and range: "\<And>h d. ?S h = Some d \<Longrightarrow> 0 \<le> hs_score d \<and> hs_score d \<le> 100"
    by (auto simp: mgr_inv_def)
  from w fin have o: "distinct ?o" "List.set ?o = dom ?S" by (simp_all add: walk_ok_def)
  note r = snapshot_records [OF o snap]
  have m: "mset records = mset (map ?line ?o)" and st: "stats = stats_of records" using r by blast+
  have set_m: "List.set records = ?line ` dom ?S"
    using mset_eq_setD [OF m] o(2) by simp
  then have set: "List.set records = {BuildServerOverviewRecord h d now | h d. ?S h = Some d}" by force
  have "map so_server_name (map ?line ?o) = ?o" by (simp add: comp_def)
  then have "mset (map so_server_name records) = mset ?o" by (metis m mset_map)
  then have dist: "distinct (map so_server_name records)"
    using o(1) by (metis mset_eq_imp_distinct_iff)
  have len: "length records = card (dom ?S)"
    using mset_eq_length [OF m] distinct_card [OF o(1)] o(2) by simp
  have on: "length (filter online records) = card (reporting ?S now)" by (rule online_count [OF fin o m])
  have ne': "records \<noteq> []" using set_m ne by auto
  have "\<forall>q \<in> List.set records. 0 \<le> so_score q \<and> so_score q \<le> 100" "\<forall>q \<in> List.set records. so_server_name q \<noteq> []"
    unfolding set using range named by auto
  note sc = stats_of_correct [OF ne' this st]
  have rep: "reporting ?S now = {h \<in> dom ?S. online (?line h)}" by (auto simp: reporting_def online_line)
  then have cand: "candidates records = ?line ` (if reporting ?S now = {} then dom ?S else reporting ?S now)"
    unfolding candidates_def set_m by auto
  have sub: "(if reporting ?S now = {} then dom ?S else reporting ?S now) \<subseteq> dom ?S" using rep by auto
  have ext: "\<forall>h d. ?S h = Some d \<longrightarrow> cs_min_score stats \<le> hs_score d \<and> hs_score d \<le> cs_max_score stats"
  proof (intro allI impI)
    fix h d assume hd: "?S h = Some d"
    then have "BuildServerOverviewRecord h d now \<in> List.set records" using set by blast
    with sc show "cs_min_score stats \<le> hs_score d \<and> hs_score d \<le> cs_max_score stats"
      unfolding top_of_def bottom_of_def by fastforce
  qed
  show ?thesis
    using r set dist len on ext sc among_lines [OF cand sub] by (auto simp: Let_def)
qed


text \<open>Two equal hosts, the first of which stopped reporting 100 seconds ago and was not removed yet.\<close>

definition silent_scores :: scores where
  "silent_scores = [''a'' \<mapsto> \<lparr>hs_info = MonitorInfo0\<lparr>mo_name := ''a''\<rparr>, hs_score = 100, hs_timestamp = 0\<rparr>,
     ''b'' \<mapsto> \<lparr>hs_info = MonitorInfo0\<lparr>mo_name := ''b''\<rparr>, hs_score = 100, hs_timestamp = 100\<rparr>]"

definition two_hosts :: "string set \<Rightarrow> string list" where
  "two_hosts D = (if D = {''a'', ''b''} then [''a'', ''b''] else sorted_list_of_set D)"

definition silent_manager :: manager where
  "silent_manager = OnDataReceived two_hosts 100 (MonitorInfo0\<lparr>mo_name := ''b''\<rparr>)
     (OnDataReceived two_hosts 0 (MonitorInfo0\<lparr>mo_name := ''a''\<rparr>) (mgr_Start HostManager_init))"

lemma two_hosts_ok: "walk_ok two_hosts"
  by (simp add: walk_ok_def two_hosts_def)

lemma idle_score: "CalcScore (MonitorInfo0\<lparr>mo_name := n\<rparr>) = 100"
  unfolding CalcScore_weighted weighted_score_eq
  by (simp add: usage_of_def MonitorInfo0_def clamp01_def max_disk_util_def)

text \<open>Receiving an unnumbered sample of an idle host.\<close>

lemma idle_received:
  assumes "name \<noteq> []" and "m' = OnDataReceived walk now (MonitorInfo0\<lparr>mo_name := name\<rparr>) m"
    and "d = \<lparr>hs_info = MonitorInfo0\<lparr>mo_name := name\<rparr>, hs_score = 100, hs_timestamp = now\<rparr>"
  shows "mg_host_scores m' = (mg_host_scores m)(name \<mapsto> d) \<and>
    mg_schedule_states m' = snd (GetBestHost ((mg_host_scores m)(name \<mapsto> d)) (walk (insert name (dom (mg_host_scores m))))
      ((mg_schedule_states m)(name \<mapsto> update_weight 100 (schedule_of (mg_schedule_states m) name))))"
  using assms
  by (simp add: OnDataReceived_def idle_score server_id_def MonitorInfo0_def [THEN arg_cong, of mo_name]
    MonitorInfo0_def [THEN arg_cong, of mo_host_info] MonitorInfo0_def [THEN arg_cong, of mo_sequence]
    check_duplicate_def store_score_def mgr_GetBestHost_def EnqueueMysqlWrite_def Let_def split: prod.split)

lemmas schedule_simps = GetBestHost_def schedule_of_def update_weight_def Let_def CalcSchedulingWeight_def
  ScheduleState0_def score_of_def

lemma silent_tables:
  "mg_host_scores silent_manager = silent_scores"
  "mg_schedule_states silent_manager = [''a'' \<mapsto> \<lparr>ss_base_weight = 100, ss_current_weight = - 100\<rparr>,
     ''b'' \<mapsto> \<lparr>ss_base_weight = 100, ss_current_weight = 100\<rparr>]"
proof -
  let ?m1 = "OnDataReceived two_hosts 0 (MonitorInfo0\<lparr>mo_name := ''a''\<rparr>) (mgr_Start HostManager_init)"
  have w1: "two_hosts {''a''} = [''a'']" and w2: "two_hosts {''a'', ''b''} = [''a'', ''b'']"
    "two_hosts {''b'', ''a''} = [''a'', ''b'']"
    by (auto simp: two_hosts_def)
  have m1: "mg_host_scores ?m1 = [''a'' \<mapsto> \<lparr>hs_info = MonitorInfo0\<lparr>mo_name := ''a''\<rparr>, hs_score = 100, hs_timestamp = 0\<rparr>]"
    "mg_schedule_states ?m1 = [''a'' \<mapsto> \<lparr>ss_base_weight = 100, ss_current_weight = 0\<rparr>]"
    using idle_received [OF _ refl refl, of "''a''" two_hosts 0 "mgr_Start HostManager_init"]
    by (simp_all add: mgr_Start_def HostManager_init_def w1 schedule_simps)
  show "mg_host_scores silent_manager = silent_scores"
    using idle_received [OF _ refl refl, of "''b''" two_hosts 100 ?m1]
    by (simp add: silent_manager_def [symmetric] m1 silent_scores_def)
  show "mg_schedule_states silent_manager = [''a'' \<mapsto> \<lparr>ss_base_weight = 100, ss_current_weight = - 100\<rparr>,
     ''b'' \<mapsto> \<lparr>ss_base_weight = 100, ss_current_weight = 100\<rparr>]"
    using idle_received [OF _ refl refl, of "''b''" two_hosts 100 ?m1]
    by (simp add: silent_manager_def [symmetric] m1 w2 schedule_simps fun_upd_twist)
qed

definition turned_manager :: manager where
  "turned_manager = snd (mgr_GetBestHost (two_hosts (dom (mg_host_scores silent_manager))) silent_manager)"

lemma silent_reach: "mgr_reach two_hosts 100 silent_manager" "mgr_reach two_hosts 100 turned_manager"
proof -
  have "mgr_reach two_hosts 0 (OnDataReceived two_hosts 0 (MonitorInfo0\<lparr>mo_name := ''a''\<rparr>) (mgr_Start HostManager_init))"
    by (rule mgr_reach.received [OF mgr_reach.started [of _ 0]]) simp
  then show r: "mgr_reach two_hosts 100 silent_manager"
    unfolding silent_manager_def by (rule mgr_reach.received) simp
  show "mgr_reach two_hosts 100 turned_manager"
    unfolding turned_manager_def by (rule mgr_reach.chosen [OF r])
qed

lemma silent_dom: "dom silent_scores = {''a'', ''b''}" by (auto simp: silent_scores_def)

lemma two_hosts_ab: "two_hosts {''a'', ''b''} = [''a'', ''b'']" by (simp add: two_hosts_def)

lemma turned_tables:
  "mg_host_scores turned_manager = silent_scores"
  "mg_schedule_states turned_manager = [''a'' \<mapsto> \<lparr>ss_base_weight = 100, ss_current_weight = 0\<rparr>,
     ''b'' \<mapsto> \<lparr>ss_base_weight = 100, ss_current_weight = 0\<rparr>]"
  by (simp_all add: turned_manager_def mgr_GetBestHost_def silent_tables silent_dom two_hosts_ab schedule_simps
      fun_upd_twist split: prod.split)

text \<open>The best host is handed out by turns and not by who is online: a host that has been silent
  for more than the online window is returned, marked \<open>OFFLINE\<close>, while the statistics sent with it name
  another host, which is online.\<close>

theorem best_host_may_be_offline:
  "\<exists>walk t m line stats m'. walk_ok walk \<and> mgr_reach walk t m \<and>
     QueryBestHost walk id t t (Some m) = ((OK, Some (line, stats)), m') \<and>
     so_status line = OFFLINE \<and> cs_online_servers stats = 1 \<and> cs_best_server stats \<noteq> so_server_name line"
proof -
  define line where "line = FillServerOverview (BuildServerOverviewRecord ''a'' (the (silent_scores ''a'')) 100)"
  define stats where "stats = snd (BuildCurrentClusterSnapshot silent_scores (two_hosts (dom silent_scores)) 100)"
  obtain m1 where g: "mgr_GetBestHost (two_hosts (dom (mg_host_scores turned_manager))) turned_manager = (''a'', m1)"
    and m1: "mg_host_scores m1 = silent_scores"
    by (simp add: mgr_GetBestHost_def turned_tables silent_dom two_hosts_ab schedule_simps)
  obtain d where sc: "silent_scores ''a'' = Some d" by (simp add: silent_scores_def)
  have q: "QueryBestHost two_hosts id 100 100 (Some turned_manager) = ((OK, Some (line, stats)), Some m1)"
    unfolding QueryBestHost_def option.case g
    by (simp add: m1 GetAllHostScores_def Let_def line_def stats_def sc)
  have rep: "reporting silent_scores 100 = {''b''}" by (auto simp: reporting_def silent_scores_def split: if_splits)
  obtain records where snap: "BuildCurrentClusterSnapshot (mg_host_scores turned_manager)
      (two_hosts (dom (mg_host_scores turned_manager))) 100 = (records, stats)"
    unfolding turned_tables stats_def by (metis prod.collapse)
  have ne: "dom (mg_host_scores turned_manager) \<noteq> {}" by (simp add: turned_tables silent_dom)
  have "cs_online_servers stats = 1" "cs_best_server stats = ''b''"
    using snapshot_stats [OF mgr_reach_inv [OF silent_reach(2) two_hosts_ok] two_hosts_ok ne snap] rep
    by (simp_all add: turned_tables best_among_def)
  moreover have "so_status line = OFFLINE" "so_server_name line = ''a''"
    by (simp_all add: line_def silent_scores_def BuildServerOverviewRecord_def Let_def truncated_def kHostOnlineWindow_def)
  ultimately show ?thesis using q two_hosts_ok silent_reach(2) by force
qed

text \<open>The host just chosen is missing when it was removed before the scores were copied.\<close>

lemma best_host_errors:
  "QueryBestHost walk other now snap_now None = ((UNAVAILABLE, None), None)"
  "mg_host_scores m = Map.empty \<Longrightarrow> walk_ok walk \<Longrightarrow>
     fst (QueryBestHost walk other now snap_now (Some m)) = (UNAVAILABLE, None)"
  "mgr_GetBestHost (walk (dom (mg_host_scores m))) m = (h, m1) \<Longrightarrow> h \<noteq> [] \<Longrightarrow> mg_host_scores (other m1) h = None \<Longrightarrow>
     fst (QueryBestHost walk other now snap_now (Some m)) = (INTERNAL, None)"
  by (auto simp: QueryBestHost_def mgr_GetBestHost_def GetBestHost_def walk_ok_def GetAllHostScores_def Let_def
      split: prod.split option.split)


end
