(* ===== verification/HistoryQuery.thy ===== *)
theory HistoryQuery
  imports HostManager TextScan
begin

text \<open>
  Queries for stored samples: \<^verbatim>\<open>manager/src/query_manager.cpp\<close> builds the text of a \<^verbatim>\<open>SELECT\<close>, sends it and
  turns the cells of the answer into records; the rest of \<^verbatim>\<open>manager/src/rpc/query_service.cpp\<close> checks a
  request, calls it and fills the reply. The database server is any function from the text of a
  statement to an answer; \<open>esc\<close> is \<^verbatim>\<open>mysql_real_escape_string\<close>, \<open>fmt\<close> the conversion of a time to local
  time that \<^verbatim>\<open>FormatTime\<close> makes, \<open>mktime\<close> what \<^verbatim>\<open>ParseMysqlTime\<close> reads a text as. Time is in
  nanoseconds, as in the clock of the C++ library. \<open>None\<close> is undefined behaviour: an overflow of an
  \<^verbatim>\<open>int\<close>, or a cell that the answer does not have.
\<close>

section \<open>Text to numbers\<close>

definition clip :: "int \<Rightarrow> int \<Rightarrow> int \<Rightarrow> int" where
  "clip lo hi v = (if v < lo then lo else if hi < v then hi else v)"

text \<open>\<^verbatim>\<open>atoi\<close> is \<^verbatim>\<open>strtol\<close> cut to 32 bits; \<^verbatim>\<open>strtoul\<close> clips, then negates.\<close>

definition atoi :: "string \<Rightarrow> int" where
  "atoi s =
     (case scan_num s of None \<Rightarrow> 0
      | Some (neg, n, _) \<Rightarrow>
          sint (of_int (clip (- (2 ^ 63)) (2 ^ 63 - 1) (if neg then - int n else int n)) :: 32 word))"

definition strtoul :: "string \<Rightarrow> u64" where
  "strtoul s =
     (case scan_num s of None \<Rightarrow> 0
      | Some (neg, n, _) \<Rightarrow> if n < 2 ^ 64 then (if neg then - of_nat n else of_nat n) else - 1)"

text \<open>\<^verbatim>\<open>atof\<close> on decimal numbers: sign, digits with a point, exponent.\<close>

definition scan_exponent :: "string \<Rightarrow> int" where
  "scan_exponent s =
     (case s of [] \<Rightarrow> 0
      | e # r \<Rightarrow>
          if e = CHR ''e'' \<or> e = CHR ''E''
          then (let (neg, d) = (case r of [] \<Rightarrow> (False, []) | c # t \<Rightarrow>
                      if c = CHR ''-'' then (True, t) else if c = CHR ''+'' then (False, t) else (False, r));
                    n = int (digits_value (takeWhile is_digit d))
                in if neg then - n else n)
          else 0)"

definition scale10 :: "int \<Rightarrow> rat" where
  "scale10 k = (if 0 \<le> k then 10 ^ nat k else 1 / 10 ^ nat (- k))"

definition atof :: "string \<Rightarrow> rat" where
  "atof s =
     (let r = dropWhile is_space s;
          (neg, r1) = (case r of [] \<Rightarrow> (False, []) | c # t \<Rightarrow>
             if c = CHR ''-'' then (True, t) else if c = CHR ''+'' then (False, t) else (False, r));
          whole = takeWhile is_digit r1;
          r2 = dropWhile is_digit r1;
          (frac, r3) = (case r2 of [] \<Rightarrow> ([], []) | c # t \<Rightarrow>
             if c = CHR ''.'' then (takeWhile is_digit t, dropWhile is_digit t) else ([], r2))
      in if whole = [] \<and> frac = [] then 0
         else let v = of_nat (digits_value (whole @ frac)) * scale10 (scan_exponent r3 - int (length frac))
              in if neg then - v else v)"

section \<open>Records and columns\<close>

record PerformanceRecord =
  pr_server_name :: string
  pr_timestamp :: int
  pr_cpu_percent :: rat
  pr_load_avg_1 :: rat
  pr_load_avg_3 :: rat
  pr_load_avg_15 :: rat
  pr_mem_used_percent :: rat
  pr_disk_util_percent :: rat
  pr_send_rate :: rat
  pr_rcv_rate :: rat
  pr_score :: rat
  pr_cpu_percent_rate :: rat
  pr_mem_used_percent_rate :: rat
  pr_disk_util_percent_rate :: rat
  pr_load_avg_1_rate :: rat
  pr_send_rate_rate :: rat
  pr_rcv_rate_rate :: rat

record NetDetailRecord =
  nr_server_name :: string
  nr_net_name :: string
  nr_timestamp :: int
  nr_rcv_bytes_rate :: rat
  nr_snd_bytes_rate :: rat
  nr_rcv_packets_rate :: rat
  nr_snd_packets_rate :: rat

record NetProcessDetailRecord =
  qr_server_name :: string
  qr_pid :: u32
  qr_proc_name :: string
  qr_timestamp :: int
  qr_snd_bytes_rate :: rat
  qr_rcv_bytes_rate :: rat
  qr_total_bytes_rate :: rat
  qr_share_percent :: rat

record DiskDetailRecord =
  dr_server_name :: string
  dr_disk_name :: string
  dr_timestamp :: int
  dr_read_bytes_per_sec :: rat
  dr_write_bytes_per_sec :: rat
  dr_read_iops :: rat
  dr_write_iops :: rat
  dr_avg_read_latency_ms :: rat
  dr_avg_write_latency_ms :: rat
  dr_util_percent :: rat

record CpuDetailRecord =
  cr_server_name :: string
  cr_timestamp :: int
  cr_usr_percent :: rat
  cr_system_percent :: rat
  cr_nice_percent :: rat
  cr_idle_percent :: rat
  cr_io_wait_percent :: rat
  cr_irq_percent :: rat
  cr_soft_irq_percent :: rat

text \<open>The lists of columns as the statements write them.\<close>

definition kPerformanceSelectColumns :: string where
  "kPerformanceSelectColumns =
     ''server_name, timestamp, cpu_percent, load_avg_1, load_avg_3, load_avg_15, '' @
     ''mem_used_percent, disk_util_percent, send_rate, rcv_rate, score, '' @
     ''cpu_percent_rate, mem_used_percent_rate, disk_util_percent_rate, '' @
     ''load_avg_1_rate, send_rate_rate, rcv_rate_rate''"

definition net_select_columns :: string where
  "net_select_columns = ''server_name, net_name, timestamp, rcv_bytes_rate, '' @
     ''snd_bytes_rate, rcv_packets_rate, snd_packets_rate ''"

definition proc_select_columns :: string where
  "proc_select_columns = ''server_name, pid, proc_name, timestamp, snd_bytes_rate, '' @
     ''rcv_bytes_rate, total_bytes_rate, share_percent ''"

definition disk_select_columns :: string where
  "disk_select_columns = ''server_name, disk_name, timestamp, read_bytes_per_sec, '' @
     ''write_bytes_per_sec, read_iops, write_iops, avg_read_latency_ms, '' @
     ''avg_write_latency_ms, util_percent ''"

definition cpu_select_columns :: string where
  "cpu_select_columns = ''server_name, timestamp, usr_percent, system_percent, '' @
     ''nice_percent, idle_percent, io_wait_percent, irq_percent, '' @ ''soft_irq_percent ''"

section \<open>Reading a row\<close>

type_synonym cells = "string option list"

text \<open>A cell of the row, with \<open>None\<close> inside for \<open>NULL\<close>.\<close>

definition cell :: "cells \<Rightarrow> nat \<Rightarrow> string option option" where
  "cell row i = (if i < length row then Some (row ! i) else None)"

definition text_of :: "string option \<Rightarrow> string" where
  "text_of c = (case c of None \<Rightarrow> [] | Some t \<Rightarrow> t)"

definition float_of :: "string option \<Rightarrow> rat" where
  "float_of c = (case c of None \<Rightarrow> 0 | Some t \<Rightarrow> atof t)"

definition pid_of :: "string option \<Rightarrow> u32" where
  "pid_of c = (case c of None \<Rightarrow> 0 | Some t \<Rightarrow> ucast (strtoul t))"

definition time_of :: "(string \<Rightarrow> int) \<Rightarrow> int \<Rightarrow> string option \<Rightarrow> int" where
  "time_of mktime now c = (case c of None \<Rightarrow> now | Some t \<Rightarrow> mktime t)"

definition ParsePerformanceRecordRow :: "(string \<Rightarrow> int) \<Rightarrow> int \<Rightarrow> cells \<Rightarrow> PerformanceRecord option" where
  "ParsePerformanceRecordRow mktime now row =
     do { c0 \<leftarrow> cell row 0; c1 \<leftarrow> cell row 1; c2 \<leftarrow> cell row 2; c3 \<leftarrow> cell row 3; c4 \<leftarrow> cell row 4;
          c5 \<leftarrow> cell row 5; c6 \<leftarrow> cell row 6; c7 \<leftarrow> cell row 7; c8 \<leftarrow> cell row 8; c9 \<leftarrow> cell row 9;
          c10 \<leftarrow> cell row 10; c11 \<leftarrow> cell row 11; c12 \<leftarrow> cell row 12; c13 \<leftarrow> cell row 13; c14 \<leftarrow> cell row 14;
          c15 \<leftarrow> cell row 15; c16 \<leftarrow> cell row 16;
          Some \<lparr>pr_server_name = text_of c0, pr_timestamp = time_of mktime now c1,
            pr_cpu_percent = float_of c2, pr_load_avg_1 = float_of c3, pr_load_avg_3 = float_of c4,
            pr_load_avg_15 = float_of c5, pr_mem_used_percent = float_of c6, pr_disk_util_percent = float_of c7,
            pr_send_rate = float_of c8, pr_rcv_rate = float_of c9, pr_score = float_of c10,
            pr_cpu_percent_rate = float_of c11, pr_mem_used_percent_rate = float_of c12,
            pr_disk_util_percent_rate = float_of c13, pr_load_avg_1_rate = float_of c14,
            pr_send_rate_rate = float_of c15, pr_rcv_rate_rate = float_of c16\<rparr> }"

definition net_record :: "(string \<Rightarrow> int) \<Rightarrow> int \<Rightarrow> cells \<Rightarrow> NetDetailRecord option" where
  "net_record mktime now row =
     do { c0 \<leftarrow> cell row 0; c1 \<leftarrow> cell row 1; c2 \<leftarrow> cell row 2; c3 \<leftarrow> cell row 3; c4 \<leftarrow> cell row 4;
          c5 \<leftarrow> cell row 5; c6 \<leftarrow> cell row 6;
          Some \<lparr>nr_server_name = text_of c0, nr_net_name = text_of c1, nr_timestamp = time_of mktime now c2,
            nr_rcv_bytes_rate = float_of c3, nr_snd_bytes_rate = float_of c4,
            nr_rcv_packets_rate = float_of c5, nr_snd_packets_rate = float_of c6\<rparr> }"

definition proc_record :: "(string \<Rightarrow> int) \<Rightarrow> int \<Rightarrow> cells \<Rightarrow> NetProcessDetailRecord option" where
  "proc_record mktime now row =
     do { c0 \<leftarrow> cell row 0; c1 \<leftarrow> cell row 1; c2 \<leftarrow> cell row 2; c3 \<leftarrow> cell row 3; c4 \<leftarrow> cell row 4;
          c5 \<leftarrow> cell row 5; c6 \<leftarrow> cell row 6; c7 \<leftarrow> cell row 7;
          Some \<lparr>qr_server_name = text_of c0, qr_pid = pid_of c1, qr_proc_name = text_of c2,
            qr_timestamp = time_of mktime now c3, qr_snd_bytes_rate = float_of c4,
            qr_rcv_bytes_rate = float_of c5, qr_total_bytes_rate = float_of c6, qr_share_percent = float_of c7\<rparr> }"

definition disk_record :: "(string \<Rightarrow> int) \<Rightarrow> int \<Rightarrow> cells \<Rightarrow> DiskDetailRecord option" where
  "disk_record mktime now row =
     do { c0 \<leftarrow> cell row 0; c1 \<leftarrow> cell row 1; c2 \<leftarrow> cell row 2; c3 \<leftarrow> cell row 3; c4 \<leftarrow> cell row 4;
          c5 \<leftarrow> cell row 5; c6 \<leftarrow> cell row 6; c7 \<leftarrow> cell row 7; c8 \<leftarrow> cell row 8; c9 \<leftarrow> cell row 9;
          Some \<lparr>dr_server_name = text_of c0, dr_disk_name = text_of c1, dr_timestamp = time_of mktime now c2,
            dr_read_bytes_per_sec = float_of c3, dr_write_bytes_per_sec = float_of c4,
            dr_read_iops = float_of c5, dr_write_iops = float_of c6, dr_avg_read_latency_ms = float_of c7,
            dr_avg_write_latency_ms = float_of c8, dr_util_percent = float_of c9\<rparr> }"

definition cpu_record :: "(string \<Rightarrow> int) \<Rightarrow> int \<Rightarrow> cells \<Rightarrow> CpuDetailRecord option" where
  "cpu_record mktime now row =
     do { c0 \<leftarrow> cell row 0; c1 \<leftarrow> cell row 1; c2 \<leftarrow> cell row 2; c3 \<leftarrow> cell row 3; c4 \<leftarrow> cell row 4;
          c5 \<leftarrow> cell row 5; c6 \<leftarrow> cell row 6; c7 \<leftarrow> cell row 7; c8 \<leftarrow> cell row 8;
          Some \<lparr>cr_server_name = text_of c0, cr_timestamp = time_of mktime now c1,
            cr_usr_percent = float_of c2, cr_system_percent = float_of c3, cr_nice_percent = float_of c4,
            cr_idle_percent = float_of c5, cr_io_wait_percent = float_of c6, cr_irq_percent = float_of c7,
            cr_soft_irq_percent = float_of c8\<rparr> }"

section \<open>The manager of queries\<close>

record query_manager =
  qm_conn :: bool
  qm_initialized :: bool

definition QueryManager_new :: query_manager where
  "QueryManager_new = \<lparr>qm_conn = False, qm_initialized = False\<rparr>"

text \<open>The answers of \<^verbatim>\<open>mysql_init\<close> and \<^verbatim>\<open>mysql_real_connect\<close>.\<close>

definition QueryManager_Init :: "bool \<Rightarrow> bool \<Rightarrow> query_manager \<Rightarrow> bool \<times> query_manager" where
  "QueryManager_Init init_ok connect_ok qm =
     (if qm_initialized qm then (True, qm)
      else let qm1 = qm\<lparr>qm_conn := init_ok\<rparr>
           in if \<not> qm_conn qm1 then (False, qm1)
              else if \<not> connect_ok then (False, qm1\<lparr>qm_conn := False\<rparr>)
              else (True, qm1\<lparr>qm_initialized := True\<rparr>))"

definition QueryManager_Close :: "query_manager \<Rightarrow> query_manager" where
  "QueryManager_Close qm = (let qm1 = (if qm_conn qm then qm\<lparr>qm_conn := False\<rparr> else qm) in qm1\<lparr>qm_initialized := False\<rparr>)"

definition IsInitialized :: "query_manager \<Rightarrow> bool" where
  "IsInitialized qm = qm_initialized qm"

record TimeRange =
  tr_start_time :: int
  tr_end_time :: int

definition ValidateTimeRange :: "TimeRange \<Rightarrow> bool" where
  "ValidateTimeRange time_range = (tr_start_time time_range \<le> tr_end_time time_range)"

text \<open>\<^verbatim>\<open>to_time_t\<close> drops the fraction of a second.\<close>

definition to_time_t :: "int \<Rightarrow> int" where
  "to_time_t t = (if t < 0 then - (- t div 10 ^ 9) else t div 10 ^ 9)"

definition FormatTime :: "(int \<Rightarrow> string) \<Rightarrow> int \<Rightarrow> string" where
  "FormatTime fmt tp = fmt (to_time_t tp)"

definition EscapeString :: "(string \<Rightarrow> string) \<Rightarrow> string \<Rightarrow> string" where
  "EscapeString esc src = (if src = [] then [] else esc src)"

definition quote :: char where "quote = CHR 0x27"

text \<open>The text of a query: columns, table, the three escaped values, order, size and offset of the page.\<close>

definition select_text :: "string \<Rightarrow> string \<Rightarrow> string \<Rightarrow> string \<Rightarrow> string \<Rightarrow> string \<Rightarrow> int \<Rightarrow> int \<Rightarrow> string" where
  "select_text cols from order name start stop page_size offset =
     ''SELECT SQL_CALC_FOUND_ROWS '' @ cols @ from @ '' WHERE server_name='' @ [quote] @ name @ [quote] @
     '' AND timestamp BETWEEN '' @ [quote] @ start @ [quote] @ '' AND '' @ [quote] @ stop @ [quote] @
     order @ '' LIMIT '' @ to_string (nat page_size) @ '' OFFSET '' @ to_string (nat offset)"

definition by_time :: string where "by_time = '' ORDER BY timestamp DESC''"

datatype sql_answer = Query_failed | No_result | Result "cells list"

type_synonym 's server = "string \<Rightarrow> 's \<Rightarrow> sql_answer \<times> 's"

definition FetchFoundRows :: "'s server \<Rightarrow> 's \<Rightarrow> int \<times> 's" where
  "FetchFoundRows srv s =
     (case srv ''SELECT FOUND_ROWS()'' s of
        (Result ((Some t # _) # _), s') \<Rightarrow> (atoi t, s')
      | (_, s') \<Rightarrow> (0, s'))"

text \<open>The rows of an answer, one after the other.\<close>

fun parse_rows :: "(cells \<Rightarrow> 'r option) \<Rightarrow> cells list \<Rightarrow> 'r list option" where
  "parse_rows parse [] = Some []"
| "parse_rows parse (row # rows) = do { r \<leftarrow> parse row; rs \<leftarrow> parse_rows parse rows; Some (r # rs) }"

definition INT_MAX :: int where "INT_MAX = 2 ^ 31 - 1"

text \<open>The common shape of the five queries: the records, the number of all rows (unchanged when the
  query fails), the server. A product that does not fit an \<^verbatim>\<open>int\<close> is undefined.\<close>

definition run_query :: "(string \<Rightarrow> string) \<Rightarrow> (int \<Rightarrow> string) \<Rightarrow> 's server \<Rightarrow> (cells \<Rightarrow> 'r option) \<Rightarrow> string \<Rightarrow> string \<Rightarrow> string \<Rightarrow>
    query_manager \<Rightarrow> string \<Rightarrow> TimeRange \<Rightarrow> int \<Rightarrow> int \<Rightarrow> int \<Rightarrow> 's \<Rightarrow> ('r list \<times> int \<times> 's) option" where
  "run_query esc fmt srv parse cols from order qm server_name time_range page page_size total_count s =
     (if \<not> qm_initialized qm \<or> \<not> qm_conn qm then Some ([], total_count, s)
      else if \<not> ValidateTimeRange time_range then Some ([], total_count, s)
      else let page = (if page < 1 then 1 else page);
               page_size = (if page_size < 1 then 100 else page_size);
               start_time = FormatTime fmt (tr_start_time time_range);
               end_time = FormatTime fmt (tr_end_time time_range);
               escaped_name = EscapeString esc server_name;
               escaped_start = EscapeString esc start_time;
               escaped_end = EscapeString esc end_time;
               offset = (page - 1) * page_size
           in if offset > INT_MAX then None
              else case srv (select_text cols from order escaped_name escaped_start escaped_end page_size offset) s of
                (Query_failed, s1) \<Rightarrow> Some ([], total_count, s1)
              | (No_result, s1) \<Rightarrow> Some ([], total_count, s1)
              | (Result rows, s1) \<Rightarrow>
                  do { records \<leftarrow> parse_rows parse rows;
                       let (found, s2) = FetchFoundRows srv s1;
                       Some (records, found, s2) })"

text \<open>What the queries get from outside.\<close>

record 's sql_env =
  se_esc :: "string \<Rightarrow> string"
  se_fmt :: "int \<Rightarrow> string"
  se_mktime :: "string \<Rightarrow> int"
  se_now :: int
  se_server :: "'s server"

type_synonym ('r, 's) query = "query_manager \<Rightarrow> string \<Rightarrow> TimeRange \<Rightarrow> int \<Rightarrow> int \<Rightarrow> int \<Rightarrow> 's \<Rightarrow> ('r list \<times> int \<times> 's) option"

definition QueryPerformance :: "'s sql_env \<Rightarrow> (PerformanceRecord, 's) query" where
  "QueryPerformance env = run_query (se_esc env) (se_fmt env) (se_server env)
     (ParsePerformanceRecordRow (se_mktime env) (se_now env)) kPerformanceSelectColumns '' FROM server_performance'' by_time"

definition QueryNetDetail :: "'s sql_env \<Rightarrow> (NetDetailRecord, 's) query" where
  "QueryNetDetail env = run_query (se_esc env) (se_fmt env) (se_server env)
     (net_record (se_mktime env) (se_now env)) net_select_columns ''FROM server_net_detail'' by_time"

definition QueryNetProcessDetail :: "'s sql_env \<Rightarrow> (NetProcessDetailRecord, 's) query" where
  "QueryNetProcessDetail env = run_query (se_esc env) (se_fmt env) (se_server env)
     (proc_record (se_mktime env) (se_now env)) proc_select_columns ''FROM server_net_process_detail''
     (by_time @ '', total_bytes_rate DESC'')"

definition QueryDiskDetail :: "'s sql_env \<Rightarrow> (DiskDetailRecord, 's) query" where
  "QueryDiskDetail env = run_query (se_esc env) (se_fmt env) (se_server env)
     (disk_record (se_mktime env) (se_now env)) disk_select_columns ''FROM server_disk_detail'' by_time"

definition QueryCpuDetail :: "'s sql_env \<Rightarrow> (CpuDetailRecord, 's) query" where
  "QueryCpuDetail env = run_query (se_esc env) (se_fmt env) (se_server env)
     (cpu_record (se_mktime env) (se_now env)) cpu_select_columns ''FROM server_cpu_detail'' by_time"

section \<open>The service\<close>

text \<open>Requests carry seconds; the clock of the library counts nanoseconds in 64 bits.\<close>

definition from_time_t :: "int \<Rightarrow> int option" where
  "from_time_t sec = (let t = sec * 10 ^ 9 in if - (2 ^ 63) \<le> t \<and> t < 2 ^ 63 then Some t else None)"

definition ConvertTimeRange :: "int \<times> int \<Rightarrow> TimeRange option" where
  "ConvertTimeRange r = do { a \<leftarrow> from_time_t (fst r); b \<leftarrow> from_time_t (snd r); Some \<lparr>tr_start_time = a, tr_end_time = b\<rparr> }"

record request =
  rq_server_name :: string
  rq_time_range :: "int \<times> int"
  rq_page :: int
  rq_page_size :: int

record 'r response =
  rs_records :: "'r list"
  rs_total_count :: int
  rs_page :: int
  rs_page_size :: int

definition response0 :: "'r response" where
  "response0 = \<lparr>rs_records = [], rs_total_count = 0, rs_page = 0, rs_page_size = 0\<rparr>"

definition ValidateHistoricalQueryBackend :: "query_manager option \<Rightarrow> status" where
  "ValidateHistoricalQueryBackend qm =
     (case qm of None \<Rightarrow> UNAVAILABLE | Some m \<Rightarrow> if \<not> IsInitialized m then UNAVAILABLE else OK)"

definition SetTimestamp :: "int \<Rightarrow> int" where "SetTimestamp tp = to_time_t tp"

definition FillPerformanceRecord :: "PerformanceRecord \<Rightarrow> PerformanceRecord" where
  "FillPerformanceRecord r = r\<lparr>pr_timestamp := SetTimestamp (pr_timestamp r)\<rparr>"

text \<open>The common shape of the four handlers.\<close>

definition answer_query :: "('r, 's) query \<Rightarrow> ('r \<Rightarrow> 'r) \<Rightarrow> query_manager option \<Rightarrow> request \<Rightarrow> 's \<Rightarrow> (status \<times> 'r response \<times> 's) option" where
  "answer_query query fill query_manager req s =
     (if ValidateHistoricalQueryBackend query_manager \<noteq> OK then Some (ValidateHistoricalQueryBackend query_manager, response0, s)
      else if rq_server_name req = [] then Some (INVALID_ARGUMENT, response0, s)
      else do {
        time_range \<leftarrow> ConvertTimeRange (rq_time_range req);
        if \<not> ValidateTimeRange time_range then Some (INVALID_ARGUMENT, response0, s)
        else do {
          let page = (if rq_page req < 1 then 1 else rq_page req);
          let page_size = (if rq_page_size req < 1 then 100 else rq_page_size req);
          (records, total_count, s1) \<leftarrow> query (the query_manager) (rq_server_name req) time_range page page_size 0 s;
          Some (OK, \<lparr>rs_records = map fill records, rs_total_count = total_count, rs_page = page, rs_page_size = page_size\<rparr>, s1)
        }
      })"

definition Service_QueryPerformance :: "'s sql_env \<Rightarrow> query_manager option \<Rightarrow> request \<Rightarrow> 's \<Rightarrow> (status \<times> PerformanceRecord response \<times> 's) option" where
  "Service_QueryPerformance env = answer_query (QueryPerformance env) FillPerformanceRecord"

definition Service_QueryNetDetail :: "'s sql_env \<Rightarrow> query_manager option \<Rightarrow> request \<Rightarrow> 's \<Rightarrow> (status \<times> NetDetailRecord response \<times> 's) option" where
  "Service_QueryNetDetail env = answer_query (QueryNetDetail env) (\<lambda>r. r\<lparr>nr_timestamp := SetTimestamp (nr_timestamp r)\<rparr>)"

definition Service_QueryNetProcessDetail :: "'s sql_env \<Rightarrow> query_manager option \<Rightarrow> request \<Rightarrow> 's \<Rightarrow> (status \<times> NetProcessDetailRecord response \<times> 's) option" where
  "Service_QueryNetProcessDetail env = answer_query (QueryNetProcessDetail env) (\<lambda>r. r\<lparr>qr_timestamp := SetTimestamp (qr_timestamp r)\<rparr>)"

definition Service_QueryDiskDetail :: "'s sql_env \<Rightarrow> query_manager option \<Rightarrow> request \<Rightarrow> 's \<Rightarrow> (status \<times> DiskDetailRecord response \<times> 's) option" where
  "Service_QueryDiskDetail env = answer_query (QueryDiskDetail env) (\<lambda>r. r\<lparr>dr_timestamp := SetTimestamp (dr_timestamp r)\<rparr>)"

section \<open>String literals of SQL\<close>

definition backslash :: char where "backslash = CHR 0x5C"

text \<open>What MySQL reads from a character behind a backslash.\<close>

definition unescape :: "char \<Rightarrow> string" where
  "unescape d =
     (if d = CHR ''0'' then [CHR 0x00] else if d = CHR ''n'' then [CHR 0x0A] else if d = CHR ''r'' then [CHR 0x0D]
      else if d = CHR ''t'' then [CHR 0x09] else if d = CHR ''b'' then [CHR 0x08] else if d = CHR ''Z'' then [CHR 0x1A]
      else if d = CHR ''%'' \<or> d = CHR ''_'' then [backslash, d] else [d])"

text \<open>The value of a literal after its opening quote, and what follows the closing one.\<close>

fun lex_str :: "string \<Rightarrow> (string \<times> string) option" where
  "lex_str [] = None"
| "lex_str [c] = (if c = quote then Some ([], []) else None)"
| "lex_str (c # d # r) =
     (if c = quote then (if d = quote then map_option (apfst ((#) quote)) (lex_str r) else Some ([], d # r))
      else if c = backslash then map_option (apfst ((@) (unescape d))) (lex_str r)
      else map_option (apfst ((#) c)) (lex_str (d # r)))"

text \<open>The documented contract of \<^verbatim>\<open>mysql_real_escape_string\<close>: between quotes, the result stands for the
  argument.\<close>

definition no_quote :: "string \<Rightarrow> bool" where
  "no_quote r = (case r of [] \<Rightarrow> True | c # _ \<Rightarrow> c \<noteq> quote)"

definition escapes :: "(string \<Rightarrow> string) \<Rightarrow> bool" where
  "escapes esc \<longleftrightarrow> (\<forall>s r. no_quote r \<longrightarrow> lex_str (esc s @ quote # r) = Some (s, r))"

text \<open>The documented function.\<close>

definition escape_char :: "char \<Rightarrow> string" where
  "escape_char c =
     (if c = CHR 0x00 then [backslash, CHR ''0''] else if c = CHR 0x0A then [backslash, CHR ''n'']
      else if c = CHR 0x0D then [backslash, CHR ''r''] else if c = CHR 0x1A then [backslash, CHR ''Z'']
      else if c = backslash \<or> c = quote \<or> c = CHR 0x22 then [backslash, c] else [c])"

definition mysql_escape :: "string \<Rightarrow> string" where
  "mysql_escape s = concat (map escape_char s)"

lemma lex_quote: "no_quote r \<Longrightarrow> lex_str (quote # r) = Some ([], r)"
  by (cases r) (simp_all add: no_quote_def)

lemma append_single: "(@) [c] = (#) c" by (rule ext) simp

lemma lex_escape_char: "lex_str (escape_char c @ x # r) = map_option (apfst ((#) c)) (lex_str (x # r))"
  by (simp add: escape_char_def unescape_def backslash_def quote_def append_single)

lemma mysql_escape_ok: "escapes mysql_escape"
proof -
  have "lex_str (mysql_escape s @ quote # r) = Some (s, r)" if "no_quote r" for s r
  proof (induction s)
    case Nil
    then show ?case using that by (simp add: mysql_escape_def lex_quote)
  next
    case (Cons c s)
    obtain x t where t: "mysql_escape s @ quote # r = x # t" by (cases "mysql_escape s") auto
    have "mysql_escape (c # s) @ quote # r = escape_char c @ x # t" by (simp add: mysql_escape_def t [unfolded mysql_escape_def])
    then have "lex_str (mysql_escape (c # s) @ quote # r) = map_option (apfst ((#) c)) (lex_str (x # t))"
      by (simp only: lex_escape_char)
    with Cons show ?case by (simp flip: t)
  qed
  then show ?thesis by (simp add: escapes_def)
qed

lemma lex_escaped:
  assumes "escapes esc" and "no_quote r"
  shows "lex_str (EscapeString esc s @ quote # r) = Some (s, r)"
  using assms by (auto simp: EscapeString_def escapes_def lex_quote)

section \<open>Properties\<close>

text \<open>A server that keeps the statements it was sent.\<close>

definition logging :: "(string \<Rightarrow> sql_answer) \<Rightarrow> (string list) server" where
  "logging answer q sent = (answer q, sent @ [q])"

text \<open>C28: no name of a server can change the meaning of a query. Every statement sent is the fixed one
  for the number of rows, or a \<^verbatim>\<open>SELECT\<close> whose text MySQL reads as the fixed words with three literals
  for the name asked for and the two times, whatever characters the name has.\<close>

theorem query_not_injectable:
  assumes "escapes esc"
    and "run_query esc fmt (logging answer) parse cols from (by_time @ more_order) qm server_name time_range page page_size tc [] =
      Some (records, n, sent)"
  shows "\<forall>q \<in> List.set sent. q = ''SELECT FOUND_ROWS()'' \<or>
    (\<exists>r1 r2 r3 limit off. q = ''SELECT SQL_CALC_FOUND_ROWS '' @ cols @ from @ '' WHERE server_name='' @ quote # r1 \<and>
      lex_str r1 = Some (server_name, '' AND timestamp BETWEEN '' @ quote # r2) \<and>
      lex_str r2 = Some (FormatTime fmt (tr_start_time time_range), '' AND '' @ quote # r3) \<and>
      lex_str r3 = Some (FormatTime fmt (tr_end_time time_range),
        by_time @ more_order @ '' LIMIT '' @ to_string limit @ '' OFFSET '' @ to_string off))"
proof
  fix q assume q: "q \<in> List.set sent"
  let ?a = "FormatTime fmt (tr_start_time time_range)" and ?b = "FormatTime fmt (tr_end_time time_range)"
  let ?p = "if page < 1 then 1 else page" and ?n = "if page_size < 1 then 100 else page_size"
  let ?off = "(?p - 1) * ?n"
  let ?tail = "by_time @ more_order @ '' LIMIT '' @ to_string (nat ?n) @ '' OFFSET '' @ to_string (nat ?off)"
  let ?r3 = "EscapeString esc ?b @ quote # ?tail"
  let ?r2 = "EscapeString esc ?a @ quote # '' AND '' @ quote # ?r3"
  let ?r1 = "EscapeString esc server_name @ quote # '' AND timestamp BETWEEN '' @ quote # ?r2"
  let ?sql = "select_text cols from (by_time @ more_order) (EscapeString esc server_name) (EscapeString esc ?a)
    (EscapeString esc ?b) ?n ?off"
  have sql: "?sql = ''SELECT SQL_CALC_FOUND_ROWS '' @ cols @ from @ '' WHERE server_name='' @ quote # ?r1"
    by (simp add: select_text_def)
  have "no_quote ?tail" "no_quote ('' AND '' @ quote # ?r3)" "no_quote ('' AND timestamp BETWEEN '' @ quote # ?r2)"
    by (simp_all add: no_quote_def by_time_def quote_def)
  then have lex: "lex_str ?r1 = Some (server_name, '' AND timestamp BETWEEN '' @ quote # ?r2)"
    "lex_str ?r2 = Some (?a, '' AND '' @ quote # ?r3)" "lex_str ?r3 = Some (?b, ?tail)"
    by (simp_all only: lex_escaped [OF assms(1)])
  have "sent = [] \<or> sent = [?sql] \<or> sent = [?sql, ''SELECT FOUND_ROWS()'']"
    using assms(2) unfolding run_query_def Let_def logging_def FetchFoundRows_def
    by (auto split: if_splits sql_answer.splits list.splits option.splits bind_splits prod.splits)
  with q have "q = ''SELECT FOUND_ROWS()'' \<or> q = ?sql" by auto
  with sql lex show "q = ''SELECT FOUND_ROWS()'' \<or>
    (\<exists>r1 r2 r3 limit off. q = ''SELECT SQL_CALC_FOUND_ROWS '' @ cols @ from @ '' WHERE server_name='' @ quote # r1 \<and>
      lex_str r1 = Some (server_name, '' AND timestamp BETWEEN '' @ quote # r2) \<and>
      lex_str r2 = Some (?a, '' AND '' @ quote # r3) \<and>
      lex_str r3 = Some (?b, by_time @ more_order @ '' LIMIT '' @ to_string limit @ '' OFFSET '' @ to_string off))"
    by blast
qed

section \<open>Columns and fields\<close>

definition column_names :: "string \<Rightarrow> string list" where
  "column_names s = filter (\<lambda>w. w \<noteq> []) (read_words (map (\<lambda>c. if c = CHR '','' then CHR '' '' else c) s))"

definition named :: "string \<Rightarrow> cells \<Rightarrow> string \<Rightarrow> string option" where
  "named cols row c = the (map_of (zip (column_names cols) row) c)"

definition perf_fields :: "(string \<times> (PerformanceRecord \<Rightarrow> rat)) list" where
  "perf_fields = [(''cpu_percent'', pr_cpu_percent), (''load_avg_1'', pr_load_avg_1), (''load_avg_3'', pr_load_avg_3),
     (''load_avg_15'', pr_load_avg_15), (''mem_used_percent'', pr_mem_used_percent),
     (''disk_util_percent'', pr_disk_util_percent), (''send_rate'', pr_send_rate), (''rcv_rate'', pr_rcv_rate),
     (''score'', pr_score), (''cpu_percent_rate'', pr_cpu_percent_rate),
     (''mem_used_percent_rate'', pr_mem_used_percent_rate), (''disk_util_percent_rate'', pr_disk_util_percent_rate),
     (''load_avg_1_rate'', pr_load_avg_1_rate), (''send_rate_rate'', pr_send_rate_rate),
     (''rcv_rate_rate'', pr_rcv_rate_rate)]"

definition net_fields :: "(string \<times> (NetDetailRecord \<Rightarrow> rat)) list" where
  "net_fields = [(''rcv_bytes_rate'', nr_rcv_bytes_rate), (''snd_bytes_rate'', nr_snd_bytes_rate),
     (''rcv_packets_rate'', nr_rcv_packets_rate), (''snd_packets_rate'', nr_snd_packets_rate)]"

definition proc_fields :: "(string \<times> (NetProcessDetailRecord \<Rightarrow> rat)) list" where
  "proc_fields = [(''snd_bytes_rate'', qr_snd_bytes_rate), (''rcv_bytes_rate'', qr_rcv_bytes_rate),
     (''total_bytes_rate'', qr_total_bytes_rate), (''share_percent'', qr_share_percent)]"

definition disk_fields :: "(string \<times> (DiskDetailRecord \<Rightarrow> rat)) list" where
  "disk_fields = [(''read_bytes_per_sec'', dr_read_bytes_per_sec), (''write_bytes_per_sec'', dr_write_bytes_per_sec),
     (''read_iops'', dr_read_iops), (''write_iops'', dr_write_iops),
     (''avg_read_latency_ms'', dr_avg_read_latency_ms), (''avg_write_latency_ms'', dr_avg_write_latency_ms),
     (''util_percent'', dr_util_percent)]"

definition cpu_fields :: "(string \<times> (CpuDetailRecord \<Rightarrow> rat)) list" where
  "cpu_fields = [(''usr_percent'', cr_usr_percent), (''system_percent'', cr_system_percent),
     (''nice_percent'', cr_nice_percent), (''idle_percent'', cr_idle_percent),
     (''io_wait_percent'', cr_io_wait_percent), (''irq_percent'', cr_irq_percent),
     (''soft_irq_percent'', cr_soft_irq_percent)]"

lemma perf_names: "column_names kPerformanceSelectColumns = [''server_name'', ''timestamp''] @ map fst perf_fields"
  by code_simp

lemma net_names: "column_names net_select_columns = [''server_name'', ''net_name'', ''timestamp''] @ map fst net_fields"
  by code_simp

lemma proc_names: "column_names proc_select_columns = [''server_name'', ''pid'', ''proc_name'', ''timestamp''] @ map fst proc_fields"
  by code_simp

lemma disk_names: "column_names disk_select_columns = [''server_name'', ''disk_name'', ''timestamp''] @ map fst disk_fields"
  by code_simp

lemma cpu_names: "column_names cpu_select_columns = [''server_name'', ''timestamp''] @ map fst cpu_fields"
  by code_simp

lemmas field_simps_all = perf_fields_def net_fields_def proc_fields_def disk_fields_def cpu_fields_def

lemma cell_nth: "i < length row \<Longrightarrow> cell row i = Some (row ! i)"
  by (simp add: cell_def)

lemma map_of_zip_distinct:
  assumes "distinct names" and "length row = length names" and "i < length names"
  shows "the (map_of (zip names row) (names ! i)) = row ! i"
  using assms by (simp add: map_of_zip_nth)

text \<open>The cell at position \<open>i\<close> is the one named by the column at \<open>i\<close>.\<close>

lemma named_nth:
  assumes "column_names cols = names" and "distinct names" and "length row = length names" and "i < length names"
  shows "named cols row (names ! i) = row ! i"
  using map_of_zip_distinct [OF assms(2-4)] assms(1) by (simp add: named_def)

lemma fields_by_position:
  assumes "column_names cols = ks @ map fst fds" and "distinct (ks @ map fst fds)"
    and "length row = length ks + length fds"
    and "\<forall>i < length fds. snd (fds ! i) r = float_of (row ! (length ks + i))"
  shows "\<forall>(c, f) \<in> List.set fds. f r = float_of (named cols row c)"
proof (intro ballI, clarify)
  fix c f assume "(c, f) \<in> List.set fds"
  then obtain i where i: "i < length fds" "fds ! i = (c, f)" by (auto simp: in_set_conv_nth)
  have "(ks @ map fst fds) ! (length ks + i) = c" using i by (simp add: nth_append)
  with named_nth [OF assms(1,2), of row "length ks + i"] i assms(3)
  have "named cols row c = row ! (length ks + i)" by simp
  with assms(4) i show "f r = float_of (named cols row c)" by fastforce
qed

lemma keys_by_position:
  assumes "column_names cols = ks @ names" and "distinct (ks @ names)"
    and "length row = length ks + length names" and "i < length ks"
  shows "named cols row (ks ! i) = row ! i"
  using named_nth [OF assms(1,2), of row i] assms(3,4) by (simp add: nth_append)

lemma perf_fields_by_name:
  assumes "length row = 17"
  shows "(\<exists>r. ParsePerformanceRecordRow mktime now row = Some r \<and>
      pr_server_name r = text_of (named kPerformanceSelectColumns row ''server_name'') \<and>
      pr_timestamp r = time_of mktime now (named kPerformanceSelectColumns row ''timestamp'') \<and>
      (\<forall>(c, f) \<in> List.set perf_fields. f r = float_of (named kPerformanceSelectColumns row c)))"
proof -
  obtain r where r: "ParsePerformanceRecordRow mktime now row = Some r" using assms by (simp add: ParsePerformanceRecordRow_def cell_nth)
  have "\<forall>i < 15. snd (perf_fields ! i) r = float_of (row ! (2 + i))"
    using r assms by (auto simp: ParsePerformanceRecordRow_def cell_nth perf_fields_def less_Suc_eq numeral_eq_Suc)
  then have "\<forall>(c, f) \<in> List.set perf_fields. f r = float_of (named kPerformanceSelectColumns row c)"
    by (intro fields_by_position [OF perf_names]) (simp_all add: perf_fields_def assms numeral_eq_Suc)
  moreover note keys_by_position [OF perf_names, of row 0] keys_by_position [OF perf_names, of row 1]
  ultimately show ?thesis
    using r assms by (intro exI [of _ r]) (auto simp: ParsePerformanceRecordRow_def cell_nth perf_fields_def)
qed

lemma net_fields_by_name:
  assumes "length row = 7"
  shows "(\<exists>r. net_record mktime now row = Some r \<and>
      nr_server_name r = text_of (named net_select_columns row ''server_name'') \<and>
      nr_net_name r = text_of (named net_select_columns row ''net_name'') \<and>
      nr_timestamp r = time_of mktime now (named net_select_columns row ''timestamp'') \<and>
      (\<forall>(c, f) \<in> List.set net_fields. f r = float_of (named net_select_columns row c)))"
proof -
  obtain r where r: "net_record mktime now row = Some r" using assms by (simp add: net_record_def cell_nth)
  have "\<forall>i < 4. snd (net_fields ! i) r = float_of (row ! (3 + i))"
    using r assms by (auto simp: net_record_def cell_nth net_fields_def less_Suc_eq numeral_eq_Suc)
  then have "\<forall>(c, f) \<in> List.set net_fields. f r = float_of (named net_select_columns row c)"
    by (intro fields_by_position [OF net_names]) (simp_all add: net_fields_def assms numeral_eq_Suc)
  moreover note keys_by_position [OF net_names, of row 0] keys_by_position [OF net_names, of row 1] keys_by_position [OF net_names, of row 2]
  ultimately show ?thesis
    using r assms by (intro exI [of _ r]) (auto simp: net_record_def cell_nth net_fields_def)
qed

lemma proc_fields_by_name:
  assumes "length row = 8"
  shows "(\<exists>r. proc_record mktime now row = Some r \<and>
      qr_server_name r = text_of (named proc_select_columns row ''server_name'') \<and>
      qr_pid r = pid_of (named proc_select_columns row ''pid'') \<and>
      qr_proc_name r = text_of (named proc_select_columns row ''proc_name'') \<and>
      qr_timestamp r = time_of mktime now (named proc_select_columns row ''timestamp'') \<and>
      (\<forall>(c, f) \<in> List.set proc_fields. f r = float_of (named proc_select_columns row c)))"
proof -
  obtain r where r: "proc_record mktime now row = Some r" using assms by (simp add: proc_record_def cell_nth)
  have "\<forall>i < 4. snd (proc_fields ! i) r = float_of (row ! (4 + i))"
    using r assms by (auto simp: proc_record_def cell_nth proc_fields_def less_Suc_eq numeral_eq_Suc)
  then have "\<forall>(c, f) \<in> List.set proc_fields. f r = float_of (named proc_select_columns row c)"
    by (intro fields_by_position [OF proc_names]) (simp_all add: proc_fields_def assms numeral_eq_Suc)
  moreover note keys_by_position [OF proc_names, of row 0] keys_by_position [OF proc_names, of row 1] keys_by_position [OF proc_names, of row 2] keys_by_position [OF proc_names, of row 3]
  ultimately show ?thesis
    using r assms by (intro exI [of _ r]) (auto simp: proc_record_def cell_nth proc_fields_def)
qed

lemma disk_fields_by_name:
  assumes "length row = 10"
  shows "(\<exists>r. disk_record mktime now row = Some r \<and>
      dr_server_name r = text_of (named disk_select_columns row ''server_name'') \<and>
      dr_disk_name r = text_of (named disk_select_columns row ''disk_name'') \<and>
      dr_timestamp r = time_of mktime now (named disk_select_columns row ''timestamp'') \<and>
      (\<forall>(c, f) \<in> List.set disk_fields. f r = float_of (named disk_select_columns row c)))"
proof -
  obtain r where r: "disk_record mktime now row = Some r" using assms by (simp add: disk_record_def cell_nth)
  have "\<forall>i < 7. snd (disk_fields ! i) r = float_of (row ! (3 + i))"
    using r assms by (auto simp: disk_record_def cell_nth disk_fields_def less_Suc_eq numeral_eq_Suc)
  then have "\<forall>(c, f) \<in> List.set disk_fields. f r = float_of (named disk_select_columns row c)"
    by (intro fields_by_position [OF disk_names]) (simp_all add: disk_fields_def assms numeral_eq_Suc)
  moreover note keys_by_position [OF disk_names, of row 0] keys_by_position [OF disk_names, of row 1] keys_by_position [OF disk_names, of row 2]
  ultimately show ?thesis
    using r assms by (intro exI [of _ r]) (auto simp: disk_record_def cell_nth disk_fields_def)
qed

lemma cpu_fields_by_name:
  assumes "length row = 9"
  shows "(\<exists>r. cpu_record mktime now row = Some r \<and>
      cr_server_name r = text_of (named cpu_select_columns row ''server_name'') \<and>
      cr_timestamp r = time_of mktime now (named cpu_select_columns row ''timestamp'') \<and>
      (\<forall>(c, f) \<in> List.set cpu_fields. f r = float_of (named cpu_select_columns row c)))"
proof -
  obtain r where r: "cpu_record mktime now row = Some r" using assms by (simp add: cpu_record_def cell_nth)
  have "\<forall>i < 7. snd (cpu_fields ! i) r = float_of (row ! (2 + i))"
    using r assms by (auto simp: cpu_record_def cell_nth cpu_fields_def less_Suc_eq numeral_eq_Suc)
  then have "\<forall>(c, f) \<in> List.set cpu_fields. f r = float_of (named cpu_select_columns row c)"
    by (intro fields_by_position [OF cpu_names]) (simp_all add: cpu_fields_def assms numeral_eq_Suc)
  moreover note keys_by_position [OF cpu_names, of row 0] keys_by_position [OF cpu_names, of row 1]
  ultimately show ?thesis
    using r assms by (intro exI [of _ r]) (auto simp: cpu_record_def cell_nth cpu_fields_def)
qed

text \<open>C29: what a record says of a stored row is what its columns say: each field of each of the five
  kinds of records holds the number in the column of the same name, for every row with as many
  cells as the \<^verbatim>\<open>SELECT\<close> asks for, and no cell outside the row is read.\<close>

theorem history_fields_by_name:
  assumes "length prow = 17" and "length nrow = 7" and "length qrow = 8" and "length drow = 10" and "length crow = 9"
  shows "(\<exists>r. ParsePerformanceRecordRow mktime now prow = Some r \<and>
      pr_server_name r = text_of (named kPerformanceSelectColumns prow ''server_name'') \<and>
      pr_timestamp r = time_of mktime now (named kPerformanceSelectColumns prow ''timestamp'') \<and>
      (\<forall>(c, f) \<in> List.set perf_fields. f r = float_of (named kPerformanceSelectColumns prow c))) \<and>
   (\<exists>r. net_record mktime now nrow = Some r \<and>
      nr_server_name r = text_of (named net_select_columns nrow ''server_name'') \<and>
      nr_net_name r = text_of (named net_select_columns nrow ''net_name'') \<and>
      nr_timestamp r = time_of mktime now (named net_select_columns nrow ''timestamp'') \<and>
      (\<forall>(c, f) \<in> List.set net_fields. f r = float_of (named net_select_columns nrow c))) \<and>
   (\<exists>r. proc_record mktime now qrow = Some r \<and>
      qr_server_name r = text_of (named proc_select_columns qrow ''server_name'') \<and>
      qr_pid r = pid_of (named proc_select_columns qrow ''pid'') \<and>
      qr_proc_name r = text_of (named proc_select_columns qrow ''proc_name'') \<and>
      qr_timestamp r = time_of mktime now (named proc_select_columns qrow ''timestamp'') \<and>
      (\<forall>(c, f) \<in> List.set proc_fields. f r = float_of (named proc_select_columns qrow c))) \<and>
   (\<exists>r. disk_record mktime now drow = Some r \<and>
      dr_server_name r = text_of (named disk_select_columns drow ''server_name'') \<and>
      dr_disk_name r = text_of (named disk_select_columns drow ''disk_name'') \<and>
      dr_timestamp r = time_of mktime now (named disk_select_columns drow ''timestamp'') \<and>
      (\<forall>(c, f) \<in> List.set disk_fields. f r = float_of (named disk_select_columns drow c))) \<and>
   (\<exists>r. cpu_record mktime now crow = Some r \<and>
      cr_server_name r = text_of (named cpu_select_columns crow ''server_name'') \<and>
      cr_timestamp r = time_of mktime now (named cpu_select_columns crow ''timestamp'') \<and>
      (\<forall>(c, f) \<in> List.set cpu_fields. f r = float_of (named cpu_select_columns crow c)))"
  using perf_fields_by_name [OF assms(1)] net_fields_by_name [OF assms(2)] proc_fields_by_name [OF assms(3)]
    disk_fields_by_name [OF assms(4)] cpu_fields_by_name [OF assms(5)] by blast

lemma atof_sample: "atof ''12.5'' = 25 / 2" "atof ''-3e2'' = - 300"
  by code_simp+

theorem history_fields_by_name_witness:
  "\<exists>r. net_record (\<lambda>t. 7) 9 [Some ''web1'', Some ''eth0'', None, Some ''12.5'', Some ''1'', None, Some ''2''] = Some r \<and>
     nr_net_name r = ''eth0'' \<and> nr_timestamp r = 9 \<and> nr_rcv_bytes_rate r = 25 / 2"
proof -
  let ?row = "[Some ''web1'', Some ''eth0'', None, Some ''12.5'', Some ''1'', None, Some ''2'']"
  have "\<exists>r. net_record (\<lambda>t. 7) 9 ?row = Some r \<and> nr_server_name r = text_of (named net_select_columns ?row ''server_name'') \<and>
      nr_net_name r = text_of (named net_select_columns ?row ''net_name'') \<and>
      nr_timestamp r = time_of (\<lambda>t. 7) 9 (named net_select_columns ?row ''timestamp'') \<and>
      (\<forall>(c, f) \<in> List.set net_fields. f r = float_of (named net_select_columns ?row c))"
    using history_fields_by_name [of "replicate 17 None" ?row "replicate 8 None" "replicate 10 None" "replicate 9 None"
        "\<lambda>t. 7" 9] by simp
  then show ?thesis
    by (auto simp: named_def net_names net_fields_def text_of_def time_of_def float_of_def atof_sample)
qed

section \<open>Pages\<close>

text \<open>What MySQL documents of \<^verbatim>\<open>LIMIT\<close>, \<^verbatim>\<open>OFFSET\<close> and \<^verbatim>\<open>FOUND_ROWS\<close>, for one query whose rows are \<open>rows\<close>: a page
  is a part of them, and right after it the number of all rows can be asked for.\<close>

definition serves :: "'s server \<Rightarrow> (int \<Rightarrow> int \<Rightarrow> string) \<Rightarrow> cells list \<Rightarrow> bool" where
  "serves srv sql rows \<longleftrightarrow> (\<forall>n off s. 0 < n \<longrightarrow> 0 \<le> off \<longrightarrow>
     fst (srv (sql n off) s) = Result (take (nat n) (drop (nat off) rows)) \<and>
     fst (srv ''SELECT FOUND_ROWS()'' (snd (srv (sql n off) s))) = Result [[Some (to_string (length rows))]])"

lemma atoi_to_string: "n < 2 ^ 31 \<Longrightarrow> atoi (to_string n) = int n"
  using scan_num_print [of "[]" 0 n]
  by (simp add: atoi_def ends_def clip_def signed_of_int signed_take_bit_int_eq_self)

lemma parse_rows_all: "\<forall>row \<in> List.set rows. parse row = Some (f row) \<Longrightarrow> parse_rows parse rows = Some (map f rows)"
  by (induction rows) auto

lemma run_query_page:
  assumes "qm_initialized qm" and "qm_conn qm" and "tr_start_time time_range \<le> tr_end_time time_range"
    and "1 \<le> page" and "1 \<le> n" and "(page - 1) * n \<le> INT_MAX"
    and "serves srv (select_text cols from order (EscapeString esc name) (EscapeString esc (FormatTime fmt (tr_start_time time_range)))
      (EscapeString esc (FormatTime fmt (tr_end_time time_range)))) rows"
    and "\<forall>row \<in> List.set rows. parse row = Some (f row)" and "length rows < 2 ^ 31"
  shows "\<exists>s'. run_query esc fmt srv parse cols from order qm name time_range page n tc s =
    Some (map f (take (nat n) (drop (nat ((page - 1) * n)) rows)), int (length rows), s')"
proof -
  let ?off = "(page - 1) * n"
  let ?sql = "select_text cols from order (EscapeString esc name) (EscapeString esc (FormatTime fmt (tr_start_time time_range)))
      (EscapeString esc (FormatTime fmt (tr_end_time time_range))) n ?off"
  let ?rows = "take (nat n) (drop (nat ?off) rows)"
  have "0 < n" "0 \<le> ?off" using assms(4,5) by simp_all
  with assms(7) obtain s1 where a: "srv ?sql s = (Result ?rows, s1)"
    and b: "fst (srv ''SELECT FOUND_ROWS()'' s1) = Result [[Some (to_string (length rows))]]"
    unfolding serves_def by (metis prod.collapse)
  have p: "parse_rows parse ?rows = Some (map f ?rows)"
    using assms(8) by (intro parse_rows_all) (meson in_set_dropD in_set_takeD)
  have "FetchFoundRows srv s1 = (int (length rows), snd (srv ''SELECT FOUND_ROWS()'' s1))"
    using b assms(9) by (cases "srv ''SELECT FOUND_ROWS()'' s1") (simp add: FetchFoundRows_def atoi_to_string)
  with assms(1-6) a p show ?thesis by (simp add: run_query_def ValidateTimeRange_def Let_def)
qed

lemma pages_concat: "concat (map (\<lambda>p. take n (drop ((p - 1) * n) xs)) [1..<Suc k]) = take (k * n) xs"
proof (induction k)
  case (Suc k)
  have "take (Suc k * n) xs = take (k * n) xs @ take n (drop (k * n) xs)"
    by (metis add.commute mult_Suc take_add)
  with Suc show ?case by simp
qed simp

text \<open>The text of the query for the samples of a host.\<close>

definition perf_sql :: "'s sql_env \<Rightarrow> string \<Rightarrow> TimeRange \<Rightarrow> int \<Rightarrow> int \<Rightarrow> string" where
  "perf_sql env name time_range = select_text kPerformanceSelectColumns '' FROM server_performance'' by_time
     (EscapeString (se_esc env) name) (EscapeString (se_esc env) (FormatTime (se_fmt env) (tr_start_time time_range)))
     (EscapeString (se_esc env) (FormatTime (se_fmt env) (tr_end_time time_range)))"

definition perf_request :: "string \<Rightarrow> int \<times> int \<Rightarrow> int \<Rightarrow> int \<Rightarrow> request" where
  "perf_request name secs page n = \<lparr>rq_server_name = name, rq_time_range = secs, rq_page = page, rq_page_size = n\<rparr>"

text \<open>The record sent for a stored row.\<close>

definition sent_record :: "'s sql_env \<Rightarrow> cells \<Rightarrow> PerformanceRecord" where
  "sent_record env row = FillPerformanceRecord (the (ParsePerformanceRecordRow (se_mktime env) (se_now env) row))"

lemma history_page:
  assumes "qm_initialized qm" and "qm_conn qm" and "name \<noteq> []" and "ConvertTimeRange secs = Some time_range"
    and "tr_start_time time_range \<le> tr_end_time time_range" and "1 \<le> page" and "1 \<le> n" and "(page - 1) * n \<le> INT_MAX"
    and "serves (se_server env) (perf_sql env name time_range) rows"
    and "\<forall>row \<in> List.set rows. length row = 17" and "length rows < 2 ^ 31"
  shows "\<exists>s'. Service_QueryPerformance env (Some qm) (perf_request name secs page n) s =
    Some (OK, \<lparr>rs_records = map (sent_record env) (take (nat n) (drop (nat ((page - 1) * n)) rows)),
      rs_total_count = int (length rows), rs_page = page, rs_page_size = n\<rparr>, s')"
proof -
  let ?f = "\<lambda>row. the (ParsePerformanceRecordRow (se_mktime env) (se_now env) row)"
  have "\<forall>row \<in> List.set rows. ParsePerformanceRecordRow (se_mktime env) (se_now env) row = Some (?f row)"
    using assms(10) perf_fields_by_name by (metis option.sel)
  from run_query_page [OF assms(1,2,5-8) assms(9) [unfolded perf_sql_def] this assms(11)]
  obtain s' where "QueryPerformance env qm name time_range page n 0 s =
      Some (map ?f (take (nat n) (drop (nat ((page - 1) * n)) rows)), int (length rows), s')"
    unfolding QueryPerformance_def by blast
  with assms(1,3-7) show ?thesis
    by (auto simp: Service_QueryPerformance_def answer_query_def perf_request_def ValidateHistoricalQueryBackend_def
        IsInitialized_def ValidateTimeRange_def Let_def sent_record_def)
qed


text \<open>C35: what goes wrong: without a backend, a name or an ordered range of secs the service says so
  and sends nothing; a failing database, in contrast, looks like a host without samples; a large
  page number overflows the \<^verbatim>\<open>int\<close> that holds the position, and a time after the year 2262 the clock.\<close>

theorem history_query_errors:
  assumes "qm_initialized qm" and "qm_conn qm" and "rq_server_name req \<noteq> []"
    and "ConvertTimeRange (rq_time_range req) = Some time_range"
  shows "Service_QueryPerformance env None req s = Some (UNAVAILABLE, response0, s) \<and>
    Service_QueryPerformance env (Some (QueryManager_Close qm)) req s = Some (UNAVAILABLE, response0, s) \<and>
    Service_QueryPerformance env (Some qm) (req\<lparr>rq_server_name := []\<rparr>) s = Some (INVALID_ARGUMENT, response0, s) \<and>
    (tr_end_time time_range < tr_start_time time_range \<longrightarrow>
       Service_QueryPerformance env (Some qm) req s = Some (INVALID_ARGUMENT, response0, s)) \<and>
    ((\<forall>q s. fst (se_server env q s) = Query_failed) \<longrightarrow> tr_start_time time_range \<le> tr_end_time time_range \<longrightarrow>
       (\<exists>s'. Service_QueryPerformance env (Some qm) (req\<lparr>rq_page := 1, rq_page_size := 100\<rparr>) s =
         Some (OK, \<lparr>rs_records = [], rs_total_count = 0, rs_page = 1, rs_page_size = 100\<rparr>, s'))) \<and>
    (tr_start_time time_range \<le> tr_end_time time_range \<longrightarrow>
       Service_QueryPerformance env (Some qm) (req\<lparr>rq_page := 21474838, rq_page_size := 100\<rparr>) s = None) \<and>
    Service_QueryPerformance env (Some qm) (req\<lparr>rq_time_range := (0, 10 ^ 10)\<rparr>) s = None"
proof (intro conjI impI)
  show "Service_QueryPerformance env (Some qm) req s = Some (INVALID_ARGUMENT, response0, s)"
    if "tr_end_time time_range < tr_start_time time_range"
    using assms that by (simp add: Service_QueryPerformance_def answer_query_def ValidateHistoricalQueryBackend_def
        IsInitialized_def ValidateTimeRange_def)
  show "\<exists>s'. Service_QueryPerformance env (Some qm) (req\<lparr>rq_page := 1, rq_page_size := 100\<rparr>) s =
      Some (OK, \<lparr>rs_records = [], rs_total_count = 0, rs_page = 1, rs_page_size = 100\<rparr>, s')"
    if "\<forall>q s. fst (se_server env q s) = Query_failed" and "tr_start_time time_range \<le> tr_end_time time_range"
  proof -
    have "\<exists>s'. se_server env q s = (Query_failed, s')" for q s using that(1) by (metis prod.collapse)
    then obtain next_state where f: "se_server env q s = (Query_failed, next_state q s)" for q s by metis
    show ?thesis
      using assms that(2) by (simp add: Service_QueryPerformance_def answer_query_def ValidateHistoricalQueryBackend_def
          IsInitialized_def ValidateTimeRange_def QueryPerformance_def run_query_def INT_MAX_def Let_def f)
  qed
  show "Service_QueryPerformance env (Some qm) (req\<lparr>rq_page := 21474838, rq_page_size := 100\<rparr>) s = None"
    if "tr_start_time time_range \<le> tr_end_time time_range"
    using assms that by (simp add: Service_QueryPerformance_def answer_query_def ValidateHistoricalQueryBackend_def
        IsInitialized_def ValidateTimeRange_def QueryPerformance_def run_query_def INT_MAX_def Let_def)
qed (use assms in \<open>simp_all add: Service_QueryPerformance_def answer_query_def ValidateHistoricalQueryBackend_def
    IsInitialized_def QueryManager_Close_def Let_def ConvertTimeRange_def from_time_t_def\<close>)

text \<open>A server with one row, which it finds on the page at offset 0.\<close>

definition demo_row :: cells where
  "demo_row = Some ''web1'' # Some ''2024-01-01 00:00:00'' # replicate 15 (Some ''12.5'')"

definition demo_env :: "unit sql_env" where
  "demo_env = \<lparr>se_esc = mysql_escape, se_fmt = (\<lambda>t. ''2024-01-01 00:00:00''), se_mktime = (\<lambda>t. 0), se_now = 0,
     se_server = (\<lambda>q s. if q = ''SELECT FOUND_ROWS()'' then (Result [[Some ''1'']], s)
       else (Result (if takeWhile is_digit (rev q) = ''0'' then [demo_row] else []), s))\<rparr>"

lemma select_not_found_rows: "select_text cols from order name start stop n off \<noteq> ''SELECT FOUND_ROWS()''"
  by (simp add: select_text_def)

lemma to_string_digit: "to_string 0 = ''0''" "to_string (Suc 0) = ''1''"
  by code_simp+

lemma offset_digits: "takeWhile is_digit (rev (select_text cols from order name start stop n off)) = rev (to_string (nat off))"
proof -
  have "ends is_digit (CHR '' '' # r)" for r by (simp add: ends_def is_digit_def)
  moreover have "\<exists>r. rev (select_text cols from order name start stop n off) = rev (to_string (nat off)) @ CHR '' '' # r"
    by (simp add: select_text_def)
  ultimately show ?thesis using take_drop_ends(1) [of "rev (to_string (nat off))" is_digit] to_string_digits by auto
qed

lemma demo_serves: "serves (se_server demo_env) (perf_sql demo_env name time_range) [demo_row]"
proof -
  have "rev (to_string (nat off)) = ''0'' \<longleftrightarrow> nat off = 0" for off
    using to_string_inj [of "nat off" 0] by (auto simp: to_string_digit rev_swap)
  then show ?thesis
    by (auto simp: serves_def demo_env_def perf_sql_def select_not_found_rows offset_digits to_string_digit take_Cons'
        drop_Cons')
qed


theorem history_query_errors_witness:
  "Service_QueryPerformance demo_env (Some \<lparr>qm_conn = True, qm_initialized = True\<rparr>)
     ((perf_request ''web1'' (0, 5) 1 1)\<lparr>rq_page := 21474838, rq_page_size := 100\<rparr>) () = None"
proof -
  have c: "ConvertTimeRange (0, 5) = Some \<lparr>tr_start_time = 0, tr_end_time = 5000000000\<rparr>"
    by (simp add: ConvertTimeRange_def from_time_t_def)
  show ?thesis
    using history_query_errors [of "\<lparr>qm_conn = True, qm_initialized = True\<rparr>" "perf_request ''web1'' (0, 5) 1 1"
        "\<lparr>tr_start_time = 0, tr_end_time = 5000000000\<rparr>" demo_env "()"] c
    by (simp add: perf_request_def)
qed

theorem query_not_injectable_witness:
  "\<exists>records n q. run_query mysql_escape (\<lambda>t. ''t'') (logging (\<lambda>q. Query_failed)) (net_record (\<lambda>t. 0) 0) net_select_columns
      ''FROM server_net_detail'' (by_time @ []) \<lparr>qm_conn = True, qm_initialized = True\<rparr> [quote]
      \<lparr>tr_start_time = 0, tr_end_time = 5\<rparr> 1 1 0 [] = Some (records, n, [q]) \<and>
    (\<exists>r1 r2. q = ''SELECT SQL_CALC_FOUND_ROWS '' @ net_select_columns @ ''FROM server_net_detail'' @ '' WHERE server_name='' @ quote # r1 \<and>
      lex_str r1 = Some ([quote], '' AND timestamp BETWEEN '' @ quote # r2))"
proof -
  let ?run = "run_query mysql_escape (\<lambda>t. ''t'') (logging (\<lambda>q. Query_failed)) (net_record (\<lambda>t. 0) 0) net_select_columns
      ''FROM server_net_detail'' (by_time @ []) \<lparr>qm_conn = True, qm_initialized = True\<rparr> [quote]
      \<lparr>tr_start_time = 0, tr_end_time = 5\<rparr> 1 1 0 []"
  obtain records n q where run: "?run = Some (records, n, [q])" and "q \<noteq> ''SELECT FOUND_ROWS()''"
    by (simp add: run_query_def ValidateTimeRange_def Let_def logging_def INT_MAX_def select_not_found_rows)
  with query_not_injectable [OF mysql_escape_ok run] show ?thesis by auto
qed

end
