(* ===== verification/NetlinkXdp.thy ===== *)
theory NetlinkXdp
  imports NetlinkTc
begin

text \<open>
  The XDP interface of \<^verbatim>\<open>libbpf/src/netlink.c\<close>: attaching a program to an interface and detaching it,
  querying what is attached and what the device can do, and the id of the netdev family that the
  last query needs. A query is up to three exchanges, each with a socket of its own.
\<close>

section \<open>Constants and structures\<close>

definition RTM_GETLINK :: nat where "RTM_GETLINK = 18"
definition RTM_SETLINK :: nat where "RTM_SETLINK = 19"
definition NLM_F_DUMP :: nat where "NLM_F_DUMP = 768"
definition AF_UNSPEC :: u8 where "AF_UNSPEC = 0"
definition AF_PACKET :: u8 where "AF_PACKET = 17"
definition IFLA_XDP :: nat where "IFLA_XDP = 43"
definition IFLA_MAX :: nat where "IFLA_MAX = 69"
definition IFLA_XDP_FD :: nat where "IFLA_XDP_FD = 1"
definition IFLA_XDP_ATTACHED :: nat where "IFLA_XDP_ATTACHED = 2"
definition IFLA_XDP_FLAGS :: nat where "IFLA_XDP_FLAGS = 3"
definition IFLA_XDP_PROG_ID :: nat where "IFLA_XDP_PROG_ID = 4"
definition IFLA_XDP_DRV_PROG_ID :: nat where "IFLA_XDP_DRV_PROG_ID = 5"
definition IFLA_XDP_SKB_PROG_ID :: nat where "IFLA_XDP_SKB_PROG_ID = 6"
definition IFLA_XDP_HW_PROG_ID :: nat where "IFLA_XDP_HW_PROG_ID = 7"
definition IFLA_XDP_EXPECTED_FD :: nat where "IFLA_XDP_EXPECTED_FD = 8"
definition IFLA_XDP_MAX :: nat where "IFLA_XDP_MAX = 8"
definition XDP_ATTACHED_NONE :: nat where "XDP_ATTACHED_NONE = 0"
definition XDP_ATTACHED_MULTI :: nat where "XDP_ATTACHED_MULTI = 4"
definition XDP_FLAGS_SKB_MODE :: u32 where "XDP_FLAGS_SKB_MODE = 2"
definition XDP_FLAGS_DRV_MODE :: u32 where "XDP_FLAGS_DRV_MODE = 4"
definition XDP_FLAGS_HW_MODE :: u32 where "XDP_FLAGS_HW_MODE = 8"
definition XDP_FLAGS_REPLACE :: u32 where "XDP_FLAGS_REPLACE = 16"
definition XDP_FLAGS_MODES :: u32 where "XDP_FLAGS_MODES = 14"
definition XDP_FLAGS_MASK :: u32 where "XDP_FLAGS_MASK = 31"
definition GENL_ID_CTRL :: nat where "GENL_ID_CTRL = 16"
definition CTRL_CMD_GETFAMILY :: u8 where "CTRL_CMD_GETFAMILY = 3"
definition CTRL_ATTR_FAMILY_ID :: nat where "CTRL_ATTR_FAMILY_ID = 1"
definition CTRL_ATTR_FAMILY_NAME :: nat where "CTRL_ATTR_FAMILY_NAME = 2"
definition NETDEV_CMD_DEV_GET :: u8 where "NETDEV_CMD_DEV_GET = 1"
definition NETDEV_CMD_MAX :: nat where "NETDEV_CMD_MAX = 15"
definition NETDEV_A_DEV_IFINDEX :: nat where "NETDEV_A_DEV_IFINDEX = 1"
definition NETDEV_A_DEV_XDP_FEATURES :: nat where "NETDEV_A_DEV_XDP_FEATURES = 3"
definition NETDEV_A_DEV_XDP_ZC_MAX_SEGS :: nat where "NETDEV_A_DEV_XDP_ZC_MAX_SEGS = 4"

text \<open>\<open>netdev\<close> with its closing NUL.\<close>

definition name_netdev :: "8 word list" where "name_netdev = [110, 101, 116, 100, 101, 118, 0]"

record xdp_link_info =
  xl_prog_id :: u32
  xl_drv_prog_id :: u32
  xl_hw_prog_id :: u32
  xl_skb_prog_id :: u32
  xl_attach_mode :: nat

definition xdp_link_info0 :: xdp_link_info where
  "xdp_link_info0 = \<lparr>xl_prog_id = 0, xl_drv_prog_id = 0, xl_hw_prog_id = 0, xl_skb_prog_id = 0, xl_attach_mode = 0\<rparr>"

record xdp_id_md =
  xi_ifindex :: int
  xi_flags :: u32
  xi_info :: xdp_link_info
  xi_feature_flags :: u64

record xdp_features_md =
  xf_ifindex :: int
  xf_zc_max_segs :: u32
  xf_flags :: u64

record xdp_attach_opts =
  xa_sz :: nat
  xa_old_prog_fd :: int
  xa_extra :: "8 word list"

record xdp_query_opts =
  xq_sz :: nat
  xq_prog_id :: u32
  xq_drv_prog_id :: u32
  xq_hw_prog_id :: u32
  xq_skb_prog_id :: u32
  xq_attach_mode :: nat
  xq_feature_flags :: u64
  xq_zc_max_segs :: u32
  xq_extra :: "8 word list"

section \<open>Requests\<close>

text \<open>\<^verbatim>\<open>struct ifinfomsg\<close> and \<^verbatim>\<open>struct genlmsghdr\<close>.\<close>

definition ifinfo_body :: "u8 \<Rightarrow> int \<Rightarrow> 8 word list" where
  "ifinfo_body family ifindex = [family] @ replicate 3 0 @ le_bytes 4 (nat (ifindex mod 2 ^ 32)) @ replicate 8 0"

definition genl_body :: "u8 \<Rightarrow> 8 word list" where
  "genl_body cmd = [cmd, 2, 0, 0]"

text \<open>A zeroed request with its header and body.\<close>

definition nl_req :: "nat \<Rightarrow> nat \<Rightarrow> 8 word list \<Rightarrow> 8 word list" where
  "nl_req type flags body = le_bytes 4 (16 + length body) @ le_bytes 2 type @ le_bytes 2 flags @ replicate 8 0 @ body @
     replicate (sizeof_req - (16 + length body)) 0"

definition xdp_set_request :: "int \<Rightarrow> int \<Rightarrow> int \<Rightarrow> u32 \<Rightarrow> int + 8 word list" where
  "xdp_set_request ifindex fd old_fd flags =
     (case nlattr_begin_nested (nl_req RTM_SETLINK (NLM_F_REQUEST + NLM_F_ACK) (ifinfo_body AF_UNSPEC ifindex)) IFLA_XDP of
        (None, r1) \<Rightarrow> Inl (- EMSGSIZE)
      | (Some nla, r1) \<Rightarrow>
          andthen (add_data IFLA_XDP_FD (le_bytes 4 (nat (fd mod 2 ^ 32))) r1) (\<lambda>r2.
          andthen (if flags \<noteq> 0 then add_data IFLA_XDP_FLAGS (le_bytes 4 (unat flags)) r2 else Inr r2) (\<lambda>r3.
          andthen (if and flags XDP_FLAGS_REPLACE \<noteq> 0
                   then add_data IFLA_XDP_EXPECTED_FD (le_bytes 4 (nat (old_fd mod 2 ^ 32))) r3 else Inr r3) (\<lambda>r4.
            Inr (nlattr_end_nested r4 nla)))))"

definition bpf_set_link_xdp_fd_replace :: "sock_env \<Rightarrow> int \<Rightarrow> int \<Rightarrow> int \<Rightarrow> u32 \<Rightarrow> unit nl_result" where
  "bpf_set_link_xdp_fd_replace env ifindex fd old_fd flags =
     (case xdp_set_request ifindex fd old_fd flags of
        Inl e \<Rightarrow> refused e ()
      | Inr req \<Rightarrow> libbpf_netlink_send_recv None env req ())"

definition xdp_attach_opts_valid :: "xdp_attach_opts option \<Rightarrow> bool" where
  "xdp_attach_opts_valid opts = (case opts of None \<Rightarrow> True | Some a \<Rightarrow> libbpf_validate_opts (xa_extra a) 12 (xa_sz a))"

definition old_prog_fd_of :: "xdp_attach_opts option \<Rightarrow> int" where
  "old_prog_fd_of opts = (case opts of None \<Rightarrow> 0 | Some a \<Rightarrow> opts_get (xa_sz a) 12 (xa_old_prog_fd a) 0)"

definition bpf_xdp_attach :: "sock_env \<Rightarrow> int \<Rightarrow> int \<Rightarrow> u32 \<Rightarrow> xdp_attach_opts option \<Rightarrow> unit nl_result" where
  "bpf_xdp_attach env ifindex prog_fd flags opts =
     (if \<not> xdp_attach_opts_valid opts then refused (- EINVAL) ()
      else let old_prog_fd = old_prog_fd_of opts
           in if old_prog_fd \<noteq> 0 then bpf_set_link_xdp_fd_replace env ifindex prog_fd old_prog_fd (or flags XDP_FLAGS_REPLACE)
              else bpf_set_link_xdp_fd_replace env ifindex prog_fd (- 1) flags)"

definition bpf_xdp_detach :: "sock_env \<Rightarrow> int \<Rightarrow> u32 \<Rightarrow> xdp_attach_opts option \<Rightarrow> unit nl_result" where
  "bpf_xdp_detach env ifindex flags opts = bpf_xdp_attach env ifindex (- 1) flags opts"

section \<open>Callbacks\<close>

text \<open>An attribute that may be absent.\<close>

definition opt_u32 :: "8 word list \<Rightarrow> nat option \<Rightarrow> (u32 \<Rightarrow> 'c \<Rightarrow> 'c) \<Rightarrow> 'c \<Rightarrow> 'c option" where
  "opt_u32 buf at upd c =
     (case at of None \<Rightarrow> Some c | Some a \<Rightarrow> do { v \<leftarrow> libbpf_nla_getattr_u32 buf a; Some (upd (of_nat v) c) })"

text \<open>\<open>ifi\<close> is the offset of the \<^verbatim>\<open>ifinfomsg\<close>.\<close>

definition get_xdp_info :: "8 word list \<Rightarrow> nat \<Rightarrow> nla_index \<Rightarrow> xdp_id_md \<Rightarrow> (int \<times> xdp_id_md) option" where
  "get_xdp_info buf ifi tb md =
     do { ix \<leftarrow> rd 4 buf (ifi + 4);
          if xi_ifindex md \<noteq> 0 \<and> xi_ifindex md \<noteq> s32 ix then Some (0, md)
          else case tb IFLA_XDP of
            None \<Rightarrow> Some (0, md)
          | Some at \<Rightarrow>
              do { (ret, xt) \<leftarrow> libbpf_nla_parse_nested IFLA_XDP_MAX buf at None;
                   if ret \<noteq> 0 then Some (ret, md)
                   else case xt IFLA_XDP_ATTACHED of
                     None \<Rightarrow> Some (0, md)
                   | Some a \<Rightarrow>
                       do { mode \<leftarrow> libbpf_nla_getattr_u8 buf a;
                            let i0 = (xi_info md)\<lparr>xl_attach_mode := mode\<rparr>;
                            if mode = XDP_ATTACHED_NONE then Some (0, md\<lparr>xi_info := i0\<rparr>)
                            else do {
                              i1 \<leftarrow> opt_u32 buf (xt IFLA_XDP_PROG_ID) (\<lambda>v i. i\<lparr>xl_prog_id := v\<rparr>) i0;
                              i2 \<leftarrow> opt_u32 buf (xt IFLA_XDP_SKB_PROG_ID) (\<lambda>v i. i\<lparr>xl_skb_prog_id := v\<rparr>) i1;
                              i3 \<leftarrow> opt_u32 buf (xt IFLA_XDP_DRV_PROG_ID) (\<lambda>v i. i\<lparr>xl_drv_prog_id := v\<rparr>) i2;
                              i4 \<leftarrow> opt_u32 buf (xt IFLA_XDP_HW_PROG_ID) (\<lambda>v i. i\<lparr>xl_hw_prog_id := v\<rparr>) i3;
                              Some (0, md\<lparr>xi_info := i4\<rparr>) } } } }"

definition dump_link_nlmsg :: "xdp_id_md nl_callback" where
  "dump_link_nlmsg buf nh md =
     do { len \<leftarrow> nlmsg_len_at buf nh;
          (r, tb) \<leftarrow> libbpf_nla_parse IFLA_MAX buf (nh + 32) (int len - 32) None;
          if r \<noteq> 0 then Some (- LIBBPF_ERRNO__NLPARSE, md)
          else get_xdp_info buf (nh + NLMSG_HDRLEN) tb md }"

text \<open>The id is \<open>None\<close> as long as it is not initialised.\<close>

definition parse_genl_family_id :: "nat option nl_callback" where
  "parse_genl_family_id buf nh fid =
     do { len \<leftarrow> nlmsg_len_at buf nh;
          (r, tb) \<leftarrow> libbpf_nla_parse CTRL_ATTR_FAMILY_ID buf (nh + 20) (int len - 20) None;
          case tb CTRL_ATTR_FAMILY_ID of
            None \<Rightarrow> Some (0, fid)
          | Some a \<Rightarrow> do { v \<leftarrow> libbpf_nla_getattr_u16 buf a; Some (2, Some v) } }"

definition parse_xdp_features :: "xdp_features_md nl_callback" where
  "parse_xdp_features buf nh md =
     do { len \<leftarrow> nlmsg_len_at buf nh;
          (r, tb) \<leftarrow> libbpf_nla_parse NETDEV_CMD_MAX buf (nh + 20) (int len - 20) None;
          case (tb NETDEV_A_DEV_IFINDEX, tb NETDEV_A_DEV_XDP_FEATURES) of
            (Some a, Some f) \<Rightarrow>
              do { ifindex \<leftarrow> libbpf_nla_getattr_u32 buf a;
                   if of_nat ifindex \<noteq> (of_int (xf_ifindex md) :: u32) then Some (0, md)
                   else do { v \<leftarrow> libbpf_nla_getattr_u64 buf f;
                             md1 \<leftarrow> opt_u32 buf (tb NETDEV_A_DEV_XDP_ZC_MAX_SEGS) (\<lambda>v m. m\<lparr>xf_zc_max_segs := v\<rparr>)
                               (md\<lparr>xf_flags := of_nat v\<rparr>);
                             Some (2, md1) } }
          | _ \<Rightarrow> Some (0, md) }"

section \<open>Queries\<close>

text \<open>Outcome, messages sent, sockets left open, over several exchanges.\<close>

type_synonym 'c nl_results = "'c outcome \<times> 8 word list list \<times> nat"

fun nl_then :: "'c nl_result \<Rightarrow> (int \<Rightarrow> 'c \<Rightarrow> 'd nl_results) \<Rightarrow> 'd nl_results" where
  "nl_then (Crash, sent, socks) f = (Crash, case sent of None \<Rightarrow> [] | Some m \<Rightarrow> [m], socks)"
| "nl_then (Blocked, sent, socks) f = (Blocked, case sent of None \<Rightarrow> [] | Some m \<Rightarrow> [m], socks)"
| "nl_then (Done r c, sent, socks) f =
     (case f r c of (out, sents, socks') \<Rightarrow> (out, (case sent of None \<Rightarrow> [] | Some m \<Rightarrow> [m]) @ sents, socks + socks'))"

definition resolve_genl_family_id :: "sock_env \<Rightarrow> 8 word list \<Rightarrow> nat option nl_result" where
  "resolve_genl_family_id env name =
     (case add_data CTRL_ATTR_FAMILY_NAME name (nl_req GENL_ID_CTRL NLM_F_REQUEST (genl_body CTRL_CMD_GETFAMILY)) of
        Inl e \<Rightarrow> refused e None
      | Inr req \<Rightarrow> libbpf_netlink_send_recv (Some parse_genl_family_id) env req None)"

definition query_opts_valid :: "xdp_query_opts option \<Rightarrow> bool" where
  "query_opts_valid opts = (case opts of None \<Rightarrow> True | Some q \<Rightarrow> libbpf_validate_opts (xq_extra q) 44 (xq_sz q))"

text \<open>\<^verbatim>\<open>OPTS_SET\<close> of the five results of the first exchange.\<close>

definition set_link_info :: "xdp_link_info \<Rightarrow> xdp_query_opts \<Rightarrow> xdp_query_opts" where
  "set_link_info i q =
     (let q1 = (if xq_sz q \<ge> 12 then q\<lparr>xq_prog_id := xl_prog_id i\<rparr> else q);
          q2 = (if xq_sz q1 \<ge> 16 then q1\<lparr>xq_drv_prog_id := xl_drv_prog_id i\<rparr> else q1);
          q3 = (if xq_sz q2 \<ge> 20 then q2\<lparr>xq_hw_prog_id := xl_hw_prog_id i\<rparr> else q2);
          q4 = (if xq_sz q3 \<ge> 24 then q3\<lparr>xq_skb_prog_id := xl_skb_prog_id i\<rparr> else q3)
      in if xq_sz q4 \<ge> 25 then q4\<lparr>xq_attach_mode := xl_attach_mode i\<rparr> else q4)"

definition set_features :: "xdp_features_md \<Rightarrow> xdp_query_opts \<Rightarrow> xdp_query_opts" where
  "set_features md q =
     (let q1 = (if xq_sz q \<ge> 40 then q\<lparr>xq_feature_flags := xf_flags md\<rparr> else q)
      in if xq_sz q1 \<ge> 44 then q1\<lparr>xq_zc_max_segs := xf_zc_max_segs md\<rparr> else q1)"

text \<open>The second and third exchange, for a caller whose structure has the features.\<close>

definition query_features :: "sock_env \<Rightarrow> sock_env \<Rightarrow> int \<Rightarrow> xdp_query_opts \<Rightarrow> xdp_query_opts option nl_results" where
  "query_features env2 env3 ifindex q =
     nl_then (resolve_genl_family_id env2 name_netdev) (\<lambda>err fid.
       if err < 0
       then (if err = - ENOENT then (Done 0 (Some (q\<lparr>xq_feature_flags := 0\<rparr>)), [], 0) else (Done err (Some q), [], 0))
       else case fid of
         None \<Rightarrow> (Crash, [], 0)
       | Some i \<Rightarrow>
           (case add_data NETDEV_A_DEV_IFINDEX (le_bytes 4 (nat (ifindex mod 2 ^ 32)))
                   (nl_req i NLM_F_REQUEST (genl_body NETDEV_CMD_DEV_GET)) of
              Inl e \<Rightarrow> (Done e (Some q), [], 0)
            | Inr req \<Rightarrow>
                nl_then (libbpf_netlink_send_recv (Some parse_xdp_features) env3 req
                    \<lparr>xf_ifindex = ifindex, xf_zc_max_segs = 0, xf_flags = 0\<rparr>) (\<lambda>err md.
                  if err \<noteq> 0 then (Done err (Some q), [], 0) else (Done 0 (Some (set_features md q)), [], 0))))"

definition bpf_xdp_query :: "sock_env \<Rightarrow> sock_env \<Rightarrow> sock_env \<Rightarrow> int \<Rightarrow> u32 \<Rightarrow> xdp_query_opts option \<Rightarrow> xdp_query_opts option nl_results" where
  "bpf_xdp_query env1 env2 env3 ifindex xdp_flags opts =
     (if \<not> query_opts_valid opts then (Done (- EINVAL) opts, [], 0)
      else if and xdp_flags (not XDP_FLAGS_MASK) \<noteq> 0 then (Done (- EINVAL) opts, [], 0)
      else let fl = and xdp_flags (or (or XDP_FLAGS_SKB_MODE XDP_FLAGS_DRV_MODE) XDP_FLAGS_HW_MODE)
           in if and fl (fl - 1) \<noteq> 0 then (Done (- EINVAL) opts, [], 0)
              else nl_then (libbpf_netlink_send_recv (Some dump_link_nlmsg) env1
                  (nl_req RTM_GETLINK (NLM_F_DUMP + NLM_F_REQUEST) (ifinfo_body AF_PACKET 0))
                  \<lparr>xi_ifindex = ifindex, xi_flags = fl, xi_info = xdp_link_info0, xi_feature_flags = 0\<rparr>) (\<lambda>err md.
                if err \<noteq> 0 then (Done err opts, [], 0)
                else case opts of
                  None \<Rightarrow> (Done 0 None, [], 0)
                | Some q \<Rightarrow>
                    let q1 = set_link_info (xi_info md) q
                    in if xq_sz q1 < 40 then (Done 0 (Some q1), [], 0)
                       else query_features env2 env3 ifindex q1))"

definition query_opts0 :: xdp_query_opts where
  "query_opts0 = \<lparr>xq_sz = 48, xq_prog_id = 0, xq_drv_prog_id = 0, xq_hw_prog_id = 0, xq_skb_prog_id = 0,
     xq_attach_mode = 0, xq_feature_flags = 0, xq_zc_max_segs = 0, xq_extra = replicate 4 0\<rparr>"

text \<open>Which id a caller gets that asks for a mode.\<close>

definition id_for_flags :: "u32 \<Rightarrow> xdp_query_opts \<Rightarrow> u32" where
  "id_for_flags flags q =
     (let fl = and flags XDP_FLAGS_MODES
      in if xq_attach_mode q \<noteq> XDP_ATTACHED_MULTI \<and> fl = 0 then xq_prog_id q
         else if and fl XDP_FLAGS_DRV_MODE \<noteq> 0 then xq_drv_prog_id q
         else if and fl XDP_FLAGS_HW_MODE \<noteq> 0 then xq_hw_prog_id q
         else if and fl XDP_FLAGS_SKB_MODE \<noteq> 0 then xq_skb_prog_id q
         else 0)"

definition bpf_xdp_query_id :: "sock_env \<Rightarrow> sock_env \<Rightarrow> sock_env \<Rightarrow> int \<Rightarrow> u32 \<Rightarrow> u32 \<Rightarrow> u32 nl_results" where
  "bpf_xdp_query_id env1 env2 env3 ifindex flags prog_id =
     (case bpf_xdp_query env1 env2 env3 ifindex flags (Some query_opts0) of
        (Done r q, sents, socks) \<Rightarrow>
          (Done r (if r \<noteq> 0 then prog_id else case q of None \<Rightarrow> prog_id | Some q \<Rightarrow> id_for_flags flags q), sents, socks)
      | (Crash, sents, socks) \<Rightarrow> (Crash, sents, socks)
      | (Blocked, sents, socks) \<Rightarrow> (Blocked, sents, socks))"

section \<open>The request to attach\<close>

lemma length_bodies [simp]: "length (ifinfo_body family ifindex) = 16" "length (genl_body cmd) = 4"
  by (simp_all add: ifinfo_body_def genl_body_def)

lemma nl_req_canonical: "nl_req type flags body = req_of (nl_hdr type flags 0 0 body) []"
proof -
  have z: "le_bytes 4 0 @ le_bytes 4 0 @ x = replicate 8 0 @ x" for x
    using replicate_add [of 4 4 "0 :: 8 word"] by (simp add: le_bytes_zero)
  show ?thesis unfolding nl_req_def req_of_def nl_hdr_def by (simp add: z)
qed

text \<open>What is nested in the request.\<close>

definition xdp_inner :: "int \<Rightarrow> int \<Rightarrow> u32 \<Rightarrow> attribute list" where
  "xdp_inner fd old_fd flags =
     [(IFLA_XDP_FD, le_bytes 4 (nat (fd mod 2 ^ 32)))] @
     (if flags \<noteq> 0 then [(IFLA_XDP_FLAGS, le_bytes 4 (unat flags))] else []) @
     (if and flags XDP_FLAGS_REPLACE \<noteq> 0 then [(IFLA_XDP_EXPECTED_FD, le_bytes 4 (nat (old_fd mod 2 ^ 32)))] else [])"

lemma le_bytes_ne: "le_bytes 4 n \<noteq> []"
  using length_le_bytes [of 4 n] by (metis length_0_conv zero_neq_numeral)

lemma small_fits:
  assumes "length hdr = 28" and "length (nlas_enc as) \<le> 132"
  shows "fits hdr as"
  using assms by (simp add: fits_def sizeof_req_def)

lemma xdp_set_request_ok:
  "xdp_set_request ifindex fd old_fd flags =
   Inr (req_of (nl_hdr RTM_SETLINK (NLM_F_REQUEST + NLM_F_ACK) 0 0 (ifinfo_body AF_UNSPEC ifindex))
     [(or IFLA_XDP NLA_F_NESTED, nlas_enc (xdp_inner fd old_fd flags))])"
proof -
  let ?hdr = "nl_hdr RTM_SETLINK (NLM_F_REQUEST + NLM_F_ACK) 0 0 (ifinfo_body AF_UNSPEC ifindex)"
  let ?n = "(or IFLA_XDP NLA_F_NESTED, []) :: attribute"
  let ?a = "(IFLA_XDP_FD, le_bytes 4 (nat (fd mod 2 ^ 32))) :: attribute"
  let ?b = "(IFLA_XDP_FLAGS, le_bytes 4 (unat flags)) :: attribute"
  let ?c = "(IFLA_XDP_EXPECTED_FD, le_bytes 4 (nat (old_fd mod 2 ^ 32))) :: attribute"
  have fit: "fits ?hdr as" if "length (nlas_enc as) \<le> 132" for as by (rule small_fits [OF _ that]) simp
  note sz = length_nla_enc NLA_HDRLEN_def
  have add: "add_data t (le_bytes 4 v) (req_of ?hdr as) = Inr (req_of ?hdr (as @ [(t, le_bytes 4 v)]))"
    if "length (nlas_enc as) \<le> 40" for t v as
  proof -
    have "length (nlas_enc (as @ [(t, le_bytes 4 v)])) = length (nlas_enc as) + 8" by (simp add: nlas_enc_def sz)
    with that show ?thesis by (intro add_data_canonical fit le_bytes_ne) simp_all
  qed
  have r1: "nlattr_begin_nested (req_of ?hdr []) IFLA_XDP = (Some (4 + length ?hdr + length (nlas_enc [])), req_of ?hdr [?n])"
    using begin_nested_canonical [OF fit fit, of "[]" IFLA_XDP] by (simp add: sz)
  define as where "as = [?n, ?a] @ (if flags \<noteq> 0 then [?b] else []) @ (if and flags XDP_FLAGS_REPLACE \<noteq> 0 then [?c] else [])"
  have as: "as = [] @ ?n # xdp_inner fd old_fd flags" by (simp add: as_def xdp_inner_def)
  have "nlattr_end_nested (req_of ?hdr as) (4 + length ?hdr + length (nlas_enc [])) =
      req_of ?hdr ([] @ [(or IFLA_XDP NLA_F_NESTED, nlas_enc (xdp_inner fd old_fd flags))])"
    unfolding as by (rule nlattr_end_canonical, rule fit) (simp add: xdp_inner_def sz)
  then show ?thesis
    unfolding xdp_set_request_def nl_req_canonical r1 as_def
    by (cases "flags = 0"; cases "and flags XDP_FLAGS_REPLACE = 0") (simp_all add: add sz)
qed

text \<open>The flags a caller ends up with.\<close>

definition effective_flags :: "u32 \<Rightarrow> xdp_attach_opts option \<Rightarrow> u32" where
  "effective_flags flags opts = (if old_prog_fd_of opts \<noteq> 0 then or flags XDP_FLAGS_REPLACE else flags)"

definition expected_fd :: "xdp_attach_opts option \<Rightarrow> int" where
  "expected_fd opts = (if old_prog_fd_of opts \<noteq> 0 then old_prog_fd_of opts else - 1)"

text \<open>Attaching a program to an interface with XDP sends one message, which asks the kernel to set
  the program of the interface, with the flags if there are any, and, when the caller names the
  program to be replaced, with that one as the expected one; detaching sends the same with
  descriptor -1. The kernel's verdict is returned; wrong options are refused without a message; no
  socket stays open.\<close>

theorem xdp_attach_sends:
  assumes open': "libbpf_netlink_open env = (sock, port, 1)" "0 \<le> sock" "se_send_errno env = 0"
      "se_alloc_ok env" "se_realloc_ok env"
    and reply: "se_recv env = deliver [(a, b, [ack])]" "is_ack env port ack"
  shows "bpf_xdp_attach env ifindex fd flags opts =
      (if xdp_attach_opts_valid opts
       then (Done (s32 (m_error ack)) (),
         Some (nlmsg_enc (tc_message env RTM_SETLINK (NLM_F_REQUEST + NLM_F_ACK) (ifinfo_body AF_UNSPEC ifindex)
           [(or IFLA_XDP NLA_F_NESTED, nlas_enc (xdp_inner fd (expected_fd opts) (effective_flags flags opts)))])), 0)
       else (Done (- EINVAL) (), None, 0)) \<and>
    bpf_xdp_detach env ifindex flags opts = bpf_xdp_attach env ifindex (- 1) flags opts"
proof -
  note recv = ack_result [OF open'(4,5) reply, simplified]
  have "fits (nl_hdr RTM_SETLINK (NLM_F_REQUEST + NLM_F_ACK) 0 0 (ifinfo_body AF_UNSPEC ifindex))
      [(or IFLA_XDP NLA_F_NESTED, nlas_enc (xdp_inner fd old fl))]" for old fl
    by (rule small_fits) (simp_all add: length_nla_enc NLA_HDRLEN_def align4_id [OF dvd_length_nlas],
        simp add: xdp_inner_def length_nla_enc NLA_HDRLEN_def)
  note sent = sent_bytes_canonical [OF this, of env]
  have "bpf_set_link_xdp_fd_replace env ifindex fd old fl =
      (Done (s32 (m_error ack)) (),
       Some (nlmsg_enc (tc_message env RTM_SETLINK (NLM_F_REQUEST + NLM_F_ACK) (ifinfo_body AF_UNSPEC ifindex)
         [(or IFLA_XDP NLA_F_NESTED, nlas_enc (xdp_inner fd old fl))])), 0)" for old fl
    by (simp add: bpf_set_link_xdp_fd_replace_def xdp_set_request_ok send_recv_open [OF open'(1-3)] recv sent tc_message_def)
  then show ?thesis
    by (simp add: bpf_xdp_attach_def bpf_xdp_detach_def refused_def Let_def expected_fd_def effective_flags_def)
qed

theorem xdp_attach_sends_witness:
  "fst (bpf_xdp_attach (demo_sock (deliver [(1, 0, [demo_ack 4294967279])])) 2 5 2 None) = Done (- 17) ()"
proof -
  have "s32 4294967279 = - 17" by (simp add: s32_def)
  then show ?thesis
    by (subst conjunct1 [OF xdp_attach_sends [OF demo_sock_fields(1) _ demo_sock_fields(2-5) demo_is_ack]])
      (simp_all del: deliver.simps add: demo_ack_error xdp_attach_opts_valid_def)
qed

section \<open>What the kernel tells of an interface\<close>

text \<open>The payload of the last attribute of a type.\<close>

definition attr_val :: "attribute list \<Rightarrow> nat \<Rightarrow> 8 word list option" where
  "attr_val as t = map_of (rev (map (apfst NLA_TYPE_OF) as)) t"

lemma attr_val_None: "attr_val as t = None \<longleftrightarrow> t \<notin> NLA_TYPE_OF ` fst ` List.set as"
  by (simp add: attr_val_def map_of_eq_None_iff image_image)

lemma attr_val_split:
  assumes "attr_val as t = Some d"
  shows "\<exists>xs u ys. as = xs @ (u, d) # ys \<and> NLA_TYPE_OF u = t \<and> t \<notin> NLA_TYPE_OF ` fst ` List.set ys"
  using assms
proof (induction as rule: rev_induct)
  case (snoc a as)
  obtain u e where a: "a = (u, e)" by (cases a)
  show ?case
  proof (cases "NLA_TYPE_OF u = t")
    case True
    with snoc.prems have "e = d" by (simp add: attr_val_def a)
    with True show ?thesis unfolding a by (intro exI [of _ as] exI [of _ u] exI [of _ "[]"]) simp
  next
    case False
    with snoc.prems have "attr_val as t = Some d" by (simp add: attr_val_def a)
    then obtain xs v ys where "as = xs @ (v, d) # ys" "NLA_TYPE_OF v = t" "t \<notin> NLA_TYPE_OF ` fst ` List.set ys"
      using snoc.IH by blast
    with False show ?thesis unfolding a by (intro exI [of _ xs] exI [of _ v] exI [of _ "ys @ [(u, e)]"]) auto
  qed
qed (simp add: attr_val_def)

text \<open>The index finds it.\<close>

lemma index_reads:
  assumes "t \<le> maxtype"
  shows "case attr_val as t of None \<Rightarrow> index_of maxtype (length pre) as (\<lambda>_. None) t = None
    | Some d \<Rightarrow> \<exists>a. index_of maxtype (length pre) as (\<lambda>_. None) t = Some a \<and>
        (\<forall>k \<le> length d. rd k (pre @ nlas_enc as @ post) (libbpf_nla_data a) = Some (le_val (take k d)))"
proof (cases "attr_val as t")
  case None
  then have "index_of maxtype (length pre) as (\<lambda>_. None) t = None" by (simp add: attr_val_None index_of_other)
  with None show ?thesis by simp
next
  case (Some d)
  then obtain xs u ys where as: "as = xs @ (u, d) # ys" "NLA_TYPE_OF u = t" "t \<notin> NLA_TYPE_OF ` fst ` List.set ys"
    using attr_val_split by blast
  have "index_of maxtype (length pre) as (\<lambda>_. None) t = Some (length (pre @ nlas_enc xs))"
    using index_of_lookup [of "(u, d)" maxtype ys] as assms by simp
  moreover have "rd k (pre @ nlas_enc as @ post) (libbpf_nla_data (length (pre @ nlas_enc xs))) = Some (le_val (take k d))"
    if "k \<le> length d" for k
    using attr_read [of k "(u, d)" "pre @ nlas_enc xs" "nlas_enc ys @ post"] that by (simp add: as(1) nlas_enc_def)
  ultimately show ?thesis using Some by auto
qed

definition put_id :: "attribute list \<Rightarrow> nat \<Rightarrow> (u32 \<Rightarrow> xdp_link_info \<Rightarrow> xdp_link_info) \<Rightarrow> xdp_link_info \<Rightarrow> xdp_link_info" where
  "put_id as t upd i = (case attr_val as t of None \<Rightarrow> i | Some d \<Rightarrow> upd (of_nat (le_val (take 4 d))) i)"

text \<open>What is attached, by the attributes nested under \<open>IFLA_XDP\<close>.\<close>

definition xdp_effect :: "attribute list \<Rightarrow> xdp_link_info \<Rightarrow> xdp_link_info" where
  "xdp_effect inner i =
     (case attr_val inner IFLA_XDP_ATTACHED of None \<Rightarrow> i
      | Some d \<Rightarrow>
          let i0 = i\<lparr>xl_attach_mode := le_val (take 1 d)\<rparr>
          in if le_val (take 1 d) = XDP_ATTACHED_NONE then i0
             else put_id inner IFLA_XDP_HW_PROG_ID (\<lambda>v i. i\<lparr>xl_hw_prog_id := v\<rparr>)
               (put_id inner IFLA_XDP_DRV_PROG_ID (\<lambda>v i. i\<lparr>xl_drv_prog_id := v\<rparr>)
               (put_id inner IFLA_XDP_SKB_PROG_ID (\<lambda>v i. i\<lparr>xl_skb_prog_id := v\<rparr>)
               (put_id inner IFLA_XDP_PROG_ID (\<lambda>v i. i\<lparr>xl_prog_id := v\<rparr>) i0))))"

definition xdp_inner_ok :: "attribute list \<Rightarrow> bool" where
  "xdp_inner_ok inner \<longleftrightarrow> list_all attr_ok inner \<and>
     (\<forall>d. attr_val inner IFLA_XDP_ATTACHED = Some d \<longrightarrow> 1 \<le> length d) \<and>
     (\<forall>t \<in> {IFLA_XDP_PROG_ID, IFLA_XDP_SKB_PROG_ID, IFLA_XDP_DRV_PROG_ID, IFLA_XDP_HW_PROG_ID}.
        \<forall>d. attr_val inner t = Some d \<longrightarrow> 4 \<le> length d)"

text \<open>A link: its index, and the nested attributes if there are any.\<close>

type_synonym link = "int \<times> attribute list option"

definition link_effect :: "link \<Rightarrow> xdp_id_md \<Rightarrow> xdp_id_md" where
  "link_effect l md =
     (if xi_ifindex md \<noteq> 0 \<and> xi_ifindex md \<noteq> fst l then md
      else case snd l of None \<Rightarrow> md | Some inner \<Rightarrow> md\<lparr>xi_info := xdp_effect inner (xi_info md)\<rparr>)"

text \<open>The message that describes a link.\<close>

definition link_msg :: "nlmsg \<Rightarrow> link \<Rightarrow> bool" where
  "link_msg m l \<longleftrightarrow> nlmsg_ok m \<and> m_type m \<notin> {NLMSG_ERROR, NLMSG_DONE} \<and> - (2 ^ 31) \<le> fst l \<and> fst l < 2 ^ 31 \<and>
     (\<exists>b1 b2 as. length b1 = 4 \<and> length b2 = 8 \<and> m_payload m = b1 @ le_bytes 4 (nat (fst l mod 2 ^ 32)) @ b2 @ nlas_enc as \<and>
        list_all attr_ok as \<and>
        (case snd l of None \<Rightarrow> attr_val as IFLA_XDP = None
         | Some inner \<Rightarrow> attr_val as IFLA_XDP = Some (nlas_enc inner) \<and> xdp_inner_ok inner))"

lemma opt_u32_reads:
  assumes "t \<le> IFLA_XDP_MAX" and "\<forall>d. attr_val as t = Some d \<longrightarrow> 4 \<le> length d"
  shows "opt_u32 (pre @ nlas_enc as @ post) (index_of IFLA_XDP_MAX (length pre) as (\<lambda>_. None) t) upd i = Some (put_id as t upd i)"
  using index_reads [OF assms(1), where as = as and pre = pre and post = post] assms(2)
  by (cases "attr_val as t") (auto simp: opt_u32_def put_id_def libbpf_nla_getattr_u32_def)

lemma s32_index:
  assumes "- (2 ^ 31) \<le> i" and "i < 2 ^ 31"
  shows "s32 (nat (i mod 2 ^ 32)) = i"
proof -
  have "(of_nat (nat (i mod 2 ^ 32)) :: 32 word) = of_int (i mod 2 ^ 32)" by simp
  also have "\<dots> = of_int i" by (rule word_of_int_eq_iff [THEN iffD2]) (simp add: take_bit_eq_mod)
  finally show ?thesis
    unfolding s32_def using assms by (simp add: signed_of_int signed_take_bit_int_eq_self)
qed

lemma parse_nested_at:
  assumes "attr_ok (u, nlas_enc inner)" and "list_all attr_ok inner"
  shows "libbpf_nla_parse_nested maxtype (pre @ nla_enc (u, nlas_enc inner) @ post) (length pre) None =
    Some (0, index_of maxtype (length pre + NLA_HDRLEN) inner (\<lambda>_. None))"
  by (rule parse_nested_enc [OF assms(2,1)])

lemma get_xdp_info_nested:
  assumes ok: "xdp_inner_ok inner" and u: "attr_ok (u, nlas_enc inner)" and tb: "tb IFLA_XDP = Some (length pre)"
    and ix: "rd 4 (pre @ nla_enc (u, nlas_enc inner) @ post) (ifi + 4) = Some ix" and l: "s32 ix = fst l" "snd l = Some inner"
  shows "get_xdp_info (pre @ nla_enc (u, nlas_enc inner) @ post) ifi tb md = Some (0, link_effect l md)"
proof -
  let ?buf = "pre @ nla_enc (u, nlas_enc inner) @ post"
  let ?h = "le_bytes 2 (NLA_HDRLEN + length (nlas_enc inner)) @ le_bytes 2 u"
  let ?xt = "index_of IFLA_XDP_MAX (length pre + NLA_HDRLEN) inner (\<lambda>_. None)"
  from ok have in_ok: "list_all attr_ok inner" by (simp add: xdp_inner_ok_def)
  note nested = parse_nested_at [OF u in_ok, of IFLA_XDP_MAX pre post]
  have buf: "?buf = (pre @ ?h) @ nlas_enc inner @ post"
    using align4_id [OF dvd_length_nlas [of inner]] by (simp add: nla_enc_def)
  have pos: "length pre + NLA_HDRLEN = length (pre @ ?h)" by (simp add: NLA_HDRLEN_def)
  note numbers = IFLA_XDP_MAX_def IFLA_XDP_ATTACHED_def IFLA_XDP_PROG_ID_def IFLA_XDP_SKB_PROG_ID_def
    IFLA_XDP_DRV_PROG_ID_def IFLA_XDP_HW_PROG_ID_def
  have ids: "opt_u32 ?buf (?xt t) upd i = Some (put_id inner t upd i)"
    if "t \<in> {IFLA_XDP_PROG_ID, IFLA_XDP_SKB_PROG_ID, IFLA_XDP_DRV_PROG_ID, IFLA_XDP_HW_PROG_ID}" for t i upd
    unfolding buf pos
  proof (rule opt_u32_reads)
    show "t \<le> IFLA_XDP_MAX" using that by (auto simp: numbers)
    show "\<forall>d. attr_val inner t = Some d \<longrightarrow> 4 \<le> length d" using ok that by (auto simp: xdp_inner_ok_def)
  qed
  have "IFLA_XDP_ATTACHED \<le> IFLA_XDP_MAX" by (simp add: numbers)
  note att = index_reads [OF this, where as = inner and pre = "pre @ ?h" and post = post, folded buf pos]
  show ?thesis
  proof (cases "attr_val inner IFLA_XDP_ATTACHED")
    case None
    with att have "?xt IFLA_XDP_ATTACHED = None" by simp
    with None show ?thesis
      by (simp add: get_xdp_info_def ix l tb nested link_effect_def xdp_effect_def)
  next
    case (Some d)
    with ok have "1 \<le> length d" by (simp add: xdp_inner_ok_def)
    with att Some obtain a where a: "?xt IFLA_XDP_ATTACHED = Some a"
      and v: "libbpf_nla_getattr_u8 ?buf a = Some (le_val (take 1 d))"
      by (auto simp: libbpf_nla_getattr_u8_def)
    show ?thesis
      by (simp add: get_xdp_info_def ix l tb nested link_effect_def xdp_effect_def Some a v ids Let_def)
  qed
qed

lemma dump_link_msg:
  assumes "link_msg m l"
  shows "dump_link_nlmsg (pre @ nlmsg_enc m @ post) (length pre) md = Some (0, link_effect l md)"
proof -
  from assms obtain b1 b2 as where wf: "nlmsg_ok m" and r: "- (2 ^ 31) \<le> fst l" "fst l < 2 ^ 31"
    and b: "length b1 = 4" "length b2 = 8" and pl: "m_payload m = b1 @ le_bytes 4 (nat (fst l mod 2 ^ 32)) @ b2 @ nlas_enc as"
    and as: "list_all attr_ok as"
    and x: "case snd l of None \<Rightarrow> attr_val as IFLA_XDP = None
         | Some inner \<Rightarrow> attr_val as IFLA_XDP = Some (nlas_enc inner) \<and> xdp_inner_ok inner"
    unfolding link_msg_def by blast
  let ?buf = "pre @ nlmsg_enc m @ post"
  let ?h = "le_bytes 4 (NLMSG_HDRLEN + length (m_payload m)) @ le_bytes 2 (m_type m) @
    le_bytes 2 (m_flags m) @ le_bytes 4 (m_seq m) @ le_bytes 4 (m_pid m)"
  let ?body = "b1 @ le_bytes 4 (nat (fst l mod 2 ^ 32)) @ b2"
  let ?P = "pre @ ?h @ ?body"
  have "4 dvd length (m_payload m)" using dvd_length_nlas [of as] b unfolding pl by simp
  then have enc: "nlmsg_enc m = ?h @ ?body @ nlas_enc as"
    using align4_id [of "length (m_payload m)"] by (simp add: nlmsg_enc_def) (simp add: pl)
  have buf: "?buf = ?P @ nlas_enc as @ post" and P: "length ?P = length pre + 32"
    unfolding enc using b by simp_all
  have len: "nlmsg_len_at ?buf (length pre) = Some (32 + length (nlas_enc as))"
    using nlmsg_enc_fields(1) [OF wf] b by (simp add: pl NLMSG_HDRLEN_def)
  have parse: "libbpf_nla_parse IFLA_MAX ?buf (length pre + 32) (int (32 + length (nlas_enc as)) - 32) None =
      Some (0, index_of IFLA_MAX (length ?P) as (\<lambda>_. None))"
    using nla_loop_enc [OF as, of ?P post IFLA_MAX "\<lambda>_. None"] unfolding libbpf_nla_parse_def buf P by simp
  have "nat (fst l mod 2 ^ 32) < 256 ^ 4" by (simp add: nat_less_iff)
  moreover have "?buf = (pre @ ?h @ b1) @ le_bytes 4 (nat (fst l mod 2 ^ 32)) @ (b2 @ nlas_enc as @ post)"
    unfolding enc by simp
  moreover have "length pre + NLMSG_HDRLEN + 4 = length (pre @ ?h @ b1)" using b by (simp add: NLMSG_HDRLEN_def)
  ultimately have ix: "rd 4 ?buf (length pre + NLMSG_HDRLEN + 4) = Some (nat (fst l mod 2 ^ 32))"
    by (simp only: rd_append0 rd_le_bytes)
  note s = s32_index [OF r]
  have dump: "dump_link_nlmsg ?buf (length pre) md = get_xdp_info ?buf (length pre + NLMSG_HDRLEN) (index_of IFLA_MAX (length ?P) as (\<lambda>_. None)) md"
    unfolding dump_link_nlmsg_def len by (simp add: parse [simplified])
  have le: "IFLA_XDP \<le> IFLA_MAX" by (simp add: IFLA_XDP_def IFLA_MAX_def)
  show ?thesis
  proof (cases "snd l")
    case None
    with x have "index_of IFLA_MAX (length ?P) as (\<lambda>_. None) IFLA_XDP = None"
      using index_reads [OF le, where as = as and pre = ?P] by simp
    with None ix s show ?thesis unfolding dump by (simp add: get_xdp_info_def link_effect_def)
  next
    case (Some inner)
    with x obtain xs u ys where sp: "as = xs @ (u, nlas_enc inner) # ys" "NLA_TYPE_OF u = IFLA_XDP"
      "IFLA_XDP \<notin> NLA_TYPE_OF ` fst ` List.set ys" and ok: "xdp_inner_ok inner"
      using attr_val_split [of as IFLA_XDP "nlas_enc inner"] by auto
    have tb: "index_of IFLA_MAX (length ?P) as (\<lambda>_. None) IFLA_XDP = Some (length (?P @ nlas_enc xs))"
      using index_of_lookup [of "(u, nlas_enc inner)" IFLA_MAX ys] sp le by simp
    have u: "attr_ok (u, nlas_enc inner)" using as sp(1) by simp
    have buf2: "?buf = (?P @ nlas_enc xs) @ nla_enc (u, nlas_enc inner) @ (nlas_enc ys @ post)"
      unfolding buf sp(1) by (simp add: nlas_enc_def)
    show ?thesis unfolding dump unfolding buf2
      by (rule get_xdp_info_nested [where tb = "index_of IFLA_MAX (length ?P) as (\<lambda>_. None)" and pre = "?P @ nlas_enc xs"
            and l = l, OF ok u tb ix [unfolded buf2] s Some])
  qed
qed

section \<open>The dump of all links\<close>

lemma link_handles:
  assumes "link_msg m l"
  shows "handles (Some dump_link_nlmsg) (Some (\<lambda>m md. the (dump_link_nlmsg (nlmsg_enc m) 0 md))) m"
proof -
  have "the (dump_link_nlmsg (nlmsg_enc m) 0 md) = (0, link_effect l md)" for md
    using dump_link_msg [OF assms, of "[]" "[]" md] by simp
  with dump_link_msg [OF assms] show ?thesis by (simp add: handles_def)
qed

lemma done_handles: "m_type m = NLMSG_DONE \<Longrightarrow> handles (Some dump_link_nlmsg) (Some g) m"
  by (simp add: handles_def)

text \<open>A message of the dump: part of it, or its end.\<close>

definition in_dump :: "nat \<Rightarrow> nat \<Rightarrow> nlmsg \<Rightarrow> bool" where
  "in_dump port seq m \<longleftrightarrow> nlmsg_ok m \<and> m_pid m = port \<and> m_seq m = seq \<and> NLM_F_MULTI (m_flags m)"

definition dump_end :: "nat \<Rightarrow> nat \<Rightarrow> nlmsg \<Rightarrow> bool" where
  "dump_end port seq m \<longleftrightarrow> in_dump port seq m \<and> m_type m = NLMSG_DONE"

definition dump_part :: "nat \<Rightarrow> nat \<Rightarrow> (nlmsg \<times> link) list \<Rightarrow> bool" where
  "dump_part port seq mls \<longleftrightarrow> (\<forall>(m, l) \<in> List.set mls. in_dump port seq m \<and> link_msg m l)"

lemma reply_loop_links:
  fixes port seq :: nat
  assumes "dump_part port seq mls"
  shows "reply_loop (Some (\<lambda>m md. the (dump_link_nlmsg (nlmsg_enc m) 0 md))) port seq (map fst mls @ rest) multi md =
    reply_loop (Some (\<lambda>m md. the (dump_link_nlmsg (nlmsg_enc m) 0 md))) port seq rest (multi \<or> mls \<noteq> [])
      (fold link_effect (map snd mls) md)"
  using assms
proof (induction mls arbitrary: multi md)
  case (Cons ml mls)
  obtain m l where ml: "ml = (m, l)" by (cases ml)
  with Cons.prems have d: "in_dump port seq m" "link_msg m l" and rest: "dump_part port seq mls"
    by (simp_all add: dump_part_def)
  have e: "the (dump_link_nlmsg (nlmsg_enc m) 0 md) = (0, link_effect l md)" for md
    using dump_link_msg [OF d(2), of "[]" "[]" md] by simp
  from d have "m_type m \<noteq> NLMSG_ERROR" "m_type m \<noteq> NLMSG_DONE" by (simp_all add: link_msg_def)
  with Cons.IH [OF rest] d(1) e show ?case by (simp add: ml in_dump_def Let_def)
qed simp

lemma reply_rounds_dump:
  assumes "list_all (\<lambda>mls. mls \<noteq> [] \<and> dump_part port seq mls) dgs" and "dump_part port seq tail_links"
    and "dump_end port seq fin"
  shows "reply_rounds (Some (\<lambda>m md. the (dump_link_nlmsg (nlmsg_enc m) 0 md))) port seq
      (map (map fst) dgs @ [map fst tail_links @ [fin]]) md =
    Done 0 (fold link_effect (map snd (concat dgs @ tail_links)) md)"
  using assms(1)
proof (induction dgs arbitrary: md)
  case Nil
  have "reply_loop (Some (\<lambda>m md. the (dump_link_nlmsg (nlmsg_enc m) 0 md))) port seq [fin] multi md = L_done 0 md" for multi md
    using assms(3) by (simp add: dump_end_def in_dump_def Let_def NLMSG_DONE_def NLMSG_ERROR_def)
  then have "reply_loop (Some (\<lambda>m md. the (dump_link_nlmsg (nlmsg_enc m) 0 md))) port seq (map fst tail_links @ [fin]) False md =
      L_done 0 (fold link_effect (map snd tail_links) md)"
    by (subst reply_loop_links [OF assms(2)])
  then show ?case by (simp del: reply_loop.simps)
next
  case (Cons d dgs)
  then have d: "d \<noteq> []" "dump_part port seq d" and rest: "list_all (\<lambda>mls. mls \<noteq> [] \<and> dump_part port seq mls) dgs"
    by simp_all
  have "reply_loop (Some (\<lambda>m md. the (dump_link_nlmsg (nlmsg_enc m) 0 md))) port seq (map fst d) False md =
      L_fall True (fold link_effect (map snd d) md)"
    using reply_loop_links [OF d(2), of "[]" False md] d(1) by simp
  with Cons.IH [OF rest] d(1) show ?case by simp
qed

lemma other_links:
  assumes "xi_ifindex md = i" and "i \<noteq> 0" and "\<forall>l \<in> List.set ls. fst l \<noteq> i"
  shows "fold link_effect ls md = md"
  using assms by (induction ls) (simp_all add: link_effect_def)

lemma link_effect_index: "xi_ifindex (link_effect l md) = xi_ifindex md"
  by (simp add: link_effect_def split: option.split)

lemma fold_links:
  assumes "(i, x) \<in> List.set ls" and "distinct (map fst ls)" and "i \<noteq> 0" and "xi_ifindex md = i"
  shows "fold link_effect ls md = link_effect (i, x) md"
proof -
  from assms(1) obtain xs ys where ls: "ls = xs @ (i, x) # ys" by (meson split_list)
  with assms(2) have "\<forall>l \<in> List.set xs. fst l \<noteq> i" "\<forall>l \<in> List.set ys. fst l \<noteq> i"
    by (auto simp: rev_image_eqI)
  then show ?thesis
    using other_links [of md i xs] other_links [of "link_effect (i, x) md" i ys] assms(3,4)
    by (simp add: ls link_effect_index)
qed

section \<open>The query\<close>

lemma set_link_info_sz: "xq_sz (set_link_info i q) = xq_sz q"
  by (simp add: set_link_info_def Let_def)

text \<open>The exchanges for the features leave the ids alone.\<close>

definition ids_of :: "xdp_query_opts \<Rightarrow> u32 \<times> u32 \<times> u32 \<times> u32 \<times> nat" where
  "ids_of q = (xq_prog_id q, xq_drv_prog_id q, xq_hw_prog_id q, xq_skb_prog_id q, xq_attach_mode q)"

lemma id_for_flags_ids: "ids_of q = ids_of q' \<Longrightarrow> id_for_flags flags q = id_for_flags flags q'"
  unfolding ids_of_def id_for_flags_def Let_def by (elim Pair_inject) (simp only:)

lemma nl_then_Done:
  assumes "nl_then res f = (Done r d, sents, socks)"
  shows "\<exists>r1 c sent k ss ks. res = (Done r1 c, sent, k) \<and> f r1 c = (Done r d, ss, ks)"
proof -
  obtain out sent k where res: "res = (out, sent, k)" by (cases res)
  with assms show ?thesis by (cases out) (auto split: prod.splits)
qed

lemma query_features_ids:
  assumes "query_features env2 env3 ifindex q = (Done r q', sents, socks)"
  shows "\<exists>q''. q' = Some q'' \<and> ids_of q'' = ids_of q"
  using assms unfolding query_features_def
  by (auto dest!: nl_then_Done simp: ids_of_def set_features_def Let_def split: if_splits option.splits sum.splits)

definition single_mode :: "u32 \<Rightarrow> bool" where
  "single_mode flags \<longleftrightarrow> flags \<in> {0, XDP_FLAGS_SKB_MODE, XDP_FLAGS_DRV_MODE, XDP_FLAGS_HW_MODE}"

lemma single_mode_ok:
  assumes "single_mode flags"
  shows "and flags (not XDP_FLAGS_MASK) = 0"
    and "and flags (or (or XDP_FLAGS_SKB_MODE XDP_FLAGS_DRV_MODE) XDP_FLAGS_HW_MODE) = flags"
    and "and flags (flags - 1) = 0"
  using assms by (auto simp: single_mode_def XDP_FLAGS_MASK_def XDP_FLAGS_SKB_MODE_def XDP_FLAGS_DRV_MODE_def XDP_FLAGS_HW_MODE_def)

text \<open>The dump request.\<close>

lemma dump_request_sent:
  "sent_bytes env (nl_req RTM_GETLINK (NLM_F_DUMP + NLM_F_REQUEST) (ifinfo_body AF_PACKET 0)) =
   nlmsg_enc (tc_message env RTM_GETLINK (NLM_F_DUMP + NLM_F_REQUEST) (ifinfo_body AF_PACKET 0) [])"
  using sent_bytes_canonical [OF small_fits, of RTM_GETLINK "NLM_F_DUMP + NLM_F_REQUEST" 0 0 "ifinfo_body AF_PACKET 0" "[]"]
  by (simp add: nl_req_canonical tc_message_def)

text \<open>What a query collects about a link, and the program it reports for a mode.\<close>

definition link_info :: "attribute list option \<Rightarrow> xdp_link_info" where
  "link_info x = (case x of None \<Rightarrow> xdp_link_info0 | Some inner \<Rightarrow> xdp_effect inner xdp_link_info0)"

definition prog_of_mode :: "u32 \<Rightarrow> xdp_link_info \<Rightarrow> u32" where
  "prog_of_mode flags i =
     (if flags = XDP_FLAGS_SKB_MODE then xl_skb_prog_id i
      else if flags = XDP_FLAGS_DRV_MODE then xl_drv_prog_id i
      else if flags = XDP_FLAGS_HW_MODE then xl_hw_prog_id i
      else if xl_attach_mode i = XDP_ATTACHED_MULTI then 0
      else xl_prog_id i)"

lemma id_for_single_mode:
  assumes "single_mode flags"
  shows "id_for_flags flags (set_link_info i query_opts0) = prog_of_mode flags i"
proof -
  have "ids_of (set_link_info i query_opts0) = (xl_prog_id i, xl_drv_prog_id i, xl_hw_prog_id i, xl_skb_prog_id i, xl_attach_mode i)"
    by (simp add: ids_of_def set_link_info_def query_opts0_def Let_def)
  with assms show ?thesis
    unfolding ids_of_def id_for_flags_def prog_of_mode_def single_mode_def XDP_FLAGS_MODES_def XDP_FLAGS_SKB_MODE_def
      XDP_FLAGS_DRV_MODE_def XDP_FLAGS_HW_MODE_def Let_def
    by auto
qed

text \<open>The kernel's answer to the dump request: the links, in as many datagrams as it likes.\<close>

definition dump_answer :: "sock_env \<Rightarrow> nat \<Rightarrow> link list \<Rightarrow> bool" where
  "dump_answer env port ls \<longleftrightarrow>
     (\<exists>ds dgs tail_links fin. se_recv env = deliver ds \<and>
        map (\<lambda>(a, b, ms). ms) ds = map (map fst) dgs @ [map fst tail_links @ [fin]] \<and>
        list_all (\<lambda>mls. mls \<noteq> [] \<and> dump_part port (se_time env mod 2 ^ 32) mls) dgs \<and>
        dump_part port (se_time env mod 2 ^ 32) tail_links \<and> dump_end port (se_time env mod 2 ^ 32) fin \<and>
        ls = map snd (concat dgs @ tail_links))"

lemma dump_received:
  assumes "se_alloc_ok env" and "se_realloc_ok env" and "dump_answer env port ls"
  shows "libbpf_netlink_recv (Some dump_link_nlmsg) port (se_time env mod 2 ^ 32) env md = Done 0 (fold link_effect ls md)"
proof -
  let ?seq = "se_time env mod 2 ^ 32" and ?g = "\<lambda>m md. the (dump_link_nlmsg (nlmsg_enc m) 0 md)"
  from assms(3) obtain ds dgs tail_links fin where recv: "se_recv env = deliver ds"
    and ms: "map (\<lambda>(a, b, ms). ms) ds = map (map fst) dgs @ [map fst tail_links @ [fin]]"
    and parts: "list_all (\<lambda>mls. mls \<noteq> [] \<and> dump_part port ?seq mls) dgs" "dump_part port ?seq tail_links"
    and fin: "dump_end port ?seq fin" and ls: "ls = map snd (concat dgs @ tail_links)"
    unfolding dump_answer_def by blast
  have part: "list_all nlmsg_ok (map fst mls) \<and> list_all (handles (Some dump_link_nlmsg) (Some ?g)) (map fst mls)"
    if "dump_part port ?seq mls" for mls
    using that link_handles unfolding dump_part_def in_dump_def list_all_iff by (auto simp add: ball_conj_distrib split_beta)
  have last_ok: "nlmsg_ok fin \<and> handles (Some dump_link_nlmsg) (Some ?g) fin"
    using fin by (simp add: dump_end_def in_dump_def done_handles)
  have "list_all nlmsg_ok ms \<and> list_all (handles (Some dump_link_nlmsg) (Some ?g)) ms"
    if "(a, b, ms) \<in> List.set ds" for a b ms
  proof -
    from that have "ms \<in> List.set (map (\<lambda>(a, b, ms). ms) ds)" by force
    then have "(\<exists>d \<in> List.set dgs. ms = map fst d) \<or> ms = map fst tail_links @ [fin]" unfolding ms by auto
    moreover have "dump_part port ?seq d" if "d \<in> List.set dgs" for d using parts(1) that by (simp add: list_all_iff)
    ultimately show ?thesis using part [of tail_links] parts(2) part last_ok by (auto simp del: list.pred_map)
  qed
  then have "libbpf_netlink_rounds (Some dump_link_nlmsg) port ?seq True 8192 (deliver ds) md =
      reply_rounds (Some ?g) port ?seq (map (\<lambda>(a, b, ms). ms) ds) md"
    by (intro rounds_refines) auto
  then have "libbpf_netlink_recv (Some dump_link_nlmsg) port ?seq env md =
      reply_rounds (Some ?g) port ?seq (map (\<lambda>(a, b, ms). ms) ds) md"
    using assms(1,2) by (simp add: libbpf_netlink_recv_def recv)
  also have "\<dots> = Done 0 (fold link_effect ls md)"
    unfolding ms ls by (rule reply_rounds_dump [OF parts fin])
  finally show ?thesis .
qed

lemma link_found:
  assumes "(i, x) \<in> List.set ls" and "distinct (map fst ls)" and "i \<noteq> 0"
  shows "xi_info (fold link_effect ls \<lparr>xi_ifindex = i, xi_flags = f, xi_info = xdp_link_info0, xi_feature_flags = 0\<rparr>) = link_info x"
  by (subst fold_links [OF assms]) (simp_all add: link_effect_def link_info_def split: option.split)

text \<open>The query of a caller, once the dump is in.\<close>

lemma xdp_query_dumped:
  assumes "libbpf_netlink_open env1 = (sock, port, 1)" and "0 \<le> sock" and "se_send_errno env1 = 0"
    and "se_alloc_ok env1" and "se_realloc_ok env1" and "dump_answer env1 port ls"
    and "single_mode flags" and "(i, x) \<in> List.set ls" and "distinct (map fst ls)" and "i \<noteq> 0"
    and "query_opts_valid (Some q)"
  shows "bpf_xdp_query env1 env2 env3 i flags (Some q) =
    (let req = nlmsg_enc (tc_message env1 RTM_GETLINK (NLM_F_DUMP + NLM_F_REQUEST) (ifinfo_body AF_PACKET 0) []);
         q1 = set_link_info (link_info x) q
     in if xq_sz q < 40 then (Done 0 (Some q1), [req], 0)
        else case query_features env2 env3 i q1 of (out, sents, socks) \<Rightarrow> (out, req # sents, socks))"
  using assms(11)
  by (simp add: bpf_xdp_query_def single_mode_ok [OF assms(7)] send_recv_open [OF assms(1-3)]
      dump_received [OF assms(4-6), simplified] dump_request_sent link_found [OF assms(8-10)] set_link_info_sz Let_def)

text \<open>C38: querying the program of an interface asks for the links and reports, of the one with the
  index asked for, whatever is attached in the mode asked for: the answer may come in any number of
  datagrams with any number of other links in any order, among any other attributes, with calls
  interrupted any number of times. The other questions that the query goes on to put to the kernel
  do not change the id: on a kernel without the netdev family the id comes back, and otherwise
  it does whenever the query as a whole succeeds.\<close>

theorem xdp_query_id_correct:
  assumes open': "libbpf_netlink_open env1 = (sock, port, 1)" "0 \<le> sock" "se_send_errno env1 = 0"
      "se_alloc_ok env1" "se_realloc_ok env1"
    and answer: "dump_answer env1 port ls"
    and query: "single_mode flags" "(i, x) \<in> List.set ls" "distinct (map fst ls)" "i \<noteq> 0"
  shows "((\<exists>fid sent k. resolve_genl_family_id env2 name_netdev = (Done (- ENOENT) fid, sent, k)) \<longrightarrow>
      fst (bpf_xdp_query_id env1 env2 env3 i flags prog_id) = Done 0 (prog_of_mode flags (link_info x))) \<and>
    (fst (bpf_xdp_query_id env1 env2 env3 i flags prog_id) = Done 0 v \<longrightarrow> v = prog_of_mode flags (link_info x))"
proof -
  let ?q = "set_link_info (link_info x) query_opts0"
  have "query_opts_valid (Some query_opts0)"
    by (simp add: query_opts_valid_def query_opts0_def libbpf_validate_opts_def libbpf_is_mem_zeroed_def list_all_iff)
  moreover have "xq_sz query_opts0 = 48" by (simp add: query_opts0_def)
  ultimately have q: "bpf_xdp_query env1 env2 env3 i flags (Some query_opts0) =
    (case query_features env2 env3 i ?q of (out, sents, socks) \<Rightarrow>
      (out, nlmsg_enc (tc_message env1 RTM_GETLINK (NLM_F_DUMP + NLM_F_REQUEST) (ifinfo_body AF_PACKET 0) []) # sents, socks))"
    using xdp_query_dumped [OF open' answer query, of query_opts0] by simp
  have id: "id_for_flags flags q = prog_of_mode flags (link_info x)" if "ids_of q = ids_of ?q" for q
    using id_for_flags_ids [OF that] id_for_single_mode [OF query(1)] by simp
  have "(\<exists>fid sent k. resolve_genl_family_id env2 name_netdev = (Done (- ENOENT) fid, sent, k)) \<longrightarrow>
      fst (bpf_xdp_query_id env1 env2 env3 i flags prog_id) = Done 0 (prog_of_mode flags (link_info x))"
    by (auto simp: bpf_xdp_query_id_def q query_features_def id ids_of_def)
  moreover have "fst (bpf_xdp_query_id env1 env2 env3 i flags prog_id) = Done 0 v \<longrightarrow> v = prog_of_mode flags (link_info x)"
  proof (cases "query_features env2 env3 i ?q")
    case (fields out sents socks)
    then show ?thesis
      using query_features_ids [of env2 env3 i ?q] id
      by (cases out) (auto simp: bpf_xdp_query_id_def q split: if_splits)
  qed
  ultimately show ?thesis by (rule conjI)
qed

text \<open>Two links, the second with a program in driver mode, and a kernel without the family.\<close>

definition demo_link :: "int \<Rightarrow> attribute list \<Rightarrow> nlmsg" where
  "demo_link i as = \<lparr>m_type = 16, m_flags = 2, m_seq = 7, m_pid = 9,
     m_payload = replicate 4 0 @ le_bytes 4 (nat (i mod 2 ^ 32)) @ replicate 8 0 @ nlas_enc as\<rparr>"

definition demo_xdp :: "attribute list" where
  "demo_xdp = [(IFLA_XDP_ATTACHED, [1]), (IFLA_XDP_PROG_ID, [42, 0, 0, 0]), (IFLA_XDP_DRV_PROG_ID, [42, 0, 0, 0])]"

definition demo_dump :: "(nlmsg \<times> link) list" where
  "demo_dump = [(demo_link 1 [], (1, None)), (demo_link 2 [(IFLA_XDP, nlas_enc demo_xdp)], (2, Some demo_xdp))]"

definition demo_done :: nlmsg where
  "demo_done = \<lparr>m_type = NLMSG_DONE, m_flags = 2, m_seq = 7, m_pid = 9, m_payload = replicate 4 0\<rparr>"

lemma demo_link_ok:
  assumes "0 \<le> i" and "i < 2 ^ 31" and "list_all attr_ok as" and "length (nlas_enc as) < 2 ^ 30"
    and "case x of None \<Rightarrow> attr_val as IFLA_XDP = None
      | Some inner \<Rightarrow> attr_val as IFLA_XDP = Some (nlas_enc inner) \<and> xdp_inner_ok inner"
  shows "in_dump 9 7 (demo_link i as) \<and> link_msg (demo_link i as) (i, x)"
proof -
  have ok: "nlmsg_ok (demo_link i as)"
    using assms(4) by (simp add: nlmsg_ok_def demo_link_def NLMSG_HDRLEN_def NLMSG_ERROR_def)
  then have "in_dump 9 7 (demo_link i as)" by (simp add: in_dump_def demo_link_def NLM_F_MULTI_def bit_iff_odd)
  moreover have "link_msg (demo_link i as) (i, x)"
    unfolding link_msg_def fst_conv snd_conv
  proof (intro conjI exI)
    show "m_payload (demo_link i as) = replicate 4 0 @ le_bytes 4 (nat (i mod 2 ^ 32)) @ replicate 8 0 @ nlas_enc as"
      by (simp add: demo_link_def)
    show "m_type (demo_link i as) \<notin> {NLMSG_ERROR, NLMSG_DONE}" by (simp add: demo_link_def NLMSG_ERROR_def NLMSG_DONE_def)
  qed (use ok assms in simp_all)
  ultimately show ?thesis by simp
qed

lemma demo_xdp_vals:
  "attr_val demo_xdp IFLA_XDP_ATTACHED = Some [1]" "attr_val demo_xdp IFLA_XDP_PROG_ID = Some [42, 0, 0, 0]"
  "attr_val demo_xdp IFLA_XDP_DRV_PROG_ID = Some [42, 0, 0, 0]" "attr_val demo_xdp IFLA_XDP_SKB_PROG_ID = None"
  "attr_val demo_xdp IFLA_XDP_HW_PROG_ID = None" "list_all attr_ok demo_xdp" "length (nlas_enc demo_xdp) = 24"
  by (simp_all add: attr_val_def demo_xdp_def IFLA_XDP_ATTACHED_def IFLA_XDP_PROG_ID_def IFLA_XDP_DRV_PROG_ID_def
      IFLA_XDP_SKB_PROG_ID_def IFLA_XDP_HW_PROG_ID_def NLA_TYPE_OF_def attr_ok_def NLA_HDRLEN_def nlas_enc_def
      length_nla_enc align4_def)

lemma demo_dump_part: "dump_part 9 7 demo_dump"
proof -
  have "xdp_inner_ok demo_xdp" by (simp add: xdp_inner_ok_def demo_xdp_vals)
  then have "in_dump 9 7 (demo_link 2 [(IFLA_XDP, nlas_enc demo_xdp)]) \<and>
      link_msg (demo_link 2 [(IFLA_XDP, nlas_enc demo_xdp)]) (2, Some demo_xdp)"
    by (intro demo_link_ok)
      (simp_all add: attr_val_def NLA_TYPE_OF_def IFLA_XDP_def attr_ok_def NLA_HDRLEN_def nlas_enc_def length_nla_enc demo_xdp_vals [simplified nlas_enc_def] align4_def)
  moreover have "in_dump 9 7 (demo_link 1 []) \<and> link_msg (demo_link 1 []) (1, None)"
    by (intro demo_link_ok) (simp_all add: attr_val_def nlas_enc_def)
  ultimately show ?thesis by (simp add: dump_part_def demo_dump_def)
qed

lemma demo_done_end: "dump_end 9 7 demo_done"
  by (simp add: dump_end_def in_dump_def demo_done_def nlmsg_ok_def NLMSG_DONE_def NLMSG_ERROR_def NLMSG_HDRLEN_def
      NLM_F_MULTI_def bit_iff_odd)

definition demo_reply :: "recv_result list" where
  "demo_reply = deliver [(1, 0, [demo_link 1 [], demo_link 2 [(IFLA_XDP, nlas_enc demo_xdp)]]), (0, 2, [demo_done])]"

lemma demo_reply_answers: "dump_answer (demo_sock demo_reply) 9 [(1, None), (2, Some demo_xdp)]"
  unfolding dump_answer_def
proof (intro exI conjI)
  have t: "se_time (demo_sock demo_reply) mod 2 ^ 32 = 7" by (simp add: demo_sock_def)
  show "se_recv (demo_sock demo_reply) = deliver [(1, 0, map fst demo_dump), (0, 2, [demo_done])]"
    by (simp add: demo_sock_fields(5) demo_reply_def demo_dump_def del: deliver.simps)
  show "map (\<lambda>(a, b, ms). ms) [(1, 0, map fst demo_dump), (0, 2, [demo_done])] =
      map (map fst) [demo_dump] @ [map fst ([] :: (nlmsg \<times> link) list) @ [demo_done]]" by simp
  show "list_all (\<lambda>mls. mls \<noteq> [] \<and> dump_part 9 (se_time (demo_sock demo_reply) mod 2 ^ 32) mls) [demo_dump]"
    unfolding t using demo_dump_part by (simp add: demo_dump_def)
  show "dump_part 9 (se_time (demo_sock demo_reply) mod 2 ^ 32) []" by (simp add: dump_part_def)
  show "dump_end 9 (se_time (demo_sock demo_reply) mod 2 ^ 32) demo_done" unfolding t by (rule demo_done_end)
  show "[(1, None), (2, Some demo_xdp)] = map snd (concat [demo_dump] @ [])" by (simp add: demo_dump_def)
qed

text \<open>A kernel that refuses the request for the family.\<close>

lemma resolve_refused:
  assumes "libbpf_netlink_open env = (sock, port, 1)" and "0 \<le> sock" and "se_send_errno env = 0"
    and "se_alloc_ok env" and "se_realloc_ok env"
    and "se_recv env = deliver [(a, b, [ack])]" and "is_ack env port ack" and "m_error ack \<noteq> 0"
  shows "\<exists>fid sent k. resolve_genl_family_id env name_netdev = (Done (s32 (m_error ack)) fid, sent, k)"
proof -
  let ?hdr = "nl_hdr GENL_ID_CTRL NLM_F_REQUEST 0 0 (genl_body CTRL_CMD_GETFAMILY)"
  have "fits ?hdr as" if "as \<in> {[], [] @ [(CTRL_ATTR_FAMILY_NAME, name_netdev)]}" for as
    using that by (auto simp: fits_def sizeof_req_def nlas_enc_def length_nla_enc NLA_HDRLEN_def name_netdev_def align4_def)
  then have "add_data CTRL_ATTR_FAMILY_NAME name_netdev (req_of ?hdr []) = Inr (req_of ?hdr ([] @ [(CTRL_ATTR_FAMILY_NAME, name_netdev)]))"
    by (intro add_data_canonical) (simp_all add: name_netdev_def)
  then obtain req where req: "add_data CTRL_ATTR_FAMILY_NAME name_netdev (req_of ?hdr []) = Inr req" by blast
  from assms(7) have k: "nlmsg_ok ack" "m_type ack = NLMSG_ERROR" "m_seq ack = se_time env mod 2 ^ 32" "m_pid ack = port"
    unfolding is_ack_def by auto
  have "handles (Some parse_genl_family_id) (Some (\<lambda>m c. (0, c))) ack" using k by (simp add: handles_def)
  with k assms(4,5,8) rounds_refines [of "[(a, b, [ack])]" "Some parse_genl_family_id" "Some (\<lambda>m c. (0, c))" True 8192 port "se_time env mod 2 ^ 32" None]
  have "libbpf_netlink_recv (Some parse_genl_family_id) port (se_time env mod 2 ^ 32) env None = Done (s32 (m_error ack)) None"
    by (simp add: libbpf_netlink_recv_def assms(6))
  then show ?thesis
    by (simp add: resolve_genl_family_id_def nl_req_canonical req send_recv_open [OF assms(1-3)])
qed

theorem xdp_query_id_correct_witness:
  "fst (bpf_xdp_query_id (demo_sock demo_reply) (demo_sock (deliver [(0, 0, [demo_ack 4294967294])])) (demo_sock [])
     2 XDP_FLAGS_DRV_MODE 0) = Done 0 42"
proof -
  let ?env2 = "demo_sock (deliver [(0, 0, [demo_ack 4294967294])])"
  have e: "s32 4294967294 = - 2" by (simp add: s32_def)
  have "\<exists>fid sent k. resolve_genl_family_id ?env2 name_netdev = (Done (- ENOENT) fid, sent, k)"
    using resolve_refused [OF demo_sock_fields(1) _ demo_sock_fields(2-5) demo_is_ack [of 4294967294]] by (simp add: demo_ack_error e del: deliver.simps)
  moreover have "prog_of_mode XDP_FLAGS_DRV_MODE (link_info (Some demo_xdp)) = 42"
    by (simp add: prog_of_mode_def link_info_def xdp_effect_def put_id_def demo_xdp_vals XDP_FLAGS_DRV_MODE_def
        XDP_FLAGS_SKB_MODE_def XDP_ATTACHED_NONE_def Let_def)
  ultimately show ?thesis
    using xdp_query_id_correct [OF demo_sock_fields(1) _ demo_sock_fields(2-4) demo_reply_answers, of XDP_FLAGS_DRV_MODE 2 "Some demo_xdp" ?env2 "demo_sock []" 0 42]
    by (simp add: single_mode_def del: deliver.simps)
qed

end
