(* ===== verification/Sha256.thy ===== *)
theory Sha256
  imports Complex_Main Bytes
begin

unbundle bit_operations_syntax

text \<open>
  The hash function of \<^verbatim>\<open>libbpf/src/libbpf_utils.c\<close>, with which libbpf signs the programs it generates,
  and the standard it implements, FIPS 180-4: padding, schedule, 64 rounds and the constants, which
  are digits of roots of primes. Memory is a list of bytes; an access outside is \<open>None\<close>.
\<close>

section \<open>The code\<close>

definition ror32 :: "u32 \<Rightarrow> nat \<Rightarrow> u32" where
  "ror32 v bits = drop_bit bits v OR push_bit (32 - bits) v"

definition Ch :: "u32 \<Rightarrow> u32 \<Rightarrow> u32 \<Rightarrow> u32" where "Ch x y z = (x AND y) XOR (NOT x AND z)"
definition Maj :: "u32 \<Rightarrow> u32 \<Rightarrow> u32 \<Rightarrow> u32" where "Maj x y z = (x AND y) XOR (x AND z) XOR (y AND z)"
definition Sigma_0 :: "u32 \<Rightarrow> u32" where "Sigma_0 x = ror32 x 2 XOR ror32 x 13 XOR ror32 x 22"
definition Sigma_1 :: "u32 \<Rightarrow> u32" where "Sigma_1 x = ror32 x 6 XOR ror32 x 11 XOR ror32 x 25"
definition sigma_0 :: "u32 \<Rightarrow> u32" where "sigma_0 x = ror32 x 7 XOR ror32 x 18 XOR drop_bit 3 x"
definition sigma_1 :: "u32 \<Rightarrow> u32" where "sigma_1 x = ror32 x 17 XOR ror32 x 19 XOR drop_bit 10 x"

definition sha256_K :: "u32 list" where
  "sha256_K = concat [
     [0x428a2f98, 0x71374491, 0xb5c0fbcf, 0xe9b5dba5, 0x3956c25b, 0x59f111f1],
     [0x923f82a4, 0xab1c5ed5, 0xd807aa98, 0x12835b01, 0x243185be, 0x550c7dc3],
     [0x72be5d74, 0x80deb1fe, 0x9bdc06a7, 0xc19bf174, 0xe49b69c1, 0xefbe4786],
     [0x0fc19dc6, 0x240ca1cc, 0x2de92c6f, 0x4a7484aa, 0x5cb0a9dc, 0x76f988da],
     [0x983e5152, 0xa831c66d, 0xb00327c8, 0xbf597fc7, 0xc6e00bf3, 0xd5a79147],
     [0x06ca6351, 0x14292967, 0x27b70a85, 0x2e1b2138, 0x4d2c6dfc, 0x53380d13],
     [0x650a7354, 0x766a0abb, 0x81c2c92e, 0x92722c85, 0xa2bfe8a1, 0xa81a664b],
     [0xc24b8b70, 0xc76c51a3, 0xd192e819, 0xd6990624, 0xf40e3585, 0x106aa070],
     [0x19a4c116, 0x1e376c08, 0x2748774c, 0x34b0bcb5, 0x391c0cb3, 0x4ed8aa4a],
     [0x5b9cca4f, 0x682e6ff3, 0x748f82ee, 0x78a5636f, 0x84c87814, 0x8cc70208],
     [0x90befffa, 0xa4506ceb, 0xbef9a3f7, 0xc67178f2]]"

text \<open>Swapping the bytes of a number, on a little endian machine.\<close>

definition be32_to_cpu :: "u32 \<Rightarrow> u32" where
  "be32_to_cpu v = of_nat (le_val (rev (le_bytes 4 (unat v))))"

definition cpu_to_be32 :: "u32 \<Rightarrow> u32" where
  "cpu_to_be32 v = of_nat (le_val (rev (le_bytes 4 (unat v))))"

definition cpu_to_be64 :: "u64 \<Rightarrow> u64" where
  "cpu_to_be64 v = of_nat (le_val (rev (le_bytes 8 (unat v))))"

definition get_unaligned_be32 :: "u8 list \<Rightarrow> nat \<Rightarrow> u32 option" where
  "get_unaligned_be32 data p = do { v \<leftarrow> rd 4 data p; Some (be32_to_cpu (of_nat v)) }"

definition store_bytes :: "nat \<Rightarrow> u8 list \<Rightarrow> u8 list \<Rightarrow> u8 list option" where
  "store_bytes p src dst = (if p + length src \<le> length dst then Some (memcpy p src dst) else None)"

definition put_unaligned_be32 :: "u32 \<Rightarrow> nat \<Rightarrow> u8 list \<Rightarrow> u8 list option" where
  "put_unaligned_be32 v p out = store_bytes p (le_bytes 4 (unat (cpu_to_be32 v))) out"

text \<open>One round; the result is the new \<open>d\<close> and \<open>h\<close>.\<close>

definition SHA256_ROUND :: "u32 list \<Rightarrow> nat \<Rightarrow> u32 \<Rightarrow> u32 \<Rightarrow> u32 \<Rightarrow> u32 \<Rightarrow> u32 \<Rightarrow> u32 \<Rightarrow> u32 \<Rightarrow> u32 \<Rightarrow> u32 \<times> u32" where
  "SHA256_ROUND w i a b c d e f g h =
     (let tmp = h + Sigma_1 e + Ch e f g + sha256_K ! i + w ! i
      in (d + tmp, tmp + Sigma_0 a + Maj a b c))"

type_synonym vars = "u32 \<times> u32 \<times> u32 \<times> u32 \<times> u32 \<times> u32 \<times> u32 \<times> u32"

text \<open>Eight rounds, after which the variables are back in their places.\<close>

fun eight_rounds :: "u32 list \<Rightarrow> nat \<Rightarrow> vars \<Rightarrow> vars" where
  "eight_rounds w i (a, b, c, d, e, f, g, h) =
     (case SHA256_ROUND w (i + 0) a b c d e f g h of (d, h) \<Rightarrow>
      case SHA256_ROUND w (i + 1) h a b c d e f g of (c, g) \<Rightarrow>
      case SHA256_ROUND w (i + 2) g h a b c d e f of (b, f) \<Rightarrow>
      case SHA256_ROUND w (i + 3) f g h a b c d e of (a, e) \<Rightarrow>
      case SHA256_ROUND w (i + 4) e f g h a b c d of (h, d) \<Rightarrow>
      case SHA256_ROUND w (i + 5) d e f g h a b c of (g, c) \<Rightarrow>
      case SHA256_ROUND w (i + 6) c d e f g h a b of (f, b) \<Rightarrow>
      case SHA256_ROUND w (i + 7) b c d e f g h a of (e, a) \<Rightarrow>
      (a, b, c, d, e, f, g, h))"

text \<open>The array \<open>w\<close> is filled from the front; the part not yet written is left out.\<close>

fun load_words :: "u8 list \<Rightarrow> nat \<Rightarrow> nat list \<Rightarrow> u32 list \<Rightarrow> u32 list option" where
  "load_words data p [] w = Some w"
| "load_words data p (i # is) w =
     do { v \<leftarrow> get_unaligned_be32 data (p + 4 * i); load_words data p is (w @ [v]) }"

definition extend_words :: "nat \<Rightarrow> u32 list \<Rightarrow> u32 list" where
  "extend_words i w = w @ [sigma_1 (w ! (i - 2)) + w ! (i - 7) + sigma_0 (w ! (i - 15)) + w ! (i - 16)]"

fun add_vars :: "vars \<Rightarrow> vars \<Rightarrow> vars" where
  "add_vars (s0, s1, s2, s3, s4, s5, s6, s7) (a, b, c, d, e, f, g, h) =
     (s0 + a, s1 + b, s2 + c, s3 + d, s4 + e, s5 + f, s6 + g, s7 + h)"

text \<open>\<open>p\<close> is how far \<open>data\<close> has advanced.\<close>

fun sha256_blocks :: "vars \<Rightarrow> u8 list \<Rightarrow> nat \<Rightarrow> nat \<Rightarrow> vars option" where
  "sha256_blocks state data p 0 = Some state"
| "sha256_blocks state data p (Suc nblocks) =
     do {
       w0 \<leftarrow> load_words data p [0..<16] [];
       let w = fold extend_words [16..<64] w0;
       let v = fold (eight_rounds w) (map (\<lambda>k. 8 * k) [0..<8]) state;
       sha256_blocks (add_vars state v) data (p + 64) nblocks
     }"

definition sha256_init :: vars where
  "sha256_init = (0x6a09e667, 0xbb67ae85, 0x3c6ef372, 0xa54ff53a,
     0x510e527f, 0x9b05688c, 0x1f83d9ab, 0x5be0cd19)"

definition vars_list :: "vars \<Rightarrow> u32 list" where
  "vars_list v = (case v of (a, b, c, d, e, f, g, h) \<Rightarrow> [a, b, c, d, e, f, g, h])"

definition roundup :: "nat \<Rightarrow> nat \<Rightarrow> nat" where
  "roundup x y = (x + (y - 1)) div y * y"

text \<open>The loop that writes the result.\<close>

fun put_words :: "nat \<Rightarrow> u32 list \<Rightarrow> u8 list \<Rightarrow> u8 list option" where
  "put_words i [] out = Some out"
| "put_words i (v # vs) out = do { out \<leftarrow> put_unaligned_be32 v (4 * i) out; put_words (Suc i) vs out }"

definition libbpf_sha256 :: "u8 list \<Rightarrow> u8 list \<Rightarrow> u8 list option" where
  "libbpf_sha256 data out =
     do {
       let len = length data;
       let bitcount = cpu_to_be64 (of_nat len * 8);
       let final_data = replicate 128 0;
       let final_len = len mod 64;
       state \<leftarrow> sha256_blocks sha256_init data 0 (len div 64);
       final_data \<leftarrow> store_bytes 0 (take final_len (drop (len - final_len) data)) final_data;
       final_data \<leftarrow> store_bytes final_len [0x80] final_data;
       let final_len = roundup (final_len + 9) 64;
       final_data \<leftarrow> store_bytes (final_len - 8) (le_bytes 8 (unat bitcount)) final_data;
       state \<leftarrow> sha256_blocks state final_data 0 (final_len div 64);
       put_words 0 (vars_list state) out
     }"

section \<open>The standard\<close>

definition first_primes :: "nat list" where
  "first_primes = [2, 3, 5, 7, 11, 13, 17, 19, 23, 29, 31, 37, 41, 43, 47, 53, 59, 61, 67, 71,
    73, 79, 83, 89, 97, 101, 103, 107, 109, 113, 127, 131, 137, 139, 149, 151, 157, 163, 167, 173, 179, 181, 191, 193,
    197, 199, 211, 223, 227, 229, 233, 239, 241, 251, 257, 263, 269, 271, 277, 281, 283, 293, 307, 311]"

text \<open>The first 32 bits of the fractional parts of cube and square roots of the first primes.\<close>

definition fips_K :: "nat \<Rightarrow> u32" where
  "fips_K t = of_int \<lfloor>root 3 (real (first_primes ! t)) * 2 ^ 32\<rfloor>"

definition fips_H0 :: "nat \<Rightarrow> u32" where
  "fips_H0 t = of_int \<lfloor>sqrt (real (first_primes ! t)) * 2 ^ 32\<rfloor>"

text \<open>The byte 1000 0000, as many zero bytes as needed, the number of bits in 8 bytes.\<close>

definition fips_pad :: "u8 list \<Rightarrow> u8 list" where
  "fips_pad msg = msg @ [0x80] @ replicate (nat ((55 - int (length msg)) mod 64)) 0 @ rev (le_bytes 8 (8 * length msg))"

text \<open>Word \<open>t\<close> of the schedule of the block that starts at byte \<open>p\<close>.\<close>

fun fips_W :: "u8 list \<Rightarrow> nat \<Rightarrow> nat \<Rightarrow> u32" where
  "fips_W msg p t =
     (if t < 16 then of_nat (le_val (rev (take 4 (drop (p + 4 * t) msg))))
      else (let s1 = fips_W msg p (t - 2); s0 = fips_W msg p (t - 15)
            in (word_rotr 17 s1 XOR word_rotr 19 s1 XOR drop_bit 10 s1) + fips_W msg p (t - 7) +
               (word_rotr 7 s0 XOR word_rotr 18 s0 XOR drop_bit 3 s0) + fips_W msg p (t - 16)))"

fun fips_round :: "(nat \<Rightarrow> u32) \<Rightarrow> nat \<Rightarrow> vars \<Rightarrow> vars" where
  "fips_round W t (a, b, c, d, e, f, g, h) =
     (let T1 = h + (word_rotr 6 e XOR word_rotr 11 e XOR word_rotr 25 e) + ((e AND f) XOR (NOT e AND g)) + fips_K t + W t;
          T2 = (word_rotr 2 a XOR word_rotr 13 a XOR word_rotr 22 a) + ((a AND b) XOR (a AND c) XOR (b AND c))
      in (T1 + T2, a, b, c, d + T1, e, f, g))"

fun fips_hash :: "u8 list \<Rightarrow> nat \<Rightarrow> vars" where
  "fips_hash msg 0 = (fips_H0 0, fips_H0 1, fips_H0 2, fips_H0 3, fips_H0 4, fips_H0 5, fips_H0 6, fips_H0 7)"
| "fips_hash msg (Suc i) = add_vars (fips_hash msg i) (fold (fips_round (fips_W msg (64 * i))) [0..<64] (fips_hash msg i))"

definition SHA256 :: "u8 list \<Rightarrow> u8 list" where
  "SHA256 msg = (let m = fips_pad msg
     in concat (map (\<lambda>v. rev (le_bytes 4 (unat v))) (vars_list (fips_hash m (length m div 64)))))"

section \<open>The constants\<close>

text \<open>The integer part of the root is at most 6, so the stored digits determine a candidate for the
  whole number, which is checked by cubing it.\<close>

lemma root_digits:
  assumes "r ^ n \<le> p * 2 ^ (32 * n)" and "p * 2 ^ (32 * n) < (r + 1) ^ n" and "0 < n"
  shows "\<lfloor>root n (real p) * 2 ^ 32\<rfloor> = int r"
proof -
  let ?x = "root n (real p) * 2 ^ 32"
  have x: "?x ^ n = real p * 2 ^ (32 * n)" using assms(3) by (simp add: power_mult_distrib power_mult)
  have "real (r ^ n) \<le> ?x ^ n" unfolding x using assms(1) by (simp flip: of_nat_le_iff [where ?'a = real])
  then have lo: "real r \<le> ?x" using power_mono_iff [of "real r" ?x n] assms(3) by simp
  have "?x ^ n < real ((r + 1) ^ n)" unfolding x using assms(2) by (simp flip: of_nat_less_iff [where ?'a = real])
  then have "?x ^ n < (real r + 1) ^ n" by (simp add: add.commute)
  then have "?x < real r + 1" by (rule power_less_imp_less_base) simp
  with lo show ?thesis by (simp add: floor_eq_iff)
qed


text \<open>The integer parts of the roots.\<close>

definition cube_parts :: "nat list" where
  "cube_parts = [1, 1, 1, 1, 2, 2, 2, 2, 2, 3, 3, 3, 3, 3, 3, 3, 3, 3, 4, 4, 4, 4, 4, 4, 4, 4, 4, 4, 4, 4, 5, 5, 5, 5, 5, 5, 5, 5, 5, 5, 5, 5, 5, 5, 5, 5, 5, 6, 6, 6, 6, 6, 6, 6, 6, 6, 6, 6, 6, 6, 6, 6, 6, 6]"

definition digits_ok :: "nat \<Rightarrow> nat \<times> nat \<times> u32 \<Rightarrow> bool" where
  "digits_ok n = (\<lambda>(p, a, k). let r = a * 2 ^ 32 + unat k in r ^ n \<le> p * 2 ^ (32 * n) \<and> p * 2 ^ (32 * n) < (r + 1) ^ n)"

lemma K_digits: "list_all (digits_ok 3) (zip first_primes (zip cube_parts sha256_K))"
  by (simp add: first_primes_def cube_parts_def sha256_K_def digits_ok_def)

lemma H0_digits: "list_all (digits_ok 2) (zip first_primes (zip [1, 1, 2, 2, 3, 3, 4, 4] (vars_list sha256_init)))"
  by (simp add: first_primes_def sha256_init_def vars_list_def digits_ok_def)

lemma digits_floor:
  assumes "digits_ok n (p, a, k)" and "0 < n"
  shows "(of_int \<lfloor>root n (real p) * 2 ^ 32\<rfloor> :: u32) = k"
proof -
  have "\<lfloor>root n (real p) * 2 ^ 32\<rfloor> = int (a * 2 ^ 32 + unat k)"
    using assms by (intro root_digits) (simp_all add: digits_ok_def Let_def)
  then have "(of_int \<lfloor>root n (real p) * 2 ^ 32\<rfloor> :: u32) = of_nat a * 2 ^ 32 + k" by simp
  moreover have "(2 ^ 32 :: u32) = 0" by simp
  ultimately show ?thesis by (simp only: mult_zero_right add_0)
qed

lemma length_tables: "length first_primes = 64" "length cube_parts = 64" "length sha256_K = 64"
  by (simp_all add: first_primes_def cube_parts_def sha256_K_def)

lemma fips_K_code: "t < 64 \<Longrightarrow> fips_K t = sha256_K ! t"
  using K_digits digits_floor [of 3 "first_primes ! t" "cube_parts ! t" "sha256_K ! t"]
  by (simp add: fips_K_def list_all_length length_tables)

lemma fips_H0_code:
  assumes "t < 8"
  shows "fips_H0 t = vars_list sha256_init ! t"
proof -
  have "length (vars_list sha256_init) = 8" by (simp add: vars_list_def sha256_init_def)
  with H0_digits assms have "digits_ok 2 (first_primes ! t, [1, 1, 2, 2, 3, 3, 4, 4] ! t, vars_list sha256_init ! t)"
    by (simp add: list_all_length length_tables)
  from digits_floor [OF this] show ?thesis by (simp add: fips_H0_def sqrt_def)
qed

lemma fips_start: "fips_hash msg 0 = sha256_init"
  by (simp add: fips_H0_code) (simp add: vars_list_def sha256_init_def)

section \<open>The rounds\<close>

lemma ror32_rotr:
  assumes "0 < n" and "n < 32"
  shows "ror32 v n = word_rotr n v"
proof (rule bit_word_eqI)
  fix i assume i: "i < LENGTH(32)"
  show "bit (ror32 v n) i = bit (word_rotr n v) i"
  proof (cases "i + n < 32")
    case True
    with i assms show ?thesis by (auto simp add: ror32_def bit_word_rotr_iff bit_or_iff bit_drop_bit_eq bit_push_bit_iff add.commute)
  next
    case False
    have "bit v (n + i) = False" using False by (simp add: bit_word.rep_eq)
    moreover have "(i + n) mod 32 = i + n - 32" using False i assms by (simp add: mod_if)
    moreover have "32 - n \<le> i" using False by simp
    ultimately show ?thesis using False i assms
      by (simp add: ror32_def bit_word_rotr_iff bit_or_iff bit_drop_bit_eq bit_push_bit_iff add.commute) 
  qed
qed

lemmas sigma_defs = Sigma_0_def Sigma_1_def sigma_0_def sigma_1_def Ch_def Maj_def ror32_rotr

lemma round_code:
  assumes "t < 64" and "SHA256_ROUND w t a b c d e f g h = (d', h')"
  shows "fips_round (nth w) t (a, b, c, d, e, f, g, h) = (h', a, b, c, d', e, f, g)"
  using assms by (auto simp: SHA256_ROUND_def Let_def sigma_defs fips_K_code add.assoc)

lemma eight_rounds_code:
  assumes "i + 8 \<le> 64"
  shows "eight_rounds w i v = fold (fips_round (nth w)) [i..<i + 8] v"
proof -
  obtain a b c d e f g h where v: "v = (a, b, c, d, e, f, g, h)" by (metis surj_pair)
  have u: "[i..<i + 8] = [i + 0, i + 1, i + 2, i + 3, i + 4, i + 5, i + 6, i + 7]"
    by (simp add: upt_rec)
  obtain d1 h1 where r0: "SHA256_ROUND w (i + 0) a b c d e f g h = (d1, h1)" by fastforce
  obtain c1 g1 where r1: "SHA256_ROUND w (i + 1) h1 a b c d1 e f g = (c1, g1)" by fastforce
  obtain b1 f1 where r2: "SHA256_ROUND w (i + 2) g1 h1 a b c1 d1 e f = (b1, f1)" by fastforce
  obtain a1 e1 where r3: "SHA256_ROUND w (i + 3) f1 g1 h1 a b1 c1 d1 e = (a1, e1)" by fastforce
  obtain h2 d2 where r4: "SHA256_ROUND w (i + 4) e1 f1 g1 h1 a1 b1 c1 d1 = (h2, d2)" by fastforce
  obtain g2 c2 where r5: "SHA256_ROUND w (i + 5) d2 e1 f1 g1 h2 a1 b1 c1 = (g2, c2)" by fastforce
  obtain f2 b2 where r6: "SHA256_ROUND w (i + 6) c2 d2 e1 f1 g2 h2 a1 b1 = (f2, b2)" by fastforce
  obtain e2 a2 where r7: "SHA256_ROUND w (i + 7) b2 c2 d2 e1 f2 g2 h2 a1 = (e2, a2)" by fastforce
  note r = r0 r1 r2 r3 r4 r5 r6 r7
  have lt: "i + k < 64" if "k < 8" for k using assms that by simp
  have "eight_rounds w i v = (a2, b2, c2, d2, e2, f2, g2, h2)"
    unfolding v eight_rounds.simps r prod.case by simp
  moreover have "fold (fips_round (nth w)) [i..<i + 8] v = (a2, b2, c2, d2, e2, f2, g2, h2)"
    unfolding u v fold_simps
    by (simp only: round_code [OF lt r0] round_code [OF lt r1] round_code [OF lt r2] round_code [OF lt r3]
        round_code [OF lt r4] round_code [OF lt r5] round_code [OF lt r6] round_code [OF lt r7])
  ultimately show ?thesis by simp
qed

lemma rounds_code:
  assumes "8 * n \<le> 64"
  shows "fold (eight_rounds w) (map (\<lambda>k. 8 * k) [0..<n]) v = fold (fips_round (nth w)) [0..<8 * n] v"
  using assms
proof (induction n)
  case (Suc n)
  have e: "8 * Suc n = 8 * n + 8" by simp
  have "[0..<8 * Suc n] = [0..<8 * n] @ [8 * n..<8 * n + 8]" unfolding e by (rule upt_add_eq_append) simp
  with Suc eight_rounds_code [of "8 * n" w] show ?case by (simp del: mult_Suc_right)
qed simp

lemma fips_round_cong: "(\<And>t. t \<in> List.set ts \<Longrightarrow> W t = W' t) \<Longrightarrow> fold (fips_round W) ts v = fold (fips_round W') ts v"
proof (induction ts arbitrary: v)
  case (Cons t ts)
  obtain a b c d e f g h where v: "v = (a, b, c, d, e, f, g, h)" by (metis surj_pair)
  show ?case using Cons by (simp add: v Let_def)
qed simp

section \<open>The schedule\<close>

declare fips_W.simps [simp del]

lemma swapped_bytes:
  assumes "length bs = 4"
  shows "be32_to_cpu (of_nat (le_val bs)) = of_nat (le_val (rev bs))"
proof -
  have "unat (of_nat (le_val bs) :: u32) = le_val bs"
    using le_val_less [of bs] assms by - (rule unat_of_nat_small, simp)
  then show ?thesis by (simp only: be32_to_cpu_def le_bytes_le_val [OF assms])
qed

lemma load_words_code:
  assumes "p + 64 \<le> length data" and "\<forall>i \<in> List.set is. i < 16"
  shows "load_words data p is w = Some (w @ map (fips_W data p) is)"
  using assms(2)
proof (induction "is" arbitrary: w)
  case (Cons i "is")
  let ?bs = "take 4 (drop (p + 4 * i) data)"
  have le: "p + 4 * i + 4 \<le> length data" using assms(1) Cons.prems by simp
  then have "get_unaligned_be32 data (p + 4 * i) = Some (of_nat (le_val (rev ?bs)))"
    by (simp add: get_unaligned_be32_def rd_def swapped_bytes)
  moreover have "fips_W data p i = of_nat (le_val (rev ?bs))" using Cons.prems by (simp add: fips_W.simps [of _ _ i])
  ultimately show ?case using Cons by simp
qed simp

lemma extend_words_code:
  assumes "16 \<le> n"
  shows "fold extend_words [16..<n] (map (fips_W data p) [0..<16]) = map (fips_W data p) [0..<n]"
  using assms
proof (induction rule: dec_induct)
  case (step n)
  then have "[16..<Suc n] = [16..<n] @ [n]" by simp
  moreover have "fips_W data p n = sigma_1 (fips_W data p (n - 2)) + fips_W data p (n - 7) +
      sigma_0 (fips_W data p (n - 15)) + fips_W data p (n - 16)"
    using step.hyps(1) by (subst fips_W.simps) (simp add: sigma_defs Let_def)
  ultimately show ?case using step by (simp add: extend_words_def)
qed simp

section \<open>The blocks\<close>

definition fips_block :: "u8 list \<Rightarrow> nat \<Rightarrow> vars \<Rightarrow> vars" where
  "fips_block msg p v = add_vars v (fold (fips_round (fips_W msg p)) [0..<64] v)"

lemma sha256_blocks_code:
  "p + 64 * n \<le> length data \<Longrightarrow>
   sha256_blocks state data p n = Some (fold (fips_block data) (map (\<lambda>k. p + 64 * k) [0..<n]) state)"
proof (induction n arbitrary: p state)
  case (Suc n)
  have w: "fold extend_words [16..<64] (map (fips_W data p) [0..<16]) = map (fips_W data p) [0..<64]"
    by (rule extend_words_code) simp
  have r: "fold (eight_rounds (map (fips_W data p) [0..<64])) (map (\<lambda>k. 8 * k) [0..<8]) state =
      fold (fips_round (fips_W data p)) [0..<64] state"
    using rounds_code [of 8 "map (fips_W data p) [0..<64]" state]
      fips_round_cong [of "[0..<64]" "nth (map (fips_W data p) [0..<64])" "fips_W data p" state] by simp
  have "p + 64 \<le> length data" using Suc.prems by simp
  then have l: "load_words data p [0..<16] [] = Some (map (fips_W data p) [0..<16])" 
    using load_words_code [of p data "[0..<16]" "[]"] by simp
  have shift: "map (\<lambda>k. p + 64 * k) [0..<Suc n] = p # map (\<lambda>k. p + 64 + 64 * k) [0..<n]"
    by (simp add: upt_conv_Cons map_Suc_upt [symmetric] del: upt_Suc map_Suc_upt)
  have "sha256_blocks state data p (Suc n) = sha256_blocks (fips_block data p state) data (p + 64) n"
    by (simp only: sha256_blocks.simps l Let_def w r fips_block_def Option.bind.simps)
  also have "\<dots> = Some (fold (fips_block data) (map (\<lambda>k. p + 64 * k) [0..<Suc n]) state)"
    unfolding shift using Suc.IH [of "p + 64"] Suc.prems by simp
  finally show ?case .
qed simp

lemma fips_hash_fold: "fips_hash msg n = fold (fips_block msg) (map (\<lambda>k. 64 * k) [0..<n]) sha256_init"
proof (induction n)
  case 0
  show ?case by (simp only: fips_start) simp
next
  case (Suc n)
  then show ?case by (simp add: fips_block_def)
qed

text \<open>The schedule of a block depends on its 64 bytes alone.\<close>

lemma fips_W_local:
  assumes "take 64 (drop p xs) = take 64 (drop q ys)" and "t < 64"
  shows "fips_W xs p t = fips_W ys q t"
  using assms(2)
proof (induction t rule: less_induct)
  case (less t)
  show ?case
  proof (cases "t < 16")
    case True
    have "take 4 (drop (p + 4 * t) xs) = take 4 (drop (4 * t) (take 64 (drop p xs)))"
      using True by (simp add: drop_take add.commute min_def)
    moreover have "take 4 (drop (q + 4 * t) ys) = take 4 (drop (4 * t) (take 64 (drop q ys)))"
      using True by (simp add: drop_take add.commute min_def)
    ultimately show ?thesis using True assms(1) by (simp add: fips_W.simps [of _ _ t])
  next
    case False
    with less.prems have "t - 2 < t" "t - 7 < t" "t - 15 < t" "t - 16 < t" "t < 64" by simp_all
    then have "fips_W xs p (t - 2) = fips_W ys q (t - 2)" "fips_W xs p (t - 7) = fips_W ys q (t - 7)"
      "fips_W xs p (t - 15) = fips_W ys q (t - 15)" "fips_W xs p (t - 16) = fips_W ys q (t - 16)"
      using less.IH by simp_all
    then show ?thesis using False by (simp only: fips_W.simps [of xs p t] fips_W.simps [of ys q t] if_False)
  qed
qed

lemma fips_block_local:
  "take 64 (drop p xs) = take 64 (drop q ys) \<Longrightarrow> fips_block xs p v = fips_block ys q v"
  unfolding fips_block_def by (rule arg_cong [where f = "add_vars v"], rule fips_round_cong) (auto intro: fips_W_local)

lemma fips_blocks_prefix:
  "64 * n \<le> length xs \<Longrightarrow> fold (fips_block (xs @ ys)) (map (\<lambda>k. 64 * k) [0..<n]) v = fold (fips_block xs) (map (\<lambda>k. 64 * k) [0..<n]) v"
proof (induction n)
  case (Suc n)
  have "fips_block (xs @ ys) (64 * n) u = fips_block xs (64 * n) u" for u
    using Suc.prems by (intro fips_block_local) simp
  with Suc show ?case by simp
qed simp

lemma fips_blocks_suffix:
  assumes "length xs = 64 * m"
  shows "fold (fips_block (xs @ ys)) (map (\<lambda>k. 64 * k) [m..<m + n]) v = fold (fips_block ys) (map (\<lambda>k. 64 * k) [0..<n]) v"
proof (induction n)
  case (Suc n)
  have "fips_block (xs @ ys) (64 * (m + n)) u = fips_block ys (64 * n) u" for u
    using assms by (intro fips_block_local) simp
  with Suc show ?case by simp
qed simp

section \<open>Padding and result\<close>

text \<open>What the code lays out behind the complete blocks.\<close>

definition final_block :: "u8 list \<Rightarrow> u8 list" where
  "final_block data = (let r = length data mod 64; n = roundup (r + 9) 64
     in drop (length data - r) data @ [0x80] @ replicate (n - r - 9) 0 @ rev (le_bytes 8 (8 * length data)))"

lemma roundup_tail: "r < 64 \<Longrightarrow> roundup (r + 9) 64 = (if r \<le> 55 then 64 else 128)"
  by (auto simp: roundup_def div_nat_eqI)

lemma pad_final:
  "fips_pad data = take (length data - length data mod 64) data @ final_block data"
proof -
  let ?r = "length data mod 64"
  have r: "?r < 64" by simp
  have "(55 - int (length data)) mod 64 = (55 - int ?r) mod 64"
    by (simp add: zmod_int mod_diff_right_eq)
  also have "\<dots> = int (roundup (?r + 9) 64 - ?r - 9)"
  proof (cases "?r \<le> 55")
    case True
    then show ?thesis by (simp add: roundup_tail [OF r] mod_pos_pos_trivial of_nat_diff)
  next
    case False
    have "(55 - int ?r) mod 64 = (55 - int ?r + 64) mod 64" by (rule mod_add_self2 [symmetric])
    also have "\<dots> = 55 - int ?r + 64" by (rule mod_pos_pos_trivial) (use False r in simp_all)
    finally show ?thesis using False by (simp add: roundup_tail [OF r] of_nat_diff)
  qed
  finally show ?thesis by (simp add: fips_pad_def final_block_def Let_def)
qed

lemma length_final: "length (final_block data) = roundup (length data mod 64 + 9) 64"
  by (simp add: final_block_def Let_def roundup_tail)

lemma unat_swapped64: "unat (cpu_to_be64 v) = le_val (rev (le_bytes 8 (unat v)))"
proof -
  have "le_val (rev (le_bytes 8 (unat v))) < 2 ^ LENGTH(64)"
    using le_val_less [of "rev (le_bytes 8 (unat v))"] by simp
  then show ?thesis unfolding cpu_to_be64_def by (rule unat_of_nat_small)
qed

lemma unat_swapped32: "unat (cpu_to_be32 v) = le_val (rev (le_bytes 4 (unat v)))"
proof -
  have "le_val (rev (le_bytes 4 (unat v))) < 2 ^ LENGTH(32)"
    using le_val_less [of "rev (le_bytes 4 (unat v))"] by simp
  then show ?thesis unfolding cpu_to_be32_def by (rule unat_of_nat_small)
qed

lemma le_bytes_mod: "le_bytes k (n mod 256 ^ k) = le_bytes k n"
proof -
  have "le_bytes k (le_val (le_bytes k n)) = le_bytes k n" by (rule le_bytes_le_val) simp
  then show ?thesis by (simp only: le_val_le_bytes_mod)
qed

text \<open>The number of bits, which the code takes modulo 2 to the 64 as the 8 bytes do.\<close>

lemma bitcount_bytes: "le_bytes 8 (unat (cpu_to_be64 (of_nat n * 8))) = rev (le_bytes 8 (8 * n))"
proof -
  have "unat (of_nat n * 8 :: u64) = unat (of_nat (8 * n) :: u64)" by (simp add: mult.commute)
  also have "\<dots> = (8 * n) mod 256 ^ 8" by (simp only: unat_of_nat) simp
  finally have "le_bytes 8 (unat (of_nat n * 8 :: u64)) = le_bytes 8 (8 * n)" by (simp only: le_bytes_mod)
  then show ?thesis by (simp only: unat_swapped64) (simp add: le_bytes_le_val)
qed

lemma store_middle:
  "length pre = p \<Longrightarrow> length mid = length src \<Longrightarrow> store_bytes p src (pre @ mid @ post) = Some (pre @ src @ post)"
  by (simp add: store_bytes_def memcpy_def)

lemma final_data_code:
  fixes data :: "u8 list"
  defines "r \<equiv> length data mod 64"
  shows "do { d \<leftarrow> store_bytes 0 (take r (drop (length data - r) data)) (replicate 128 0);
      d \<leftarrow> store_bytes r [0x80] d;
      store_bytes (roundup (r + 9) 64 - 8) (le_bytes 8 (unat (cpu_to_be64 (of_nat (length data) * 8)))) d } =
    Some (final_block data @ replicate (128 - roundup (r + 9) 64) 0)"
proof -
  let ?n = "roundup (r + 9) 64" and ?tl = "drop (length data - r) data"
  have r: "r < 64" "r \<le> length data" by (simp_all add: r_def)
  have n: "r + 9 \<le> ?n" "?n \<le> 128" "8 \<le> ?n" using r by (simp_all add: roundup_tail)
  have tl: "take r ?tl = ?tl" "length ?tl = r" using r by simp_all
  have "replicate 128 0 = replicate r 0 @ replicate (128 - r) (0 :: u8)" using r by (simp flip: replicate_add)
  then have s1: "store_bytes 0 (take r ?tl) (replicate 128 0) = Some (?tl @ replicate (128 - r) 0)"
    using store_middle [of "[]" 0 "replicate r 0" "take r ?tl" "replicate (128 - r) 0"] tl by simp
  have "replicate (128 - r) (0 :: u8) = [0] @ replicate (127 - r) 0" using r by (simp add: replicate_Suc [symmetric] del: replicate_Suc)
  then have s2: "store_bytes r [0x80] (?tl @ replicate (128 - r) 0) = Some (?tl @ [0x80] @ replicate (127 - r) 0)"
    using store_middle [of ?tl r "[0]" "[0x80]" "replicate (127 - r) 0"] tl by simp
  let ?len = "rev (le_bytes 8 (8 * length data))"
  have "replicate (127 - r) (0 :: u8) = replicate (?n - r - 9) 0 @ replicate 8 0 @ replicate (128 - ?n) 0"
    using n by (simp flip: replicate_add)
  moreover have "length (?tl @ [0x80] @ replicate (?n - r - 9) 0) = ?n - 8" using tl n by simp
  ultimately have s3: "store_bytes (?n - 8) ?len (?tl @ [0x80] @ replicate (127 - r) 0) =
      Some (final_block data @ replicate (128 - ?n) 0)"
    using store_middle [of "?tl @ [0x80] @ replicate (?n - r - 9) 0" "?n - 8" "replicate 8 0" ?len "replicate (128 - ?n) 0"]
    by (simp add: final_block_def Let_def flip: r_def)
  show ?thesis by (simp only: s1 s2 s3 bitcount_bytes Option.bind.simps)
qed

lemma put_words_code:
  "length pre = 4 * i \<Longrightarrow> length out = 4 * length vs \<Longrightarrow>
   put_words i vs (pre @ out) = Some (pre @ concat (map (\<lambda>v. rev (le_bytes 4 (unat v))) vs))"
proof (induction vs arbitrary: i pre out)
  case (Cons v vs)
  let ?b = "rev (le_bytes 4 (unat v))"
  have b: "le_bytes 4 (unat (cpu_to_be32 v)) = ?b" by (simp only: unat_swapped32) (simp add: le_bytes_le_val)
  have "put_unaligned_be32 v (4 * i) (pre @ out) = Some ((pre @ ?b) @ drop 4 out)"
    unfolding put_unaligned_be32_def b using Cons.prems by (simp add: store_bytes_def memcpy_def)
  then show ?case using Cons.IH [of "pre @ ?b" "Suc i" "drop 4 out"] Cons.prems by simp
qed simp

text \<open>C16: the hash function of libbpf is SHA-256: for every message and every buffer of 32 bytes it
  ends without leaving an array and writes the digest of the standard, whose constants are the
  digits of the roots of the first primes.\<close>

theorem libbpf_sha256_correct:
  assumes "length out = 32"
  shows "libbpf_sha256 data out = Some (SHA256 data)"
proof -
  let ?len = "length data"
  let ?r = "?len mod 64" and ?q = "?len div 64"
  let ?n = "roundup (?r + 9) 64" and ?tl = "take (?len - ?r) data"
  have len: "?len = 64 * ?q + ?r" by simp
  then have pre: "length ?tl = 64 * ?q" by (simp add: minus_mod_eq_mult_div)
  have n: "?n = 64 * (?n div 64)" "?n \<le> 128" by (simp_all add: roundup_tail)
  have pad: "fips_pad data = ?tl @ final_block data" by (rule pad_final)
  have blocks: "length (fips_pad data) div 64 = ?q + ?n div 64"
    using pre n(1) by (simp add: pad length_final) 
  let ?s1 = "fold (fips_block data) (map (\<lambda>k. 64 * k) [0..<?q]) sha256_init"
  let ?s2 = "fold (fips_block (final_block data)) (map (\<lambda>k. 64 * k) [0..<?n div 64]) ?s1"
  have data: "data = ?tl @ drop (?len - ?r) data" by simp
  have s1: "sha256_blocks sha256_init data 0 ?q = Some ?s1"
    using sha256_blocks_code [of 0 ?q data] by simp
  have s2: "sha256_blocks ?s1 (final_block data @ replicate (128 - ?n) 0) 0 (?n div 64) = Some ?s2"
    using sha256_blocks_code [of 0 "?n div 64" "final_block data @ replicate (128 - ?n) 0" ?s1] n
      fips_blocks_prefix [of "?n div 64" "final_block data" "replicate (128 - ?n) 0" ?s1]
    by (simp add: length_final)
  have "fips_hash (fips_pad data) (?q + ?n div 64) =
      fold (fips_block (fips_pad data)) (map (\<lambda>k. 64 * k) [?q..<?q + ?n div 64])
        (fold (fips_block (fips_pad data)) (map (\<lambda>k. 64 * k) [0..<?q]) sha256_init)"
    unfolding fips_hash_fold upt_add_eq_append [OF le0] by simp
  also have "fold (fips_block (fips_pad data)) (map (\<lambda>k. 64 * k) [0..<?q]) sha256_init = ?s1"
    using fips_blocks_prefix [of ?q ?tl "final_block data" sha256_init]
      fips_blocks_prefix [of ?q ?tl "drop (?len - ?r) data" sha256_init] pre data pad by simp
  also have "fold (fips_block (fips_pad data)) (map (\<lambda>k. 64 * k) [?q..<?q + ?n div 64]) ?s1 = ?s2"
    unfolding pad by (rule fips_blocks_suffix [OF pre])
  finally have hash: "fips_hash (fips_pad data) (length (fips_pad data) div 64) = ?s2" unfolding blocks .
  have "length (vars_list ?s2) = 8" by (simp add: vars_list_def split: prod.split)
  then have "put_words 0 (vars_list ?s2) out = Some (SHA256 data)"
    using put_words_code [of "[]" 0 out "vars_list ?s2"] assms by (simp add: SHA256_def Let_def hash)
  moreover obtain d1 d2 where "store_bytes 0 (take ?r (drop (?len - ?r) data)) (replicate 128 0) = Some d1"
    "store_bytes ?r [0x80] d1 = Some d2"
    "store_bytes (?n - 8) (le_bytes 8 (unat (cpu_to_be64 (of_nat ?len * 8)))) d2 =
       Some (final_block data @ replicate (128 - ?n) 0)"
    using final_data_code [of data] by (auto simp: bind_eq_Some_conv)
  ultimately show ?thesis by (simp only: libbpf_sha256_def Let_def s1 s2 Option.bind.simps)
qed

theorem libbpf_sha256_correct_witness:
  "libbpf_sha256 [0x61, 0x62, 0x63] (replicate 32 0) = Some (SHA256 [0x61, 0x62, 0x63])"
  by (rule libbpf_sha256_correct) simp

end
