(* ===== verification/BtfData.thy ===== *)
theory BtfData
  imports StrSet
begin

text \<open>
  Type information in the BTF format, \<^verbatim>\<open>libbpf/src/btf.c\<close>: the header, the string and the type section,
  data of the other byte order, the sanity check and the access to types and strings by number.
  A type is a header of three 32-bit words and words that depend on its kind; it is read where it
  lies, so each read is \<open>None\<close> outside the section. Type and string sections are held as two lists
  of bytes, as no operation of the code crosses from one into the other.
\<close>

section \<open>The format\<close>

abbreviation (input) BTF_KIND_UNKN :: nat where "BTF_KIND_UNKN \<equiv> 0"
abbreviation (input) BTF_KIND_INT :: nat where "BTF_KIND_INT \<equiv> 1"
abbreviation (input) BTF_KIND_PTR :: nat where "BTF_KIND_PTR \<equiv> 2"
abbreviation (input) BTF_KIND_ARRAY :: nat where "BTF_KIND_ARRAY \<equiv> 3"
abbreviation (input) BTF_KIND_STRUCT :: nat where "BTF_KIND_STRUCT \<equiv> 4"
abbreviation (input) BTF_KIND_UNION :: nat where "BTF_KIND_UNION \<equiv> 5"
abbreviation (input) BTF_KIND_ENUM :: nat where "BTF_KIND_ENUM \<equiv> 6"
abbreviation (input) BTF_KIND_FWD :: nat where "BTF_KIND_FWD \<equiv> 7"
abbreviation (input) BTF_KIND_TYPEDEF :: nat where "BTF_KIND_TYPEDEF \<equiv> 8"
abbreviation (input) BTF_KIND_VOLATILE :: nat where "BTF_KIND_VOLATILE \<equiv> 9"
abbreviation (input) BTF_KIND_CONST :: nat where "BTF_KIND_CONST \<equiv> 10"
abbreviation (input) BTF_KIND_RESTRICT :: nat where "BTF_KIND_RESTRICT \<equiv> 11"
abbreviation (input) BTF_KIND_FUNC :: nat where "BTF_KIND_FUNC \<equiv> 12"
abbreviation (input) BTF_KIND_FUNC_PROTO :: nat where "BTF_KIND_FUNC_PROTO \<equiv> 13"
abbreviation (input) BTF_KIND_VAR :: nat where "BTF_KIND_VAR \<equiv> 14"
abbreviation (input) BTF_KIND_DATASEC :: nat where "BTF_KIND_DATASEC \<equiv> 15"
abbreviation (input) BTF_KIND_FLOAT :: nat where "BTF_KIND_FLOAT \<equiv> 16"
abbreviation (input) BTF_KIND_DECL_TAG :: nat where "BTF_KIND_DECL_TAG \<equiv> 17"
abbreviation (input) BTF_KIND_TYPE_TAG :: nat where "BTF_KIND_TYPE_TAG \<equiv> 18"
abbreviation (input) BTF_KIND_ENUM64 :: nat where "BTF_KIND_ENUM64 \<equiv> 19"

definition BTF_MAGIC :: nat where "BTF_MAGIC = 0xeB9F"
definition BTF_MAX_STR_OFFSET :: nat where "BTF_MAX_STR_OFFSET = 0x7fffffff"
definition BTF_INFO_KIND :: "nat \<Rightarrow> nat" where "BTF_INFO_KIND info = info div 2 ^ 24 mod 32"
definition BTF_INFO_VLEN :: "nat \<Rightarrow> nat" where "BTF_INFO_VLEN info = info mod 2 ^ 16"
definition BTF_INFO_KFLAG :: "nat \<Rightarrow> nat" where "BTF_INFO_KFLAG info = info div 2 ^ 31"

record btf_header =
  bh_magic :: nat
  bh_version :: nat
  bh_flags :: nat
  bh_hdr_len :: nat
  bh_type_off :: nat
  bh_type_len :: nat
  bh_str_off :: nat
  bh_str_len :: nat

definition btf_hdr_at :: "8 word list \<Rightarrow> btf_header option" where
  "btf_hdr_at raw =
     do { a \<leftarrow> rd 2 raw 0; b \<leftarrow> rd 1 raw 2; c \<leftarrow> rd 1 raw 3; d \<leftarrow> rd 4 raw 4;
          e \<leftarrow> rd 4 raw 8; f \<leftarrow> rd 4 raw 12; g \<leftarrow> rd 4 raw 16; h \<leftarrow> rd 4 raw 20;
          Some \<lparr>bh_magic = a, bh_version = b, bh_flags = c, bh_hdr_len = d, bh_type_off = e, bh_type_len = f,
            bh_str_off = g, bh_str_len = h\<rparr> }"

text \<open>A pointer to a type: the static \<^verbatim>\<open>btf_void\<close>, all of whose words are 0, or a place in a type section.\<close>

datatype type_ref = T_void | T_at "8 word list" nat

fun t_rd :: "type_ref \<Rightarrow> nat \<Rightarrow> nat option" where
  "t_rd T_void f = (if f + 4 \<le> 12 then Some 0 else None)"
| "t_rd (T_at buf off) f = rd 4 buf (off + f)"

definition t_name_off :: "type_ref \<Rightarrow> nat option" where "t_name_off t = t_rd t 0"
definition t_type :: "type_ref \<Rightarrow> nat option" where "t_type t = t_rd t 8"
definition btf_kind :: "type_ref \<Rightarrow> nat option" where "btf_kind t = map_option BTF_INFO_KIND (t_rd t 4)"
definition btf_vlen :: "type_ref \<Rightarrow> nat option" where "btf_vlen t = map_option BTF_INFO_VLEN (t_rd t 4)"
definition btf_kflag :: "type_ref \<Rightarrow> nat option" where "btf_kflag t = map_option BTF_INFO_KFLAG (t_rd t 4)"

text \<open>The size of a type of a kind, with \<open>vlen\<close> records behind it.\<close>

definition kind_size :: "nat \<Rightarrow> nat \<Rightarrow> int" where
  "kind_size kind vlen =
     (if kind \<in> {BTF_KIND_FWD, BTF_KIND_CONST, BTF_KIND_VOLATILE, BTF_KIND_RESTRICT, BTF_KIND_PTR, BTF_KIND_TYPEDEF,
         BTF_KIND_FUNC, BTF_KIND_FLOAT, BTF_KIND_TYPE_TAG} then 12
      else if kind = BTF_KIND_INT then 12 + 4
      else if kind = BTF_KIND_ENUM then 12 + int vlen * 8
      else if kind = BTF_KIND_ENUM64 then 12 + int vlen * 12
      else if kind = BTF_KIND_ARRAY then 12 + 12
      else if kind \<in> {BTF_KIND_STRUCT, BTF_KIND_UNION} then 12 + int vlen * 12
      else if kind = BTF_KIND_FUNC_PROTO then 12 + int vlen * 8
      else if kind = BTF_KIND_VAR then 12 + 4
      else if kind = BTF_KIND_DATASEC then 12 + int vlen * 12
      else if kind = BTF_KIND_DECL_TAG then 12 + 4
      else - EINVAL)"

definition btf_type_size :: "type_ref \<Rightarrow> int option" where
  "btf_type_size t = do { kind \<leftarrow> btf_kind t; vlen \<leftarrow> btf_vlen t; Some (kind_size kind vlen) }"

section \<open>The other byte order\<close>

definition bswap :: "nat \<Rightarrow> nat \<Rightarrow> nat" where
  "bswap k n = le_val (rev (le_bytes k n))"

definition bswap_at :: "nat \<Rightarrow> nat \<Rightarrow> 8 word list \<Rightarrow> 8 word list option" where
  "bswap_at k off buf = do { v \<leftarrow> rd k buf off; Some (memcpy off (le_bytes k (bswap k v)) buf) }"

fun bswap_all :: "nat list \<Rightarrow> 8 word list \<Rightarrow> 8 word list option" where
  "bswap_all [] buf = Some buf"
| "bswap_all (f # fs) buf = do { buf' \<leftarrow> bswap_at 4 f buf; bswap_all fs buf' }"

definition btf_bswap_hdr :: "8 word list \<Rightarrow> 8 word list option" where
  "btf_bswap_hdr raw = do { raw' \<leftarrow> bswap_at 2 0 raw; bswap_all [4, 8, 12, 16, 20] raw' }"

definition btf_bswap_type_base :: "nat \<Rightarrow> 8 word list \<Rightarrow> 8 word list option" where
  "btf_bswap_type_base p types = bswap_all [p, p + 4, p + 8] types"

text \<open>The fields of the \<open>n\<close> records of size \<open>sz\<close> behind the header of a type.\<close>

definition members_fields :: "nat \<Rightarrow> nat list \<Rightarrow> nat \<Rightarrow> nat list" where
  "members_fields sz fs n = concat (map (\<lambda>i. map (\<lambda>f. 12 + i * sz + f) fs) [0..<n])"

definition rest_fields :: "nat \<Rightarrow> nat \<Rightarrow> nat list option" where
  "rest_fields kind vlen =
     (if kind \<in> {BTF_KIND_FWD, BTF_KIND_CONST, BTF_KIND_VOLATILE, BTF_KIND_RESTRICT, BTF_KIND_PTR, BTF_KIND_TYPEDEF,
         BTF_KIND_FUNC, BTF_KIND_FLOAT, BTF_KIND_TYPE_TAG} then Some []
      else if kind = BTF_KIND_INT then Some [12]
      else if kind = BTF_KIND_ENUM then Some (members_fields 8 [0, 4] vlen)
      else if kind = BTF_KIND_ENUM64 then Some (members_fields 12 [0, 4, 8] vlen)
      else if kind = BTF_KIND_ARRAY then Some [12, 16, 20]
      else if kind \<in> {BTF_KIND_STRUCT, BTF_KIND_UNION} then Some (members_fields 12 [0, 4, 8] vlen)
      else if kind = BTF_KIND_FUNC_PROTO then Some (members_fields 8 [0, 4] vlen)
      else if kind = BTF_KIND_VAR then Some [12]
      else if kind = BTF_KIND_DATASEC then Some (members_fields 12 [0, 4, 8] vlen)
      else if kind = BTF_KIND_DECL_TAG then Some [12]
      else None)"

definition btf_bswap_type_rest :: "nat \<Rightarrow> 8 word list \<Rightarrow> (int \<times> 8 word list) option" where
  "btf_bswap_type_rest p types =
     do { kind \<leftarrow> btf_kind (T_at types p); vlen \<leftarrow> btf_vlen (T_at types p);
          case rest_fields kind vlen of
            None \<Rightarrow> Some (- EINVAL, types)
          | Some fs \<Rightarrow> do { types' \<leftarrow> bswap_all (map (\<lambda>f. p + f) fs) types; Some (0, types') } }"

section \<open>Parsing\<close>

text \<open>The header: whether the data has the other byte order, and the data with a header of ours. Writing to
  data that is mapped for reading is \<open>None\<close>.\<close>

definition btf_parse_hdr :: "bool \<Rightarrow> 8 word list \<Rightarrow> (int + bool \<times> 8 word list) option" where
  "btf_parse_hdr read_only raw =
     (if length raw < 24 then Some (Inl (- EINVAL))
      else do {
        h0 \<leftarrow> btf_hdr_at raw;
        order \<leftarrow> (if bh_magic h0 = bswap 2 BTF_MAGIC
          then (if bswap 4 (bh_hdr_len h0) \<noteq> 24 then Some (Inl (- EOPNOTSUPP))
                else do { raw' \<leftarrow> (if read_only then None else btf_bswap_hdr raw); Some (Inr (True, raw')) })
          else if bh_magic h0 \<noteq> BTF_MAGIC then Some (Inl (- EINVAL)) else Some (Inr (False, raw)));
        case order of
          Inl e \<Rightarrow> Some (Inl e)
        | Inr (swapped, raw') \<Rightarrow>
            do { h \<leftarrow> btf_hdr_at raw';
                 if length raw' < bh_hdr_len h then Some (Inl (- EINVAL))
                 else if length raw' - bh_hdr_len h < bh_str_off h + bh_str_len h then Some (Inl (- EINVAL))
                 else if bh_type_off h + bh_type_len h > bh_str_off h then Some (Inl (- EINVAL))
                 else if bh_type_off h mod 4 \<noteq> 0 then Some (Inl (- EINVAL))
                 else Some (Inr (swapped, raw')) } })"

definition btf_parse_str_sec :: "bool \<Rightarrow> 8 word list \<Rightarrow> int option" where
  "btf_parse_str_sec split strs =
     (if split \<and> length strs = 0 then Some 0
      else if length strs = 0 \<or> length strs - 1 > BTF_MAX_STR_OFFSET then Some (- EINVAL)
      else do { last_byte \<leftarrow> rd 1 strs (length strs - 1);
                if last_byte \<noteq> 0 then Some (- EINVAL)
                else if split then Some 0
                else do { first_byte \<leftarrow> rd 1 strs 0; Some (if first_byte \<noteq> 0 then - EINVAL else 0) } })"

text \<open>One turn of the loop over the types: the place of the next type. \<open>idx_ok\<close> is whether the index
  of types can grow.\<close>

definition parse_type :: "bool \<Rightarrow> bool \<Rightarrow> nat \<Rightarrow> 8 word list \<Rightarrow> (int + nat \<times> 8 word list) option" where
  "parse_type swapped idx_ok p types =
     do { types1 \<leftarrow> (if swapped then btf_bswap_type_base p types else Some types);
          type_size \<leftarrow> btf_type_size (T_at types1 p);
          if type_size < 0 then Some (Inl type_size)
          else if p + nat type_size > length types then Some (Inl (- EINVAL))
          else do {
            (err, types2) \<leftarrow> (if swapped then btf_bswap_type_rest p types1 else Some (0, types1));
            if err \<noteq> 0 then Some (Inl (- EINVAL))
            else if \<not> idx_ok then Some (Inl (- ENOMEM))
            else Some (Inr (p + nat type_size, types2)) } }"

lemma length_bswap_at: "bswap_at k off buf = Some buf' \<Longrightarrow> length buf' = length buf"
  by (auto simp: bswap_at_def dest: rd_Some split: bind_splits)

lemma length_bswap_all: "bswap_all fs buf = Some buf' \<Longrightarrow> length buf' = length buf"
  by (induction fs arbitrary: buf) (auto dest: length_bswap_at split: bind_splits)

lemma length_bswap_rest: "btf_bswap_type_rest p types = Some (r, types') \<Longrightarrow> length types' = length types"
  by (auto simp: btf_bswap_type_rest_def dest: length_bswap_all split: bind_splits option.splits)

lemma kind_size_ge: "0 \<le> kind_size kind vlen \<Longrightarrow> 12 \<le> kind_size kind vlen"
  by (simp add: kind_size_def split: if_splits)

lemma parse_type_progress:
  assumes "parse_type swapped idx_ok p types = Some (Inr (p', types'))"
  shows "p + 12 \<le> p'" and "p' \<le> length types" and "length types' = length types"
proof -
  from assms obtain types1 sz where t: "(if swapped then btf_bswap_type_base p types else Some types) = Some types1"
    and sz: "btf_type_size (T_at types1 p) = Some sz" "\<not> sz < 0" "\<not> length types < p + nat sz"
    and r: "(if swapped then btf_bswap_type_rest p types1 else Some (0, types1)) = Some (0, types')" "p' = p + nat sz"
    unfolding parse_type_def by (auto split: bind_splits if_splits)
  from t have "length types1 = length types" by (auto simp: btf_bswap_type_base_def simp del: bswap_all.simps dest: length_bswap_all split: if_splits)
  with r show "length types' = length types" by (auto dest: length_bswap_rest split: if_splits)
  have "12 \<le> sz" using sz(1,2) kind_size_ge by (auto simp: btf_type_size_def split: bind_splits)
  with r sz show "p + 12 \<le> p'" "p' \<le> length types" by auto
qed

function btf_parse_type_sec :: "bool \<Rightarrow> (nat \<Rightarrow> bool) \<Rightarrow> nat \<Rightarrow> nat list \<Rightarrow> 8 word list \<Rightarrow>
    (int + nat list \<times> 8 word list) option" where
  "btf_parse_type_sec swapped idx_ok p offs types =
     (if p + 12 \<le> length types
      then (case parse_type swapped (idx_ok (length offs)) p types of
              None \<Rightarrow> None
            | Some (Inl e) \<Rightarrow> Some (Inl e)
            | Some (Inr (p', types')) \<Rightarrow> btf_parse_type_sec swapped idx_ok p' (offs @ [p]) types')
      else if p \<noteq> length types then Some (Inl (- EINVAL))
      else Some (Inr (offs, types)))"
  by auto
termination
proof (relation "measure (\<lambda>(_, _, p, _, types). length types - p)", simp, goal_cases)
  case (1 swapped idx_ok p offs types a b q types')
  then show ?case using parse_type_progress [of swapped "idx_ok (length offs)" p types q types'] by simp
qed

declare btf_parse_type_sec.simps [simp del]

section \<open>Types and strings by number\<close>

record btf_own =
  bo_hdr :: btf_header
  bo_swapped_endian :: bool
  bo_types_data :: "8 word list"
  bo_type_offs :: "nat list"
  bo_named_start_id :: nat
  bo_start_id :: nat
  bo_start_str_off :: nat
  bo_strs_data :: "8 word list"
  bo_ptr_sz :: int

datatype btf = Btf (own: btf_own) (base_btf: "btf option")

definition btf__type_cnt :: "btf \<Rightarrow> nat" where
  "btf__type_cnt btf = bo_start_id (own btf) + length (bo_type_offs (own btf))"

fun btf_type_by_id :: "btf \<Rightarrow> nat \<Rightarrow> type_ref option" where
  "btf_type_by_id (Btf b base) type_id =
     (if type_id = 0 then Some T_void
      else if type_id < bo_start_id b
      then (case base of None \<Rightarrow> None | Some b' \<Rightarrow> btf_type_by_id b' type_id)
      else if type_id - bo_start_id b < length (bo_type_offs b)
      then Some (T_at (bo_types_data b) (bo_type_offs b ! (type_id - bo_start_id b)))
      else None)"

text \<open>The inner \<open>None\<close> is the \<^verbatim>\<open>NULL\<close> of a number that is too large.\<close>

definition btf__type_by_id :: "btf \<Rightarrow> nat \<Rightarrow> type_ref option option" where
  "btf__type_by_id btf type_id =
     (if type_id \<ge> btf__type_cnt btf then Some None else map_option Some (btf_type_by_id btf type_id))"

fun btf__str_by_offset :: "btf \<Rightarrow> nat \<Rightarrow> (8 word list \<times> nat) option option" where
  "btf__str_by_offset (Btf b base) offset =
     (if offset < bo_start_str_off b
      then (case base of None \<Rightarrow> None | Some b' \<Rightarrow> btf__str_by_offset b' offset)
      else if offset - bo_start_str_off b < bh_str_len (bo_hdr b)
      then Some (Some (bo_strs_data b, offset - bo_start_str_off b))
      else Some None)"

text \<open>Reading a C string to its end.\<close>

fun btf_cstr :: "8 word list \<times> nat \<Rightarrow> 8 word list option" where
  "btf_cstr (data, off) = (if 0 \<in> set (drop off data) then Some (str_at data off) else None)"

section \<open>The sanity check\<close>

definition btf_validate_str :: "btf \<Rightarrow> nat \<Rightarrow> int option" where
  "btf_validate_str btf str_off =
     do { s \<leftarrow> btf__str_by_offset btf str_off; Some (case s of None \<Rightarrow> - EINVAL | Some _ \<Rightarrow> 0) }"

definition btf_validate_id :: "btf \<Rightarrow> nat \<Rightarrow> int option" where
  "btf_validate_id btf id' =
     do { t \<leftarrow> btf__type_by_id btf id'; Some (case t of None \<Rightarrow> - EINVAL | Some _ \<Rightarrow> 0) }"

text \<open>The loop over the records behind a type: \<open>fs\<close> are the fields of a record that are checked, with the
  check.\<close>

fun check_fields :: "type_ref \<Rightarrow> ((nat \<Rightarrow> int option) \<times> nat) list \<Rightarrow> int option" where
  "check_fields t [] = Some 0"
| "check_fields t ((check, f) # fs) =
     do { v \<leftarrow> t_rd t f; err \<leftarrow> check v; if err \<noteq> 0 then Some err else check_fields t fs }"

definition member_checks :: "nat \<Rightarrow> ((nat \<Rightarrow> int option) \<times> nat) list \<Rightarrow> nat \<Rightarrow> ((nat \<Rightarrow> int option) \<times> nat) list" where
  "member_checks sz fs n = concat (map (\<lambda>i. map (\<lambda>(check, f). (check, 12 + i * sz + f)) fs) [0..<n])"

text \<open>What is checked of each kind, in order.\<close>

definition field_checks :: "btf \<Rightarrow> nat \<Rightarrow> nat \<Rightarrow> ((nat \<Rightarrow> int option) \<times> nat) list option" where
  "field_checks btf kind n =
     (let str = btf_validate_str btf; tid = btf_validate_id btf in
      if kind \<in> {BTF_KIND_UNKN, BTF_KIND_INT, BTF_KIND_FWD, BTF_KIND_FLOAT} then Some []
      else if kind \<in> {BTF_KIND_PTR, BTF_KIND_TYPEDEF, BTF_KIND_VOLATILE, BTF_KIND_CONST, BTF_KIND_RESTRICT, BTF_KIND_VAR,
          BTF_KIND_DECL_TAG, BTF_KIND_TYPE_TAG} then Some [(tid, 8)]
      else if kind = BTF_KIND_ARRAY then Some [(tid, 12), (tid, 16)]
      else if kind \<in> {BTF_KIND_STRUCT, BTF_KIND_UNION} then Some (member_checks 12 [(str, 0), (tid, 4)] n)
      else if kind = BTF_KIND_ENUM then Some (member_checks 8 [(str, 0)] n)
      else if kind = BTF_KIND_ENUM64 then Some (member_checks 12 [(str, 0)] n)
      else if kind = BTF_KIND_FUNC then Some [(tid, 8)]
      else if kind = BTF_KIND_FUNC_PROTO then Some (member_checks 8 [(str, 0), (tid, 4)] n)
      else if kind = BTF_KIND_DATASEC then Some (member_checks 12 [(tid, 0)] n)
      else None)"

definition validate_func :: "btf \<Rightarrow> type_ref \<Rightarrow> int option" where
  "validate_func btf t =
     do { id' \<leftarrow> t_type t; ft \<leftarrow> btf__type_by_id btf id';
          case ft of None \<Rightarrow> None
          | Some ft \<Rightarrow> do { k \<leftarrow> btf_kind ft; Some (if k \<noteq> BTF_KIND_FUNC_PROTO then - EINVAL else 0) } }"

definition validate_rest :: "btf \<Rightarrow> type_ref \<Rightarrow> nat \<Rightarrow> nat \<Rightarrow> int option" where
  "validate_rest btf t kind n =
     (case field_checks btf kind n of
        None \<Rightarrow> Some (- EINVAL)
      | Some fs \<Rightarrow> do { err \<leftarrow> check_fields t fs;
                        if err \<noteq> 0 then Some err
                        else if kind = BTF_KIND_FUNC then validate_func btf t else Some 0 })"

definition btf_validate_type :: "btf \<Rightarrow> type_ref \<Rightarrow> int option" where
  "btf_validate_type btf t =
     do { kind \<leftarrow> btf_kind t; name \<leftarrow> t_name_off t; err \<leftarrow> btf_validate_str btf name;
          if err \<noteq> 0 then Some err else do { n \<leftarrow> btf_vlen t; validate_rest btf t kind n } }"

fun sanity_loop :: "btf \<Rightarrow> nat list \<Rightarrow> int option" where
  "sanity_loop btf [] = Some 0"
| "sanity_loop btf (i # is') =
     do { t \<leftarrow> btf_type_by_id btf i; err \<leftarrow> btf_validate_type btf t;
          if err \<noteq> 0 then Some err else sanity_loop btf is' }"

definition btf_sanity_check :: "btf \<Rightarrow> int option" where
  "btf_sanity_check btf = sanity_loop btf [bo_start_id (own btf)..<btf__type_cnt btf]"

section \<open>The order of names\<close>

fun strcmp :: "8 word list \<Rightarrow> 8 word list \<Rightarrow> int" where
  "strcmp [] [] = 0"
| "strcmp [] (b # bs) = - 1"
| "strcmp (a # as) [] = 1"
| "strcmp (a # as) (b # bs) = (if a = b then strcmp as bs else if a < b then - 1 else 1)"

text \<open>The name of a type.\<close>

definition type_name :: "btf \<Rightarrow> nat \<Rightarrow> 8 word list option" where
  "type_name btf i =
     do { t \<leftarrow> btf_type_by_id btf i; name \<leftarrow> t_name_off t; s \<leftarrow> btf__str_by_offset btf name;
          case s of None \<Rightarrow> None | Some s \<Rightarrow> btf_cstr s }"

text \<open>\<open>Some None\<close> is the early return of names out of order.\<close>

fun sorted_loop :: "btf \<Rightarrow> nat \<Rightarrow> nat list \<Rightarrow> nat option option" where
  "sorted_loop btf named [] = Some (Some named)"
| "sorted_loop btf named (i # is') =
     do { na \<leftarrow> type_name btf (i - 1); nb \<leftarrow> type_name btf i;
          if strcmp na nb > 0 then Some None
          else let named1 = (if named = 0 \<and> na \<noteq> [] then i - 1 else named);
                   named2 = (if named1 = 0 \<and> nb \<noteq> [] then i else named1)
               in sorted_loop btf named2 is' }"

definition btf_check_sorted :: "btf \<Rightarrow> btf option" where
  "btf_check_sorted btf =
     do { r \<leftarrow> sorted_loop btf 0 [bo_start_id (own btf) + 1..<btf__type_cnt btf];
          Some (case r of
              None \<Rightarrow> btf
            | Some named \<Rightarrow> if named \<noteq> 0 then Btf ((own btf)\<lparr>bo_named_start_id := named\<rparr>) (base_btf btf) else btf) }"

section \<open>A new BTF object\<close>

text \<open>The object before its types are looked at.\<close>

definition btf_object :: "btf_header \<Rightarrow> bool \<Rightarrow> 8 word list \<Rightarrow> nat list \<Rightarrow> 8 word list \<Rightarrow> btf option \<Rightarrow> btf" where
  "btf_object h swapped types offs strs base =
     Btf \<lparr>bo_hdr = h, bo_swapped_endian = swapped, bo_types_data = types, bo_type_offs = offs, bo_named_start_id = 0,
       bo_start_id = (case base of None \<Rightarrow> 1 | Some b \<Rightarrow> btf__type_cnt b),
       bo_start_str_off = (case base of None \<Rightarrow> 0 | Some b \<Rightarrow> bh_str_len (bo_hdr (own b)) + bo_start_str_off (own b)),
       bo_strs_data = strs, bo_ptr_sz = 0\<rparr> base"

text \<open>\<open>is_mmap\<close> is whether the data is a mapping that can only be read, \<open>calloc_ok\<close> and \<open>malloc_ok\<close> whether
  memory is found for the object and for a copy of the data.\<close>

definition btf_new :: "bool \<Rightarrow> bool \<Rightarrow> (nat \<Rightarrow> bool) \<Rightarrow> 8 word list \<Rightarrow> btf option \<Rightarrow> bool \<Rightarrow> (int + btf) option" where
  "btf_new calloc_ok malloc_ok idx_ok data base is_mmap =
     (if \<not> calloc_ok then Some (Inl (- ENOMEM))
      else if \<not> is_mmap \<and> \<not> malloc_ok then Some (Inl (- ENOMEM))
      else do {
                parsed \<leftarrow> btf_parse_hdr is_mmap data;
                case parsed of
                  Inl e \<Rightarrow> Some (Inl e)
                | Inr (swapped, raw) \<Rightarrow>
                    do {
                      h \<leftarrow> btf_hdr_at raw;
                      let strs = take (bh_str_len h) (drop (bh_hdr_len h + bh_str_off h) raw);
                      let types = take (bh_type_len h) (drop (bh_hdr_len h + bh_type_off h) raw);
                      err \<leftarrow> btf_parse_str_sec (base \<noteq> None) strs;
                      if err \<noteq> 0 then Some (Inl err)
                      else do {
                        secs \<leftarrow> btf_parse_type_sec swapped idx_ok 0 [] types;
                        case secs of
                          Inl e \<Rightarrow> Some (Inl e)
                        | Inr (offs, types') \<Rightarrow>
                            do { let btf = btf_object h swapped types' offs strs base;
                                 err \<leftarrow> btf_sanity_check btf;
                                 if err \<noteq> 0 then Some (Inl err) else map_option Inr (btf_check_sorted btf) } } } })"

definition btf__new :: "bool \<Rightarrow> bool \<Rightarrow> (nat \<Rightarrow> bool) \<Rightarrow> 8 word list \<Rightarrow> (int + btf) option" where
  "btf__new calloc_ok malloc_ok idx_ok data = btf_new calloc_ok malloc_ok idx_ok data None False"

definition btf__new_split :: "bool \<Rightarrow> bool \<Rightarrow> (nat \<Rightarrow> bool) \<Rightarrow> 8 word list \<Rightarrow> btf \<Rightarrow> (int + btf) option" where
  "btf__new_split calloc_ok malloc_ok idx_ok data base = btf_new calloc_ok malloc_ok idx_ok data (Some base) False"

section \<open>Swapping stays inside the data\<close>

lemma rd_take: "off + k \<le> n \<Longrightarrow> take n buf' = take n buf \<Longrightarrow> length buf' = length buf \<Longrightarrow> rd k buf' off = rd k buf off"
proof -
  assume a: "off + k \<le> n" "take n buf' = take n buf" "length buf' = length buf"
  have "take k (drop off b) = drop off (take (off + k) (take n b))" for b :: "8 word list"
    using a(1) by (simp add: take_drop add.commute min_def)
  then have "take k (drop off buf') = take k (drop off buf)" by (simp only: a(2))
  with a(3) show ?thesis by (simp add: rd_def)
qed

lemma bswap_at_ok: "off + k \<le> length buf \<Longrightarrow> bswap_at k off buf = Some (memcpy off (le_bytes k (bswap k (le_val (take k (drop off buf))))) buf)"
  by (simp add: bswap_at_def rd_def)

lemma bswap_at_take:
  assumes "bswap_at k off buf = Some buf'" and "n \<le> off"
  shows "take n buf' = take n buf"
proof -
  from assms(1) obtain v where "rd k buf off = Some v" "buf' = memcpy off (le_bytes k (bswap k v)) buf"
    by (auto simp: bswap_at_def split: bind_splits)
  with assms(2) show ?thesis by (auto dest!: rd_Some intro: take_memcpy)
qed

lemma bswap_all_take:
  assumes "bswap_all fs buf = Some buf'" and "\<forall>f \<in> set fs. n \<le> f"
  shows "take n buf' = take n buf"
  using assms
proof (induction fs arbitrary: buf)
  case (Cons f fs)
  then obtain buf1 where "bswap_at 4 f buf = Some buf1" "bswap_all fs buf1 = Some buf'" by (auto split: bind_splits)
  with Cons show ?case using bswap_at_take [of 4 f buf buf1 n] by simp
qed simp

lemma bswap_all_ok: "\<forall>f \<in> set fs. f + 4 \<le> length buf \<Longrightarrow> \<exists>buf'. bswap_all fs buf = Some buf'"
proof (induction fs arbitrary: buf)
  case (Cons f fs)
  then have "\<exists>buf1. bswap_at 4 f buf = Some buf1 \<and> length buf1 = length buf" by (simp add: bswap_at_ok)
  with Cons show ?case by fastforce
qed simp

lemma members_fields_bound:
  assumes "f \<in> set (members_fields sz fs n)" and "\<forall>g \<in> set fs. g + 4 \<le> sz"
  shows "12 \<le> f \<and> f + 4 \<le> 12 + n * sz"
proof -
  from assms obtain i g where "i < n" "g \<in> set fs" "f = 12 + i * sz + g" by (auto simp: members_fields_def)
  moreover from this(1) have "Suc i * sz \<le> n * sz" by (intro mult_le_mono1) simp
  ultimately show ?thesis using assms(2) by fastforce
qed

lemma rest_fields_bound:
  assumes "rest_fields kind vlen = Some fs" and "f \<in> set fs"
  shows "12 \<le> f" and "int f + 4 \<le> kind_size kind vlen"
proof -
  from assms have "12 \<le> f \<and> int f + 4 \<le> kind_size kind vlen"
    by (auto simp: rest_fields_def kind_size_def split: if_splits dest!: members_fields_bound)
  then show "12 \<le> f" "int f + 4 \<le> kind_size kind vlen" by simp_all
qed

lemma rest_fields_None: "rest_fields kind vlen = None \<longleftrightarrow> kind_size kind vlen < 0"
  by (auto simp: rest_fields_def kind_size_def)

lemma type_size_at: "off + 12 \<le> length types \<Longrightarrow> \<exists>sz. btf_type_size (T_at types off) = Some sz"
  by (simp add: btf_type_size_def btf_kind_def btf_vlen_def rd_def)

lemma type_size_take:
  "off + 12 \<le> n \<Longrightarrow> take n types' = take n types \<Longrightarrow> length types' = length types \<Longrightarrow>
   btf_type_size (T_at types' off) = btf_type_size (T_at types off)"
  using rd_take [of "off + 4" 4 n types' types] by (simp add: btf_type_size_def btf_kind_def btf_vlen_def)

lemma type_size_known:
  assumes "btf_type_size t = Some sz" and "0 \<le> sz"
  obtains kind vlen where "btf_kind t = Some kind" "btf_vlen t = Some vlen" "sz = kind_size kind vlen" "12 \<le> sz"
  using assms kind_size_ge by (auto simp: btf_type_size_def split: bind_splits)

lemma bswap_rest_ok:
  assumes "btf_type_size (T_at types p) = Some sz" and "0 \<le> sz" and "p + nat sz \<le> length types"
  obtains types' where "btf_bswap_type_rest p types = Some (0, types')" "take (p + 12) types' = take (p + 12) types"
    "length types' = length types"
proof -
  from assms(1,2) obtain kind vlen where k: "btf_kind (T_at types p) = Some kind" "btf_vlen (T_at types p) = Some vlen"
    "sz = kind_size kind vlen" by (rule type_size_known)
  with assms(2) obtain fs where fs: "rest_fields kind vlen = Some fs" using rest_fields_None [of kind vlen] by fastforce
  have "f + 4 \<le> nat sz" "12 \<le> f" if "f \<in> set fs" for f using rest_fields_bound [OF fs that] k(3) by simp_all
  then have b: "p + 12 \<le> f \<and> f + 4 \<le> length types" if "f \<in> set (map (\<lambda>f. p + f) fs)" for f
    using that assms(3) by fastforce
  then obtain types' where t: "bswap_all (map (\<lambda>f. p + f) fs) types = Some types'" using bswap_all_ok by blast
  then have "btf_bswap_type_rest p types = Some (0, types')" by (simp add: btf_bswap_type_rest_def k fs)
  moreover from t b have "take (p + 12) types' = take (p + 12) types" by (intro bswap_all_take) auto
  moreover from t have "length types' = length types" by (rule length_bswap_all)
  ultimately show ?thesis by (rule that)
qed

lemma parse_type_ok:
  assumes "p + 12 \<le> length types"
  shows "(\<exists>e. parse_type swapped idx_ok p types = Some (Inl e)) \<or>
    (\<exists>sz types'. parse_type swapped idx_ok p types = Some (Inr (p + nat sz, types')) \<and>
      btf_type_size (T_at types' p) = Some sz \<and> 0 \<le> sz \<and> take p types' = take p types \<and> (\<not> swapped \<longrightarrow> types' = types))"
proof -
  obtain types1 where t1: "(if swapped then btf_bswap_type_base p types else Some types) = Some types1"
    "take p types1 = take p types" "length types1 = length types" "\<not> swapped \<longrightarrow> types1 = types"
  proof (cases swapped)
    case True
    have "\<exists>types1. bswap_all [p, p + 4, p + 8] types = Some types1" using assms by (intro bswap_all_ok) auto
    then obtain types1 where b: "bswap_all [p, p + 4, p + 8] types = Some types1" by blast
    moreover from b have "take p types1 = take p types" by (rule bswap_all_take) simp
    moreover from b have "length types1 = length types" by (rule length_bswap_all)
    ultimately show ?thesis using True by (intro that [of types1]) (simp_all add: btf_bswap_type_base_def del: bswap_all.simps)
  qed (use that in simp)
  with assms obtain sz where sz: "btf_type_size (T_at types1 p) = Some sz" using type_size_at [of p types1] by auto
  show ?thesis
  proof (cases "sz < 0 \<or> length types < p + nat sz")
    case True
    then show ?thesis by (auto simp: parse_type_def t1 sz)
  next
    case False
    then have s: "0 \<le> sz" "p + nat sz \<le> length types1" using t1(3) by auto
    show ?thesis
    proof (cases swapped)
      case True
      obtain types2 where r: "btf_bswap_type_rest p types1 = Some (0, types2)" "take (p + 12) types2 = take (p + 12) types1"
        "length types2 = length types1" by (rule bswap_rest_ok [OF sz s])
      from r(2) have "take p types2 = take p types" using t1(2) by (metis le_add1 min.absorb1 take_take)
      moreover have "btf_type_size (T_at types2 p) = Some sz" using type_size_take [OF _ r(2,3)] sz by simp
      ultimately show ?thesis using True t1 sz s r(1) False by (auto simp: parse_type_def)
    next
      case False' : False
      with t1 sz s show ?thesis by (auto simp: parse_type_def)
    qed
  qed
qed

text \<open>The types lie one after the other.\<close>

fun tiles :: "8 word list \<Rightarrow> nat \<Rightarrow> nat list \<Rightarrow> nat \<Rightarrow> bool" where
  "tiles types a [] b \<longleftrightarrow> a = b"
| "tiles types a (off # offs) b \<longleftrightarrow> off = a \<and>
     (\<exists>sz. btf_type_size (T_at types off) = Some sz \<and> 0 \<le> sz \<and> tiles types (off + nat sz) offs b)"

lemma size_ge12: "btf_type_size t = Some sz \<Longrightarrow> 0 \<le> sz \<Longrightarrow> 12 \<le> nat sz"
  by (erule type_size_known) auto

lemma tiles_le: "tiles types a offs b \<Longrightarrow> a + 12 * length offs \<le> b"
proof (induction offs arbitrary: a)
  case (Cons off offs)
  then obtain sz where sz: "btf_type_size (T_at types a) = Some sz" "0 \<le> sz" "tiles types (a + nat sz) offs b" by auto
  with Cons.IH [OF sz(3)] size_ge12 [OF sz(1,2)] show ?case by simp
qed simp

lemma tiles_take:
  assumes "tiles types a offs b" and "take b types' = take b types" and "length types' = length types"
  shows "tiles types' a offs b"
  using assms
proof (induction offs arbitrary: a)
  case (Cons off offs)
  then obtain sz where sz: "off = a" "btf_type_size (T_at types a) = Some sz" "0 \<le> sz" "tiles types (a + nat sz) offs b" by auto
  with tiles_le [OF sz(4)] size_ge12 [OF sz(2,3)] have "a + 12 \<le> b" by simp
  with Cons.prems sz Cons.IH [OF sz(4)] show ?case using type_size_take [of a b types' types] by auto
qed simp

lemma tiles_append: "tiles types a (xs @ ys) b \<longleftrightarrow> (\<exists>c. tiles types a xs c \<and> tiles types c ys b)"
  by (induction xs arbitrary: a) auto

lemma tiles_member:
  assumes "tiles types a offs b" and "off \<in> set offs"
  obtains sz where "btf_type_size (T_at types off) = Some sz" "0 \<le> sz" "off + nat sz \<le> b"
proof -
  from assms(2) obtain xs ys where "offs = xs @ off # ys" by (meson split_list)
  with assms(1) show ?thesis using that tiles_le by (force simp: tiles_append)
qed

lemma parse_type_sec_ok:
  assumes "p \<le> length types" and "tiles types 0 offs p"
  shows "(\<exists>e. btf_parse_type_sec swapped idx_ok p offs types = Some (Inl e)) \<or>
    (\<exists>offs' types'. btf_parse_type_sec swapped idx_ok p offs types = Some (Inr (offs', types')) \<and>
      length types' = length types \<and> tiles types' 0 offs' (length types') \<and> (\<not> swapped \<longrightarrow> types' = types))"
  using assms
proof (induction "length types - p" arbitrary: p offs types rule: less_induct)
  case less
  note step = btf_parse_type_sec.simps [of swapped idx_ok p offs types]
  show ?case
  proof (cases "p + 12 \<le> length types")
    case True
    from parse_type_ok [OF True, of swapped "idx_ok (length offs)"]
    consider (err) e where "parse_type swapped (idx_ok (length offs)) p types = Some (Inl e)"
      | (ok) sz types' where "parse_type swapped (idx_ok (length offs)) p types = Some (Inr (p + nat sz, types'))"
        "btf_type_size (T_at types' p) = Some sz" "0 \<le> sz" "take p types' = take p types" "\<not> swapped \<longrightarrow> types' = types"
      by blast
    then show ?thesis
    proof cases
      case err
      with True have "btf_parse_type_sec swapped idx_ok p offs types = Some (Inl e)"
        unfolding step by (simp only: if_True option.case sum.case)
      then show ?thesis by blast
    next
      case ok
      note q = parse_type_progress [OF ok(1)]
      from less.prems(2) ok(4) q(3) have "tiles types' 0 offs p" by (rule tiles_take)
      with ok(2,3) have "tiles types' 0 (offs @ [p]) (p + nat sz)" by (auto simp: tiles_append)
      moreover from True ok(1) have "btf_parse_type_sec swapped idx_ok p offs types =
          btf_parse_type_sec swapped idx_ok (p + nat sz) (offs @ [p]) types'"
        unfolding step by (simp only: if_True option.case sum.case prod.case)
      ultimately show ?thesis using less.hyps [of types' "p + nat sz" "offs @ [p]"] q True ok(5) by auto
    qed
  next
    case False
    with less.prems show ?thesis by (auto simp: step)
  qed
qed

section \<open>Well-formed type information\<close>

text \<open>The words of a type that hold strings, and the words whose type ids the sanity check looks at.\<close>

definition str_fields :: "nat \<Rightarrow> nat \<Rightarrow> nat list" where
  "str_fields kind vlen =
     0 # (if kind \<in> {BTF_KIND_STRUCT, BTF_KIND_UNION, BTF_KIND_ENUM64} then members_fields 12 [0] vlen
          else if kind \<in> {BTF_KIND_ENUM, BTF_KIND_FUNC_PROTO} then members_fields 8 [0] vlen else [])"

definition checked_ids :: "nat \<Rightarrow> nat \<Rightarrow> nat list" where
  "checked_ids kind vlen =
     (if kind \<in> {BTF_KIND_PTR, BTF_KIND_TYPEDEF, BTF_KIND_VOLATILE, BTF_KIND_CONST, BTF_KIND_RESTRICT, BTF_KIND_VAR,
         BTF_KIND_DECL_TAG, BTF_KIND_TYPE_TAG, BTF_KIND_FUNC} then [8]
      else if kind = BTF_KIND_ARRAY then [12, 16]
      else if kind \<in> {BTF_KIND_STRUCT, BTF_KIND_UNION} then members_fields 12 [4] vlen
      else if kind = BTF_KIND_FUNC_PROTO then members_fields 8 [4] vlen
      else if kind = BTF_KIND_DATASEC then members_fields 12 [0] vlen
      else [])"

lemma checked_field_bound:
  assumes "f \<in> set (str_fields kind vlen) \<or> f \<in> set (checked_ids kind vlen)" and "0 \<le> kind_size kind vlen"
  shows "int f + 4 \<le> kind_size kind vlen"
proof -
  have b: "int f + 4 \<le> 12 + int vlen * int sz" if "f \<in> set (members_fields sz fs vlen)" "\<forall>g \<in> set fs. g + 4 \<le> sz" for sz fs
    using members_fields_bound [OF that] by (simp flip: of_nat_mult)
  from assms(2) have "kind \<in> {1, 2, 3, 4, 5, 6, 7, 8, 9, 10, 11, 12, 13, 14, 15, 16, 17, 18, 19}"
    by (auto simp: kind_size_def split: if_splits)
  then show ?thesis using assms(1)
    by (elim insertE emptyE) (auto simp: str_fields_def checked_ids_def kind_size_def dest: b [of 8, simplified] b [of 12, simplified])
qed

definition str_end :: "btf \<Rightarrow> nat" where
  "str_end B = bh_str_len (bo_hdr (own B)) + bo_start_str_off (own B)"

text \<open>Each level on its own: sections, tiling, numbering.\<close>

definition secs_ok :: "btf_own \<Rightarrow> bool" where
  "secs_ok b \<longleftrightarrow> length (bo_strs_data b) = bh_str_len (bo_hdr b) \<and> (bo_strs_data b \<noteq> [] \<longrightarrow> last (bo_strs_data b) = 0) \<and>
     tiles (bo_types_data b) 0 (bo_type_offs b) (length (bo_types_data b))"

fun shaped :: "btf \<Rightarrow> bool" where
  "shaped (Btf b None) \<longleftrightarrow> bo_start_id b = 1 \<and> bo_start_str_off b = 0 \<and> bo_strs_data b \<noteq> [] \<and> secs_ok b"
| "shaped (Btf b (Some B)) \<longleftrightarrow> shaped B \<and> bo_start_id b = btf__type_cnt B \<and> bo_start_str_off b = str_end B \<and> secs_ok b"

definition type_ok :: "btf \<Rightarrow> type_ref \<Rightarrow> bool" where
  "type_ok B t \<longleftrightarrow> (\<exists>kind vlen. btf_kind t = Some kind \<and> btf_vlen t = Some vlen \<and> 0 \<le> kind_size kind vlen \<and>
     (\<forall>f \<in> set (str_fields kind vlen). \<exists>v. t_rd t f = Some v \<and> v < str_end B) \<and>
     (\<forall>f \<in> set (checked_ids kind vlen). \<exists>v. t_rd t f = Some v \<and> v < btf__type_cnt B) \<and>
     (kind = BTF_KIND_FUNC \<longrightarrow> (\<exists>v ft. t_rd t 8 = Some v \<and> btf_type_by_id B v = Some ft \<and> btf_kind ft = Some BTF_KIND_FUNC_PROTO)))"

definition types_ok :: "btf \<Rightarrow> bool" where
  "types_ok B \<longleftrightarrow> (\<forall>off \<in> set (bo_type_offs (own B)). type_ok B (T_at (bo_types_data (own B)) off))"

fun typed :: "btf \<Rightarrow> bool" where
  "typed (Btf b None) \<longleftrightarrow> types_ok (Btf b None)"
| "typed (Btf b (Some B)) \<longleftrightarrow> typed B \<and> types_ok (Btf b (Some B))"

definition wf_btf :: "btf \<Rightarrow> bool" where
  "wf_btf B \<longleftrightarrow> shaped B \<and> typed B"

lemma cnt_Btf [simp]: "btf__type_cnt (Btf b base) = bo_start_id b + length (bo_type_offs b)"
  by (simp add: btf__type_cnt_def)

lemma str_end_Btf [simp]: "str_end (Btf b base) = bh_str_len (bo_hdr b) + bo_start_str_off b"
  by (simp add: str_end_def)

lemma shaped_secs: "shaped (Btf b base) \<Longrightarrow> secs_ok b"
  by (cases base) auto

lemma shaped_cnt: "shaped B \<Longrightarrow> 1 \<le> btf__type_cnt B"
proof (induction B)
  case (Btf b base)
  then show ?case by (cases base) (auto simp: trans_le_add1)
qed

lemma btf_cstr_ok: "data \<noteq> [] \<Longrightarrow> last data = 0 \<Longrightarrow> off < length data \<Longrightarrow> btf_cstr (data, off) = Some (str_at data off)"
  by (metis btf_cstr.simps drop_eq_Nil last_drop last_in_set not_less)

lemma shaped_lookup:
  assumes "shaped B" and "i < btf__type_cnt B"
  shows "i = 0 \<and> btf_type_by_id B i = Some T_void \<or>
    0 < i \<and> (\<exists>types off sz. btf_type_by_id B i = Some (T_at types off) \<and> btf_type_size (T_at types off) = Some sz \<and>
      0 \<le> sz \<and> off + nat sz \<le> length types)"
  using assms
proof (induction B)
  case (Btf b base)
  show ?case
  proof (cases "i = 0 \<or> i < bo_start_id b")
    case True
    with Btf show ?thesis by (cases base) auto
  next
    case False
    let ?k = "i - bo_start_id b"
    from Btf.prems False have k: "?k < length (bo_type_offs b)" by auto
    moreover from shaped_secs [OF Btf.prems(1)] obtain sz where
      "btf_type_size (T_at (bo_types_data b) (bo_type_offs b ! ?k)) = Some sz" "0 \<le> sz"
      "bo_type_offs b ! ?k + nat sz \<le> length (bo_types_data b)"
      using k by (auto simp: secs_ok_def elim: tiles_member [OF _ nth_mem [OF k]])
    ultimately show ?thesis using False by auto
  qed
qed

lemma shaped_str:
  assumes "shaped B"
  shows "if v < str_end B then \<exists>s. btf__str_by_offset B v = Some (Some s) \<and> btf_cstr s \<noteq> None
    else btf__str_by_offset B v = Some None"
  using assms
proof (induction B)
  case (Btf b base)
  show ?case
  proof (cases "v < bo_start_str_off b")
    case True
    with Btf show ?thesis by (cases base) auto
  next
    case False
    from shaped_secs [OF Btf.prems] have len: "length (bo_strs_data b) = bh_str_len (bo_hdr b)"
      and nul: "bo_strs_data b \<noteq> [] \<longrightarrow> last (bo_strs_data b) = 0" by (simp_all add: secs_ok_def)
    show ?thesis
    proof (cases "v - bo_start_str_off b < bh_str_len (bo_hdr b)")
      case True
      then have "btf_cstr (bo_strs_data b, v - bo_start_str_off b) = Some (str_at (bo_strs_data b) (v - bo_start_str_off b))"
        using len nul by (intro btf_cstr_ok) auto
      with True False show ?thesis by (auto simp del: btf_cstr.simps)
    qed (use False in auto)
  qed
qed

lemma base_lookup:
  assumes "shaped (Btf b (Some B))"
  shows "i < btf__type_cnt B \<Longrightarrow> btf_type_by_id (Btf b (Some B)) i = btf_type_by_id B i"
    and "v < str_end B \<Longrightarrow> btf__str_by_offset (Btf b (Some B)) v = btf__str_by_offset B v"
  using assms by (cases B, auto)

lemma type_ok_lift:
  assumes "shaped (Btf b (Some B))" and "type_ok B t"
  shows "type_ok (Btf b (Some B)) t"
proof -
  from assms(1) have le: "btf__type_cnt B \<le> btf__type_cnt (Btf b (Some B))" "str_end B \<le> str_end (Btf b (Some B))" by simp_all
  from assms(2) obtain kind vlen where k: "btf_kind t = Some kind" "btf_vlen t = Some vlen" "0 \<le> kind_size kind vlen"
    and s: "\<forall>f \<in> set (str_fields kind vlen). \<exists>v. t_rd t f = Some v \<and> v < str_end B"
    and i: "\<forall>f \<in> set (checked_ids kind vlen). \<exists>v. t_rd t f = Some v \<and> v < btf__type_cnt B"
    and f: "kind = BTF_KIND_FUNC \<longrightarrow> (\<exists>v ft. t_rd t 8 = Some v \<and> btf_type_by_id B v = Some ft \<and> btf_kind ft = Some BTF_KIND_FUNC_PROTO)"
    unfolding type_ok_def by blast
  have "\<exists>v ft. t_rd t 8 = Some v \<and> btf_type_by_id (Btf b (Some B)) v = Some ft \<and> btf_kind ft = Some BTF_KIND_FUNC_PROTO"
    if kf: "kind = BTF_KIND_FUNC"
  proof -
    from i kf obtain v where "t_rd t 8 = Some v" "v < btf__type_cnt B" by (auto simp: checked_ids_def)
    with f kf base_lookup(1) [OF assms(1)] show ?thesis by (metis option.inject)
  qed
  moreover have "\<forall>f \<in> set (str_fields kind vlen). \<exists>v. t_rd t f = Some v \<and> v < str_end (Btf b (Some B))"
    using s le(2) by (meson less_le_trans)
  moreover have "\<forall>f \<in> set (checked_ids kind vlen). \<exists>v. t_rd t f = Some v \<and> v < btf__type_cnt (Btf b (Some B))"
    using i le(1) by (meson less_le_trans)
  ultimately show ?thesis using k unfolding type_ok_def by blast
qed

lemma typed_lookup:
  assumes "shaped B" and "typed B" and "btf_type_by_id B i = Some t" and "i < btf__type_cnt B"
  shows "i = 0 \<and> t = T_void \<or> 0 < i \<and> type_ok B t"
  using assms
proof (induction B)
  case (Btf b base)
  show ?case
  proof (cases "i = 0 \<or> i < bo_start_id b")
    case True
    show ?thesis
    proof (cases "i = 0")
      case True
      with Btf.prems show ?thesis by auto
    next
      case False
      with True Btf.prems obtain B where b: "base = Some B" "shaped B" "typed B" "btf_type_by_id B i = Some t" "i < btf__type_cnt B"
        by (cases base) auto
      with Btf.IH [of B] False have "type_ok B t" by simp
      with False type_ok_lift Btf.prems(1) show ?thesis by (simp add: b(1))
    qed
  next
    case False
    from Btf.prems False have k: "i - bo_start_id b < length (bo_type_offs b)" by auto
    from Btf.prems(2) have "types_ok (Btf b base)" by (cases base) auto
    with k False Btf.prems(3) show ?thesis by (auto simp: types_ok_def)
  qed
qed

section \<open>The sanity check establishes well-formedness\<close>

lemma validate_str_shaped:
  "shaped B \<Longrightarrow> btf_validate_str B v = Some (if v < str_end B then 0 else - EINVAL)"
  using shaped_str [of B v] by (auto simp: btf_validate_str_def split: if_splits)

lemma validate_id_shaped:
  "shaped B \<Longrightarrow> btf_validate_id B v = Some (if v < btf__type_cnt B then 0 else - EINVAL)"
  using shaped_lookup [of B v] by (auto simp: btf_validate_id_def btf__type_by_id_def)

lemma check_fields_total:
  assumes "\<forall>(check, f) \<in> set fs. \<exists>v e. t_rd t f = Some v \<and> check v = Some e"
  shows "\<exists>e. check_fields t fs = Some e \<and> (e = 0 \<longrightarrow> (\<forall>(check, f) \<in> set fs. \<exists>v. t_rd t f = Some v \<and> check v = Some 0))"
  using assms
proof (induction fs)
  case (Cons c fs)
  obtain check f where c: "c = (check, f)" by (cases c)
  with Cons.prems obtain v e where "t_rd t f = Some v" "check v = Some e" by auto
  with Cons c show ?case by (cases "e = 0") auto
qed simp

lemma member_checks_set: "(check, f) \<in> set (member_checks sz fs n) \<longleftrightarrow> (\<exists>i g. i < n \<and> (check, g) \<in> set fs \<and> f = 12 + i * sz + g)"
  by (force simp: member_checks_def)

lemma members_fields_set: "f \<in> set (members_fields sz gs n) \<longleftrightarrow> (\<exists>i g. i < n \<and> g \<in> set gs \<and> f = 12 + i * sz + g)"
  by (force simp: members_fields_def)

lemma field_checks_cover:
  assumes "0 \<le> kind_size kind n"
  obtains fs where "field_checks B kind n = Some fs"
    "\<And>c f. (c, f) \<in> set fs \<longleftrightarrow> (c = btf_validate_str B \<and> f \<in> set (tl (str_fields kind n))) \<or>
      (c = btf_validate_id B \<and> f \<in> set (checked_ids kind n))"
proof -
  from assms have "kind \<in> {1, 2, 3, 4, 5, 6, 7, 8, 9, 10, 11, 12, 13, 14, 15, 16, 17, 18, 19}"
    by (auto simp: kind_size_def split: if_splits)
  then show ?thesis
    by (elim insertE emptyE; intro that [of "the (field_checks B kind n)"])
      (auto simp: field_checks_def Let_def str_fields_def checked_ids_def member_checks_set members_fields_set)
qed

lemma readable:
  assumes "btf_type_size (T_at types off) = Some sz" and "off + nat sz \<le> length types" and "int f + 4 \<le> sz"
  shows "\<exists>v. t_rd (T_at types off) f = Some v"
  using assms by (simp add: rd_def)

lemma shaped_kind: "shaped B \<Longrightarrow> i < btf__type_cnt B \<Longrightarrow> \<exists>t k. btf_type_by_id B i = Some t \<and> btf_kind t = Some k"
  using shaped_lookup [of B i] by (auto simp: btf_kind_def btf_type_size_def split: bind_splits)

lemma validate_func_ok:
  assumes "shaped B" and "t_rd t 8 = Some v" and "v < btf__type_cnt B"
  shows "\<exists>e. validate_func B t = Some e \<and>
    (e = 0 \<longrightarrow> (\<exists>ft. btf_type_by_id B v = Some ft \<and> btf_kind ft = Some BTF_KIND_FUNC_PROTO))"
  using shaped_kind [OF assms(1,3)] assms(2,3) by (auto simp: validate_func_def t_type_def btf__type_by_id_def)

lemma validate_type_ok:
  assumes "shaped B" and t: "btf_type_size (T_at types off) = Some sz" "0 \<le> sz" "off + nat sz \<le> length types"
  shows "\<exists>e. btf_validate_type B (T_at types off) = Some e \<and> (e = 0 \<longrightarrow> type_ok B (T_at types off))"
proof -
  let ?t = "T_at types off"
  from t(1,2) obtain kind n where k: "btf_kind ?t = Some kind" "btf_vlen ?t = Some n" "sz = kind_size kind n" "12 \<le> sz"
    by (rule type_size_known)
  have r: "\<exists>v. t_rd ?t f = Some v" if "f \<in> set (str_fields kind n) \<or> f \<in> set (checked_ids kind n)" for f
    using checked_field_bound [OF that] t k(3) by (intro readable [OF t(1,3)]) auto
  obtain name where name: "t_rd ?t 0 = Some name" using r [of 0] by (auto simp: str_fields_def)
  obtain fs where fs: "field_checks B kind n = Some fs"
    "\<And>c f. (c, f) \<in> set fs \<longleftrightarrow> (c = btf_validate_str B \<and> f \<in> set (tl (str_fields kind n))) \<or>
      (c = btf_validate_id B \<and> f \<in> set (checked_ids kind n))"
    using field_checks_cover [of kind n B] t(2) k(3) by blast
  note vs = validate_str_shaped [OF assms(1)] and vi = validate_id_shaped [OF assms(1)]
  have str0: "f \<in> set (str_fields kind n) \<longleftrightarrow> f = 0 \<or> f \<in> set (tl (str_fields kind n))" for f by (auto simp: str_fields_def)
  have "\<forall>(c, f) \<in> set fs. \<exists>v e. t_rd ?t f = Some v \<and> c v = Some e" using r fs(2) vs vi str0 by fastforce
  from check_fields_total [OF this] obtain e where e: "check_fields ?t fs = Some e"
    and good: "e = 0 \<Longrightarrow> (c, f) \<in> set fs \<Longrightarrow> \<exists>v. t_rd ?t f = Some v \<and> c v = Some 0" for c f by blast
  have strs: "\<exists>v. t_rd ?t f = Some v \<and> v < str_end B" if "e = 0" "f \<in> set (tl (str_fields kind n))" for f
    using good [OF that(1), of "btf_validate_str B" f] fs(2) that(2) vs by (auto split: if_splits)
  have ids: "\<exists>v. t_rd ?t f = Some v \<and> v < btf__type_cnt B" if "e = 0" "f \<in> set (checked_ids kind n)" for f
    using good [OF that(1), of "btf_validate_id B" f] fs(2) that(2) vi by (auto split: if_splits)
  have func: "\<exists>e'. validate_func B ?t = Some e' \<and> (e' = 0 \<longrightarrow>
      (\<exists>v ft. t_rd ?t 8 = Some v \<and> btf_type_by_id B v = Some ft \<and> btf_kind ft = Some BTF_KIND_FUNC_PROTO))"
    if "e = 0" "kind = BTF_KIND_FUNC"
    using ids [OF that(1), of 8] that(2) validate_func_ok [OF assms(1), of ?t] by (fastforce simp: checked_ids_def)
  have val: "btf_validate_type B ?t = (if \<not> name < str_end B then Some (- EINVAL) else if e \<noteq> 0 then Some e
      else if kind = BTF_KIND_FUNC then validate_func B ?t else Some 0)"
    using name by (simp add: btf_validate_type_def k t_name_off_def vs validate_rest_def fs(1) e)
  show ?thesis
  proof (cases "name < str_end B \<and> e = 0")
    case True
    then have "type_ok B ?t" if "kind = BTF_KIND_FUNC \<longrightarrow> validate_func B ?t = Some 0"
      unfolding type_ok_def using that k t(2) strs ids func name str0 by fastforce
    with True func show ?thesis unfolding val by (cases "kind = BTF_KIND_FUNC") auto
  qed (simp add: val)
qed

lemma sanity_loop_ok:
  assumes "shaped B" and "\<forall>i \<in> set is'. 0 < i \<and> i < btf__type_cnt B"
  shows "\<exists>e. sanity_loop B is' = Some e \<and> (e = 0 \<longrightarrow> (\<forall>i \<in> set is'. \<exists>t. btf_type_by_id B i = Some t \<and> type_ok B t))"
  using assms(2)
proof (induction is')
  case (Cons i is')
  then obtain types off sz where "btf_type_by_id B i = Some (T_at types off)" "btf_type_size (T_at types off) = Some sz"
    "0 \<le> sz" "off + nat sz \<le> length types" using shaped_lookup [OF assms(1), of i] by auto
  with validate_type_ok [OF assms(1)] Cons show ?case by fastforce
qed simp

lemma sanity_check_ok:
  assumes "shaped (Btf b base)" and "\<forall>B. base = Some B \<longrightarrow> typed B"
  shows "\<exists>e. btf_sanity_check (Btf b base) = Some e \<and> (e = 0 \<longrightarrow> wf_btf (Btf b base))"
proof -
  let ?B = "Btf b base"
  have s: "0 < bo_start_id b" using assms(1) shaped_cnt by (cases base) fastforce+
  then obtain e where e: "btf_sanity_check ?B = Some e"
    "e = 0 \<longrightarrow> (\<forall>i \<in> set [bo_start_id b..<btf__type_cnt ?B]. \<exists>t. btf_type_by_id ?B i = Some t \<and> type_ok ?B t)"
    using sanity_loop_ok [OF assms(1), of "[bo_start_id b..<btf__type_cnt ?B]"] by (auto simp: btf_sanity_check_def)
  have "types_ok ?B" if "e = 0"
    unfolding types_ok_def
  proof
    fix off assume "off \<in> set (bo_type_offs (own ?B))"
    then obtain k where k: "k < length (bo_type_offs b)" "off = bo_type_offs b ! k" by (auto simp: in_set_conv_nth)
    moreover from k(1) have "bo_start_id b + k \<in> set [bo_start_id b..<btf__type_cnt ?B]" by simp
    ultimately have "\<exists>t. btf_type_by_id ?B (bo_start_id b + k) = Some t \<and> type_ok ?B t" using e(2) that by blast
    with k s show "type_ok ?B (T_at (bo_types_data (own ?B)) off)" by simp
  qed
  with assms e(1) show ?thesis by (cases base) (auto simp: wf_btf_def)
qed

text \<open>Sorting only notes where the names start.\<close>

lemma named_irrelevant:
  "btf_type_by_id (Btf (b\<lparr>bo_named_start_id := n\<rparr>) base) i = btf_type_by_id (Btf b base) i"
  "btf__str_by_offset (Btf (b\<lparr>bo_named_start_id := n\<rparr>) base) v = btf__str_by_offset (Btf b base) v"
  by simp_all

lemma type_name_ok:
  assumes "wf_btf B" and "0 < i" and "i < btf__type_cnt B"
  shows "\<exists>s. type_name B i = Some s"
proof -
  from assms shaped_lookup [of B i] obtain t where t: "btf_type_by_id B i = Some t" by (auto simp: wf_btf_def)
  with assms typed_lookup [of B i t] have "type_ok B t" by (simp add: wf_btf_def)
  then obtain v where "t_rd t 0 = Some v" "v < str_end B" by (auto simp: type_ok_def str_fields_def)
  with t shaped_str [of B v] assms(1) show ?thesis by (auto simp: type_name_def t_name_off_def wf_btf_def)
qed

lemma sorted_loop_total:
  "wf_btf B \<Longrightarrow> \<forall>i \<in> set is'. 1 < i \<and> i < btf__type_cnt B \<Longrightarrow> \<exists>r. sorted_loop B n is' = Some r"
proof (induction is' arbitrary: n)
  case (Cons i is')
  from Cons.prems have "0 < i - 1" "i - 1 < btf__type_cnt B" "0 < i" "i < btf__type_cnt B" by auto
  then obtain na nb where "type_name B (i - 1) = Some na" "type_name B i = Some nb"
    using type_name_ok [OF Cons.prems(1)] by blast
  with Cons show ?case by (simp add: Let_def)
qed simp

lemma wf_named: "wf_btf (Btf (b\<lparr>bo_named_start_id := n\<rparr>) base) = wf_btf (Btf b base)"
proof -
  have "type_ok (Btf (b\<lparr>bo_named_start_id := n\<rparr>) base) = type_ok (Btf b base)"
    unfolding type_ok_def named_irrelevant by (simp add: fun_eq_iff)
  then have "types_ok (Btf (b\<lparr>bo_named_start_id := n\<rparr>) base) = types_ok (Btf b base)" by (simp add: types_ok_def)
  then show ?thesis by (cases base) (simp_all add: wf_btf_def secs_ok_def)
qed

lemma check_sorted_ok:
  assumes "wf_btf (Btf b base)"
  shows "\<exists>n. btf_check_sorted (Btf b base) = Some (Btf (b\<lparr>bo_named_start_id := n\<rparr>) base) \<or>
    btf_check_sorted (Btf b base) = Some (Btf b base)"
proof -
  have "1 \<le> bo_start_id b" using assms shaped_cnt by (cases base) (auto simp: wf_btf_def)
  then obtain r where "sorted_loop (Btf b base) 0 [bo_start_id b + 1..<btf__type_cnt (Btf b base)] = Some r"
    using sorted_loop_total [OF assms] by fastforce
  then show ?thesis by (cases r) (auto simp: btf_check_sorted_def)
qed

section \<open>The header\<close>

lemma hdr_total: "24 \<le> length raw \<Longrightarrow> \<exists>h. btf_hdr_at raw = Some h"
  by (simp add: btf_hdr_at_def rd_def)

lemma bswap_hdr_ok:
  assumes "24 \<le> length raw"
  shows "\<exists>raw'. btf_bswap_hdr raw = Some raw' \<and> length raw' = length raw"
proof -
  obtain raw1 where r1: "bswap_at 2 0 raw = Some raw1" using assms by (simp add: bswap_at_ok)
  then have l: "length raw1 = length raw" by (rule length_bswap_at)
  with assms obtain raw2 where r2: "bswap_all [4, 8, 12, 16, 20] raw1 = Some raw2"
    using bswap_all_ok [of "[4, 8, 12, 16, 20]" raw1] by auto
  with length_bswap_all [OF r2] l show ?thesis by (simp add: btf_bswap_hdr_def r1 del: bswap_all.simps)
qed

lemma parse_hdr_ok:
  assumes "\<not> read_only \<or> rd 2 raw 0 \<noteq> Some (bswap 2 BTF_MAGIC)"
  shows "(\<exists>e. btf_parse_hdr read_only raw = Some (Inl e) \<and> e < 0) \<or>
    (\<exists>swapped raw' h. btf_parse_hdr read_only raw = Some (Inr (swapped, raw')) \<and> btf_hdr_at raw' = Some h \<and>
      bh_hdr_len h + bh_str_off h + bh_str_len h \<le> length raw' \<and> bh_type_off h + bh_type_len h \<le> bh_str_off h)"
proof (cases "length raw < 24")
  case False
  then obtain h0 where h0: "btf_hdr_at raw = Some h0" using hdr_total [of raw] by auto
  then have m: "rd 2 raw 0 = Some (bh_magic h0)" by (auto simp: btf_hdr_at_def split: bind_splits)
  obtain raw' where b: "btf_bswap_hdr raw = Some raw'" "length raw' = length raw" using False bswap_hdr_ok [of raw] by auto
  obtain h' where h': "btf_hdr_at raw' = Some h'" using False b hdr_total [of raw'] by auto
  show ?thesis
  proof (cases "bh_magic h0 = bswap 2 BTF_MAGIC")
    case True
    with assms m have "\<not> read_only" by simp
    with True False show ?thesis by (auto simp: btf_parse_hdr_def h0 h' b)
  next
    case False': False
    with False show ?thesis by (auto simp: btf_parse_hdr_def h0)
  qed
qed (simp add: btf_parse_hdr_def)

lemma str_sec_ok:
  "\<exists>e. btf_parse_str_sec split strs = Some e \<and>
    (e = 0 \<longrightarrow> (strs \<noteq> [] \<longrightarrow> last strs = 0) \<and> (\<not> split \<longrightarrow> strs \<noteq> []))"
proof (cases "strs = []")
  case False
  obtain xs x where "strs = xs @ [x]" using False by (cases strs rule: rev_cases) auto
  then have "rd 1 strs (length strs - 1) = Some (unat (last strs))" by (simp add: rd_def)
  moreover have "rd 1 strs 0 = Some (unat (hd strs))" using False by (cases strs) (simp_all add: rd_def)
  ultimately have "rd 1 strs (length strs - 1) = Some (unat (last strs)) \<and> rd 1 strs 0 = Some (unat (hd strs))" ..
  with False show ?thesis by (auto simp: btf_parse_str_sec_def unat_eq_zero)
qed (simp add: btf_parse_str_sec_def)

section \<open>Loading is safe\<close>

lemma btf_new_total:
  assumes "\<forall>B. base = Some B \<longrightarrow> wf_btf B"
    and "\<not> is_mmap \<or> rd 2 data 0 \<noteq> Some (bswap 2 BTF_MAGIC)"
  shows "\<exists>r. btf_new calloc_ok malloc_ok idx_ok data base is_mmap = Some r \<and>
    (\<forall>B. r = Inr B \<longrightarrow> wf_btf B \<and> base_btf B = base)"
proof (cases "calloc_ok \<and> (is_mmap \<or> malloc_ok)")
  case True
  from parse_hdr_ok [OF assms(2)] consider (bad) e where "btf_parse_hdr is_mmap data = Some (Inl e)"
    | (good) swapped raw h where "btf_parse_hdr is_mmap data = Some (Inr (swapped, raw))" "btf_hdr_at raw = Some h"
      "bh_hdr_len h + bh_str_off h + bh_str_len h \<le> length raw" "bh_type_off h + bh_type_len h \<le> bh_str_off h"
    by blast
  then show ?thesis
  proof cases
    case bad
    with True show ?thesis by (auto simp: btf_new_def)
  next
    case good
    let ?strs = "take (bh_str_len h) (drop (bh_hdr_len h + bh_str_off h) raw)"
    let ?types = "take (bh_type_len h) (drop (bh_hdr_len h + bh_type_off h) raw)"
    have len: "length ?strs = bh_str_len h" using good(3) by simp
    obtain e1 where e1: "btf_parse_str_sec (base \<noteq> None) ?strs = Some e1"
      "e1 = 0 \<longrightarrow> (?strs \<noteq> [] \<longrightarrow> last ?strs = 0) \<and> (\<not> base \<noteq> None \<longrightarrow> ?strs \<noteq> [])"
      using str_sec_ok [of "base \<noteq> None" ?strs] by blast
    define B where "B = (\<lambda>offs ts. btf_object h swapped ts offs ?strs base)"
    have new: "btf_new calloc_ok malloc_ok idx_ok data base is_mmap =
      (if e1 \<noteq> 0 then Some (Inl e1)
       else do { secs \<leftarrow> btf_parse_type_sec swapped idx_ok 0 [] ?types;
                 case secs of Inl e \<Rightarrow> Some (Inl e)
                 | Inr (offs, ts) \<Rightarrow> do { err \<leftarrow> btf_sanity_check (B offs ts);
                     if err \<noteq> 0 then Some (Inl err) else map_option Inr (btf_check_sorted (B offs ts)) } })"
    proof -
      from True have m: "\<not> \<not> calloc_ok" "\<not> (\<not> is_mmap \<and> \<not> malloc_ok)" by auto
      show ?thesis unfolding btf_new_def Let_def B_def
        by (simp only: m if_False good(1,2) e1(1) bind.bind_lunit sum.case prod.case)
    qed
    from parse_type_sec_ok [of 0 ?types "[]" swapped idx_ok]
    consider (err) e where "btf_parse_type_sec swapped idx_ok 0 [] ?types = Some (Inl e)"
      | (ok) offs ts where "btf_parse_type_sec swapped idx_ok 0 [] ?types = Some (Inr (offs, ts))" "tiles ts 0 offs (length ts)"
      by auto
    then show ?thesis
    proof cases
      case err
      then show ?thesis by (simp add: new)
    next
      case ok
      show ?thesis
      proof (cases "e1 = 0")
        case True
        let ?b = "own (B offs ts)"
        have "shaped (Btf ?b base)"
          using e1(2) len ok(2) True assms(1)
          by (cases base) (auto simp: B_def btf_object_def secs_ok_def wf_btf_def str_end_def simp del: length_take)
        moreover have "\<forall>B. base = Some B \<longrightarrow> typed B" using assms(1) by (simp add: wf_btf_def)
        ultimately obtain e2 where e2: "btf_sanity_check (Btf ?b base) = Some e2" "e2 = 0 \<longrightarrow> wf_btf (Btf ?b base)"
          using sanity_check_ok by blast
        have Bb: "B offs ts = Btf ?b base" by (simp add: B_def btf_object_def)
        show ?thesis
        proof (cases "e2 = 0")
          case e20: True
          with e2 have wf: "wf_btf (Btf ?b base)" by simp
          from check_sorted_ok [OF wf] wf wf_named [where b = "?b" and base = base]
          obtain B' where B': "btf_check_sorted (Btf ?b base) = Some B'" "wf_btf B'" "base_btf B' = base" by force
          have "btf_sanity_check (B offs ts) = Some 0" "btf_check_sorted (B offs ts) = Some B'"
            using e2(1) e20 B'(1) by (simp_all flip: Bb)
          with True ok(1) B'(2,3) show ?thesis by (simp add: new)
        next
          case False
          have "btf_sanity_check (B offs ts) = Some e2" using e2(1) by (simp flip: Bb)
          with False ok(1) True show ?thesis by (simp add: new)
        qed
      qed (simp add: new)
    qed
  qed
qed (auto simp: btf_new_def)

section \<open>Images\<close>

text \<open>The bytes of an object: header, types, strings.\<close>

definition image_hdr_bytes :: "nat \<Rightarrow> nat \<Rightarrow> 8 word list" where
  "image_hdr_bytes t s =
     le_bytes 2 BTF_MAGIC @ [1, 0] @ le_bytes 4 24 @ le_bytes 4 0 @ le_bytes 4 t @ le_bytes 4 t @ le_bytes 4 s"

definition btf_image :: "8 word list \<Rightarrow> 8 word list \<Rightarrow> 8 word list" where
  "btf_image types strs = image_hdr_bytes (length types) (length strs) @ types @ strs"

lemma length_image_hdr_bytes [simp]: "length (image_hdr_bytes t s) = 24"
  by (simp add: image_hdr_bytes_def)

definition image_hdr :: "nat \<Rightarrow> nat \<Rightarrow> btf_header" where
  "image_hdr t s = \<lparr>bh_magic = BTF_MAGIC, bh_version = 1, bh_flags = 0, bh_hdr_len = 24, bh_type_off = 0, bh_type_len = t,
     bh_str_off = t, bh_str_len = s\<rparr>"

lemma length_btf_image: "length (btf_image types strs) = 24 + length types + length strs"
  by (simp add: btf_image_def)

lemma image_hdr_read:
  assumes "length types < 2 ^ 32" and "length strs < 2 ^ 32"
  shows "btf_hdr_at (btf_image types strs) = Some (image_hdr (length types) (length strs))"
proof -
  have "BTF_MAGIC < 256 ^ 2" by (simp add: BTF_MAGIC_def)
  with assms show ?thesis
    by (simp add: btf_hdr_at_def btf_image_def image_hdr_bytes_def image_hdr_def bytes_simps)
      (simp add: rd_def le_val_le_bytes)
qed

lemma le_bytes_2: "le_bytes 2 n = [of_nat n, of_nat (n div 256)]"
  by (simp add: numeral_2_eq_2)

lemma bswap_magic: "bswap 2 BTF_MAGIC = 0x9FEB"
  by (simp add: bswap_def BTF_MAGIC_def le_bytes_2)

lemma parse_hdr_image:
  assumes "length types < 2 ^ 32" and "length strs < 2 ^ 32"
  shows "btf_parse_hdr read_only (btf_image types strs) = Some (Inr (False, btf_image types strs))"
proof -
  have "BTF_MAGIC \<noteq> bswap 2 BTF_MAGIC" unfolding bswap_magic by (simp add: BTF_MAGIC_def)
  then show ?thesis
    by (simp add: btf_parse_hdr_def image_hdr_read [OF assms] length_btf_image) (simp add: image_hdr_def)
qed

lemma new_image:
  assumes "length types < 2 ^ 32" and "length strs < 2 ^ 32" and "btf_parse_str_sec (base \<noteq> None) strs = Some 0"
    and "btf_parse_type_sec False idx_ok 0 [] types = Some (Inr (offs, types))"
  shows "btf_new True True idx_ok (btf_image types strs) base is_mmap =
    (let B = btf_object (image_hdr (length types) (length strs)) False types offs strs base
     in do { err \<leftarrow> btf_sanity_check B; if err \<noteq> 0 then Some (Inl err) else map_option Inr (btf_check_sorted B) })"
proof -
  let ?h = "image_hdr (length types) (length strs)"
  have "take (bh_str_len ?h) (drop (bh_hdr_len ?h + bh_str_off ?h) (btf_image types strs)) = strs"
    and "take (bh_type_len ?h) (drop (bh_hdr_len ?h + bh_type_off ?h) (btf_image types strs)) = types"
    by (simp_all add: btf_image_def image_hdr_def)
  with assms(3,4) show ?thesis
    by (simp only: btf_new_def parse_hdr_image [OF assms(1,2)] image_hdr_read [OF assms(1,2)] Let_def bind.bind_lunit
        sum.case prod.case simp_thms if_True if_False HOL.refl)
qed

text \<open>An integer type \<open>int\<close> and a pointer to it.\<close>

definition demo_types :: "8 word list" where
  "demo_types =
     [1, 0, 0, 0, 0, 0, 0, 1, 4, 0, 0, 0, 32, 0, 0, 1,
      0, 0, 0, 0, 0, 0, 0, 2, 1, 0, 0, 0]"

definition demo_strs :: "8 word list" where
  "demo_strs = [0, 105, 110, 116, 0]"

lemma demo_parse: "btf_parse_type_sec False (\<lambda>_. True) 0 [] demo_types = Some (Inr ([0, 16], demo_types))"
proof -
  note eval = parse_type_def btf_type_size_def btf_kind_def btf_vlen_def rd_def BTF_INFO_KIND_def BTF_INFO_VLEN_def kind_size_def
  have len: "length demo_types = 28" by (simp add: demo_types_def)
  have "parse_type False True 0 demo_types = Some (Inr (16, demo_types))" by (simp add: eval demo_types_def)
  moreover have "parse_type False True 16 demo_types = Some (Inr (28, demo_types))" by (simp add: eval demo_types_def)
  moreover have "btf_parse_type_sec False (\<lambda>_. True) 28 [0, 16] demo_types = Some (Inr ([0, 16], demo_types))"
    by (simp add: btf_parse_type_sec.simps [of _ _ 28] len)
  ultimately have "btf_parse_type_sec False (\<lambda>_. True) 16 [0] demo_types = Some (Inr ([0, 16], demo_types))"
    "parse_type False True 0 demo_types = Some (Inr (16, demo_types))"
    by (simp_all add: btf_parse_type_sec.simps [of _ _ 16] len)
  then show ?thesis by (simp add: btf_parse_type_sec.simps [of _ _ 0] len)
qed

definition demo_own :: btf_own where
  "demo_own = \<lparr>bo_hdr = image_hdr 28 5, bo_swapped_endian = False, bo_types_data = demo_types, bo_type_offs = [0, 16],
     bo_named_start_id = 0, bo_start_id = 1, bo_start_str_off = 0, bo_strs_data = demo_strs, bo_ptr_sz = 0\<rparr>"

lemma demo_valid:
  "btf_validate_type (Btf demo_own None) (T_at demo_types 0) = Some 0"
  "btf_validate_type (Btf demo_own None) (T_at demo_types 16) = Some 0"
  by (simp_all add: btf_validate_type_def btf_kind_def btf_vlen_def t_name_off_def rd_def demo_types_def BTF_INFO_KIND_def
      BTF_INFO_VLEN_def validate_rest_def field_checks_def Let_def btf_validate_str_def btf_validate_id_def demo_own_def
      image_hdr_def btf__type_by_id_def)

lemma demo_names:
  "type_name (Btf demo_own None) 1 = Some [105, 110, 116]" "type_name (Btf demo_own None) 2 = Some []"
  by (simp_all add: type_name_def t_name_off_def rd_def demo_own_def demo_types_def demo_strs_def image_hdr_def str_at_def)

lemma demo_loads: "btf_new True True (\<lambda>_. True) (btf_image demo_types demo_strs) None is_mmap = Some (Inr (Btf demo_own None))"
proof -
  have len: "length demo_types = 28" "length demo_strs = 5" by (simp_all add: demo_types_def demo_strs_def)
  have s: "btf_parse_str_sec (None \<noteq> None) demo_strs = Some 0"
    by (simp add: btf_parse_str_sec_def demo_strs_def rd_def BTF_MAX_STR_OFFSET_def)
  have ids: "[bo_start_id demo_own..<btf__type_cnt (Btf demo_own None)] = [1, 2]"
    "[bo_start_id demo_own + 1..<btf__type_cnt (Btf demo_own None)] = [2]" by (simp_all add: demo_own_def)
  have "btf_type_by_id (Btf demo_own None) 1 = Some (T_at demo_types 0)"
    "btf_type_by_id (Btf demo_own None) 2 = Some (T_at demo_types 16)" by (simp_all add: demo_own_def)
  then have "btf_sanity_check (Btf demo_own None) = Some 0"
    unfolding btf_sanity_check_def btf.sel ids by (simp add: demo_valid)
  moreover have "btf_check_sorted (Btf demo_own None) = Some (Btf demo_own None)"
    unfolding btf_check_sorted_def btf.sel ids using demo_names by simp
  moreover have "btf_object (image_hdr 28 5) False demo_types [0, 16] demo_strs None = Btf demo_own None"
    by (simp add: btf_object_def demo_own_def)
  moreover have "btf_new True True (\<lambda>_. True) (btf_image demo_types demo_strs) None is_mmap =
    (let B = btf_object (image_hdr (length demo_types) (length demo_strs)) False demo_types [0, 16] demo_strs None
     in do { err \<leftarrow> btf_sanity_check B; if err \<noteq> 0 then Some (Inl err) else map_option Inr (btf_check_sorted B) })"
    by (rule new_image) (use demo_parse s in \<open>simp_all add: len\<close>)
  ultimately show ?thesis by (simp add: len Let_def)
qed

lemma demo_wf: "wf_btf (Btf demo_own None)"
  using btf_new_total [of None False "btf_image demo_types demo_strs" True True "\<lambda>_. True"] by (simp add: demo_loads)

text \<open>The type \<open>const int\<close> on top of it.\<close>

definition demo_split :: "8 word list" where
  "demo_split = [0, 0, 0, 0, 0, 0, 0, 10, 1, 0, 0, 0]"



end
