(* ===== verification/BtfQuery.thy ===== *)
theory BtfQuery
  imports BtfData
begin

text \<open>
  Reading loaded type information: the iterator over the type ids and the strings of a type
  (\<^verbatim>\<open>libbpf/src/btf_iter.c\<close>), and from \<^verbatim>\<open>libbpf/src/btf.c\<close> the sizes, the resolution of names for types,
  alignments and the size of a pointer.
\<close>

section \<open>The iterator over the fields of a type\<close>

record btf_field_desc =
  fd_t_offs :: "nat list"
  fd_m_sz :: nat
  fd_m_offs :: "nat list"

datatype btf_field_iter_kind = BTF_FIELD_ITER_IDS | BTF_FIELD_ITER_STRS

text \<open>The pointer \<open>it_p\<close> counts from the start of the type; \<open>it_m_idx\<close> is -1 before the members.\<close>

record btf_field_iter =
  it_desc :: btf_field_desc
  it_p :: "nat option"
  it_m_idx :: int
  it_off_idx :: nat
  it_vlen :: nat

abbreviation no_fields :: btf_field_desc where
  "no_fields \<equiv> \<lparr>fd_t_offs = [], fd_m_sz = 0, fd_m_offs = []\<rparr>"

definition ids_desc :: "nat \<Rightarrow> btf_field_desc option" where
  "ids_desc kind =
     (if kind \<in> {BTF_KIND_UNKN, BTF_KIND_INT, BTF_KIND_FLOAT, BTF_KIND_ENUM, BTF_KIND_ENUM64} then Some no_fields
      else if kind \<in> {BTF_KIND_FWD, BTF_KIND_CONST, BTF_KIND_VOLATILE, BTF_KIND_RESTRICT, BTF_KIND_PTR, BTF_KIND_TYPEDEF,
        BTF_KIND_FUNC, BTF_KIND_VAR, BTF_KIND_DECL_TAG, BTF_KIND_TYPE_TAG} then Some \<lparr>fd_t_offs = [8], fd_m_sz = 0, fd_m_offs = []\<rparr>
      else if kind = BTF_KIND_ARRAY then Some \<lparr>fd_t_offs = [12 + 0, 12 + 4], fd_m_sz = 0, fd_m_offs = []\<rparr>
      else if kind \<in> {BTF_KIND_STRUCT, BTF_KIND_UNION} then Some \<lparr>fd_t_offs = [], fd_m_sz = 12, fd_m_offs = [4]\<rparr>
      else if kind = BTF_KIND_FUNC_PROTO then Some \<lparr>fd_t_offs = [8], fd_m_sz = 8, fd_m_offs = [4]\<rparr>
      else if kind = BTF_KIND_DATASEC then Some \<lparr>fd_t_offs = [], fd_m_sz = 12, fd_m_offs = [0]\<rparr>
      else None)"

definition strs_desc :: "nat \<Rightarrow> btf_field_desc option" where
  "strs_desc kind =
     (if kind = BTF_KIND_UNKN then Some no_fields
      else if kind \<in> {BTF_KIND_INT, BTF_KIND_FLOAT, BTF_KIND_FWD, BTF_KIND_ARRAY, BTF_KIND_CONST, BTF_KIND_VOLATILE,
        BTF_KIND_RESTRICT, BTF_KIND_PTR, BTF_KIND_TYPEDEF, BTF_KIND_FUNC, BTF_KIND_VAR, BTF_KIND_DECL_TAG,
        BTF_KIND_TYPE_TAG, BTF_KIND_DATASEC} then Some \<lparr>fd_t_offs = [0], fd_m_sz = 0, fd_m_offs = []\<rparr>
      else if kind = BTF_KIND_ENUM then Some \<lparr>fd_t_offs = [0], fd_m_sz = 8, fd_m_offs = [0]\<rparr>
      else if kind = BTF_KIND_ENUM64 then Some \<lparr>fd_t_offs = [0], fd_m_sz = 12, fd_m_offs = [0]\<rparr>
      else if kind \<in> {BTF_KIND_STRUCT, BTF_KIND_UNION} then Some \<lparr>fd_t_offs = [0], fd_m_sz = 12, fd_m_offs = [0]\<rparr>
      else if kind = BTF_KIND_FUNC_PROTO then Some \<lparr>fd_t_offs = [0], fd_m_sz = 8, fd_m_offs = [0]\<rparr>
      else None)"

definition btf_field_iter_init :: "type_ref \<Rightarrow> btf_field_iter_kind \<Rightarrow> (int + btf_field_iter) option" where
  "btf_field_iter_init t iter_kind =
     do { kind \<leftarrow> btf_kind t; vlen \<leftarrow> btf_vlen t;
          case (case iter_kind of BTF_FIELD_ITER_IDS \<Rightarrow> ids_desc kind | BTF_FIELD_ITER_STRS \<Rightarrow> strs_desc kind) of
            None \<Rightarrow> Some (Inl (- EINVAL))
          | Some desc \<Rightarrow> Some (Inr \<lparr>it_desc = desc, it_p = Some 0, it_m_idx = - 1, it_off_idx = 0,
              it_vlen = (if fd_m_sz desc \<noteq> 0 then vlen else 0)\<rparr>) }"

text \<open>The part of a step that goes over the members.\<close>

definition iter_member :: "btf_field_iter \<Rightarrow> nat \<Rightarrow> nat option \<times> btf_field_iter" where
  "iter_member it p =
     (if fd_m_sz (it_desc it) = 0 then (None, it\<lparr>it_p := None\<rparr>)
      else let (p, it) = (if it_off_idx it \<ge> length (fd_m_offs (it_desc it))
                 then (p + fd_m_sz (it_desc it), it\<lparr>it_m_idx := it_m_idx it + 1, it_off_idx := 0\<rparr>) else (p, it))
           in if it_m_idx it < int (it_vlen it)
              then (Some (p + fd_m_offs (it_desc it) ! it_off_idx it), it\<lparr>it_p := Some p, it_off_idx := it_off_idx it + 1\<rparr>)
              else (None, it\<lparr>it_p := None\<rparr>))"

definition btf_field_iter_next :: "btf_field_iter \<Rightarrow> nat option \<times> btf_field_iter" where
  "btf_field_iter_next it =
     (case it_p it of
        None \<Rightarrow> (None, it)
      | Some p \<Rightarrow>
          if it_m_idx it < 0
          then (if it_off_idx it < length (fd_t_offs (it_desc it))
                then (Some (p + fd_t_offs (it_desc it) ! it_off_idx it), it\<lparr>it_off_idx := it_off_idx it + 1\<rparr>)
                else iter_member (it\<lparr>it_m_idx := 0, it_off_idx := 0\<rparr>) (p + 12))
          else iter_member it p)"

text \<open>The loop over an iterator; \<open>n\<close> bounds the steps.\<close>

fun iter_all :: "nat \<Rightarrow> btf_field_iter \<Rightarrow> nat list" where
  "iter_all 0 it = []"
| "iter_all (Suc n) it = (case btf_field_iter_next it of (None, _) \<Rightarrow> [] | (Some f, it') \<Rightarrow> f # iter_all n it')"

section \<open>Sizes and resolution\<close>

definition MAX_RESOLVE_DEPTH :: nat where "MAX_RESOLVE_DEPTH = 32"
definition UINT32_MAX :: nat where "UINT32_MAX = 2 ^ 32 - 1"

fun btf_type_is_void :: "type_ref \<Rightarrow> bool option" where
  "btf_type_is_void T_void = Some True"
| "btf_type_is_void (T_at buf off) = map_option (\<lambda>k. k = BTF_KIND_FWD) (btf_kind (T_at buf off))"

definition btf_type_is_void_or_null :: "type_ref option \<Rightarrow> bool option" where
  "btf_type_is_void_or_null t = (case t of None \<Rightarrow> Some True | Some t \<Rightarrow> btf_type_is_void t)"

definition btf_is_mod :: "nat \<Rightarrow> bool" where
  "btf_is_mod kind \<longleftrightarrow> kind \<in> {BTF_KIND_VOLATILE, BTF_KIND_CONST, BTF_KIND_RESTRICT, BTF_KIND_TYPE_TAG}"

text \<open>\<open>long\<close>, \<open>long int\<close>, \<open>int long\<close>, \<open>unsigned long\<close>, \<open>long unsigned\<close> and the six orders of three words.\<close>

definition ascii :: "string \<Rightarrow> 8 word list" where
  "ascii s = map (\<lambda>c. of_nat (of_char c)) s"

definition long_aliases :: "8 word list list" where
  "long_aliases = map ascii [''long'', ''long int'', ''int long'', ''unsigned long'', ''long unsigned'',
     ''unsigned long int'', ''unsigned int long'', ''long unsigned int'', ''long int unsigned'',
     ''int unsigned long'', ''int long unsigned'']"

text \<open>One turn of the search for a type like \<open>long\<close>: its size.\<close>

definition long_size :: "btf \<Rightarrow> nat \<Rightarrow> nat option option" where
  "long_size B i =
     do { t \<leftarrow> btf__type_by_id B i;
          case t of None \<Rightarrow> None
          | Some t \<Rightarrow>
              do { kind \<leftarrow> btf_kind t; sz \<leftarrow> t_type t;
                   if kind \<noteq> BTF_KIND_INT \<or> sz \<noteq> 4 \<and> sz \<noteq> 8 then Some None
                   else do { name \<leftarrow> t_name_off t; s \<leftarrow> btf__str_by_offset B name;
                             case s of None \<Rightarrow> Some None
                             | Some s \<Rightarrow> do { name \<leftarrow> btf_cstr s;
                                               Some (if name \<in> set long_aliases then Some sz else None) } } } }"

fun ptr_size_loop :: "btf \<Rightarrow> nat list \<Rightarrow> int option" where
  "ptr_size_loop B [] = Some (- 1)"
| "ptr_size_loop B (i # is') =
     do { r \<leftarrow> long_size B i; case r of Some sz \<Rightarrow> Some (int sz) | None \<Rightarrow> ptr_size_loop B is' }"

definition determine_ptr_size :: "btf \<Rightarrow> int option" where
  "determine_ptr_size B =
     (case base_btf B of
        Some B' \<Rightarrow> if bo_ptr_sz (own B') > 0 then Some (bo_ptr_sz (own B')) else ptr_size_loop B [1..<btf__type_cnt B]
      | None \<Rightarrow> ptr_size_loop B [1..<btf__type_cnt B])"

definition set_ptr_sz :: "int \<Rightarrow> btf \<Rightarrow> btf" where
  "set_ptr_sz p B = Btf ((own B)\<lparr>bo_ptr_sz := p\<rparr>) (base_btf B)"

text \<open>The sz that is known, or is found out and noted.\<close>

definition known_ptr_sz :: "btf \<Rightarrow> (int \<times> btf) option" where
  "known_ptr_sz B =
     (if bo_ptr_sz (own B) = 0 then do { p \<leftarrow> determine_ptr_size B; Some (p, set_ptr_sz p B) }
      else Some (bo_ptr_sz (own B), B))"

definition btf_ptr_sz :: "btf \<Rightarrow> (nat \<times> btf) option" where
  "btf_ptr_sz B = do { (p, B') \<leftarrow> known_ptr_sz B; Some (if p < 0 then 8 else nat p, B') }"

definition btf__pointer_size :: "btf \<Rightarrow> (nat \<times> btf) option" where
  "btf__pointer_size B = do { (p, B') \<leftarrow> known_ptr_sz B; Some (if p < 0 then 0 else nat p, B') }"

definition btf__set_pointer_size :: "nat \<Rightarrow> btf \<Rightarrow> int \<times> btf" where
  "btf__set_pointer_size ptr_sz B =
     (if ptr_sz \<noteq> 4 \<and> ptr_sz \<noteq> 8 then (- EINVAL, B) else (0, set_ptr_sz (int ptr_sz) B))"

text \<open>The loop of \<^verbatim>\<open>btf__resolve_size\<close>: \<open>Inr\<close> is the sz it ends with, -1 for none, and the number of elements.\<close>

fun resolve_size_loop :: "nat \<Rightarrow> btf \<Rightarrow> type_ref option \<Rightarrow> nat \<Rightarrow> (int + int \<times> nat \<times> btf) option" where
  "resolve_size_loop 0 B t nelems = Some (Inr (- 1, nelems, B))"
| "resolve_size_loop (Suc n) B t nelems =
     do { stop \<leftarrow> btf_type_is_void_or_null t;
          if stop then Some (Inr (- 1, nelems, B))
          else do {
            t \<leftarrow> t; kind \<leftarrow> btf_kind t;
            if kind \<in> {BTF_KIND_INT, BTF_KIND_STRUCT, BTF_KIND_UNION, BTF_KIND_ENUM, BTF_KIND_ENUM64, BTF_KIND_DATASEC,
                BTF_KIND_FLOAT} then do { sz \<leftarrow> t_type t; Some (Inr (int sz, nelems, B)) }
            else if kind = BTF_KIND_PTR then do { (sz, B') \<leftarrow> btf_ptr_sz B; Some (Inr (int sz, nelems, B')) }
            else if kind \<in> {BTF_KIND_TYPEDEF, BTF_KIND_VOLATILE, BTF_KIND_CONST, BTF_KIND_RESTRICT, BTF_KIND_VAR,
                BTF_KIND_DECL_TAG, BTF_KIND_TYPE_TAG}
            then do { type_id \<leftarrow> t_type t; t' \<leftarrow> btf__type_by_id B type_id; resolve_size_loop n B t' nelems }
            else if kind = BTF_KIND_ARRAY
            then do { n_el \<leftarrow> t_rd t 20;
                      if nelems \<noteq> 0 \<and> n_el > UINT32_MAX div nelems then Some (Inl (- E2BIG))
                      else do { type_id \<leftarrow> t_rd t 12; t' \<leftarrow> btf__type_by_id B type_id;
                                resolve_size_loop n B t' (nelems * n_el) } }
            else Some (Inl (- EINVAL)) } }"

definition btf__resolve_size :: "btf \<Rightarrow> nat \<Rightarrow> (int \<times> btf) option" where
  "btf__resolve_size B type_id =
     do { t \<leftarrow> btf__type_by_id B type_id;
          r \<leftarrow> resolve_size_loop MAX_RESOLVE_DEPTH B t 1;
          case r of
            Inl e \<Rightarrow> Some (e, B)
          | Inr (sz, nelems, B') \<Rightarrow>
              if sz < 0 then Some (- EINVAL, B')
              else if nelems \<noteq> 0 \<and> sz > int (UINT32_MAX div nelems) then Some (- E2BIG, B')
              else Some (int nelems * sz, B') }"

text \<open>\<open>depth\<close> counts up to \<open>MAX_RESOLVE_DEPTH\<close>; \<open>left\<close> is what remains of it.\<close>

fun resolve_type_loop :: "nat \<Rightarrow> btf \<Rightarrow> nat \<Rightarrow> type_ref option \<Rightarrow> (nat \<times> nat \<times> type_ref option) option" where
  "resolve_type_loop 0 B type_id t = Some (0, type_id, t)"
| "resolve_type_loop (Suc left) B type_id t =
     do { stop \<leftarrow> btf_type_is_void_or_null t;
          if stop then Some (Suc left, type_id, t)
          else do {
            t' \<leftarrow> t; kind \<leftarrow> btf_kind t';
            if btf_is_mod kind \<or> kind = BTF_KIND_TYPEDEF \<or> kind = BTF_KIND_VAR
            then do { type_id' \<leftarrow> t_type t'; t'' \<leftarrow> btf__type_by_id B type_id'; resolve_type_loop left B type_id' t'' }
            else Some (Suc left, type_id, t) } }"

definition btf__resolve_type :: "btf \<Rightarrow> nat \<Rightarrow> int option" where
  "btf__resolve_type B type_id =
     do { t \<leftarrow> btf__type_by_id B type_id;
          (left, type_id', t') \<leftarrow> resolve_type_loop MAX_RESOLVE_DEPTH B type_id t;
          stop \<leftarrow> btf_type_is_void_or_null t';
          Some (if left = 0 \<or> stop then - EINVAL else int type_id') }"

section \<open>What the iterator yields\<close>

lemma members_fields_single: "members_fields sz [f] n = map (\<lambda>i. 12 + i * sz + f) [0..<n]"
  by (simp add: members_fields_def)

lemma iter_members:
  assumes "sz \<noteq> 0" and "i < v" and "v - i \<le> n"
  shows "iter_all n \<lparr>it_desc = \<lparr>fd_t_offs = ts, fd_m_sz = sz, fd_m_offs = [m]\<rparr>, it_p = Some (12 + i * sz),
      it_m_idx = int i, it_off_idx = 1, it_vlen = v\<rparr> = map (\<lambda>i. 12 + i * sz + m) [Suc i..<v]"
  using assms(2,3)
proof (induction n arbitrary: i)
  case (Suc n)
  show ?case
  proof (cases "Suc i < v")
    case True
    with Suc.prems Suc.IH [of "Suc i"] have IH: "iter_all n \<lparr>it_desc = \<lparr>fd_t_offs = ts, fd_m_sz = sz, fd_m_offs = [m]\<rparr>,
        it_p = Some (12 + Suc i * sz), it_m_idx = int (Suc i), it_off_idx = 1, it_vlen = v\<rparr> =
      map (\<lambda>i. 12 + i * sz + m) [Suc (Suc i)..<v]" by simp
    have "btf_field_iter_next \<lparr>it_desc = \<lparr>fd_t_offs = ts, fd_m_sz = sz, fd_m_offs = [m]\<rparr>, it_p = Some (12 + i * sz),
        it_m_idx = int i, it_off_idx = 1, it_vlen = v\<rparr> =
      (Some (12 + Suc i * sz + m), \<lparr>it_desc = \<lparr>fd_t_offs = ts, fd_m_sz = sz, fd_m_offs = [m]\<rparr>,
        it_p = Some (12 + Suc i * sz), it_m_idx = int (Suc i), it_off_idx = 1, it_vlen = v\<rparr>)"
      using True assms(1) by (simp add: btf_field_iter_next_def iter_member_def)
    then show ?thesis
      by (simp only: iter_all.simps IH prod.case option.case upt_conv_Cons [OF True] list.map)
  next
    case False
    with Suc.prems have "v = Suc i" by simp
    with assms(1) show ?thesis by (simp add: btf_field_iter_next_def iter_member_def)
  qed
qed simp

lemma iter_types:
  assumes "length ts + (if sz = 0 then 0 else v) < n" and "k \<le> length ts"
  shows "iter_all (n - k) \<lparr>it_desc = \<lparr>fd_t_offs = ts, fd_m_sz = sz, fd_m_offs = (if sz = 0 then [] else [m])\<rparr>, it_p = Some 0,
      it_m_idx = - 1, it_off_idx = k, it_vlen = (if sz = 0 then 0 else v)\<rparr> =
    drop k ts @ (if sz = 0 then [] else members_fields sz [m] v)"
  using assms(2)
proof (induction "length ts - k" arbitrary: k)
  case 0
  then have k: "k = length ts" by simp
  obtain n' where n': "n - k = Suc n'" using assms(1) k by (metis Suc_diff_Suc add_lessD1)
  show ?case
  proof (cases "sz = 0 \<or> v = 0")
    case True
    with k n' show ?thesis
      by (auto simp: btf_field_iter_next_def iter_member_def members_fields_def split: if_splits)
  next
    case False
    have "v \<le> n'" using assms(1) False k n' by simp
    with False iter_members [of sz 0 v n' ts m] k n' show ?thesis
      by (simp add: btf_field_iter_next_def iter_member_def members_fields_single upt_conv_Cons)
  qed
next
  case (Suc d)
  then have k: "k < length ts" by simp
  then obtain n' where n': "n - k = Suc n'" using assms(1) by (metis Suc_diff_Suc add_lessD1 less_trans)
  then have "n' = n - Suc k" by simp
  with Suc(1) [of "Suc k"] Suc(2) k n' show ?case
    by (simp add: btf_field_iter_next_def Cons_nth_drop_Suc)
qed

text \<open>All type ids of a type: those that are checked, the word of a forward declaration and the return type of
  a prototype.\<close>

definition all_ids :: "nat \<Rightarrow> nat \<Rightarrow> nat list" where
  "all_ids kind vlen = (if kind \<in> {BTF_KIND_FWD, BTF_KIND_FUNC_PROTO} then [8] else []) @ checked_ids kind vlen"

lemma iter_init_all:
  assumes "btf_kind t = Some kind" and "btf_vlen t = Some vlen" and "vlen + 2 < n"
    and "(case ik of BTF_FIELD_ITER_IDS \<Rightarrow> ids_desc kind | BTF_FIELD_ITER_STRS \<Rightarrow> strs_desc kind) =
      Some \<lparr>fd_t_offs = ts, fd_m_sz = sz, fd_m_offs = (if sz = 0 then [] else [m])\<rparr>"
    and "length ts \<le> 2"
  shows "\<exists>it. btf_field_iter_init t ik = Some (Inr it) \<and>
    iter_all n it = ts @ (if sz = 0 then [] else members_fields sz [m] vlen)"
proof -
  have "length ts + (if sz = 0 then 0 else vlen) < n" using assms(3,5) by auto
  from iter_types [OF this, of 0 m] show ?thesis
    by (cases "sz = 0") (simp_all add: btf_field_iter_init_def assms(1,2,4))
qed

lemma iter_ids:
  assumes "btf_kind t = Some kind" and "btf_vlen t = Some vlen" and "0 \<le> kind_size kind vlen" and "vlen + 2 < n"
  shows "\<exists>it. btf_field_iter_init t BTF_FIELD_ITER_IDS = Some (Inr it) \<and> iter_all n it = all_ids kind vlen"
proof -
  from assms(3) have "kind \<in> {1, 2, 3, 4, 5, 6, 7, 8, 9, 10, 11, 12, 13, 14, 15, 16, 17, 18, 19}"
    by (auto simp: kind_size_def split: if_splits)
  then obtain ts sz m where d: "ids_desc kind = Some \<lparr>fd_t_offs = ts, fd_m_sz = sz, fd_m_offs = (if sz = 0 then [] else [m])\<rparr>"
    "length ts \<le> 2" "all_ids kind vlen = ts @ (if sz = 0 then [] else members_fields sz [m] vlen)"
    by (elim insertE emptyE) (auto simp: ids_desc_def all_ids_def checked_ids_def intro: that)
  then show ?thesis using iter_init_all [OF assms(1,2,4), of BTF_FIELD_ITER_IDS] by simp
qed

lemma iter_strs:
  assumes "btf_kind t = Some kind" and "btf_vlen t = Some vlen" and "0 \<le> kind_size kind vlen" and "vlen + 2 < n"
  shows "\<exists>it. btf_field_iter_init t BTF_FIELD_ITER_STRS = Some (Inr it) \<and> iter_all n it = str_fields kind vlen"
proof -
  from assms(3) have "kind \<in> {1, 2, 3, 4, 5, 6, 7, 8, 9, 10, 11, 12, 13, 14, 15, 16, 17, 18, 19}"
    by (auto simp: kind_size_def split: if_splits)
  then obtain ts sz m where d: "strs_desc kind = Some \<lparr>fd_t_offs = ts, fd_m_sz = sz, fd_m_offs = (if sz = 0 then [] else [m])\<rparr>"
    "length ts \<le> 2" "str_fields kind vlen = ts @ (if sz = 0 then [] else members_fields sz [m] vlen)"
    by (elim insertE emptyE) (auto simp: strs_desc_def str_fields_def intro: that)
  then show ?thesis using iter_init_all [OF assms(1,2,4), of BTF_FIELD_ITER_STRS] by simp
qed

section \<open>Accepted type information does not go wrong\<close>

lemma wf_type:
  assumes "wf_btf B" and "0 < i" and "i < btf__type_cnt B"
  obtains types off sz where "btf_type_by_id B i = Some (T_at types off)" "btf__type_by_id B i = Some (Some (T_at types off))"
    "btf_type_size (T_at types off) = Some sz" "12 \<le> sz" "off + nat sz \<le> length types" "type_ok B (T_at types off)"
proof -
  from assms obtain types off sz where t: "btf_type_by_id B i = Some (T_at types off)" "btf_type_size (T_at types off) = Some sz"
    "0 \<le> sz" "off + nat sz \<le> length types" using shaped_lookup [of B i] by (auto simp: wf_btf_def)
  moreover from t(2,3) have "12 \<le> sz" using size_ge12 by fastforce
  moreover from assms t(1) have "type_ok B (T_at types off)" using typed_lookup [of B i] by (simp add: wf_btf_def)
  moreover from t(1) assms(3) have "btf__type_by_id B i = Some (Some (T_at types off))" by (simp add: btf__type_by_id_def)
  ultimately show ?thesis by (intro that) auto
qed

lemma wf_type_words:
  assumes "wf_btf B" and "0 < i" and "i < btf__type_cnt B"
  obtains t kind vlen where "btf__type_by_id B i = Some (Some t)" "btf_type_by_id B i = Some t" "t \<noteq> T_void"
    "btf_kind t = Some kind" "btf_vlen t = Some vlen" "0 \<le> kind_size kind vlen" "type_ok B t"
    "\<forall>f. int f + 4 \<le> kind_size kind vlen \<longrightarrow> (\<exists>v. t_rd t f = Some v)"
proof -
  from wf_type [OF assms] obtain types off sz where t: "btf_type_by_id B i = Some (T_at types off)"
    "btf__type_by_id B i = Some (Some (T_at types off))" "btf_type_size (T_at types off) = Some sz" "12 \<le> sz"
    "off + nat sz \<le> length types" "type_ok B (T_at types off)" by blast
  moreover from t(3) obtain kind vlen where "btf_kind (T_at types off) = Some kind" "btf_vlen (T_at types off) = Some vlen"
    "sz = kind_size kind vlen" by (auto simp: btf_type_size_def split: bind_splits)
  ultimately show ?thesis using readable [OF t(3,5)] by (intro that [of "T_at types off"]) auto
qed

lemma lookup_total: "wf_btf B \<Longrightarrow> v < btf__type_cnt B \<Longrightarrow> \<exists>t. btf__type_by_id B v = Some (Some t)"
  using shaped_lookup [of B v] by (auto simp: wf_btf_def btf__type_by_id_def)

text \<open>C8: type information that was accepted does not go wrong: each of its types can be read, and the
  iterator over its references (\<^verbatim>\<open>btf_iter.c\<close>) goes over exactly the words the kind of the type says; every string
  it yields is a string that ends inside its section and every type id it yields names a type, but
  for two words that the sanity check forgets: the type word of a forward declaration and the return type
  of a function prototype.\<close>

theorem btf_references_valid:
  assumes "wf_btf B" and "0 < i" and "i < btf__type_cnt B"
  shows "\<exists>t kind vlen ids strs. btf__type_by_id B i = Some (Some t) \<and> btf_kind t = Some kind \<and> btf_vlen t = Some vlen \<and>
    btf_field_iter_init t BTF_FIELD_ITER_IDS = Some (Inr ids) \<and> btf_field_iter_init t BTF_FIELD_ITER_STRS = Some (Inr strs) \<and>
    iter_all (vlen + 3) ids = all_ids kind vlen \<and> iter_all (vlen + 3) strs = str_fields kind vlen \<and>
    (\<forall>f \<in> set (iter_all (vlen + 3) strs). \<exists>v s. t_rd t f = Some v \<and> btf__str_by_offset B v = Some (Some s) \<and> btf_cstr s \<noteq> None) \<and>
    (\<forall>f \<in> set (iter_all (vlen + 3) ids). \<exists>v. t_rd t f = Some v \<and>
       ((\<exists>u. btf__type_by_id B v = Some (Some u)) \<or> f = 8 \<and> kind \<in> {BTF_KIND_FWD, BTF_KIND_FUNC_PROTO}))"
proof -
  obtain t kind vlen where t1: "btf__type_by_id B i = Some (Some t)" "btf_type_by_id B i = Some t" "t \<noteq> T_void"
    and t2: "btf_kind t = Some kind" "btf_vlen t = Some vlen" "0 \<le> kind_size kind vlen" "type_ok B t"
    and words: "\<forall>f. int f + 4 \<le> kind_size kind vlen \<longrightarrow> (\<exists>v. t_rd t f = Some v)"
    by (rule wf_type_words [OF assms])
  note t = t1(1) t2
  from t(2,3,5) have s: "\<forall>f \<in> set (str_fields kind vlen). \<exists>v. t_rd t f = Some v \<and> v < str_end B"
    and i: "\<forall>f \<in> set (checked_ids kind vlen). \<exists>v. t_rd t f = Some v \<and> v < btf__type_cnt B" by (auto simp: type_ok_def)
  have strs_ok: "\<exists>v s. t_rd t f = Some v \<and> btf__str_by_offset B v = Some (Some s) \<and> btf_cstr s \<noteq> None"
    if "f \<in> set (str_fields kind vlen)" for f
  proof -
    from s that obtain v where "t_rd t f = Some v" "v < str_end B" by blast
    moreover from this assms(1) obtain s where "btf__str_by_offset B v = Some (Some s)" "btf_cstr s \<noteq> None"
      using shaped_str [of B v] by (auto simp: wf_btf_def)
    ultimately show ?thesis by blast
  qed
  have ids_ok: "\<exists>v. t_rd t f = Some v \<and>
      ((\<exists>u. btf__type_by_id B v = Some (Some u)) \<or> f = 8 \<and> kind \<in> {BTF_KIND_FWD, BTF_KIND_FUNC_PROTO})"
    if f: "f \<in> set (all_ids kind vlen)" for f
  proof (cases "f \<in> set (checked_ids kind vlen)")
    case True
    with i lookup_total [OF assms(1)] show ?thesis by blast
  next
    case False
    with f have "f = 8" "kind \<in> {BTF_KIND_FWD, BTF_KIND_FUNC_PROTO}" by (auto simp: all_ids_def split: if_splits)
    with words [rule_format, of 8] kind_size_ge [OF t(4)] show ?thesis by auto
  qed
  have n: "vlen + 2 < vlen + 3" by simp
  obtain ids where ids: "btf_field_iter_init t BTF_FIELD_ITER_IDS = Some (Inr ids)" "iter_all (vlen + 3) ids = all_ids kind vlen"
    using iter_ids [OF t(2-4) n] by blast
  obtain strs where strs: "btf_field_iter_init t BTF_FIELD_ITER_STRS = Some (Inr strs)"
    "iter_all (vlen + 3) strs = str_fields kind vlen" using iter_strs [OF t(2-4) n] by blast
  show ?thesis
  proof (intro exI conjI)
    show "\<forall>f \<in> set (iter_all (vlen + 3) strs). \<exists>v s. t_rd t f = Some v \<and> btf__str_by_offset B v = Some (Some s) \<and> btf_cstr s \<noteq> None"
      unfolding strs(2) using strs_ok by blast
    show "\<forall>f \<in> set (iter_all (vlen + 3) ids). \<exists>v. t_rd t f = Some v \<and>
        ((\<exists>u. btf__type_by_id B v = Some (Some u)) \<or> f = 8 \<and> kind \<in> {BTF_KIND_FWD, BTF_KIND_FUNC_PROTO})"
      unfolding ids(2) using ids_ok by blast
  qed (fact t(1-3) ids strs)+
qed

theorem btf_references_valid_witness:
  "\<exists>t ids. btf__type_by_id (Btf demo_own None) 2 = Some (Some t) \<and> btf_field_iter_init t BTF_FIELD_ITER_IDS = Some (Inr ids) \<and>
     iter_all 3 ids = [8]"
proof -
  have "wf_btf (Btf demo_own None)" using demo_wf .
  moreover have "2 < btf__type_cnt (Btf demo_own None)" by (simp add: demo_own_def)
  ultimately obtain t kind vlen ids where t: "btf__type_by_id (Btf demo_own None) 2 = Some (Some t)" "btf_kind t = Some kind"
    "btf_vlen t = Some vlen" "btf_field_iter_init t BTF_FIELD_ITER_IDS = Some (Inr ids)" "iter_all (vlen + 3) ids = all_ids kind vlen"
    using btf_references_valid [of "Btf demo_own None" 2] by auto
  have "btf__type_by_id (Btf demo_own None) 2 = Some (Some (T_at demo_types 16))" by (simp add: btf__type_by_id_def demo_own_def)
  with t(1-3) have "kind = 2" "vlen = 0"
    by (auto simp: btf_kind_def btf_vlen_def rd_def demo_types_def BTF_INFO_KIND_def BTF_INFO_VLEN_def)
  with t show ?thesis by (auto simp: all_ids_def checked_ids_def)
qed

section \<open>The size of a type\<close>

definition sized_kinds :: "nat set" where
  "sized_kinds = {BTF_KIND_INT, BTF_KIND_STRUCT, BTF_KIND_UNION, BTF_KIND_ENUM, BTF_KIND_ENUM64, BTF_KIND_DATASEC, BTF_KIND_FLOAT}"

definition ref_kinds :: "nat set" where
  "ref_kinds = {BTF_KIND_TYPEDEF, BTF_KIND_VOLATILE, BTF_KIND_CONST, BTF_KIND_RESTRICT, BTF_KIND_VAR, BTF_KIND_DECL_TAG, BTF_KIND_TYPE_TAG}"

text \<open>What a type is behind its names, qualifiers and arrays: \<open>n\<close> steps away there is a type of its own size, or
  a pointer (\<open>None\<close>), and the arrays passed have the dimensions \<open>ds\<close>.\<close>

inductive btf_chain :: "btf \<Rightarrow> nat \<Rightarrow> nat \<Rightarrow> nat list \<Rightarrow> nat option \<Rightarrow> bool" for B where
  sized: "btf__type_by_id B i = Some (Some t) \<Longrightarrow> t \<noteq> T_void \<Longrightarrow> btf_kind t = Some kind \<Longrightarrow> kind \<in> sized_kinds \<Longrightarrow>
    t_type t = Some n \<Longrightarrow> btf_chain B i 0 [] (Some n)"
| pointer: "btf__type_by_id B i = Some (Some t) \<Longrightarrow> t \<noteq> T_void \<Longrightarrow> btf_kind t = Some BTF_KIND_PTR \<Longrightarrow> btf_chain B i 0 [] None"
| reference: "btf__type_by_id B i = Some (Some t) \<Longrightarrow> t \<noteq> T_void \<Longrightarrow> btf_kind t = Some kind \<Longrightarrow> kind \<in> ref_kinds \<Longrightarrow>
    t_type t = Some j \<Longrightarrow> btf_chain B j n ds s \<Longrightarrow> btf_chain B i (Suc n) ds s"
| array: "btf__type_by_id B i = Some (Some t) \<Longrightarrow> t \<noteq> T_void \<Longrightarrow> btf_kind t = Some BTF_KIND_ARRAY \<Longrightarrow>
    t_rd t 12 = Some j \<Longrightarrow> t_rd t 20 = Some d \<Longrightarrow> btf_chain B j n ds s \<Longrightarrow> btf_chain B i (Suc n) (d # ds) s"

definition base_size :: "nat \<Rightarrow> nat option \<Rightarrow> nat" where
  "base_size ptr_sz s = (case s of Some n \<Rightarrow> n | None \<Rightarrow> ptr_sz)"

lemma ptr_size_loop_total:
  "wf_btf B \<Longrightarrow> \<forall>i \<in> set is'. 0 < i \<and> i < btf__type_cnt B \<Longrightarrow> \<exists>p. ptr_size_loop B is' = Some p"
proof (induction is')
  case (Cons i is')
  then have "0 < i" "i < btf__type_cnt B" by auto
  from wf_type_words [OF Cons.prems(1) this] obtain t kind vlen where t: "btf__type_by_id B i = Some (Some t)"
    "btf_kind t = Some kind" "0 \<le> kind_size kind vlen" "type_ok B t"
    "\<forall>f. int f + 4 \<le> kind_size kind vlen \<longrightarrow> (\<exists>v. t_rd t f = Some v)" by metis
  have "12 \<le> kind_size kind vlen" using kind_size_ge t(3) by blast
  with t(5) obtain sz v where w: "t_rd t 8 = Some sz" "t_rd t 0 = Some v" by fastforce
  from t(4) w(2) have "v < str_end B" by (auto simp: type_ok_def str_fields_def)
  with Cons.prems(1) obtain s where "btf__str_by_offset B v = Some (Some s)" "btf_cstr s \<noteq> None"
    using shaped_str [of B v] by (auto simp: wf_btf_def)
  then have "\<exists>r. long_size B i = Some r"
    using t w by (auto simp: long_size_def t_type_def t_name_off_def)
  with Cons show ?case by (auto split: option.splits)
qed simp

lemma btf_ptr_sz_total:
  assumes "wf_btf B"
  shows "\<exists>p B'. btf_ptr_sz B = Some (p, B')"
proof -
  have "\<exists>p. ptr_size_loop B [1..<btf__type_cnt B] = Some p" by (rule ptr_size_loop_total [OF assms]) auto
  then have "\<exists>p. determine_ptr_size B = Some p" by (auto simp: determine_ptr_size_def split: option.split)
  then show ?thesis by (auto simp: btf_ptr_sz_def known_ptr_sz_def)
qed

text \<open>What one turn of the loop sees.\<close>

lemma loop_kind:
  assumes "btf__type_by_id B i = Some (Some t)" and "t \<noteq> T_void" and "btf_kind t = Some kind"
  shows "btf_type_is_void_or_null (Some t) = Some (kind = BTF_KIND_FWD)"
  using assms by (cases t) (auto simp: btf_type_is_void_or_null_def)

lemma not_void: "btf_type_is_void_or_null t = Some False \<Longrightarrow> \<exists>t'. t = Some t' \<and> t' \<noteq> T_void"
  by (auto simp: btf_type_is_void_or_null_def split: option.splits)

lemma fits_mult: "\<not> (e \<noteq> 0 \<and> d > UINT32_MAX div e) \<longleftrightarrow> e * d \<le> UINT32_MAX" for e d :: nat
  by (cases "e = 0") (simp_all add: not_less less_eq_div_iff_mult_less_eq mult.commute)

lemma loop_complete:
  assumes "btf_chain B i n ds s" and "n < m" and "0 \<notin> set ds" and "e * prod_list ds \<le> UINT32_MAX"
    and "btf_ptr_sz B = Some (p, B2)" and "btf__type_by_id B i = Some t"
  shows "\<exists>B'. resolve_size_loop m B t e = Some (Inr (int (base_size p s), e * prod_list ds, B'))"
  using assms(1-4,6)
proof (induction arbitrary: m e t rule: btf_chain.induct)
  case (sized i t' kind n)
  then obtain m' where "m = Suc m'" by (cases m) auto
  with sized loop_kind [OF sized(1-3)] show ?case by (auto simp: sized_kinds_def base_size_def)
next
  case (pointer i t')
  then obtain m' where "m = Suc m'" by (cases m) auto
  with pointer loop_kind [OF pointer(1-3)] assms(5) show ?case by (auto simp: base_size_def)
next
  case (reference i t' kind j n ds s)
  then obtain m' where m: "m = Suc m'" "n < m'" by (cases m) auto
  from reference.hyps(6) obtain t'' where "btf__type_by_id B j = Some t''" by (cases rule: btf_chain.cases) auto
  with reference.IH [OF m(2) reference.prems(2,3)] reference m loop_kind [OF reference(1-3)] show ?case
    by (auto simp: ref_kinds_def)
next
  case (array i t' j d n ds s)
  then obtain m' where m: "m = Suc m'" "n < m'" by (cases m) auto
  from array.hyps(6) obtain t'' where t'': "btf__type_by_id B j = Some t''" by (cases rule: btf_chain.cases) auto
  have "prod_list ds \<noteq> 0" using array.prems(2) by (simp add: prod_list_zero_iff)
  then have le: "e * d \<le> e * d * prod_list ds" by simp
  have "e * d * prod_list ds \<le> UINT32_MAX" using array.prems(3) by (simp add: mult.assoc)
  with le have "e * d \<le> UINT32_MAX" by (rule le_trans)
  then have "\<not> (e \<noteq> 0 \<and> d > UINT32_MAX div e)" by (simp only: fits_mult)
  moreover have "e * d * prod_list ds \<le> UINT32_MAX" "0 \<notin> set ds" using array.prems by (simp_all add: mult.assoc)
  ultimately have "\<exists>B'. resolve_size_loop m' B t'' (e * d) = Some (Inr (int (base_size p s), e * (d * prod_list ds), B'))"
    using array.IH [OF m(2), of "e * d" t''] t'' by (simp add: mult.assoc)
  moreover have "resolve_size_loop m B t e = resolve_size_loop m' B t'' (e * d)"
    using \<open>\<not> (e \<noteq> 0 \<and> d > UINT32_MAX div e)\<close> array.hyps array.prems(4) loop_kind [OF array.hyps(1-3)] t''
    by (auto simp: m(1))
  ultimately show ?case by simp
qed

lemma loop_sound:
  assumes "resolve_size_loop m B t e = Some (Inr (z, e', B'))" and "0 \<le> z" and "btf__type_by_id B i = Some t"
    and "btf_ptr_sz B = Some (p, B2)" and "e \<le> UINT32_MAX"
  shows "\<exists>n ds s. n < m \<and> btf_chain B i n ds s \<and> z = int (base_size p s) \<and> e' = e * prod_list ds \<and> e' \<le> UINT32_MAX"
  using assms(1-3,5)
proof (induction m arbitrary: t e i)
  case (Suc m)
  show ?case
  proof (cases "btf_type_is_void_or_null t = Some False")
    case True
    then obtain t' where t: "t = Some t'" "t' \<noteq> T_void" using not_void by blast
    from Suc.prems(1) True t obtain kind where k: "btf_kind t' = Some kind" by (auto split: bind_splits)
    note l = Suc.prems(3) [unfolded t(1)]
    consider "kind \<in> sized_kinds" | "kind = BTF_KIND_PTR" | "kind \<in> ref_kinds" | "kind = BTF_KIND_ARRAY"
      using Suc.prems(1) True t k by (auto simp: sized_kinds_def ref_kinds_def split: if_splits)
    then show ?thesis
    proof cases
      case 1
      with Suc.prems(1) True t k obtain n where "t_type t' = Some n" "z = int n" "e' = e"
        by (auto simp: sized_kinds_def split: bind_splits)
      with btf_chain.sized [OF l t(2) k 1] Suc.prems(4) show ?thesis
        by (intro exI [of _ 0] exI [of _ "[]"] exI [of _ "Some n"]) (simp add: base_size_def)
    next
      case 2
      with Suc.prems(1) True t k assms(4) have "z = int p" "e' = e" by auto
      with btf_chain.pointer [OF l t(2)] k 2 Suc.prems(4) show ?thesis
        by (intro exI [of _ 0] exI [of _ "[]"] exI [of _ None]) (simp add: base_size_def)
    next
      case 3
      with Suc.prems(1) True t k obtain j t'' where j: "t_type t' = Some j" "btf__type_by_id B j = Some t''"
        "resolve_size_loop m B t'' e = Some (Inr (z, e', B'))"
        by (auto simp: ref_kinds_def split: bind_splits)
      from Suc.IH [OF j(3) Suc.prems(2) j(2) Suc.prems(4)] obtain n ds s where "n < m" "btf_chain B j n ds s"
        "z = int (base_size p s)" "e' = e * prod_list ds" "e' \<le> UINT32_MAX" by blast
      with btf_chain.reference [OF l t(2) k 3 j(1)] show ?thesis
        by (intro exI [of _ "Suc n"] exI [of _ ds] exI [of _ s]) simp
    next
      case 4
      with Suc.prems(1) True t k obtain d j t'' where j: "t_rd t' 20 = Some d" "t_rd t' 12 = Some j"
        "btf__type_by_id B j = Some t''" "\<not> (e \<noteq> 0 \<and> d > UINT32_MAX div e)"
        "resolve_size_loop m B t'' (e * d) = Some (Inr (z, e', B'))"
        by (auto split: bind_splits if_splits)
      from j(4) have "e * d \<le> UINT32_MAX" by (simp only: fits_mult)
      from Suc.IH [OF j(5) Suc.prems(2) j(3) this] obtain n ds s where "n < m" "btf_chain B j n ds s"
        "z = int (base_size p s)" "e' = e * d * prod_list ds" "e' \<le> UINT32_MAX" by blast
      with btf_chain.array [OF l t(2) _ j(2,1)] k 4 show ?thesis
        by (intro exI [of _ "Suc n"] exI [of _ "d # ds"] exI [of _ s]) (simp add: mult.assoc)
    qed
  next
    case False
    with Suc.prems(1,2) show ?thesis by (cases "btf_type_is_void_or_null t") auto
  qed
qed simp

lemma resolve_step:
  assumes "wf_btf B" and "btf__type_by_id B i = Some t" and "btf_type_is_void_or_null t = Some False"
  obtains t' kind vlen where "t = Some t'" "btf_kind t' = Some kind" "btf_vlen t' = Some vlen" "0 \<le> kind_size kind vlen"
    "type_ok B t'" "\<forall>f. int f + 4 \<le> kind_size kind vlen \<longrightarrow> (\<exists>v. t_rd t' f = Some v)"
proof -
  from assms(3) obtain t' where t: "t = Some t'" "t' \<noteq> T_void" using not_void by blast
  with assms(2) have i: "i < btf__type_cnt B" by (auto simp: btf__type_by_id_def split: if_splits)
  with assms t shaped_lookup [of B i] have "0 < i" by (auto simp: wf_btf_def btf__type_by_id_def)
  from wf_type_words [OF assms(1) this i] t assms(2) show ?thesis by (metis that option.inject)
qed

lemma loop_total:
  assumes "wf_btf B" and "btf__type_by_id B i = Some t"
  shows "\<exists>r. resolve_size_loop m B t e = Some r"
  using assms(2)
proof (induction m arbitrary: t e i)
  case (Suc m)
  show ?case
  proof (cases "btf_type_is_void_or_null t = Some False")
    case True
    from resolve_step [OF assms(1) Suc.prems True] obtain t' kind vlen where t: "t = Some t'" "btf_kind t' = Some kind"
      "0 \<le> kind_size kind vlen" "type_ok B t'" "\<forall>f. int f + 4 \<le> kind_size kind vlen \<longrightarrow> (\<exists>v. t_rd t' f = Some v)" by metis
    have "12 \<le> kind_size kind vlen" using kind_size_ge t(3) by blast
    with t(5) obtain w where w: "t_rd t' 8 = Some w" by fastforce
    have next': "\<exists>u. btf__type_by_id B j = Some u" for j
      using shaped_lookup [of B j] assms(1) by (cases "j < btf__type_cnt B") (auto simp: btf__type_by_id_def wf_btf_def)
    have arr: "\<exists>j d. t_rd t' 12 = Some j \<and> t_rd t' 20 = Some d" if "kind = BTF_KIND_ARRAY"
      using t(5) that by (simp add: kind_size_def)
    obtain u where u: "btf__type_by_id B w = Some u" using next' by blast
    from btf_ptr_sz_total [OF assms(1)] obtain p B' where p: "btf_ptr_sz B = Some (p, B')" by blast
    show ?thesis
    proof (cases "kind = BTF_KIND_ARRAY")
      case True': True
      obtain j d where jd: "t_rd t' 12 = Some j" "t_rd t' 20 = Some d" using arr True' by blast
      obtain v where v: "btf__type_by_id B j = Some v" using next' by blast
      from Suc.IH [OF v, of "e * d"] show ?thesis using True True' t(1,2) jd v by (auto simp: t_type_def)
    next
      case False
      from Suc.IH [OF u, of e] show ?thesis using True False t(1,2) w u p by (auto simp: t_type_def)
    qed
  next
    case False
    have "\<exists>b. btf_type_is_void_or_null t = Some b"
    proof (cases t)
      case (Some t')
      with Suc.prems have "i < btf__type_cnt B" by (auto simp: btf__type_by_id_def split: if_splits)
      with Some Suc.prems shaped_kind [of B i] assms(1) show ?thesis
        by (cases t') (auto simp: btf_type_is_void_or_null_def btf__type_by_id_def wf_btf_def)
    qed (auto simp: btf_type_is_void_or_null_def)
    with False show ?thesis by auto
  qed
qed simp

lemma loop_error: "resolve_size_loop m B t e = Some (Inl err) \<Longrightarrow> err < 0"
  by (induction m arbitrary: t e) (auto split: bind_splits if_splits)



lemma demo_lookup:
  "btf__type_by_id (Btf demo_own None) (Suc 0) = Some (Some (T_at demo_types 0))"
  "btf__type_by_id (Btf demo_own None) 2 = Some (Some (T_at demo_types 16))"
  by (simp_all add: btf__type_by_id_def demo_own_def)

lemma demo_words:
  "btf_kind (T_at demo_types 0) = Some BTF_KIND_INT" "t_type (T_at demo_types 0) = Some 4"
  "btf_kind (T_at demo_types 16) = Some BTF_KIND_PTR" "t_name_off (T_at demo_types 0) = Some 1"
  by (simp_all add: btf_kind_def t_type_def t_name_off_def rd_def demo_types_def BTF_INFO_KIND_def)

lemma demo_ptr_sz: "\<exists>B'. btf_ptr_sz (Btf demo_own None) = Some (8, B')"
proof -
  have str: "btf__str_by_offset (Btf demo_own None) (Suc 0) = Some (Some (demo_strs, 1))"
    and cs: "btf_cstr (demo_strs, 1) = Some [105, 110, 116]"
    by (simp_all add: demo_own_def image_hdr_def demo_strs_def str_at_def)
  have "[105, 110, 116] \<notin> set long_aliases" by (simp add: long_aliases_def ascii_def)
  then have "long_size (Btf demo_own None) (Suc 0) = Some None"
    using demo_lookup demo_words str cs by (simp add: long_size_def del: btf_cstr.simps btf__str_by_offset.simps)
  moreover have "long_size (Btf demo_own None) 2 = Some None"
    using demo_lookup demo_words by (simp add: long_size_def t_type_def rd_def demo_types_def)
  moreover have "[1..<btf__type_cnt (Btf demo_own None)] = [Suc 0, 2]" by (simp add: demo_own_def upt_rec)
  moreover have "bo_ptr_sz demo_own = 0" by (simp add: demo_own_def)
  ultimately show ?thesis
    by (simp add: btf_ptr_sz_def known_ptr_sz_def determine_ptr_size_def del: cnt_Btf)
qed


end
