(* ===== verification/BtfNames.thy ===== *)
theory BtfNames
  imports BtfQuery
begin

text \<open>
  Looking a type up by its name (\<^verbatim>\<open>libbpf/src/btf.c\<close>): the linear search, the binary search that is used
  when the names of an object are sorted, and the search through the objects below a split one. Every
  object that was loaded keeps what \<^verbatim>\<open>btf_check_sorted\<close> noted about its names, so the binary search
  finds the type that a linear search would find.
\<close>

section \<open>The searches\<close>

text \<open>\<open>Inl\<close> is the number of types, \<open>l\<close> and \<open>r\<close> the ends of the range that is left.\<close>

function bsearch_loop :: "btf \<Rightarrow> 8 word list \<Rightarrow> nat \<Rightarrow> nat \<Rightarrow> nat option" where
  "bsearch_loop B name l r =
     (if l \<le> r
      then (let m = l + (r - l) div 2
            in case type_name B m of
                 None \<Rightarrow> None
               | Some tname \<Rightarrow>
                   if strcmp tname name \<ge> 0 then (if l = r then Some r else bsearch_loop B name l m)
                   else bsearch_loop B name (m + 1) r)
      else Some (btf__type_cnt B))"
  by auto
termination by (relation "measure (\<lambda>(_, _, l, r). r + 1 - l)") auto

declare bsearch_loop.simps [simp del]

definition btf_find_type_by_name_bsearch :: "btf \<Rightarrow> 8 word list \<Rightarrow> nat \<Rightarrow> nat option" where
  "btf_find_type_by_name_bsearch B name start_id = bsearch_loop B name start_id (btf__type_cnt B - 1)"

text \<open>The loop over the types from the first one of the name on, and the loop over all types.\<close>

fun scan_loop :: "btf \<Rightarrow> 8 word list \<Rightarrow> int \<Rightarrow> nat list \<Rightarrow> int option" where
  "scan_loop B name kind [] = Some (- ENOENT)"
| "scan_loop B name kind (i # is') =
     do { tname \<leftarrow> type_name B i;
          if strcmp tname name \<noteq> 0 then Some (- ENOENT)
          else do { t \<leftarrow> btf_type_by_id B i;
                    hit \<leftarrow> (if kind < 0 then Some True else map_option (\<lambda>k. int k = kind) (btf_kind t));
                    if hit then Some (int i) else scan_loop B name kind is' } }"

fun linear_loop :: "btf \<Rightarrow> 8 word list \<Rightarrow> int \<Rightarrow> nat list \<Rightarrow> int option" where
  "linear_loop B name kind [] = Some (- ENOENT)"
| "linear_loop B name kind (i # is') =
     do { t \<leftarrow> btf_type_by_id B i;
          skip \<leftarrow> (if kind > 0 then map_option (\<lambda>k. int k \<noteq> kind) (btf_kind t) else Some False);
          if skip then linear_loop B name kind is'
          else do { tname \<leftarrow> type_name B i;
                    if strcmp tname name = 0 then Some (int i) else linear_loop B name kind is' } }"

text \<open>The part that searches the types of one object.\<close>

definition find_own :: "btf \<Rightarrow> nat \<Rightarrow> 8 word list \<Rightarrow> int \<Rightarrow> int option" where
  "find_own B start_id name kind =
     (if kind = int BTF_KIND_UNKN \<or> strcmp name (ascii ''void'') = 0 then Some 0
      else if bo_named_start_id (own B) > 0 \<and> name \<noteq> []
      then do { i \<leftarrow> btf_find_type_by_name_bsearch B name (max start_id (bo_named_start_id (own B)));
                scan_loop B name kind [i..<btf__type_cnt B] }
      else linear_loop B name kind [start_id..<btf__type_cnt B])"

fun btf_find_by_name_kind :: "btf \<Rightarrow> nat \<Rightarrow> 8 word list \<Rightarrow> int \<Rightarrow> int option" where
  "btf_find_by_name_kind (Btf b base) start_id name kind =
     (if start_id < bo_start_id b
      then (case base of
              None \<Rightarrow> None
            | Some B \<Rightarrow> do { i \<leftarrow> btf_find_by_name_kind B start_id name kind;
                             if i \<ge> 0 then Some i else find_own (Btf b base) (bo_start_id b) name kind })
      else find_own (Btf b base) start_id name kind)"

text \<open>The kind of the callers is unsigned.\<close>

definition btf__find_by_name :: "btf \<Rightarrow> 8 word list \<Rightarrow> int option" where
  "btf__find_by_name B name = btf_find_by_name_kind B 1 name (- 1)"

definition btf__find_by_name_kind_own :: "btf \<Rightarrow> 8 word list \<Rightarrow> 32 word \<Rightarrow> int option" where
  "btf__find_by_name_kind_own B name kind = btf_find_by_name_kind B (bo_start_id (own B)) name (sint kind)"

definition btf__find_by_name_kind :: "btf \<Rightarrow> 8 word list \<Rightarrow> 32 word \<Rightarrow> int option" where
  "btf__find_by_name_kind B name kind = btf_find_by_name_kind B 1 name (sint kind)"

section \<open>The order of names\<close>

lemma strcmp_zero [simp]: "strcmp a b = 0 \<longleftrightarrow> a = b"
  by (induction a b rule: strcmp.induct) auto

lemma strcmp_self [simp]: "strcmp a a = 0"
  by simp

lemma strcmp_anti: "strcmp b a = - strcmp a b"
  by (induction a b rule: strcmp.induct) auto

lemma strcmp_trans: "strcmp a b \<le> 0 \<Longrightarrow> strcmp b c \<le> 0 \<Longrightarrow> strcmp a c \<le> 0"
proof (induction a b arbitrary: c rule: strcmp.induct)
  case (4 a as b bs)
  then show ?case by (cases c) (auto split: if_splits)
qed (case_tac c; simp)+

lemma strcmp_Nil: "strcmp [] a \<le> 0"
  by (cases a) auto

lemma strcmp_le_Nil: "strcmp a [] \<le> 0 \<longleftrightarrow> a = []"
  by (cases a) auto

section \<open>What is noted of sorted names\<close>

text \<open>From the noted type on the names of an object are not empty and ascend; those before it are empty.\<close>

definition names_noted :: "btf \<Rightarrow> bool" where
  "names_noted B \<longleftrightarrow> (let n = bo_named_start_id (own B); s = bo_start_id (own B) in
     n \<noteq> 0 \<longrightarrow> s \<le> n \<and> n < btf__type_cnt B \<and>
       (\<forall>i j. s \<le> i \<and> i \<le> j \<and> j < btf__type_cnt B \<longrightarrow> strcmp (the (type_name B i)) (the (type_name B j)) \<le> 0) \<and>
       (\<forall>i. s \<le> i \<and> i < btf__type_cnt B \<longrightarrow> (the (type_name B i) = [] \<longleftrightarrow> i < n)))"

fun noted :: "btf \<Rightarrow> bool" where
  "noted (Btf b base) \<longleftrightarrow> names_noted (Btf b base) \<and> (case base of None \<Rightarrow> True | Some B \<Rightarrow> noted B)"

lemma strcmp_antisym: "strcmp a b \<le> 0 \<Longrightarrow> strcmp b a \<le> 0 \<Longrightarrow> a = b"
  using strcmp_anti [of b a] by simp

lemma strcmp_less_trans: "strcmp a b \<le> 0 \<Longrightarrow> strcmp b c < 0 \<Longrightarrow> strcmp a c < 0"
  using strcmp_trans [of a b c] strcmp_anti [of b c] by (cases "a = c") (auto simp: order_le_less)

abbreviation nm :: "btf \<Rightarrow> nat \<Rightarrow> 8 word list" where
  "nm B i \<equiv> the (type_name B i)"

lemma sorted_loop_steps:
  "sorted_loop B named is' = Some (Some r) \<Longrightarrow> i \<in> set is' \<Longrightarrow> strcmp (nm B (i - 1)) (nm B i) \<le> 0"
  by (induction is' arbitrary: named) (auto simp: Let_def split: bind_splits if_splits)

lemma sorted_loop_first:
  assumes "sorted_loop B named [i..<n] = Some (Some r)" and "0 < i" and "named = 0 \<Longrightarrow> nm B (i - 1) = []"
  shows "r = (if named \<noteq> 0 then named else case find (\<lambda>j. nm B j \<noteq> []) [i..<n] of Some j \<Rightarrow> j | None \<Rightarrow> 0)"
  using assms
proof (induction "n - i" arbitrary: i named)
  case (Suc k)
  then have u: "[i..<n] = i # [Suc i..<n]" by (simp add: upt_conv_Cons)
  let ?named = "if named = 0 \<and> nm B i \<noteq> [] then i else named"
  from Suc.prems(1) obtain na nb where t: "type_name B (i - 1) = Some na" "type_name B i = Some nb" "\<not> strcmp na nb > 0"
    by (auto simp: u Let_def split: bind_splits if_splits)
  with Suc.prems(3) have "\<not> (named = 0 \<and> na \<noteq> [])" by auto
  with Suc.prems(1) t have "sorted_loop B ?named [Suc i..<n] = Some (Some r)" by (auto simp: u Let_def split: if_splits)
  moreover have "k = n - Suc i" using Suc.hyps(2) by simp
  ultimately have "r = (if ?named \<noteq> 0 then ?named else case find (\<lambda>j. nm B j \<noteq> []) [Suc i..<n] of Some j \<Rightarrow> j | None \<Rightarrow> 0)"
    using Suc.prems(2) by (intro Suc.hyps(1)) (auto split: if_splits)
  with Suc.prems(2) show ?case by (simp add: u)
qed simp

lemma ascending:
  assumes "\<And>i. s < i \<Longrightarrow> i < n \<Longrightarrow> strcmp (nm B (i - 1)) (nm B i) \<le> 0"
  shows "s \<le> i \<Longrightarrow> i \<le> j \<Longrightarrow> j < n \<Longrightarrow> strcmp (nm B i) (nm B j) \<le> 0"
proof (induction j)
  case (Suc j)
  show ?case
  proof (cases "i = Suc j")
    case False
    with Suc have "strcmp (nm B i) (nm B j) \<le> 0" by simp
    moreover from Suc.prems False assms [of "Suc j"] have "strcmp (nm B j) (nm B (Suc j)) \<le> 0" by simp
    ultimately show ?thesis by (rule strcmp_trans)
  qed simp
qed simp

lemma sorted_loop_noted:
  assumes run: "sorted_loop B 0 [s + 1..<n] = Some (Some r)" and "0 < s" and "r \<noteq> 0"
  shows "s \<le> r" "r < n" "s \<le> i \<Longrightarrow> i \<le> j \<Longrightarrow> j < n \<Longrightarrow> strcmp (nm B i) (nm B j) \<le> 0"
    "s \<le> i \<Longrightarrow> i < n \<Longrightarrow> nm B i = [] \<longleftrightarrow> i < r"
proof -
  have asc: "s \<le> i \<Longrightarrow> i \<le> j \<Longrightarrow> j < n \<Longrightarrow> strcmp (nm B i) (nm B j) \<le> 0" for i j
    by (rule ascending) (use sorted_loop_steps [OF run] in auto)
  have n: "s + 1 < n" using run assms(3) by (cases "s + 1 < n") auto
  have first: "s \<le> r \<and> r < n \<and> nm B r \<noteq> [] \<and> (\<forall>i. s \<le> i \<and> i < r \<longrightarrow> nm B i = [])"
  proof (cases "nm B s = []")
    case True
    with sorted_loop_first [OF run] assms(3) have "find (\<lambda>j. nm B j \<noteq> []) [s + 1..<n] = Some r"
      by (auto split: option.splits)
    then show ?thesis using True by (auto simp: find_Some_iff nth_upt dest: le_imp_less_or_eq) (metis Suc_leI add_Suc add_diff_inverse_nat le_eq_less_or_eq less_diff_conv nat_add_left_cancel_less linorder_not_less)
  next
    case False
    then have "sorted_loop B s [s + 1..<n] = Some (Some r)"
      using run n assms(2) by (auto simp: upt_conv_Cons Let_def split: bind_splits if_splits)
    from sorted_loop_first [OF this] assms(2) False n show ?thesis by auto
  qed
  then show "s \<le> r" "r < n" by auto
  show "s \<le> i \<Longrightarrow> i \<le> j \<Longrightarrow> j < n \<Longrightarrow> strcmp (nm B i) (nm B j) \<le> 0" by (rule asc)
  show "nm B i = [] \<longleftrightarrow> i < r" if "s \<le> i" "i < n" 
    using first asc [of r i] strcmp_le_Nil [of "nm B r"] that by (metis linorder_not_less)
qed

section \<open>The binary search\<close>

text \<open>The first type of a range whose name is not below the one that is sought, or the number of types.\<close>

definition lower_bound :: "btf \<Rightarrow> 8 word list \<Rightarrow> nat \<Rightarrow> nat \<Rightarrow> nat \<Rightarrow> bool" where
  "lower_bound B name l r i \<longleftrightarrow> (\<forall>j. l \<le> j \<and> j \<le> r \<and> j < i \<longrightarrow> strcmp (nm B j) name < 0) \<and>
     (l \<le> i \<and> i \<le> r \<and> 0 \<le> strcmp (nm B i) name \<or> i = btf__type_cnt B \<and> (\<forall>j. l \<le> j \<and> j \<le> r \<longrightarrow> strcmp (nm B j) name < 0))"

lemma lower_bound_left:
  assumes "lower_bound B name l m i" and "0 \<le> strcmp (nm B m) name" and "l \<le> m" and "m \<le> r"
  shows "lower_bound B name l r i"
proof -
  from assms have "l \<le> i \<and> i \<le> m \<and> 0 \<le> strcmp (nm B i) name" unfolding lower_bound_def by (meson linorder_not_less order_refl)
  with assms show ?thesis unfolding lower_bound_def by auto
qed

lemma lower_bound_right:
  assumes "lower_bound B name (m + 1) r i" and "\<And>j. l \<le> j \<Longrightarrow> j \<le> m \<Longrightarrow> strcmp (nm B j) name < 0" and "l \<le> m"
  shows "lower_bound B name l r i"
proof -
  have split: "l \<le> j \<Longrightarrow> j \<le> m \<or> m + 1 \<le> j" for j by auto
  from assms show ?thesis unfolding lower_bound_def by (meson split le_trans le_add1)
qed

lemma lower_bound_none:
  assumes "\<And>j. l \<le> j \<Longrightarrow> j \<le> r \<Longrightarrow> strcmp (nm B j) name < 0"
  shows "lower_bound B name l r (btf__type_cnt B)"
  using assms by (simp add: lower_bound_def)

lemma bsearch_loop_first:
  assumes "l \<le> r" and "\<And>i. l \<le> i \<Longrightarrow> i \<le> r \<Longrightarrow> type_name B i \<noteq> None"
    and "\<And>i j. l \<le> i \<Longrightarrow> i \<le> j \<Longrightarrow> j \<le> r \<Longrightarrow> strcmp (nm B i) (nm B j) \<le> 0"
  shows "\<exists>i. bsearch_loop B name l r = Some i \<and> lower_bound B name l r i"
  using assms
proof (induction B name l r rule: bsearch_loop.induct)
  case (1 B name l r)
  let ?m = "l + (r - l) div 2"
  note step = bsearch_loop.simps [of B name l r]
  have m: "l \<le> ?m" "?m \<le> r" using "1.prems"(1) by auto
  from "1.prems"(2) [OF m] obtain tname where t: "type_name B ?m = Some tname" by blast
  then have nm: "nm B ?m = tname" by simp
  show ?case
  proof (cases "strcmp tname name \<ge> 0")
    case True
    show ?thesis
    proof (cases "l = r")
      case True
      moreover from this \<open>strcmp tname name \<ge> 0\<close> t have "lower_bound B name l r r" by (simp add: lower_bound_def)
      ultimately show ?thesis using \<open>strcmp tname name \<ge> 0\<close> t step by auto
    next
      case False
      have "\<exists>i. bsearch_loop B name l ?m = Some i \<and> lower_bound B name l ?m i"
        by (rule "1.IH"(1) [OF "1.prems"(1) refl t True False]) (use m "1.prems"(2,3) in auto)
      with lower_bound_left [of B name l ?m _ r] m nm True have "\<exists>i. bsearch_loop B name l ?m = Some i \<and> lower_bound B name l r i" by blast
      with True False t "1.prems"(1) show ?thesis by (simp add: step Let_def)
    qed
  next
    case False
    have low: "strcmp (nm B j) name < 0" if "l \<le> j" "j \<le> ?m" for j
      using strcmp_less_trans [of "nm B j" tname name] "1.prems"(3) [of j ?m] that m False nm by auto
    have "\<exists>i. bsearch_loop B name (?m + 1) r = Some i \<and> lower_bound B name l r i"
    proof (cases "?m + 1 \<le> r")
      case True
      have "\<exists>i. bsearch_loop B name (?m + 1) r = Some i \<and> lower_bound B name (?m + 1) r i"
        by (rule "1.IH"(2) [OF "1.prems"(1) refl t False True]) (use m "1.prems"(2,3) in auto)
      with lower_bound_right [of B name ?m r _ l] low m(1) show ?thesis by blast
    next
      case False
      then have "bsearch_loop B name (?m + 1) r = Some (btf__type_cnt B)" by (rule trans [OF bsearch_loop.simps if_not_P])
      moreover have "lower_bound B name l r (btf__type_cnt B)" by (rule lower_bound_none, rule low) (use False in auto)
      ultimately show ?thesis by blast
    qed
    with False t "1.prems"(1) show ?thesis by (simp add: step Let_def)
  qed
qed

section \<open>The reference: the first type of that name and kind\<close>

definition matches :: "btf \<Rightarrow> 8 word list \<Rightarrow> int \<Rightarrow> nat \<Rightarrow> bool" where
  "matches B name kind i \<longleftrightarrow> type_name B i = Some name \<and>
     (kind < 0 \<or> (case btf_type_by_id B i of None \<Rightarrow> False | Some t \<Rightarrow> map_option int (btf_kind t) = Some kind))"

definition find_first :: "btf \<Rightarrow> nat \<Rightarrow> 8 word list \<Rightarrow> int \<Rightarrow> int" where
  "find_first B start_id name kind =
     (if kind = 0 \<or> name = ascii ''void'' then 0
      else case find (matches B name kind) [start_id..<btf__type_cnt B] of None \<Rightarrow> - ENOENT | Some i \<Rightarrow> int i)"

text \<open>Every type of the range has a name and a kind.\<close>

definition readable_ids :: "btf \<Rightarrow> nat list \<Rightarrow> bool" where
  "readable_ids B is' \<longleftrightarrow> (\<forall>i \<in> set is'. type_name B i \<noteq> None \<and> (\<exists>t k. btf_type_by_id B i = Some t \<and> btf_kind t = Some k))"

lemma readable_wf: "wf_btf B \<Longrightarrow> \<forall>i \<in> set is'. 0 < i \<and> i < btf__type_cnt B \<Longrightarrow> readable_ids B is'"
  unfolding readable_ids_def using type_name_ok [of B] shaped_kind [of B] by (fastforce simp: wf_btf_def)

lemma linear_loop_find:
  "kind \<noteq> 0 \<Longrightarrow> readable_ids B is' \<Longrightarrow>
    linear_loop B name kind is' = Some (case find (matches B name kind) is' of None \<Rightarrow> - ENOENT | Some i \<Rightarrow> int i)"
proof (induction is')
  case (Cons i is')
  from Cons.prems obtain s t k where "type_name B i = Some s" "btf_type_by_id B i = Some t" "btf_kind t = Some k"
    by (auto simp: readable_ids_def)
  moreover from Cons.prems have "readable_ids B is'" by (simp add: readable_ids_def)
  ultimately show ?case using Cons by (auto simp: matches_def)
qed simp

lemma scan_loop_find:
  assumes "readable_ids B [i..<n]" and "kind \<noteq> 0" and "i < n \<Longrightarrow> 0 \<le> strcmp (nm B i) name"
    and "\<And>j k. i \<le> j \<Longrightarrow> j \<le> k \<Longrightarrow> k < n \<Longrightarrow> strcmp (nm B j) (nm B k) \<le> 0"
  shows "scan_loop B name kind [i..<n] = Some (case find (matches B name kind) [i..<n] of None \<Rightarrow> - ENOENT | Some i \<Rightarrow> int i)"
  using assms
proof (induction "n - i" arbitrary: i)
  case (Suc d)
  then have i: "i < n" by simp
  then have u: "[i..<n] = i # [Suc i..<n]" by (simp add: upt_conv_Cons)
  from Suc.prems(1) obtain s t k where t: "type_name B i = Some s" "btf_type_by_id B i = Some t" "btf_kind t = Some k"
    by (auto simp: readable_ids_def u)
  from Suc.prems(3) i t(1) have ge: "0 \<le> strcmp s name" by simp
  have above: "strcmp name (nm B j) \<le> 0" if "i \<le> j" "j < n" for j
    using strcmp_trans [of name s "nm B j"] strcmp_anti [of s name] ge Suc.prems(4) [of i j] that t(1) by simp
  show ?case
  proof (cases "s = name")
    case True
    have "scan_loop B name kind [Suc i..<n] = Some (case find (matches B name kind) [Suc i..<n] of None \<Rightarrow> - ENOENT | Some i \<Rightarrow> int i)"
    proof (rule Suc.hyps(1))
      show "0 \<le> strcmp (nm B (Suc i)) name" if "Suc i < n" using above [of "Suc i"] that strcmp_anti [of "nm B (Suc i)"] by simp
    qed (use Suc.hyps(2) Suc.prems in \<open>auto simp: readable_ids_def\<close>)
    with True t show ?thesis by (auto simp: u matches_def)
  next
    case False
    have "type_name B j \<noteq> Some name" if "i \<le> j" "j < n" for j
    proof
      assume "type_name B j = Some name"
      with that Suc.prems(4) [of i j] t(1) have "strcmp s name \<le> 0" by simp
      with ge False show False using strcmp_zero [of s name] by linarith
    qed
    then have "find (matches B name kind) [i..<n] = None" by (auto simp: find_None_iff matches_def)
    with False t(1) show ?thesis by (simp add: u del: strcmp_zero) simp
  qed
qed simp

lemma find_upt_skip: "i \<le> j \<Longrightarrow> j \<le> n \<Longrightarrow> (\<And>k. i \<le> k \<Longrightarrow> k < j \<Longrightarrow> \<not> P k) \<Longrightarrow> find P [i..<n] = find P [j..<n]"
proof (induction "j - i" arbitrary: i)
  case (Suc d)
  then have "[i..<n] = i # [Suc i..<n]" by (simp add: upt_conv_Cons)
  moreover have "find P [Suc i..<n] = find P [j..<n]" using Suc.hyps(2) Suc.prems by (intro Suc.hyps(1)) auto
  ultimately show ?case using Suc.prems Suc.hyps(2) by simp
qed simp

lemma bsearch_skips:
  assumes "wf_btf B" and noted: "names_noted B" and "bo_named_start_id (own B) > 0" and "name \<noteq> []"
    and start: "0 < start_id" "bo_start_id (own B) \<le> start_id" "start_id < btf__type_cnt B"
  shows "\<exists>i. btf_find_type_by_name_bsearch B name (max start_id (bo_named_start_id (own B))) = Some i \<and>
    start_id \<le> i \<and> i \<le> btf__type_cnt B \<and> (i < btf__type_cnt B \<longrightarrow> 0 \<le> strcmp (nm B i) name) \<and>
    (\<forall>j. start_id \<le> j \<and> j < i \<longrightarrow> nm B j \<noteq> name)"
proof -
  let ?n = "bo_named_start_id (own B)" and ?c = "btf__type_cnt B"
  let ?st = "max start_id ?n"
  from noted assms(3) have n: "?n < ?c" and asc: "\<And>i j. bo_start_id (own B) \<le> i \<Longrightarrow> i \<le> j \<Longrightarrow> j < ?c \<Longrightarrow> strcmp (nm B i) (nm B j) \<le> 0"
    and emp: "\<And>i. bo_start_id (own B) \<le> i \<Longrightarrow> i < ?c \<Longrightarrow> nm B i = [] \<longleftrightarrow> i < ?n"
    by (auto simp: names_noted_def Let_def)
  have "?st \<le> ?c - 1" using n start by auto
  then obtain i where i: "btf_find_type_by_name_bsearch B name ?st = Some i" "lower_bound B name ?st (?c - 1) i"
    unfolding btf_find_type_by_name_bsearch_def
    using bsearch_loop_first [of ?st "?c - 1" B name] type_name_ok [OF assms(1)] asc start by fastforce
  have "nm B j \<noteq> name" if "start_id \<le> j" "j < i" for j
  proof (cases "j < ?n")
    case True
    with emp [of j] that start n assms(4) show ?thesis by auto
  next
    case False
    with that i(2) have "strcmp (nm B j) name < 0" by (auto simp: lower_bound_def)
    then show ?thesis by auto
  qed
  with i n start show ?thesis by (auto simp: lower_bound_def)
qed

lemma find_own_first:
  assumes "wf_btf B" and "names_noted B" and "0 < start_id" and "bo_start_id (own B) \<le> start_id"
  shows "find_own B start_id name kind = Some (find_first B start_id name kind)"
proof (cases "kind = 0 \<or> name = ascii ''void''")
  case False
  let ?c = "btf__type_cnt B"
  have r: "readable_ids B [start_id..<?c]" using assms(3) by (intro readable_wf [OF assms(1)]) auto
  show ?thesis
  proof (cases "bo_named_start_id (own B) > 0 \<and> name \<noteq> []")
    case True
    show ?thesis
    proof (cases "start_id < ?c")
      case in_range: True
      from True bsearch_skips [OF assms(1,2) _ _ assms(3,4) in_range] obtain i where
        i: "btf_find_type_by_name_bsearch B name (max start_id (bo_named_start_id (own B))) = Some i" "start_id \<le> i" "i \<le> ?c"
          "i < ?c \<Longrightarrow> 0 \<le> strcmp (nm B i) name" "\<And>j. start_id \<le> j \<Longrightarrow> j < i \<Longrightarrow> nm B j \<noteq> name" by blast
      have "scan_loop B name kind [i..<?c] = Some (case find (matches B name kind) [i..<?c] of None \<Rightarrow> - ENOENT | Some i \<Rightarrow> int i)"
      proof (rule scan_loop_find)
        show "strcmp (nm B j) (nm B k) \<le> 0" if "i \<le> j" "j \<le> k" "k < ?c" for j k
          using assms(2,4) True that i(2) by (auto simp: names_noted_def Let_def)
      qed (use r False i in \<open>auto simp: readable_ids_def\<close>)
      moreover have "find (matches B name kind) [start_id..<?c] = find (matches B name kind) [i..<?c]"
        by (rule find_upt_skip [OF i(2,3)]) (use i(5) in \<open>force simp: matches_def\<close>)
      ultimately show ?thesis using False True i(1) by (simp add: find_own_def find_first_def)
    next
      case False': False
      then have "btf_find_type_by_name_bsearch B name (max start_id (bo_named_start_id (own B))) = Some ?c"
        unfolding btf_find_type_by_name_bsearch_def
        by (intro trans [OF bsearch_loop.simps if_not_P]) (use assms(3) in auto)
      with False' False True show ?thesis by (simp add: find_own_def find_first_def)
    qed
  next
    case False': False
    with False linear_loop_find [OF _ r] show ?thesis by (auto simp: find_own_def find_first_def)
  qed
qed (auto simp: find_own_def find_first_def)

section \<open>Objects below a split one\<close>

lemma base_type_name:
  assumes "wf_btf (Btf b (Some B))" and "0 < i" and "i < btf__type_cnt B"
  shows "type_name (Btf b (Some B)) i = type_name B i"
proof -
  from assms(1) have w: "shaped (Btf b (Some B))" "shaped B" "typed B" by (auto simp: wf_btf_def)
  from shaped_kind [OF w(2) assms(3)] obtain t where t: "btf_type_by_id B i = Some t" by blast
  with typed_lookup [OF w(2,3) t assms(3)] assms(2) have "type_ok B t" by simp
  then obtain v where "t_rd t 0 = Some v" "v < str_end B" by (auto simp: type_ok_def str_fields_def)
  with t base_lookup [OF w(1)] assms(3) show ?thesis by (simp add: type_name_def t_name_off_def)
qed

lemma base_matches:
  assumes "wf_btf (Btf b (Some B))" and "0 < i" and "i < btf__type_cnt B"
  shows "matches (Btf b (Some B)) name kind i = matches B name kind i"
  using base_type_name [OF assms] base_lookup(1) [of b B i] assms by (simp add: matches_def wf_btf_def del: btf_type_by_id.simps)

lemma find_append: "find P (xs @ ys) = (case find P xs of Some x \<Rightarrow> Some x | None \<Rightarrow> find P ys)"
  by (induction xs) auto

lemma find_cong_set: "(\<And>x. x \<in> set xs \<Longrightarrow> P x = Q x) \<Longrightarrow> find P xs = find Q xs"
  by (induction xs) auto

lemma find_first_split:
  assumes "wf_btf (Btf b (Some B))" and "0 < start_id" and "start_id < bo_start_id b"
  shows "find_first (Btf b (Some B)) start_id name kind =
    (if find_first B start_id name kind \<ge> 0 then find_first B start_id name kind
     else find_first (Btf b (Some B)) (bo_start_id b) name kind)"
proof -
  let ?S = "Btf b (Some B)"
  from assms(1) have c: "bo_start_id b = btf__type_cnt B" by (simp add: wf_btf_def)
  have "[start_id..<btf__type_cnt ?S] = [start_id..<btf__type_cnt B] @ [btf__type_cnt B..<btf__type_cnt ?S]"
    using assms(3) c by (metis cnt_Btf less_imp_le_nat upt_add_eq_append)
  moreover have "find (matches ?S name kind) [start_id..<btf__type_cnt B] = find (matches B name kind) [start_id..<btf__type_cnt B]"
    by (rule find_cong_set) (use base_matches [OF assms(1)] assms(2) in auto)
  ultimately have "find (matches ?S name kind) [start_id..<btf__type_cnt ?S] =
      (case find (matches B name kind) [start_id..<btf__type_cnt B] of Some i \<Rightarrow> Some i
       | None \<Rightarrow> find (matches ?S name kind) [bo_start_id b..<btf__type_cnt ?S])"
    unfolding c by (simp only: find_append option.case_eq_if)
  then show ?thesis by (auto simp: find_first_def simp del: cnt_Btf split: option.splits)
qed

lemma find_correct:
  assumes "wf_btf B" and "noted B" and "0 < start_id"
  shows "btf_find_by_name_kind B start_id name kind = Some (find_first B start_id name kind)"
  using assms
proof (induction B)
  case (Btf b base)
  then have n: "names_noted (Btf b base)" by simp
  show ?case
  proof (cases "start_id < bo_start_id b")
    case True
    with Btf.prems obtain B where B: "base = Some B" "wf_btf B" "noted B" by (cases base) (auto simp: wf_btf_def)
    from Btf.IH [of B] B Btf.prems(3) have "btf_find_by_name_kind B start_id name kind = Some (find_first B start_id name kind)" by simp
    moreover have "find_own (Btf b base) (bo_start_id b) name kind = Some (find_first (Btf b base) (bo_start_id b) name kind)"
      by (rule find_own_first) (use Btf.prems n True in auto)
    ultimately show ?thesis using True B(1) find_first_split [of b B start_id name kind] Btf.prems(1,3) by simp
  next
    case False
    with find_own_first [of "Btf b base" start_id name kind] Btf.prems n show ?thesis by simp
  qed
qed

section \<open>Loaded objects\<close>

inductive loaded :: "btf \<Rightarrow> bool" where
  base: "btf_new c m idx data None mm = Some (Inr B) \<Longrightarrow> loaded B"
| split: "loaded B \<Longrightarrow> btf_new c m idx data (Some B) mm = Some (Inr B') \<Longrightarrow> loaded B'"

lemma type_name_noted: "type_name (Btf (b\<lparr>bo_named_start_id := n\<rparr>) base) i = type_name (Btf b base) i"
  by (simp only: type_name_def named_irrelevant)

lemma check_sorted_noted:
  assumes "btf_check_sorted (Btf b base) = Some B" and "bo_named_start_id b = 0" and "0 < bo_start_id b"
  shows "names_noted B"
proof -
  from assms(1) obtain r where r: "sorted_loop (Btf b base) 0 [bo_start_id b + 1..<btf__type_cnt (Btf b base)] = Some r"
    by (auto simp: btf_check_sorted_def simp del: cnt_Btf split: bind_splits)
  show ?thesis
  proof (cases "r = None \<or> r = Some 0")
    case True
    with assms r have "B = Btf b base" by (auto simp: btf_check_sorted_def)
    with assms(2) show ?thesis by (simp add: names_noted_def)
  next
    case False
    then obtain k where k: "r = Some k" "k \<noteq> 0" by auto
    with assms(1) r have "B = Btf (b\<lparr>bo_named_start_id := k\<rparr>) base" by (auto simp: btf_check_sorted_def)
    with sorted_loop_noted [OF r [unfolded k(1)] assms(3) k(2)] show ?thesis
      by (auto simp: names_noted_def Let_def type_name_noted)
  qed
qed

lemma new_sorted:
  assumes "btf_new calloc_ok malloc_ok idx_ok data base is_mmap = Some (Inr B)"
  obtains h swapped types offs strs where "btf_check_sorted (btf_object h swapped types offs strs base) = Some B"
  using assms by (auto simp: btf_new_def Let_def split: bind_splits if_splits sum.splits prod.splits)

lemma new_order:
  assumes "btf_new calloc_ok malloc_ok idx_ok data base is_mmap = Some (Inr B)"
  shows "\<not> is_mmap \<or> rd 2 data 0 \<noteq> Some (bswap 2 BTF_MAGIC)"
proof (rule ccontr)
  assume swap: "\<not> ?thesis"
  then have "btf_parse_hdr is_mmap data \<noteq> Some (Inr r)" for r
    by (auto simp: btf_parse_hdr_def btf_hdr_at_def split: bind_splits if_splits sum.splits)
  with assms show False by (auto simp: btf_new_def Let_def split: bind_splits if_splits sum.splits)
qed

lemma new_ok:
  assumes "btf_new c m idx data base mm = Some (Inr B)" and base: "\<forall>B. base = Some B \<longrightarrow> wf_btf B \<and> noted B"
  shows "wf_btf B \<and> noted B"
proof
  from btf_new_total [OF _ new_order [OF assms(1)], of base c m idx] assms have w: "wf_btf B" "base_btf B = base" by auto
  from new_sorted [OF assms(1)] obtain h swapped types offs strs where
    s: "btf_check_sorted (btf_object h swapped types offs strs base) = Some B" by blast
  have "0 < bo_start_id (own (btf_object h swapped types offs strs base))"
    using base shaped_cnt by (auto simp: btf_object_def wf_btf_def split: option.splits dest: Suc_le_lessD)
  with s have "names_noted B" unfolding btf_object_def by (intro check_sorted_noted) auto
  with w(2) base show "noted B" by (cases B) (auto split: option.splits)
  show "wf_btf B" by (rule w(1))
qed

lemma loaded_ok: "loaded B \<Longrightarrow> wf_btf B \<and> noted B"
  by (induction rule: loaded.induct) (erule new_ok; simp)+

section \<open>An object with sorted names\<close>

text \<open>A pointer, which has no name, and the type \<open>int\<close> it points to.\<close>

definition named_types :: "8 word list" where
  "named_types =
     [0, 0, 0, 0, 0, 0, 0, 2, 2, 0, 0, 0,
      1, 0, 0, 0, 0, 0, 0, 1, 4, 0, 0, 0, 32, 0, 0, 1]"

definition named_own :: btf_own where
  "named_own = \<lparr>bo_hdr = image_hdr 28 5, bo_swapped_endian = False, bo_types_data = named_types, bo_type_offs = [0, 12],
     bo_named_start_id = 2, bo_start_id = 1, bo_start_str_off = 0, bo_strs_data = demo_strs, bo_ptr_sz = 0\<rparr>"

lemma named_parse: "btf_parse_type_sec False (\<lambda>_. True) 0 [] named_types = Some (Inr ([0, 12], named_types))"
proof -
  note eval = parse_type_def btf_type_size_def btf_kind_def btf_vlen_def rd_def BTF_INFO_KIND_def BTF_INFO_VLEN_def kind_size_def
  have len: "length named_types = 28" by (simp add: named_types_def)
  have p: "parse_type False True 0 named_types = Some (Inr (12, named_types))"
    "parse_type False True 12 named_types = Some (Inr (28, named_types))" by (simp_all add: eval named_types_def)
  have "btf_parse_type_sec False (\<lambda>_. True) 28 [0, 12] named_types = Some (Inr ([0, 12], named_types))"
    by (simp add: btf_parse_type_sec.simps [of _ _ 28] len)
  with p have "btf_parse_type_sec False (\<lambda>_. True) 12 [0] named_types = Some (Inr ([0, 12], named_types))"
    by (simp add: btf_parse_type_sec.simps [of _ _ 12] len)
  with p show ?thesis by (simp add: btf_parse_type_sec.simps [of _ _ 0] len)
qed

lemma named_names:
  "type_name (Btf named_own None) 1 = Some []" "type_name (Btf named_own None) 2 = Some [105, 110, 116]"
  by (simp_all add: type_name_def t_name_off_def rd_def named_own_def named_types_def demo_strs_def image_hdr_def str_at_def)

lemma named_loaded: "loaded (Btf named_own None)"
proof -
  let ?B = "Btf (named_own\<lparr>bo_named_start_id := 0\<rparr>) None"
  have len: "length named_types = 28" "length demo_strs = 5" by (simp_all add: named_types_def demo_strs_def)
  have ids: "[bo_start_id (own ?B)..<btf__type_cnt ?B] = [1, 2]" "[bo_start_id (own ?B) + 1..<btf__type_cnt ?B] = [2]"
    by (simp_all add: named_own_def)
  have s: "btf_parse_str_sec (None \<noteq> None) demo_strs = Some 0"
    by (simp add: btf_parse_str_sec_def demo_strs_def rd_def BTF_MAX_STR_OFFSET_def)
  have "btf_type_by_id ?B 1 = Some (T_at named_types 0)" "btf_type_by_id ?B 2 = Some (T_at named_types 12)"
    by (simp_all add: named_own_def)
  moreover have "btf_validate_type ?B (T_at named_types 0) = Some 0" "btf_validate_type ?B (T_at named_types 12) = Some 0"
    by (simp_all add: btf_validate_type_def btf_kind_def btf_vlen_def t_name_off_def rd_def named_types_def BTF_INFO_KIND_def
        BTF_INFO_VLEN_def validate_rest_def field_checks_def Let_def btf_validate_str_def btf_validate_id_def named_own_def
        image_hdr_def btf__type_by_id_def)
  ultimately have "btf_sanity_check ?B = Some 0" unfolding btf_sanity_check_def ids by simp
  moreover have "btf_check_sorted ?B = Some (Btf named_own None)"
    unfolding btf_check_sorted_def ids using named_names type_name_noted [of 0 named_own None]
    by (simp add: Let_def) (simp add: named_own_def)
  moreover have "btf_object (image_hdr 28 5) False named_types [0, 12] demo_strs None = ?B"
    by (simp add: btf_object_def named_own_def)
  ultimately have "btf_new True True (\<lambda>_. True) (btf_image named_types demo_strs) None False = Some (Inr (Btf named_own None))"
    using new_image [of named_types demo_strs None "\<lambda>_. True" "[0, 12]" False] named_parse s by (simp add: len Let_def)
  then show ?thesis by (rule loaded.base)
qed

section \<open>The search finds the first type\<close>

text \<open>C12: in every object that was loaded, on top of nothing or of other loaded objects, looking a name and a
  kind up from a type number on always returns, reads nothing outside the objects, and gives the first type
  from there on, through all the objects below, that has the name and, unless the kind is negative, the kind;
  no such type is \<open>ENOENT\<close>, and the kind 0 and the name \<open>void\<close> are the type 0. So the binary search that is
  used when the loader has found the names of an object sorted answers what a linear search would.\<close>

theorem btf_find_by_name_correct:
  assumes "loaded B" and "0 < start_id"
  shows "btf_find_by_name_kind B start_id name kind = Some (find_first B start_id name kind)"
  using find_correct loaded_ok [OF assms(1)] assms(2) by blast

theorem btf_find_by_name_correct_witness:
  "btf__find_by_name (Btf named_own None) (ascii ''int'') = Some 2"
proof -
  have r: "[1..<btf__type_cnt (Btf named_own None)] = [1, 2]" by (simp add: named_own_def)
  have a: "ascii ''int'' = [105, 110, 116]" "ascii ''void'' = [118, 111, 105, 100]" by (simp_all add: ascii_def)
  have "find_first (Btf named_own None) 1 (ascii ''int'') (- 1) = 2"
    using named_names unfolding find_first_def r by (simp add: a matches_def)
  then show ?thesis
    using btf_find_by_name_correct [OF named_loaded, of 1 "ascii ''int''" "- 1"] by (simp add: btf__find_by_name_def)
qed

end
