(* ===== verification/BtfBuild.thy ===== *)
theory BtfBuild
  imports BtfQuery
begin

text \<open>
  Building type information (\<^verbatim>\<open>libbpf/src/btf.c\<close>): an object in its two states, as it was loaded and split into
  growing buffers with a set of strings, and the calls that append strings, types and members. A
  number of a type or of a byte of the string sections is taken to fit an \<^verbatim>\<open>int\<close>: each section is limited to less
  than \<open>2 ^ 32\<close> bytes by the buffers it grows in.
\<close>

section \<open>Objects that can be modified\<close>

text \<open>\<open>bm_strs\<close> is \<open>Inl\<close> the string section of the raw data, or \<open>Inr\<close> the set of strings of an object that was split
  up; the offsets of types are an array of 32-bit numbers. The copies of the raw data that are cached for
  callers are not part of the model.\<close>

record bmod =
  bm_hdr :: btf_header
  bm_swapped_endian :: bool
  bm_types_data :: "8 word list"
  bm_types_data_cap :: nat
  bm_type_offs :: "8 word list"
  bm_type_offs_cap :: nat
  bm_nr_types :: nat
  bm_named_start_id :: nat
  bm_start_id :: nat
  bm_start_str_off :: nat
  bm_strs :: "8 word list + strset"
  bm_strs_deduped :: bool
  bm_ptr_sz :: int

datatype btf_obj = Obj (bm: bmod) (bm_base: "btf_obj option")

definition btf_is_modifiable :: "bmod \<Rightarrow> bool" where
  "btf_is_modifiable b = (case bm_strs b of Inl _ \<Rightarrow> False | Inr _ \<Rightarrow> True)"

definition btf_strs_data :: "bmod \<Rightarrow> 8 word list" where
  "btf_strs_data b = (case bm_strs b of Inl d \<Rightarrow> d | Inr st \<Rightarrow> strs_data st)"

text \<open>Which allocations succeed in a call, for an object and the objects below it.\<close>

record btf_allocs =
  al_modify :: bool
  al_set :: "bool \<times> bool \<times> bool"
  al_index :: "nat \<Rightarrow> bool \<times> bool"
  al_types :: bool
  al_offs :: bool
  al_strs :: "bool \<times> bool \<times> bool"

text \<open>An object splits its raw data into copies of the header, the types and the strings. A header that is
  shorter than its fields would be copied only in part: \<open>None\<close>.\<close>

definition btf_ensure_modifiable :: "btf_allocs \<Rightarrow> bool \<Rightarrow> bmod \<Rightarrow> (int \<times> bmod) option" where
  "btf_ensure_modifiable al has_base b =
     (case bm_strs b of
        Inr _ \<Rightarrow> Some (0, b\<lparr>bm_named_start_id := 0\<rparr>)
      | Inl d \<Rightarrow>
          if \<not> al_modify al then Some (- ENOMEM, b)
          else if bh_hdr_len (bm_hdr b) < 24 then None
          else (case strset__new (fst (al_set al)) (fst (snd (al_set al))) (snd (snd (al_set al))) (al_index al)
                  BTF_MAX_STR_OFFSET (Some (take (bh_str_len (bm_hdr b)) d)) of
                  Inl e \<Rightarrow> Some (e, b)
                | Inr st \<Rightarrow> Some (0, b\<lparr>bm_types_data := take (bh_type_len (bm_hdr b)) (bm_types_data b),
                    bm_types_data_cap := bh_type_len (bm_hdr b), bm_strs := Inr st,
                    bm_strs_deduped := bm_strs_deduped b \<or> bh_str_len (bm_hdr b) = 0 \<or>
                      \<not> has_base \<and> bh_str_len (bm_hdr b) = 1,
                    bm_named_start_id := 0\<rparr>)))"

definition obj_ensure_modifiable :: "btf_allocs \<Rightarrow> btf_obj \<Rightarrow> (int \<times> btf_obj) option" where
  "obj_ensure_modifiable al B =
     map_option (\<lambda>(err, b). (err, Obj b (bm_base B))) (btf_ensure_modifiable al (bm_base B \<noteq> None) (bm B))"

definition obj_type_cnt :: "btf_obj \<Rightarrow> nat" where
  "obj_type_cnt B = bm_start_id (bm B) + bm_nr_types (bm B)"

definition empty_hdr :: "bool \<Rightarrow> btf_header" where
  "empty_hdr has_base = \<lparr>bh_magic = BTF_MAGIC, bh_version = 1, bh_flags = 0, bh_hdr_len = 24, bh_type_off = 0,
     bh_type_len = 0, bh_str_off = 0, bh_str_len = (if has_base then 0 else 1)\<rparr>"

definition btf_new_empty :: "bool \<Rightarrow> bool \<Rightarrow> btf_obj option \<Rightarrow> int + btf_obj" where
  "btf_new_empty calloc_ok raw_ok base =
     (if \<not> calloc_ok \<or> \<not> raw_ok then Inl (- ENOMEM)
      else Inr (Obj \<lparr>bm_hdr = empty_hdr (base \<noteq> None),
        bm_swapped_endian = (case base of None \<Rightarrow> False | Some B \<Rightarrow> bm_swapped_endian (bm B)),
        bm_types_data = [], bm_types_data_cap = 0, bm_type_offs = [], bm_type_offs_cap = 0, bm_nr_types = 0,
        bm_named_start_id = 0,
        bm_start_id = (case base of None \<Rightarrow> 1 | Some B \<Rightarrow> obj_type_cnt B),
        bm_start_str_off = (case base of None \<Rightarrow> 0 | Some B \<Rightarrow> bh_str_len (bm_hdr (bm B)) + bm_start_str_off (bm B)),
        bm_strs = Inl (if base = None then [0] else []), bm_strs_deduped = False, bm_ptr_sz = 8\<rparr> base))"

definition btf__new_empty :: "bool \<Rightarrow> bool \<Rightarrow> int + btf_obj" where
  "btf__new_empty calloc_ok raw_ok = btf_new_empty calloc_ok raw_ok None"

definition btf__new_empty_split :: "bool \<Rightarrow> bool \<Rightarrow> btf_obj \<Rightarrow> int + btf_obj" where
  "btf__new_empty_split calloc_ok raw_ok base = btf_new_empty calloc_ok raw_ok (Some base)"

section \<open>Strings\<close>

text \<open>A string is looked for in the objects below first. The set of an object that was split up is always there,
  else \<open>None\<close>.\<close>

fun btf__find_str :: "(nat \<Rightarrow> btf_allocs) \<Rightarrow> 8 word list \<Rightarrow> btf_obj \<Rightarrow> (int \<times> btf_obj) option" where
  "btf__find_str al s (Obj b base) =
     do { (off, base) \<leftarrow> (case base of
              None \<Rightarrow> Some (- ENOENT, None)
            | Some B \<Rightarrow> map_option (\<lambda>(off, B). (off, Some B)) (btf__find_str (\<lambda>n. al (Suc n)) s B));
          if off \<noteq> - ENOENT then Some (off, Obj b base)
          else do {
            (err, b) \<leftarrow> btf_ensure_modifiable (al 0) (base \<noteq> None) b;
            if err \<noteq> 0 then Some (- ENOMEM, Obj b base)
            else (case bm_strs b of
                    Inl _ \<Rightarrow> None
                  | Inr st \<Rightarrow>
                      (let (off, st) = strset__find_str (fst (al_strs (al 0))) st s;
                           b = b\<lparr>bm_strs := Inr st\<rparr>
                       in Some (if off < 0 then off else int (bm_start_str_off b) + off, Obj b base))) } }"

definition btf__add_str :: "(nat \<Rightarrow> btf_allocs) \<Rightarrow> 8 word list \<Rightarrow> btf_obj \<Rightarrow> (int \<times> btf_obj) option" where
  "btf__add_str al s B =
     do { (off, base) \<leftarrow> (case bm_base B of
              None \<Rightarrow> Some (- ENOENT, None)
            | Some B \<Rightarrow> map_option (\<lambda>(off, B). (off, Some B)) (btf__find_str (\<lambda>n. al (Suc n)) s B));
          if off \<noteq> - ENOENT then Some (off, Obj (bm B) base)
          else do {
            (err, b) \<leftarrow> btf_ensure_modifiable (al 0) (base \<noteq> None) (bm B);
            if err \<noteq> 0 then Some (- ENOMEM, Obj b base)
            else (case bm_strs b of
                    Inl _ \<Rightarrow> None
                  | Inr st \<Rightarrow>
                      (let (realloc_ok, calloc_ok, malloc_ok) = al_strs (al 0);
                           (off, st) = strset__add_str realloc_ok calloc_ok malloc_ok st s;
                           b = b\<lparr>bm_strs := Inr st\<rparr>
                       in Some (if off < 0 then (off, Obj b base)
                                else (int (bm_start_str_off b) + off,
                                      Obj (b\<lparr>bm_hdr := (bm_hdr b)\<lparr>bh_str_len := strs_data_len st\<rparr>\<rparr>) base)))) } }"

section \<open>Appending types\<close>

definition BTF_MAX_NR_TYPES :: nat where "BTF_MAX_NR_TYPES = 0x7fffffff"

definition word_bytes :: "nat list \<Rightarrow> 8 word list" where
  "word_bytes ws = concat (map (le_bytes 4) ws)"

text \<open>The three parts of \<open>info\<close> do not overlap: a kind has 5 bits, and the number of members at most 17.\<close>

definition btf_type_info :: "nat \<Rightarrow> nat \<Rightarrow> bool \<Rightarrow> nat" where
  "btf_type_info kind vlen kflag = (if kflag then 2 ^ 31 else 0) + kind * 2 ^ 24 + vlen"

definition btf_add_type_mem :: "btf_allocs \<Rightarrow> bmod \<Rightarrow> nat \<Rightarrow> (nat \<times> bmod) option" where
  "btf_add_type_mem al b add_sz =
     map_option (\<lambda>(p, data, cap). (p, b\<lparr>bm_types_data := data, bm_types_data_cap := cap\<rparr>))
       (libbpf_add_mem (al_types al) (bm_types_data b) (bm_types_data_cap b) 1 (bh_type_len (bm_hdr b)) UINT32_MAX add_sz)"

definition btf_add_type_offs_mem :: "btf_allocs \<Rightarrow> bmod \<Rightarrow> nat \<Rightarrow> (nat \<times> bmod) option" where
  "btf_add_type_offs_mem al b add_cnt =
     map_option (\<lambda>(p, offs, cap). (p, b\<lparr>bm_type_offs := offs, bm_type_offs_cap := cap\<rparr>))
       (libbpf_add_mem (al_offs al) (bm_type_offs b) (bm_type_offs_cap b) 4 (bm_nr_types b) BTF_MAX_NR_TYPES add_cnt)"

definition btf_add_type_idx_entry :: "btf_allocs \<Rightarrow> bmod \<Rightarrow> nat \<Rightarrow> int \<times> bmod" where
  "btf_add_type_idx_entry al b type_off =
     (case btf_add_type_offs_mem al b 1 of
        None \<Rightarrow> (- ENOMEM, b)
      | Some (p, b) \<Rightarrow> (0, b\<lparr>bm_type_offs := memcpy p (le_bytes 4 type_off) (bm_type_offs b)\<rparr>))"

text \<open>The lengths of the header after data was appended; both are 32-bit numbers.\<close>

definition grow_hdr :: "nat \<Rightarrow> btf_header \<Rightarrow> btf_header" where
  "grow_hdr sz h = h\<lparr>bh_type_len := (bh_type_len h + sz) mod 2 ^ 32, bh_str_off := (bh_str_off h + sz) mod 2 ^ 32\<rparr>"

definition btf_commit_type :: "btf_allocs \<Rightarrow> bmod \<Rightarrow> nat \<Rightarrow> int \<times> bmod" where
  "btf_commit_type al b data_sz =
     (let (err, b) = btf_add_type_idx_entry al b (bh_type_len (bm_hdr b))
      in if err \<noteq> 0 then (err, b)
         else (let b = b\<lparr>bm_hdr := grow_hdr data_sz (bm_hdr b), bm_nr_types := bm_nr_types b + 1\<rparr>
               in (int (bm_start_id b + bm_nr_types b - 1), b)))"

text \<open>What every call that appends does first: memory for the words of a type or of a member, the string of its name
  unless that is empty or \<^verbatim>\<open>NULL\<close>, and the words, which may hold the number of the string. The result is an
  error or 0. Nothing else is written between the two buffers, so the place of the words stays valid.\<close>

definition append_words :: "(nat \<Rightarrow> btf_allocs) \<Rightarrow> nat \<Rightarrow> 8 word list \<Rightarrow> (nat \<Rightarrow> nat list) \<Rightarrow> btf_obj \<Rightarrow> (int \<times> btf_obj) option" where
  "append_words al sz name ws B =
     do { (err, B) \<leftarrow> obj_ensure_modifiable (al 0) B;
          if err \<noteq> 0 then Some (- ENOMEM, B)
          else (case btf_add_type_mem (al 0) (bm B) sz of
                  None \<Rightarrow> Some (- ENOMEM, B)
                | Some (p, b) \<Rightarrow>
                    do { (name_off, B) \<leftarrow> (if name = [] then Some (0, Obj b (bm_base B))
                                           else btf__add_str al name (Obj b (bm_base B)));
                         if name_off < 0 then Some (name_off, B)
                         else (let b = bm B
                               in Some (0, Obj (b\<lparr>bm_types_data := memcpy p (word_bytes (ws (nat name_off))) (bm_types_data b)\<rparr>)
                                    (bm_base B))) }) }"

definition append_type :: "(nat \<Rightarrow> btf_allocs) \<Rightarrow> nat \<Rightarrow> 8 word list \<Rightarrow> (nat \<Rightarrow> nat list) \<Rightarrow> btf_obj \<Rightarrow> (int \<times> btf_obj) option" where
  "append_type al sz name ws B =
     do { (err, B) \<leftarrow> append_words al sz name ws B;
          if err < 0 then Some (err, B)
          else (let (r, b) = btf_commit_type (al 0) (bm B) sz in Some (r, Obj b (bm_base B))) }"

text \<open>The \<open>info\<close> of the type that was appended last.\<close>

definition last_type_off :: "bmod \<Rightarrow> nat option" where
  "last_type_off b = rd 4 (bm_type_offs b) (4 * (bm_nr_types b - 1))"

definition last_type_info :: "bmod \<Rightarrow> nat option" where
  "last_type_info b = do { off \<leftarrow> last_type_off b; rd 4 (bm_types_data b) (off + 4) }"

definition set_last_info :: "nat \<Rightarrow> bmod \<Rightarrow> bmod option" where
  "set_last_info info b =
     do { off \<leftarrow> last_type_off b; old \<leftarrow> rd 4 (bm_types_data b) (off + 4);
          Some (b\<lparr>bm_types_data := memcpy (off + 4) (le_bytes 4 info) (bm_types_data b)\<rparr>) }"

definition append_member :: "(nat \<Rightarrow> btf_allocs) \<Rightarrow> nat \<Rightarrow> 8 word list \<Rightarrow> (nat \<Rightarrow> nat list) \<Rightarrow> (nat \<Rightarrow> nat) \<Rightarrow> btf_obj \<Rightarrow>
    (int \<times> btf_obj) option" where
  "append_member al sz name ws update B =
     do { (err, B) \<leftarrow> append_words al sz name ws B;
          if err < 0 then Some (err, B)
          else do { info \<leftarrow> last_type_info (bm B); b \<leftarrow> set_last_info (update info) (bm B);
                    Some (0, Obj (b\<lparr>bm_hdr := grow_hdr sz (bm_hdr b)\<rparr>) (bm_base B)) } }"

definition btf_type_inc_vlen :: "nat \<Rightarrow> nat" where
  "btf_type_inc_vlen info = btf_type_info (BTF_INFO_KIND info) (BTF_INFO_VLEN info + 1) (BTF_INFO_KFLAG info = 1)"

text \<open>A call that appends a member first looks at the type that was appended last.\<close>

definition check_last :: "nat set \<Rightarrow> btf_obj \<Rightarrow> (nat option) option" where
  "check_last kinds B =
     (if bm_nr_types (bm B) = 0 then Some None
      else do { info \<leftarrow> last_type_info (bm B); Some (if BTF_INFO_KIND info \<in> kinds then Some info else None) })"

section \<open>The calls\<close>

definition btf__add_int :: "(nat \<Rightarrow> btf_allocs) \<Rightarrow> 8 word list \<Rightarrow> nat \<Rightarrow> nat \<Rightarrow> btf_obj \<Rightarrow> (int \<times> btf_obj) option" where
  "btf__add_int al name byte_sz encoding B =
     (if name = [] then Some (- EINVAL, B)
      else if byte_sz = 0 \<or> and byte_sz (byte_sz - 1) \<noteq> 0 \<or> byte_sz > 16 then Some (- EINVAL, B)
      else if encoding div 8 \<noteq> 0 then Some (- EINVAL, B)
      else append_type al 16 name
        (\<lambda>name_off. [name_off, btf_type_info BTF_KIND_INT 0 False, byte_sz, encoding * 2 ^ 24 + byte_sz * 8]) B)"

definition btf__add_float :: "(nat \<Rightarrow> btf_allocs) \<Rightarrow> 8 word list \<Rightarrow> nat \<Rightarrow> btf_obj \<Rightarrow> (int \<times> btf_obj) option" where
  "btf__add_float al name byte_sz B =
     (if name = [] then Some (- EINVAL, B)
      else if byte_sz \<noteq> 2 \<and> byte_sz \<noteq> 4 \<and> byte_sz \<noteq> 8 \<and> byte_sz \<noteq> 12 \<and> byte_sz \<noteq> 16 then Some (- EINVAL, B)
      else append_type al 12 name (\<lambda>name_off. [name_off, btf_type_info BTF_KIND_FLOAT 0 False, byte_sz]) B)"

definition validate_type_id :: "int \<Rightarrow> int" where
  "validate_type_id id' = (if id' < 0 \<or> id' > int BTF_MAX_NR_TYPES then - EINVAL else 0)"

definition btf_add_ref_kind :: "(nat \<Rightarrow> btf_allocs) \<Rightarrow> nat \<Rightarrow> 8 word list \<Rightarrow> int \<Rightarrow> bool \<Rightarrow> btf_obj \<Rightarrow> (int \<times> btf_obj) option" where
  "btf_add_ref_kind al kind name ref_type_id kflag B =
     (if validate_type_id ref_type_id \<noteq> 0 then Some (- EINVAL, B)
      else append_type al 12 name (\<lambda>name_off. [name_off, btf_type_info kind 0 kflag, nat ref_type_id]) B)"

definition btf__add_ptr :: "(nat \<Rightarrow> btf_allocs) \<Rightarrow> int \<Rightarrow> btf_obj \<Rightarrow> (int \<times> btf_obj) option" where
  "btf__add_ptr al ref_type_id B = btf_add_ref_kind al BTF_KIND_PTR [] ref_type_id False B"

definition btf__add_array :: "(nat \<Rightarrow> btf_allocs) \<Rightarrow> int \<Rightarrow> int \<Rightarrow> 32 word \<Rightarrow> btf_obj \<Rightarrow> (int \<times> btf_obj) option" where
  "btf__add_array al index_type_id elem_type_id nr_elems B =
     (if validate_type_id index_type_id \<noteq> 0 \<or> validate_type_id elem_type_id \<noteq> 0 then Some (- EINVAL, B)
      else append_type al 24 []
        (\<lambda>_. [0, btf_type_info BTF_KIND_ARRAY 0 False, 0, nat elem_type_id, nat index_type_id, unat nr_elems]) B)"

definition btf_add_composite :: "(nat \<Rightarrow> btf_allocs) \<Rightarrow> nat \<Rightarrow> 8 word list \<Rightarrow> 32 word \<Rightarrow> btf_obj \<Rightarrow> (int \<times> btf_obj) option" where
  "btf_add_composite al kind name bytes_sz B =
     append_type al 12 name (\<lambda>name_off. [name_off, btf_type_info kind 0 False, unat bytes_sz]) B"

definition btf__add_struct :: "(nat \<Rightarrow> btf_allocs) \<Rightarrow> 8 word list \<Rightarrow> 32 word \<Rightarrow> btf_obj \<Rightarrow> (int \<times> btf_obj) option" where
  "btf__add_struct al name byte_sz B = btf_add_composite al BTF_KIND_STRUCT name byte_sz B"

definition btf__add_union :: "(nat \<Rightarrow> btf_allocs) \<Rightarrow> 8 word list \<Rightarrow> 32 word \<Rightarrow> btf_obj \<Rightarrow> (int \<times> btf_obj) option" where
  "btf__add_union al name byte_sz B = btf_add_composite al BTF_KIND_UNION name byte_sz B"

definition is_bitfield :: "32 word \<Rightarrow> 32 word \<Rightarrow> bool" where
  "is_bitfield bit_offset bit_size \<longleftrightarrow> bit_size \<noteq> 0 \<or> unat bit_offset mod 8 \<noteq> 0"

definition btf__add_field :: "(nat \<Rightarrow> btf_allocs) \<Rightarrow> 8 word list \<Rightarrow> int \<Rightarrow> 32 word \<Rightarrow> 32 word \<Rightarrow> btf_obj \<Rightarrow> (int \<times> btf_obj) option" where
  "btf__add_field al name type_id bit_offset bit_size B =
     do { t \<leftarrow> check_last {BTF_KIND_STRUCT, BTF_KIND_UNION} B;
          case t of
            None \<Rightarrow> Some (- EINVAL, B)
          | Some info \<Rightarrow>
              (if validate_type_id type_id \<noteq> 0 then Some (- EINVAL, B)
               else if is_bitfield bit_offset bit_size \<and> (bit_size = 0 \<or> bit_size > 255 \<or> bit_offset > 0xffffff)
               then Some (- EINVAL, B)
               else if BTF_INFO_KIND info = BTF_KIND_UNION \<and> bit_offset \<noteq> 0 then Some (- EINVAL, B)
               else append_member al 12 name
                 (\<lambda>name_off. [name_off, nat type_id, unat (or bit_offset (push_bit 24 bit_size))])
                 (\<lambda>info. btf_type_info (BTF_INFO_KIND info) (BTF_INFO_VLEN info + 1)
                    (is_bitfield bit_offset bit_size \<or> BTF_INFO_KFLAG info = 1)) B) }"

definition btf_add_enum_common :: "(nat \<Rightarrow> btf_allocs) \<Rightarrow> 8 word list \<Rightarrow> 32 word \<Rightarrow> bool \<Rightarrow> nat \<Rightarrow> btf_obj \<Rightarrow> (int \<times> btf_obj) option" where
  "btf_add_enum_common al name byte_sz is_signed kind B =
     (if byte_sz = 0 \<or> and byte_sz (byte_sz - 1) \<noteq> 0 \<or> byte_sz > 8 then Some (- EINVAL, B)
      else append_type al 12 name (\<lambda>name_off. [name_off, btf_type_info kind 0 is_signed, unat byte_sz]) B)"

definition btf__add_enum :: "(nat \<Rightarrow> btf_allocs) \<Rightarrow> 8 word list \<Rightarrow> 32 word \<Rightarrow> btf_obj \<Rightarrow> (int \<times> btf_obj) option" where
  "btf__add_enum al name byte_sz B = btf_add_enum_common al name byte_sz False BTF_KIND_ENUM B"

definition btf__add_enum_value :: "(nat \<Rightarrow> btf_allocs) \<Rightarrow> 8 word list \<Rightarrow> 64 word \<Rightarrow> btf_obj \<Rightarrow> (int \<times> btf_obj) option" where
  "btf__add_enum_value al name val B =
     do { t \<leftarrow> check_last {BTF_KIND_ENUM} B;
          case t of
            None \<Rightarrow> Some (- EINVAL, B)
          | Some _ \<Rightarrow>
              (if name = [] then Some (- EINVAL, B)
               else if sint val < - (2 ^ 31) \<or> sint val > int UINT32_MAX then Some (- E2BIG, B)
               else append_member al 8 name (\<lambda>name_off. [name_off, unat (ucast val :: 32 word)])
                 (\<lambda>info. let info = btf_type_inc_vlen info
                         in if sint val < 0 then btf_type_info (BTF_INFO_KIND info) (BTF_INFO_VLEN info) True else info) B) }"

definition btf__add_enum64 :: "(nat \<Rightarrow> btf_allocs) \<Rightarrow> 8 word list \<Rightarrow> 32 word \<Rightarrow> bool \<Rightarrow> btf_obj \<Rightarrow> (int \<times> btf_obj) option" where
  "btf__add_enum64 al name byte_sz is_signed B = btf_add_enum_common al name byte_sz is_signed BTF_KIND_ENUM64 B"

definition btf__add_enum64_value :: "(nat \<Rightarrow> btf_allocs) \<Rightarrow> 8 word list \<Rightarrow> 64 word \<Rightarrow> btf_obj \<Rightarrow> (int \<times> btf_obj) option" where
  "btf__add_enum64_value al name val B =
     do { t \<leftarrow> check_last {BTF_KIND_ENUM64} B;
          case t of
            None \<Rightarrow> Some (- EINVAL, B)
          | Some _ \<Rightarrow>
              (if name = [] then Some (- EINVAL, B)
               else append_member al 12 name
                 (\<lambda>name_off. [name_off, unat (ucast val :: 32 word), unat (ucast (drop_bit 32 val) :: 32 word)])
                 btf_type_inc_vlen B) }"

datatype btf_fwd_kind = BTF_FWD_STRUCT | BTF_FWD_UNION | BTF_FWD_ENUM | BTF_FWD_other

text \<open>The calls that overwrite the \<open>info\<close> of the type they have just appended.\<close>

definition with_info :: "nat \<Rightarrow> int \<times> btf_obj \<Rightarrow> (int \<times> btf_obj) option" where
  "with_info info r =
     (if fst r \<le> 0 then Some r
      else do { b \<leftarrow> set_last_info info (bm (snd r)); Some (fst r, Obj b (bm_base (snd r))) })"

definition btf__add_fwd :: "(nat \<Rightarrow> btf_allocs) \<Rightarrow> 8 word list \<Rightarrow> btf_fwd_kind \<Rightarrow> btf_obj \<Rightarrow> (int \<times> btf_obj) option" where
  "btf__add_fwd al name fwd_kind B =
     (if name = [] then Some (- EINVAL, B)
      else case fwd_kind of
          BTF_FWD_ENUM \<Rightarrow> btf__add_enum al name 4 B
        | BTF_FWD_other \<Rightarrow> Some (- EINVAL, B)
        | _ \<Rightarrow> do { r \<leftarrow> btf_add_ref_kind al BTF_KIND_FWD name 0 False B;
                    with_info (btf_type_info BTF_KIND_FWD 0 (fwd_kind = BTF_FWD_UNION)) r })"

definition btf__add_typedef :: "(nat \<Rightarrow> btf_allocs) \<Rightarrow> 8 word list \<Rightarrow> int \<Rightarrow> btf_obj \<Rightarrow> (int \<times> btf_obj) option" where
  "btf__add_typedef al name ref_type_id B =
     (if name = [] then Some (- EINVAL, B) else btf_add_ref_kind al BTF_KIND_TYPEDEF name ref_type_id False B)"

definition btf__add_volatile :: "(nat \<Rightarrow> btf_allocs) \<Rightarrow> int \<Rightarrow> btf_obj \<Rightarrow> (int \<times> btf_obj) option" where
  "btf__add_volatile al ref_type_id B = btf_add_ref_kind al BTF_KIND_VOLATILE [] ref_type_id False B"

definition btf__add_const :: "(nat \<Rightarrow> btf_allocs) \<Rightarrow> int \<Rightarrow> btf_obj \<Rightarrow> (int \<times> btf_obj) option" where
  "btf__add_const al ref_type_id B = btf_add_ref_kind al BTF_KIND_CONST [] ref_type_id False B"

definition btf__add_restrict :: "(nat \<Rightarrow> btf_allocs) \<Rightarrow> int \<Rightarrow> btf_obj \<Rightarrow> (int \<times> btf_obj) option" where
  "btf__add_restrict al ref_type_id B = btf_add_ref_kind al BTF_KIND_RESTRICT [] ref_type_id False B"

definition btf__add_type_tag :: "(nat \<Rightarrow> btf_allocs) \<Rightarrow> 8 word list \<Rightarrow> int \<Rightarrow> btf_obj \<Rightarrow> (int \<times> btf_obj) option" where
  "btf__add_type_tag al tag ref_type_id B =
     (if tag = [] then Some (- EINVAL, B) else btf_add_ref_kind al BTF_KIND_TYPE_TAG tag ref_type_id False B)"

definition btf__add_type_attr :: "(nat \<Rightarrow> btf_allocs) \<Rightarrow> 8 word list \<Rightarrow> int \<Rightarrow> btf_obj \<Rightarrow> (int \<times> btf_obj) option" where
  "btf__add_type_attr al tag ref_type_id B =
     (if tag = [] then Some (- EINVAL, B) else btf_add_ref_kind al BTF_KIND_TYPE_TAG tag ref_type_id True B)"

definition btf__add_func :: "(nat \<Rightarrow> btf_allocs) \<Rightarrow> 8 word list \<Rightarrow> nat \<Rightarrow> int \<Rightarrow> btf_obj \<Rightarrow> (int \<times> btf_obj) option" where
  "btf__add_func al name linkage proto_type_id B =
     (if name = [] then Some (- EINVAL, B)
      else if linkage \<noteq> 0 \<and> linkage \<noteq> 1 \<and> linkage \<noteq> 2 then Some (- EINVAL, B)
      else do { r \<leftarrow> btf_add_ref_kind al BTF_KIND_FUNC name proto_type_id False B;
                with_info (btf_type_info BTF_KIND_FUNC linkage False) r })"

definition btf__add_func_proto :: "(nat \<Rightarrow> btf_allocs) \<Rightarrow> int \<Rightarrow> btf_obj \<Rightarrow> (int \<times> btf_obj) option" where
  "btf__add_func_proto al ret_type_id B =
     (if validate_type_id ret_type_id \<noteq> 0 then Some (- EINVAL, B)
      else append_type al 12 [] (\<lambda>_. [0, btf_type_info BTF_KIND_FUNC_PROTO 0 False, nat ret_type_id]) B)"

definition btf__add_func_param :: "(nat \<Rightarrow> btf_allocs) \<Rightarrow> 8 word list \<Rightarrow> int \<Rightarrow> btf_obj \<Rightarrow> (int \<times> btf_obj) option" where
  "btf__add_func_param al name type_id B =
     (if validate_type_id type_id \<noteq> 0 then Some (- EINVAL, B)
      else do { t \<leftarrow> check_last {BTF_KIND_FUNC_PROTO} B;
                case t of
                  None \<Rightarrow> Some (- EINVAL, B)
                | Some _ \<Rightarrow> append_member al 8 name (\<lambda>name_off. [name_off, nat type_id]) btf_type_inc_vlen B })"

definition btf__add_var :: "(nat \<Rightarrow> btf_allocs) \<Rightarrow> 8 word list \<Rightarrow> nat \<Rightarrow> int \<Rightarrow> btf_obj \<Rightarrow> (int \<times> btf_obj) option" where
  "btf__add_var al name linkage type_id B =
     (if name = [] then Some (- EINVAL, B)
      else if linkage \<noteq> 0 \<and> linkage \<noteq> 1 \<and> linkage \<noteq> 2 then Some (- EINVAL, B)
      else if validate_type_id type_id \<noteq> 0 then Some (- EINVAL, B)
      else append_type al 16 name (\<lambda>name_off. [name_off, btf_type_info BTF_KIND_VAR 0 False, nat type_id, linkage]) B)"

definition btf__add_datasec :: "(nat \<Rightarrow> btf_allocs) \<Rightarrow> 8 word list \<Rightarrow> 32 word \<Rightarrow> btf_obj \<Rightarrow> (int \<times> btf_obj) option" where
  "btf__add_datasec al name byte_sz B =
     (if name = [] then Some (- EINVAL, B)
      else append_type al 12 name (\<lambda>name_off. [name_off, btf_type_info BTF_KIND_DATASEC 0 False, unat byte_sz]) B)"

definition btf__add_datasec_var_info :: "(nat \<Rightarrow> btf_allocs) \<Rightarrow> int \<Rightarrow> 32 word \<Rightarrow> 32 word \<Rightarrow> btf_obj \<Rightarrow> (int \<times> btf_obj) option" where
  "btf__add_datasec_var_info al var_type_id offset byte_sz B =
     do { t \<leftarrow> check_last {BTF_KIND_DATASEC} B;
          case t of
            None \<Rightarrow> Some (- EINVAL, B)
          | Some _ \<Rightarrow>
              (if validate_type_id var_type_id \<noteq> 0 then Some (- EINVAL, B)
               else append_member al 12 [] (\<lambda>_. [nat var_type_id, unat offset, unat byte_sz]) btf_type_inc_vlen B) }"

definition btf_add_decl_tag :: "(nat \<Rightarrow> btf_allocs) \<Rightarrow> 8 word list \<Rightarrow> int \<Rightarrow> int \<Rightarrow> bool \<Rightarrow> btf_obj \<Rightarrow> (int \<times> btf_obj) option" where
  "btf_add_decl_tag al tag ref_type_id component_idx kflag B =
     (if tag = [] \<or> component_idx < - 1 then Some (- EINVAL, B)
      else if validate_type_id ref_type_id \<noteq> 0 then Some (- EINVAL, B)
      else append_type al 16 tag
        (\<lambda>name_off. [name_off, btf_type_info BTF_KIND_DECL_TAG 0 kflag, nat ref_type_id, nat (component_idx mod 2 ^ 32)]) B)"

definition btf__add_decl_tag :: "(nat \<Rightarrow> btf_allocs) \<Rightarrow> 8 word list \<Rightarrow> int \<Rightarrow> int \<Rightarrow> btf_obj \<Rightarrow> (int \<times> btf_obj) option" where
  "btf__add_decl_tag al tag ref_type_id component_idx B = btf_add_decl_tag al tag ref_type_id component_idx False B"

definition btf__add_decl_attr :: "(nat \<Rightarrow> btf_allocs) \<Rightarrow> 8 word list \<Rightarrow> int \<Rightarrow> int \<Rightarrow> btf_obj \<Rightarrow> (int \<times> btf_obj) option" where
  "btf__add_decl_attr al tag ref_type_id component_idx B = btf_add_decl_tag al tag ref_type_id component_idx True B"

section \<open>What the string sets keep\<close>

definition set_keeps :: "strset \<Rightarrow> strset \<Rightarrow> bool" where
  "set_keeps st st' \<longleftrightarrow> strset_ok st' \<and> strs_data_max_len st' = strs_data_max_len st \<and>
     strs_data_cap st' \<le> max (strs_data_cap st) (strs_data_max_len st) \<and> strs_data_len st \<le> strs_data_len st' \<and>
     take (strs_data_len st) (strs_data st') = take (strs_data_len st) (strs_data st)"

lemma set_keeps_refl: "strset_ok st \<Longrightarrow> set_keeps st st"
  by (simp add: set_keeps_def)

lemma add_str_mem_cap:
  assumes "strset_ok st" and "strset_add_str_mem realloc_ok st k = Some (p, st1)"
  shows "length (strs_data st1) \<le> max (strs_data_cap st) (strs_data_max_len st)" and "p + k \<le> length (strs_data st1)"
    and "strs_data_max_len st1 = strs_data_max_len st"
proof -
  from assms(2) obtain data cap where
    l: "libbpf_add_mem realloc_ok (strs_data st) (strs_data_cap st) 1 (strs_data_len st) (strs_data_max_len st) k = Some (p, data, cap)"
    and st1: "st1 = st\<lparr>strs_data := data, strs_data_cap := cap\<rparr>"
    by (auto simp: strset_add_str_mem_def split: option.splits)
  from libbpf_add_mem_ok [OF l] assms(1) st1
  show "length (strs_data st1) \<le> max (strs_data_cap st) (strs_data_max_len st)" "p + k \<le> length (strs_data st1)"
    "strs_data_max_len st1 = strs_data_max_len st" by (auto simp: strset_ok_def)
qed

lemma str_at_NUL: "str_at d off = s \<Longrightarrow> off + length s < length d \<Longrightarrow> d ! (off + length s) = 0"
  using nth_length_takeWhile [of "\<lambda>c. c \<noteq> 0" "drop off d"] by (auto simp: str_at_def)

lemma add_str_keeps:
  assumes ok: "strset_ok st" and nul: "0 \<notin> set s"
    and add: "strset__add_str realloc_ok calloc_ok malloc_ok st s = (r, st')"
  shows "set_keeps st st'" and "r < 0 \<Longrightarrow> strs_data_len st' = strs_data_len st"
    and "0 \<le> r \<Longrightarrow> nat r + length s < strs_data_len st' \<and> str_at (strs_data st') (nat r) = s"
    and "0 < strs_data_len st' \<Longrightarrow> strs_data_len st' = strs_data_len st \<or> strs_data st' ! (strs_data_len st' - 1) = 0"
    and "r < 0 \<Longrightarrow> r = - ENOMEM"
proof -
  note spec = add_str_spec [OF ok nul add]
  then show "r < 0 \<Longrightarrow> r = - ENOMEM" by auto
  have "set_keeps st st' \<and> (r < 0 \<longrightarrow> strs_data_len st' = strs_data_len st) \<and>
    (0 < strs_data_len st' \<longrightarrow> strs_data_len st' = strs_data_len st \<or> strs_data st' ! (strs_data_len st' - 1) = 0)"
  proof (cases "strset_add_str_mem realloc_ok st (length s + 1)")
    case None
    with add ok show ?thesis by (auto simp: strset__add_str_def set_keeps_def)
  next
    case (Some a)
    obtain p st1 where a: "strset_add_str_mem realloc_ok st (length s + 1) = Some (p, st1)" using Some by (cases a) auto
    define d2 where "d2 = memcpy p (s @ [0]) (strs_data st1)"
    define st2 where "st2 = st1\<lparr>strs_data := d2\<rparr>"
    note m = add_str_mem_ok [OF ok a nul, folded d2_def] and c = add_str_mem_cap [OF ok a]
    obtain err ko kv h' where i: "hashmap_insert (strset_hash_fn (strs_data st2)) (strset_equal_fn (strs_data st2)) HASHMAP_ADD
        calloc_ok malloc_ok (of_nat (strs_data_len st1)) (of_nat (strs_data_len st1)) (strs_hash st2) = (err, ko, kv, h')"
      by (metis prod.collapse)
    from add_str_unfold [OF a _ i] add have r: "(r, st') = (if err = - EEXIST then (int (unat ko), st2\<lparr>strs_hash := h'\<rparr>)
       else if err \<noteq> 0 then (err, st2\<lparr>strs_hash := h'\<rparr>)
       else (int (strs_data_len st1), st2\<lparr>strs_hash := h', strs_data_len := strs_data_len st2 + length s + 1\<rparr>))"
      by (simp add: st2_def d2_def)
    have d: "strs_data st' = d2" "strs_data_cap st' = length d2" "strs_data_max_len st' = strs_data_max_len st"
      using r m(2) c(3) by (auto simp: st2_def split: if_splits)
    have l: "length d2 \<le> max (strs_data_cap st) (strs_data_max_len st)" using c by (simp add: d2_def)
    have len: "strs_data_len st' = strs_data_len st \<or> 0 \<le> r \<and> strs_data_len st' = strs_data_len st + length s + 1"
      using r m(7) by (auto simp: st2_def split: if_splits)
    moreover have "d2 ! (strs_data_len st + length s) = 0" using m(4,6) by (intro str_at_NUL) auto
    ultimately show ?thesis using spec d m(3) l by (auto simp: set_keeps_def)
  qed
  then show "set_keeps st st'" and "r < 0 \<Longrightarrow> strs_data_len st' = strs_data_len st"
    and "0 < strs_data_len st' \<Longrightarrow> strs_data_len st' = strs_data_len st \<or> strs_data st' ! (strs_data_len st' - 1) = 0" by auto
  show "nat r + length s < strs_data_len st' \<and> str_at (strs_data st') (nat r) = s" if "0 \<le> r"
  proof -
    from spec that have "strset_has st' s (nat r)" "strset_ok st'" by (auto simp: fun_eq_iff)
    then show ?thesis by (auto simp: strset_has_def strset_ok_def entries_ok_def)
  qed
qed

lemma find_str_keeps:
  assumes ok: "strset_ok st" and nul: "0 \<notin> set s" and find: "strset__find_str realloc_ok st s = (r, st')"
  shows "set_keeps st st'" and "strs_data_len st' = strs_data_len st"
    and "0 \<le> r \<Longrightarrow> nat r + length s < strs_data_len st \<and> str_at (strs_data st') (nat r) = s"
    and "r < 0 \<Longrightarrow> r = - ENOENT \<or> r = - ENOMEM"
proof -
  note spec = find_str_spec [OF ok nul find]
  then show "r < 0 \<Longrightarrow> r = - ENOENT \<or> r = - ENOMEM" by auto
  have "set_keeps st st' \<and> strs_data_len st' = strs_data_len st"
  proof (cases "strset_add_str_mem realloc_ok st (length s + 1)")
    case None
    with find ok show ?thesis by (auto simp: strset__find_str_def set_keeps_def)
  next
    case (Some a)
    obtain p st1 where a: "strset_add_str_mem realloc_ok st (length s + 1) = Some (p, st1)" using Some by (cases a) auto
    note m = add_str_mem_ok [OF ok a nul] and c = add_str_mem_cap [OF ok a]
    from find_str_unfold [OF a refl] find have "st' = st1\<lparr>strs_data := memcpy p (s @ [0]) (strs_data st1)\<rparr>"
      by (auto split: option.splits)
    with spec m c show ?thesis by (auto simp: set_keeps_def)
  qed
  then show k: "set_keeps st st'" and l: "strs_data_len st' = strs_data_len st" by auto
  show "nat r + length s < strs_data_len st \<and> str_at (strs_data st') (nat r) = s" if "0 \<le> r"
  proof -
    from spec that have "strset_has st' s (nat r)" "strset_ok st'" by auto
    then show ?thesis using l by (auto simp: strset_has_def strset_ok_def entries_ok_def)
  qed
qed

section \<open>Types as lists of words\<close>

lemma word_bytes_simps [simp]:
  "word_bytes [] = []" "word_bytes (w # ws) = le_bytes 4 w @ word_bytes ws"
  "word_bytes (xs @ ys) = word_bytes xs @ word_bytes ys"
  by (simp_all add: word_bytes_def)

lemma length_word_bytes [simp]: "length (word_bytes ws) = 4 * length ws"
  by (induction ws) auto

lemma rd_word:
  assumes "i < length ws" and "ws ! i < 2 ^ 32"
  shows "rd 4 (word_bytes ws @ r) (4 * i) = Some (ws ! i)"
proof -
  have "word_bytes ws = word_bytes (take i ws) @ le_bytes 4 (ws ! i) @ word_bytes (drop (Suc i) ws)"
    using id_take_nth_drop [OF assms(1)] by (metis word_bytes_simps(2,3))
  moreover have "length (word_bytes (take i ws)) = 4 * i" using assms(1) by simp
  ultimately show ?thesis using assms(2) rd_append0 [of 4 "word_bytes (take i ws)"] rd_le_bytes [of "ws ! i" 4] by simp
qed

definition chunk_ok :: "nat list \<Rightarrow> bool" where
  "chunk_ok c \<longleftrightarrow> 3 \<le> length c \<and> (\<forall>w \<in> set c. w < 2 ^ 32) \<and>
     kind_size (BTF_INFO_KIND (c ! 1)) (BTF_INFO_VLEN (c ! 1)) = 4 * int (length c)"

fun offs_from :: "nat \<Rightarrow> nat list list \<Rightarrow> nat list" where
  "offs_from p [] = []"
| "offs_from p (c # cs) = p # offs_from (p + 4 * length c) cs"

lemma length_offs_from [simp]: "length (offs_from p cs) = length cs"
  by (induction cs arbitrary: p) auto

lemma offs_from_append: "offs_from p (cs @ ds) = offs_from p cs @ offs_from (p + 4 * length (concat cs)) ds"
  by (induction cs arbitrary: p) (auto simp: algebra_simps)

lemma offs_from_bound: "off \<in> set (offs_from p cs) \<Longrightarrow> off \<le> p + 4 * length (concat cs)"
  by (induction cs arbitrary: p) fastforce+

lemma nth_in: "i < length c \<Longrightarrow> \<forall>w \<in> set c. P w \<Longrightarrow> P (c ! i)"
  by simp

lemma chunk_rd: "chunk_ok c \<Longrightarrow> i < length c \<Longrightarrow> rd 4 (word_bytes c @ r) (4 * i) = Some (c ! i)"
  by (intro rd_word) (auto simp: chunk_ok_def)

lemma chunk_size:
  assumes "chunk_ok c"
  shows "btf_type_size (T_at (pre @ word_bytes c @ r) (length pre)) = Some (4 * int (length c))"
proof -
  have "rd 4 (pre @ word_bytes c @ r) (length pre + 4) = Some (c ! 1)"
    using chunk_rd [OF assms, of 1 r] assms by (simp add: rd_append chunk_ok_def)
  with assms show ?thesis by (simp add: btf_type_size_def btf_kind_def btf_vlen_def chunk_ok_def)
qed

lemma chunks_tile:
  assumes "\<forall>c \<in> set cs. chunk_ok c"
  shows "tiles (pre @ word_bytes (concat cs)) (length pre) (offs_from (length pre) cs) (length pre + 4 * length (concat cs))"
  using assms
proof (induction cs arbitrary: pre)
  case (Cons c cs)
  then have "tiles ((pre @ word_bytes c) @ word_bytes (concat cs)) (length (pre @ word_bytes c))
      (offs_from (length (pre @ word_bytes c)) cs) (length (pre @ word_bytes c) + 4 * length (concat cs))" by (intro Cons.IH) auto
  with chunk_size [of c pre "word_bytes (concat cs)"] Cons.prems show ?case
    by (auto simp: nat_mult_distrib algebra_simps)
qed simp

section \<open>Well-formed objects\<close>

definition str_sec :: "bmod \<Rightarrow> 8 word list" where
  "str_sec b = take (bh_str_len (bm_hdr b)) (btf_strs_data b)"

definition mods_ok :: "bmod \<Rightarrow> bool" where
  "mods_ok b \<longleftrightarrow> (case bm_strs b of
       Inl _ \<Rightarrow> True
     | Inr st \<Rightarrow> strset_ok st \<and> strs_data_len st = bh_str_len (bm_hdr b) \<and> strs_data_max_len st = BTF_MAX_STR_OFFSET \<and>
         strs_data_cap st \<le> 2 ^ 31 \<and> length (bm_types_data b) = bm_types_data_cap b \<and> bm_types_data_cap b < 2 ^ 32)"

definition strs_ok :: "bmod \<Rightarrow> bool" where
  "strs_ok b \<longleftrightarrow> length (str_sec b) = bh_str_len (bm_hdr b) \<and> (str_sec b \<noteq> [] \<longrightarrow> last (str_sec b) = 0) \<and>
     bh_str_len (bm_hdr b) \<le> 2 ^ 31"

text \<open>The types of an object are \<open>cs\<close>, each the list of its words.\<close>

definition holds :: "bmod \<Rightarrow> nat list list \<Rightarrow> bool" where
  "holds b cs \<longleftrightarrow> (\<forall>c \<in> set cs. chunk_ok c) \<and> bm_nr_types b = length cs \<and>
     bh_type_len (bm_hdr b) = 4 * length (concat cs) \<and> 4 * length (concat cs) < 2 ^ 32 \<and>
     4 * length (concat cs) \<le> length (bm_types_data b) \<and>
     take (4 * length (concat cs)) (bm_types_data b) = word_bytes (concat cs) \<and>
     length (bm_type_offs b) = 4 * bm_type_offs_cap b \<and> length cs \<le> bm_type_offs_cap b \<and>
     take (4 * length cs) (bm_type_offs b) = word_bytes (offs_from 0 cs)"

definition own_ok :: "bmod \<Rightarrow> bool" where
  "own_ok b \<longleftrightarrow> 24 \<le> bh_hdr_len (bm_hdr b) \<and> mods_ok b \<and> strs_ok b \<and> (\<exists>cs. holds b cs)"

definition obj_str_end :: "btf_obj \<Rightarrow> nat" where
  "obj_str_end B = bh_str_len (bm_hdr (bm B)) + bm_start_str_off (bm B)"

fun obj_ok :: "btf_obj \<Rightarrow> bool" where
  "obj_ok (Obj b base) \<longleftrightarrow> own_ok b \<and>
     (case base of
        None \<Rightarrow> bm_start_id b = 1 \<and> bm_start_str_off b = 0 \<and> 0 < bh_str_len (bm_hdr b)
      | Some B \<Rightarrow> obj_ok B \<and> bm_start_id b = obj_type_cnt B \<and> bm_start_str_off b = obj_str_end B \<and> bm_start_str_off b \<le> 2 ^ 31)"

text \<open>An object as the functions see it that read types and strings.\<close>

fun view :: "btf_obj \<Rightarrow> btf" where
  "view (Obj b base) =
     Btf \<lparr>bo_hdr = bm_hdr b, bo_swapped_endian = bm_swapped_endian b,
       bo_types_data = take (bh_type_len (bm_hdr b)) (bm_types_data b),
       bo_type_offs = map (\<lambda>i. the (rd 4 (bm_type_offs b) (4 * i))) [0..<bm_nr_types b], bo_named_start_id = 0,
       bo_start_id = bm_start_id b, bo_start_str_off = bm_start_str_off b, bo_strs_data = str_sec b, bo_ptr_sz = bm_ptr_sz b\<rparr>
       (map_option view base)"

lemma holds_offs:
  assumes "holds b cs"
  shows "map (\<lambda>i. the (rd 4 (bm_type_offs b) (4 * i))) [0..<bm_nr_types b] = offs_from 0 cs"
proof (rule nth_equalityI)
  from assms have n: "bm_nr_types b = length cs" by (simp add: holds_def)
  then show "length (map (\<lambda>i. the (rd 4 (bm_type_offs b) (4 * i))) [0..<bm_nr_types b]) = length (offs_from 0 cs)" by simp
  fix i assume "i < length (map (\<lambda>i. the (rd 4 (bm_type_offs b) (4 * i))) [0..<bm_nr_types b])"
  with n have i: "i < length (offs_from 0 cs)" by simp
  then have "offs_from 0 cs ! i < 2 ^ 32" using offs_from_bound [of "offs_from 0 cs ! i" 0 cs] assms by (auto simp: holds_def)
  moreover have t: "word_bytes (offs_from 0 cs) = take (4 * length cs) (bm_type_offs b)" using assms by (simp add: holds_def)
  have "bm_type_offs b = word_bytes (offs_from 0 cs) @ drop (4 * length cs) (bm_type_offs b)" unfolding t by simp
  ultimately have "rd 4 (bm_type_offs b) (4 * i) = Some (offs_from 0 cs ! i)" using rd_word [OF i] by metis
  with i n show "map (\<lambda>i. the (rd 4 (bm_type_offs b) (4 * i))) [0..<bm_nr_types b] ! i = offs_from 0 cs ! i" by simp
qed

lemma view_cnt [simp]: "btf__type_cnt (view B) = obj_type_cnt B"
  by (cases B) (simp add: obj_type_cnt_def)

lemma view_str_end [simp]: "str_end (view B) = obj_str_end B"
  by (cases B) (simp add: obj_str_end_def)

lemma view_shaped: "obj_ok B \<Longrightarrow> shaped (view B)"
proof (induction B)
  case (Obj b base)
  then obtain cs where cs: "holds b cs" and s: "strs_ok b" by (auto simp: own_ok_def)
  from chunks_tile [of cs "[]"] cs have "tiles (word_bytes (concat cs)) 0 (offs_from 0 cs) (4 * length (concat cs))"
    by (simp add: holds_def)
  with cs s have "secs_ok (own (view (Obj b base)))" using holds_offs [OF cs] by (simp add: secs_ok_def strs_ok_def holds_def)
  with Obj s show ?case by (cases base) (auto simp: strs_ok_def)
qed

section \<open>Splitting up and finding strings change nothing that is read\<close>

definition same_own :: "bmod \<Rightarrow> bmod \<Rightarrow> bool" where
  "same_own b b' \<longleftrightarrow> bm_hdr b' = bm_hdr b \<and> bm_swapped_endian b' = bm_swapped_endian b \<and> bm_nr_types b' = bm_nr_types b \<and>
     bm_start_id b' = bm_start_id b \<and> bm_start_str_off b' = bm_start_str_off b \<and> bm_ptr_sz b' = bm_ptr_sz b \<and>
     bm_type_offs b' = bm_type_offs b \<and> bm_type_offs_cap b' = bm_type_offs_cap b \<and> str_sec b' = str_sec b \<and>
     bh_type_len (bm_hdr b) \<le> length (bm_types_data b') \<and>
     take (bh_type_len (bm_hdr b)) (bm_types_data b') = take (bh_type_len (bm_hdr b)) (bm_types_data b)"

lemma same_refl: "own_ok b \<Longrightarrow> same_own b b"
  by (auto simp: same_own_def own_ok_def holds_def)

lemma same_view: "same_own b b' \<Longrightarrow> view (Obj b' base) = view (Obj b base)"
  by (simp add: same_own_def)

lemma same_holds: "same_own b b' \<Longrightarrow> holds b cs \<Longrightarrow> holds b' cs"
  by (auto simp: same_own_def holds_def)

lemma same_ok: "same_own b b' \<Longrightarrow> own_ok b \<Longrightarrow> mods_ok b' \<Longrightarrow> own_ok b'"
  using same_holds by (fastforce simp: own_ok_def same_own_def strs_ok_def)

lemma strset_new_fields:
  "strset__new c h m al n (Some d) = Inr st \<Longrightarrow>
    strs_data st = d \<and> strs_data_len st = length d \<and> strs_data_cap st = length d \<and> strs_data_max_len st = n"
  by (auto simp: strset__new_def Let_def split: if_splits sum.splits prod.splits)

lemma strset_new_error: "strset__new c h m al n d = Inl e \<Longrightarrow> e \<noteq> 0"
  by (auto simp: strset__new_def Let_def split: if_splits sum.splits prod.splits option.splits)

lemma ensure_modifiable_ok:
  assumes "own_ok b"
  obtains err b' where "btf_ensure_modifiable al has_base b = Some (err, b')" "same_own b b'" "own_ok b'"
    "err = 0 \<Longrightarrow> btf_is_modifiable b'" "btf_is_modifiable b \<Longrightarrow> err = 0 \<and> b' = b\<lparr>bm_named_start_id := 0\<rparr>"
proof (cases "bm_strs b")
  case (Inr st)
  let ?b = "b\<lparr>bm_named_start_id := 0\<rparr>"
  from assms have same: "same_own b ?b" by (auto simp: own_ok_def holds_def same_own_def str_sec_def btf_strs_data_def)
  moreover from assms have "mods_ok ?b" by (simp add: own_ok_def mods_ok_def split: sum.splits)
  ultimately show ?thesis
    using that [of 0 ?b] same_ok [OF same assms] Inr by (simp add: btf_ensure_modifiable_def btf_is_modifiable_def)
next
  case (Inl d)
  let ?h = "bm_hdr b"
  let ?set = "strset__new (fst (al_set al)) (fst (snd (al_set al))) (snd (snd (al_set al))) (al_index al)
    BTF_MAX_STR_OFFSET (Some (take (bh_str_len ?h) d))"
  from assms have s: "strs_ok b" and h: "24 \<le> bh_hdr_len ?h" by (simp_all add: own_ok_def)
  have sec: "str_sec b = take (bh_str_len ?h) d" using Inl by (simp add: str_sec_def btf_strs_data_def)
  show ?thesis
  proof (cases "al_modify al \<and> (\<exists>st. ?set = Inr st)")
    case True
    then obtain st where st: "?set = Inr st" by blast
    note f = strset_new_fields [OF st]
    have ok: "strset_ok st"
      using strset_new_indexes_all [OF st] s sec by (auto simp: strs_ok_def BTF_MAX_STR_OFFSET_def)
    let ?b = "b\<lparr>bm_types_data := take (bh_type_len ?h) (bm_types_data b), bm_types_data_cap := bh_type_len ?h, bm_strs := Inr st,
        bm_strs_deduped := bm_strs_deduped b \<or> bh_str_len ?h = 0 \<or> \<not> has_base \<and> bh_str_len ?h = 1, bm_named_start_id := 0\<rparr>"
    have run: "btf_ensure_modifiable al has_base b = Some (0, ?b)" using True Inl h st by (simp add: btf_ensure_modifiable_def)
    have same: "same_own b ?b" using assms f sec by (auto simp: own_ok_def holds_def same_own_def str_sec_def btf_strs_data_def)
    have "mods_ok ?b" using ok f s assms sec by (auto simp: mods_ok_def strs_ok_def own_ok_def holds_def)
    with run same same_ok [OF same assms] show ?thesis using that [of 0 ?b] Inl by (simp add: btf_is_modifiable_def)
  next
    case False
    have "\<exists>e. btf_ensure_modifiable al has_base b = Some (e, b) \<and> e \<noteq> 0"
    proof (cases "al_modify al")
      case True
      with False obtain e where e: "?set = Inl e" by (cases "?set") auto
      from strset_new_error [OF e] e True Inl h show ?thesis by (simp add: btf_ensure_modifiable_def)
    qed (use Inl in \<open>simp add: btf_ensure_modifiable_def\<close>)
    then obtain e where "btf_ensure_modifiable al has_base b = Some (e, b)" "e \<noteq> 0" by blast
    then show ?thesis by (intro that [of e b]) (use same_refl [OF assms] assms Inl in \<open>simp_all add: btf_is_modifiable_def\<close>)
  qed
qed

text \<open>The string \<open>s\<close> is read at the offset \<open>v\<close>.\<close>

definition reads :: "btf_obj \<Rightarrow> nat \<Rightarrow> 8 word list \<Rightarrow> bool" where
  "reads B v s \<longleftrightarrow> (\<exists>p. btf__str_by_offset (view B) v = Some (Some p) \<and> btf_cstr p = Some s)"

lemma reads_own:
  assumes "off + length s < length (str_sec b)" and "str_at (str_sec b) off = s" and "length (str_sec b) = bh_str_len (bm_hdr b)"
  shows "reads (Obj b base) (bm_start_str_off b + off) s"
proof -
  have "str_sec b ! (off + length s) = 0" using assms by (intro str_at_NUL) auto
  then have "drop off (str_sec b) ! length s = 0" using assms(1) by simp
  then have "0 \<in> set (drop off (str_sec b))" using assms(1) by (metis add.commute in_set_conv_nth length_drop less_diff_conv)
  with assms show ?thesis by (auto simp: reads_def)
qed

lemma mods_cap: "own_ok b \<Longrightarrow> bm_strs b = Inr st \<Longrightarrow> strset_ok st \<and> strs_data_len st = bh_str_len (bm_hdr b) \<and>
    strs_data_max_len st = BTF_MAX_STR_OFFSET \<and> strs_data_cap st \<le> 2 ^ 31 \<and> length (bm_types_data b) = bm_types_data_cap b \<and>
    bm_types_data_cap b < 2 ^ 32"
  by (simp add: own_ok_def mods_ok_def)

lemma own_find:
  assumes ok: "own_ok b" and st: "bm_strs b = Inr st" and nul: "0 \<notin> set s"
    and find: "strset__find_str realloc_ok st s = (off, st')"
  defines "b' \<equiv> b\<lparr>bm_strs := Inr st'\<rparr>"
  shows "same_own b b'" "own_ok b'" "0 \<le> off \<Longrightarrow> nat off + length s < length (str_sec b') \<and> str_at (str_sec b') (nat off) = s"
    "off < 0 \<Longrightarrow> off = - ENOENT \<or> off = - ENOMEM"
proof -
  note m = mods_cap [OF ok st]
  note k = find_str_keeps [OF m [THEN conjunct1] nul find]
  from k(4) show "off < 0 \<Longrightarrow> off = - ENOENT \<or> off = - ENOMEM" .
  from m k(1,2) have t: "str_sec b = take (strs_data_len st) (strs_data st)" "str_sec b' = take (strs_data_len st) (strs_data st')"
    by (simp_all add: str_sec_def btf_strs_data_def st b'_def)
  with k(1) have "str_sec b' = str_sec b" by (simp add: set_keeps_def)
  with ok show same: "same_own b b'" by (auto simp: same_own_def b'_def own_ok_def holds_def)
  have "mods_ok b'" using m k(1,2) by (auto simp: mods_ok_def b'_def set_keeps_def BTF_MAX_STR_OFFSET_def)
  with same ok show "own_ok b'" using same_ok by blast
  assume "0 \<le> off"
  note f = k(3) [OF this]
  have l: "strs_data_len st \<le> length (strs_data st')" using k(1,2) by (simp add: set_keeps_def strset_ok_def)
  with f have "str_at (take (strs_data_len st) (strs_data st')) (nat off) = s"
    using str_at_prefix [of "nat off" "strs_data st'" "strs_data_len st" "take (strs_data_len st) (strs_data st')"] by simp
  with f t l show "nat off + length s < length (str_sec b') \<and> str_at (str_sec b') (nat off) = s" by simp
qed

lemma reads_lift:
  assumes "obj_ok (Obj b (Some B))" and "reads B v s"
  shows "reads (Obj b (Some B)) v s"
proof -
  obtain b' where v: "view (Obj b (Some B)) = Btf b' (Some (view B))" by simp
  with view_shaped [OF assms(1)] have sh: "shaped (Btf b' (Some (view B)))" by metis
  from assms obtain p where p: "btf__str_by_offset (view B) v = Some (Some p)" "btf_cstr p = Some s" by (auto simp: reads_def)
  from assms(1) have "shaped (view B)" by (intro view_shaped) simp
  from shaped_str [OF this, of v] p(1) have "v < str_end (view B)" by (auto split: if_splits)
  with base_lookup(2) [OF sh] p v show ?thesis by (simp only: reads_def) auto
qed

declare view.simps [simp del] obj_ok.simps [simp del]

text \<open>The object below a split one, before and after a call.\<close>

definition below_same :: "btf_obj option \<Rightarrow> btf_obj option \<Rightarrow> bool" where
  "below_same base base' \<longleftrightarrow> map_option view base' = map_option view base \<and> (\<forall>B. base' = Some B \<longrightarrow> obj_ok B)"

lemma obj_own: "obj_ok (Obj b base) \<Longrightarrow> own_ok b"
  by (simp add: obj_ok.simps)

lemma obj_swap:
  assumes "obj_ok (Obj b base)" and "own_ok b'" and "below_same base base'"
    and "bm_start_id b' = bm_start_id b" and "bm_start_str_off b' = bm_start_str_off b"
    and "bh_str_len (bm_hdr b) \<le> bh_str_len (bm_hdr b')"
  shows "obj_ok (Obj b' base')"
proof (cases base')
  case None
  with assms show ?thesis by (auto simp: below_same_def obj_ok.simps)
next
  case (Some B')
  with assms(3) obtain B where B: "base = Some B" "view B' = view B" "obj_ok B'" by (cases base) (auto simp: below_same_def)
  then have "obj_type_cnt B' = obj_type_cnt B" "obj_str_end B' = obj_str_end B" by (metis view_cnt, metis view_str_end)
  with assms Some B show ?thesis by (simp add: obj_ok.simps)
qed

lemma below_find:
  assumes "\<forall>B. base = Some B \<longrightarrow>
      (\<exists>r B'. look B = Some (r, B') \<and> obj_ok B' \<and> view B' = view B \<and> (0 \<le> r \<longrightarrow> reads B' (nat r) s) \<and>
      (r < 0 \<longrightarrow> r = - ENOENT \<or> r = - ENOMEM))"
  shows "\<exists>r base'. (case base of None \<Rightarrow> Some (- ENOENT, None) | Some B \<Rightarrow> map_option (\<lambda>(off, B). (off, Some B)) (look B)) = Some (r, base') \<and>
      below_same base base' \<and> (0 \<le> r \<longrightarrow> (\<exists>B'. base' = Some B' \<and> reads B' (nat r) s)) \<and> (r < 0 \<longrightarrow> r = - ENOENT \<or> r = - ENOMEM)"
  using assms by (cases base) (auto simp: below_same_def)

lemma find_str_ok:
  assumes "obj_ok B" and nul: "0 \<notin> set s"
  shows "\<exists>r B'. btf__find_str al s B = Some (r, B') \<and> obj_ok B' \<and> view B' = view B \<and> (0 \<le> r \<longrightarrow> reads B' (nat r) s) \<and>
    (r < 0 \<longrightarrow> r = - ENOENT \<or> r = - ENOMEM)"
  using assms(1)
proof (induction B arbitrary: al)
  case (Obj b base)
  note own = obj_own [OF Obj.prems]
  have "\<forall>B. base = Some B \<longrightarrow> (\<exists>r B'. btf__find_str (\<lambda>n. al (Suc n)) s B = Some (r, B') \<and> obj_ok B' \<and> view B' = view B \<and>
      (0 \<le> r \<longrightarrow> reads B' (nat r) s) \<and> (r < 0 \<longrightarrow> r = - ENOENT \<or> r = - ENOMEM))" using Obj.IH Obj.prems by (auto simp: obj_ok.simps)
  from below_find [OF this] obtain r base' where
    base: "(case base of None \<Rightarrow> Some (- ENOENT, None)
      | Some B \<Rightarrow> map_option (\<lambda>(off, B). (off, Some B)) (btf__find_str (\<lambda>n. al (Suc n)) s B)) = Some (r, base')"
    and same: "below_same base base'" and r: "0 \<le> r \<Longrightarrow> \<exists>B'. base' = Some B' \<and> reads B' (nat r) s"
    and neg: "r < 0 \<Longrightarrow> r = - ENOENT \<or> r = - ENOMEM" by blast
  have vb: "map_option view base' = map_option view base" using same by (simp add: below_same_def)
  have swap: "obj_ok (Obj b' base') \<and> view (Obj b' base') = view (Obj b base)" if "same_own b b'" "own_ok b'" for b'
    using obj_swap [OF Obj.prems that(2) same] same_view [OF that(1), of base'] that vb by (simp add: same_own_def view.simps)
  show ?case
  proof (cases "r = - ENOENT")
    case False
    from swap [OF same_refl [OF own] own] base False r neg reads_lift show ?thesis by auto
  next
    case True
    obtain err b1 where e: "btf_ensure_modifiable (al 0) (base' \<noteq> None) b = Some (err, b1)" "same_own b b1" "own_ok b1"
      "err = 0 \<Longrightarrow> btf_is_modifiable b1" using ensure_modifiable_ok [OF own, of "al 0" "base' \<noteq> None"] by blast
    show ?thesis
    proof (cases "err = 0")
      case False
      with base True e swap show ?thesis by simp
    next
      case err: True
      with e(4) obtain st where st: "bm_strs b1 = Inr st" by (auto simp: btf_is_modifiable_def split: sum.splits)
      obtain off st' where f: "strset__find_str (fst (al_strs (al 0))) st s = (off, st')" by fastforce
      let ?b = "b1\<lparr>bm_strs := Inr st'\<rparr>"
      note o = own_find [OF e(3) st nul f]
      from e(2) o(1) have s: "same_own b ?b" by (simp add: same_own_def)
      have "reads (Obj ?b base') (bm_start_str_off ?b + nat off) s" if "0 \<le> off"
        using reads_own [of "nat off" s ?b base'] o(2,3) that by (simp add: own_ok_def strs_ok_def)
      with base True e(1) err st f swap [OF s o(2)] o(4) show ?thesis by (auto simp: Let_def nat_add_distrib)
    qed
  qed
qed

section \<open>Adding a string\<close>

text \<open>The strings of an object grow; what it held, it holds.\<close>

definition str_grows :: "bmod \<Rightarrow> bmod \<Rightarrow> bool" where
  "str_grows b b' \<longleftrightarrow> (bm_hdr b')\<lparr>bh_str_len := 0\<rparr> = (bm_hdr b)\<lparr>bh_str_len := 0\<rparr> \<and>
     bh_str_len (bm_hdr b) \<le> bh_str_len (bm_hdr b') \<and> take (bh_str_len (bm_hdr b)) (str_sec b') = str_sec b \<and>
     bm_start_id b' = bm_start_id b \<and> bm_start_str_off b' = bm_start_str_off b \<and> bm_nr_types b' = bm_nr_types b \<and>
     bm_type_offs b' = bm_type_offs b \<and> bm_type_offs_cap b' = bm_type_offs_cap b \<and>
     bm_swapped_endian b' = bm_swapped_endian b \<and> bm_ptr_sz b' = bm_ptr_sz b \<and>
     bh_type_len (bm_hdr b) \<le> length (bm_types_data b') \<and>
     take (bh_type_len (bm_hdr b)) (bm_types_data b') = take (bh_type_len (bm_hdr b)) (bm_types_data b)"

lemma same_grows: "same_own b b' \<Longrightarrow> own_ok b \<Longrightarrow> str_grows b b'"
  by (auto simp: same_own_def str_grows_def own_ok_def strs_ok_def)

lemma same_hdr: "h\<lparr>bh_str_len := 0\<rparr> = h'\<lparr>bh_str_len := 0\<rparr> \<Longrightarrow> bh_type_len h = bh_type_len h' \<and> bh_hdr_len h = bh_hdr_len h'"
  by (cases h; cases h') simp

lemma str_grows_trans:
  assumes "str_grows b b'" and "str_grows b' b''"
  shows "str_grows b b''"
proof -
  let ?l = "bh_str_len (bm_hdr b)" and ?l' = "bh_str_len (bm_hdr b')"
  have "take ?l (str_sec b'') = take ?l (take ?l' (str_sec b''))" using assms(1) by (simp add: str_grows_def min_def)
  also have "\<dots> = str_sec b" using assms by (simp add: str_grows_def)
  finally show ?thesis using assms same_hdr [of "bm_hdr b'" "bm_hdr b"] by (simp add: str_grows_def)
qed

lemma grows_holds: "str_grows b b' \<Longrightarrow> holds b cs \<Longrightarrow> holds b' cs"
  using same_hdr [of "bm_hdr b'" "bm_hdr b"] by (auto simp: str_grows_def holds_def)

lemma str_at_stops: "0 \<in> set (drop off d) \<Longrightarrow> off + length (str_at d off) < length d"
proof -
  assume z: "0 \<in> set (drop off d)"
  then have "length (takeWhile (\<lambda>c. c \<noteq> 0) (drop off d)) < length (drop off d)"
    by (metis (mono_tags, lifting) le_neq_implies_less length_takeWhile_le takeWhile_eq_all_conv takeWhile_eq_take take_all order_refl)
  then show ?thesis by (simp add: str_at_def)
qed

lemma reads_grows:
  assumes "str_grows b b'" and "strs_ok b" and "strs_ok b'" and "below_same base base'" and "reads (Obj b base) v s"
  shows "reads (Obj b' base') v s"
proof (cases "v < bm_start_str_off b")
  case True
  with assms(1,4,5) show ?thesis by (cases base; cases base') (auto simp: reads_def view.simps below_same_def str_grows_def)
next
  case False
  let ?off = "v - bm_start_str_off b"
  from False assms(5) have r: "0 \<in> set (drop ?off (str_sec b))" "str_at (str_sec b) ?off = s"
    by (auto simp: reads_def view.simps split: if_splits)
  from str_at_stops [OF r(1)] r(2) have l: "?off + length s < length (str_sec b)" by simp
  from assms(1-3) have p: "take (length (str_sec b)) (str_sec b') = str_sec b" "length (str_sec b) \<le> length (str_sec b')"
    by (simp_all add: str_grows_def strs_ok_def)
  with r(2) l have "str_at (str_sec b') ?off = s"
    using str_at_prefix [of ?off "str_sec b" "length (str_sec b)" "str_sec b'"] by simp
  with reads_own [of ?off s b' base'] l p(2) assms(1,3) False show ?thesis by (simp add: str_grows_def strs_ok_def)
qed

lemma own_add:
  assumes ok: "own_ok b" and st: "bm_strs b = Inr st" and nul: "0 \<notin> set s"
    and add: "strset__add_str realloc_ok calloc_ok malloc_ok st s = (off, st')"
  defines "b' \<equiv> b\<lparr>bm_strs := Inr st', bm_hdr := (bm_hdr b)\<lparr>bh_str_len := strs_data_len st'\<rparr>\<rparr>"
  shows "str_grows b b'" "own_ok b'" "0 \<le> off \<Longrightarrow> nat off + length s < length (str_sec b') \<and> str_at (str_sec b') (nat off) = s"
    "off < 0 \<Longrightarrow> b\<lparr>bm_strs := Inr st'\<rparr> = b'" "off < 0 \<Longrightarrow> off = - ENOMEM"
proof -
  note m = mods_cap [OF ok st]
  note k = add_str_keeps [OF m [THEN conjunct1] nul add]
  from k(5) show "off < 0 \<Longrightarrow> off = - ENOMEM" .
  let ?l = "strs_data_len st" and ?l' = "strs_data_len st'"
  from k(1) have kk: "strset_ok st'" "?l \<le> ?l'" "?l' \<le> length (strs_data st')" "strs_data_cap st' \<le> 2 ^ 31" "?l' \<le> 2 ^ 31"
    "take ?l (strs_data st') = take ?l (strs_data st)" "strs_data_max_len st' = BTF_MAX_STR_OFFSET"
    using m by (auto simp: set_keeps_def strset_ok_def BTF_MAX_STR_OFFSET_def)
  have t: "str_sec b = take ?l (strs_data st)" "str_sec b' = take ?l' (strs_data st')"
    using m by (simp_all add: str_sec_def btf_strs_data_def st b'_def)
  from ok have s: "strs_ok b" by (simp add: own_ok_def)
  show g: "str_grows b b'"
    using ok m kk t by (auto simp: str_grows_def b'_def own_ok_def holds_def min_def)
  have "last (str_sec b') = 0" if "str_sec b' \<noteq> []"
  proof (cases "?l' = ?l")
    case True
    with t kk(6) s that show ?thesis by (simp add: strs_ok_def)
  next
    case False
    with k(4) kk(2,3) have "strs_data st' ! (?l' - 1) = 0" by auto
    with that kk(3) t(2) show ?thesis by (simp add: last_conv_nth)
  qed
  then have "strs_ok b'" using kk t(2) by (simp add: strs_ok_def b'_def)
  moreover have "mods_ok b'" using m kk by (simp add: mods_ok_def b'_def)
  ultimately show "own_ok b'" using ok grows_holds [OF g] by (auto simp: own_ok_def b'_def)
  show "off < 0 \<Longrightarrow> b\<lparr>bm_strs := Inr st'\<rparr> = b'" using k(2) m by (simp add: b'_def)
  assume "0 \<le> off"
  note f = k(3) [OF this]
  then have "str_at (take ?l' (strs_data st')) (nat off) = s"
    using str_at_prefix [of "nat off" "strs_data st'" ?l' "take ?l' (strs_data st')"] kk(3) by simp
  with f t kk(3) show "nat off + length s < length (str_sec b') \<and> str_at (str_sec b') (nat off) = s" by simp
qed

definition extends :: "btf_obj \<Rightarrow> btf_obj \<Rightarrow> bool" where
  "extends B B' \<longleftrightarrow> obj_ok B' \<and> str_grows (bm B) (bm B') \<and> below_same (bm_base B) (bm_base B')"

lemma below_refl: "obj_ok (Obj b base) \<Longrightarrow> below_same base base"
  by (auto simp: below_same_def obj_ok.simps)

lemma extends_same: "obj_ok (Obj b base) \<Longrightarrow> same_own b b' \<Longrightarrow> own_ok b' \<Longrightarrow> below_same base base' \<Longrightarrow>
    extends (Obj b base) (Obj b' base')"
  using same_grows [of b b'] obj_own [of b base] obj_swap [of b base b' base'] by (simp add: extends_def same_own_def)

lemma extends_refl: "obj_ok B \<Longrightarrow> extends B B"
  using extends_same same_refl below_refl obj_own by (cases B) blast

lemma extends_trans: "extends B B' \<Longrightarrow> extends B' B'' \<Longrightarrow> extends B B''"
  using str_grows_trans by (auto simp: extends_def below_same_def)

lemma extends_reads: "obj_ok B \<Longrightarrow> extends B B' \<Longrightarrow> reads B v s \<Longrightarrow> reads B' v s"
  using reads_grows by (cases B; cases B') (auto simp: extends_def own_ok_def dest!: obj_own)

lemma reads_bound:
  assumes "obj_ok B" and "reads B v s"
  shows "v < obj_str_end B" and "v < 2 ^ 32"
proof -
  from assms shaped_str [OF view_shaped, of B v] show v: "v < obj_str_end B" by (auto simp: reads_def split: if_splits)
  from assms(1) have "bm_start_str_off (bm B) \<le> 2 ^ 31" "bh_str_len (bm_hdr (bm B)) \<le> 2 ^ 31"
    by (cases B, auto simp: obj_ok.simps own_ok_def strs_ok_def split: option.splits)+
  with v show "v < 2 ^ 32" by (simp add: obj_str_end_def)
qed

lemma add_str_ok:
  assumes "obj_ok B" and nul: "0 \<notin> set s"
  shows "\<exists>r B'. btf__add_str al s B = Some (r, B') \<and> extends B B' \<and> (0 \<le> r \<longrightarrow> reads B' (nat r) s) \<and> (r < 0 \<longrightarrow> r = - ENOMEM) \<and>
    (btf_is_modifiable (bm B) \<longrightarrow> bm_types_data (bm B') = bm_types_data (bm B) \<and>
       bm_types_data_cap (bm B') = bm_types_data_cap (bm B) \<and> btf_is_modifiable (bm B'))"
proof -
  obtain b base where B: "B = Obj b base" by (cases B)
  note ok = assms(1) [unfolded B] and own = obj_own [OF assms(1) [unfolded B]]
  have "\<forall>B. base = Some B \<longrightarrow> (\<exists>r B'. btf__find_str (\<lambda>n. al (Suc n)) s B = Some (r, B') \<and> obj_ok B' \<and> view B' = view B \<and>
      (0 \<le> r \<longrightarrow> reads B' (nat r) s) \<and> (r < 0 \<longrightarrow> r = - ENOENT \<or> r = - ENOMEM))" using find_str_ok nul ok by (auto simp: obj_ok.simps)
  from below_find [OF this] obtain r base' where
    base: "(case base of None \<Rightarrow> Some (- ENOENT, None)
      | Some B \<Rightarrow> map_option (\<lambda>(off, B). (off, Some B)) (btf__find_str (\<lambda>n. al (Suc n)) s B)) = Some (r, base')"
    and same: "below_same base base'" and r: "0 \<le> r \<Longrightarrow> \<exists>B'. base' = Some B' \<and> reads B' (nat r) s"
    and neg: "r < 0 \<Longrightarrow> r = - ENOENT \<or> r = - ENOMEM" by blast
  show ?thesis
  proof (cases "r = - ENOENT")
    case False
    from extends_same [OF ok same_refl [OF own] own same] base False r neg reads_lift B show ?thesis
      by (auto simp: btf__add_str_def extends_def)
  next
    case True
    obtain err b1 where e: "btf_ensure_modifiable (al 0) (base' \<noteq> None) b = Some (err, b1)" "same_own b b1" "own_ok b1"
      "err = 0 \<Longrightarrow> btf_is_modifiable b1" "btf_is_modifiable b \<Longrightarrow> err = 0 \<and> b1 = b\<lparr>bm_named_start_id := 0\<rparr>"
      using ensure_modifiable_ok [OF own, of "al 0" "base' \<noteq> None"] by blast
    note ext = extends_same [OF ok e(2,3) same]
    show ?thesis
    proof (cases "err = 0")
      case False
      with base True e ext B show ?thesis by (auto simp: btf__add_str_def)
    next
      case err: True
      with e(4) obtain st where st: "bm_strs b1 = Inr st" by (auto simp: btf_is_modifiable_def split: sum.splits)
      obtain ro co mo where al: "al_strs (al 0) = (ro, co, mo)" by (cases "al_strs (al 0)")
      obtain off st' where f: "strset__add_str ro co mo st s = (off, st')" by fastforce
      define b2 where "b2 = b1\<lparr>bm_strs := Inr st', bm_hdr := (bm_hdr b1)\<lparr>bh_str_len := strs_data_len st'\<rparr>\<rparr>"
      note o = own_add [OF e(3) st nul f, folded b2_def]
      have "extends (Obj b1 base') (Obj b2 base')"
        using obj_swap [of b1 base' b2 base'] o(1,2) ext below_refl [of b1 base'] by (simp add: extends_def str_grows_def)
      with ext have ext2: "extends (Obj b base) (Obj b2 base')" by (rule extends_trans)
      have run: "btf__add_str al s B = Some (if off < 0 then off else int (bm_start_str_off b2) + off, Obj b2 base')"
        using base True e(1) err st f al o(4) B by (auto simp: btf__add_str_def Let_def b2_def)
      have "reads (Obj b2 base') (bm_start_str_off b2 + nat off) s" if "0 \<le> off"
        using reads_own [of "nat off" s b2 base'] o(2,3) that by (simp add: own_ok_def strs_ok_def)
      with run ext2 e(5) o(5) B show ?thesis by (auto simp: nat_add_distrib b2_def btf_is_modifiable_def)
    qed
  qed
qed

section \<open>Appending words\<close>

lemma add_type_mem_ok:
  assumes "own_ok b" and "btf_is_modifiable b" and "btf_add_type_mem al b sz = Some (p, b')"
  shows "p = bh_type_len (bm_hdr b)" "same_own b b'" "own_ok b'" "btf_is_modifiable b'" "p + sz \<le> length (bm_types_data b')"
proof -
  from assms(2) obtain st where st: "bm_strs b = Inr st" by (auto simp: btf_is_modifiable_def split: sum.splits)
  from assms(3) obtain data cap where
    l: "libbpf_add_mem (al_types al) (bm_types_data b) (bm_types_data_cap b) 1 (bh_type_len (bm_hdr b)) UINT32_MAX sz = Some (p, data, cap)"
    and b': "b' = b\<lparr>bm_types_data := data, bm_types_data_cap := cap\<rparr>"
    by (auto simp: btf_add_type_mem_def)
  note m = mods_cap [OF assms(1) st]
  from assms(1) have t: "bh_type_len (bm_hdr b) \<le> length (bm_types_data b)" by (auto simp: own_ok_def holds_def)
  with libbpf_add_mem_ok [OF l] m obtain z where
    z: "p = bh_type_len (bm_hdr b)" "length data = cap" "p + sz \<le> cap" "cap < 2 ^ 32" "data = bm_types_data b @ z"
    by (auto simp: UINT32_MAX_def)
  then show "p = bh_type_len (bm_hdr b)" "p + sz \<le> length (bm_types_data b')" by (simp_all add: b')
  show "btf_is_modifiable b'" using assms(2) by (simp add: b' btf_is_modifiable_def)
  show s: "same_own b b'" using t z by (simp add: same_own_def b' str_sec_def btf_strs_data_def)
  have "mods_ok b'" using m z st by (simp add: mods_ok_def b')
  with same_ok [OF s assms(1)] show "own_ok b'" .
qed

lemma put_words_ok:
  assumes "own_ok b" and "btf_is_modifiable b" and "bh_type_len (bm_hdr b) \<le> p" and "p + length w \<le> length (bm_types_data b)"
  defines "b' \<equiv> b\<lparr>bm_types_data := memcpy p w (bm_types_data b)\<rparr>"
  shows "same_own b b'" "own_ok b'"
proof -
  show s: "same_own b b'" using assms by (simp add: same_own_def str_sec_def btf_strs_data_def take_memcpy)
  have "mods_ok b'" using assms(1,4) by (auto simp: own_ok_def mods_ok_def b'_def split: sum.splits)
  with same_ok [OF s assms(1)] show "own_ok b'" .
qed

lemma put_obj_ok:
  assumes "obj_ok (Obj b base)" and "btf_is_modifiable b" and "bh_type_len (bm_hdr b) = p" and "p + length w \<le> length (bm_types_data b)"
  defines "b' \<equiv> b\<lparr>bm_types_data := memcpy p w (bm_types_data b)\<rparr>"
  shows "extends (Obj b base) (Obj b' base)" "btf_is_modifiable b'" "take (length w) (drop p (bm_types_data b')) = w"
    "p + length w \<le> length (bm_types_data b')"
proof -
  note put = put_words_ok [OF obj_own [OF assms(1)] assms(2) _ assms(4), folded b'_def]
  from put assms(3) show "extends (Obj b base) (Obj b' base)" using extends_same [OF assms(1) _ _ below_refl [OF assms(1)]] by simp
  show "btf_is_modifiable b'" using assms(2) by (simp add: b'_def btf_is_modifiable_def)
  show "take (length w) (drop p (bm_types_data b')) = w" using assms(4) by (simp add: b'_def memcpy_def)
  show "p + length w \<le> length (bm_types_data b')" using assms(4) by (simp add: b'_def)
qed

definition named :: "8 word list \<Rightarrow> nat \<Rightarrow> btf_obj \<Rightarrow> bool" where
  "named name v B \<longleftrightarrow> v < 2 ^ 32 \<and> (if name = [] then v = 0 else reads B v name)"

lemma append_words_ok:
  assumes ok: "obj_ok B" and nul: "0 \<notin> set name" and sz: "\<And>v. 4 * length (ws v) = sz"
  obtains err B' where "append_words al sz name ws B = Some (err, B')" "extends B B'" "err = 0 \<or> err = - ENOMEM"
    "err = 0 \<Longrightarrow> btf_is_modifiable (bm B') \<and> (\<exists>v. named name v B' \<and>
       bh_type_len (bm_hdr (bm B')) + sz \<le> length (bm_types_data (bm B')) \<and>
       take sz (drop (bh_type_len (bm_hdr (bm B'))) (bm_types_data (bm B'))) = word_bytes (ws v))"
proof -
  obtain b base where B: "B = Obj b base" by (cases B)
  note okB = ok [unfolded B] and own = obj_own [OF ok [unfolded B]]
  note below = below_refl [OF okB]
  obtain e b1 where e: "btf_ensure_modifiable (al 0) (base \<noteq> None) b = Some (e, b1)" "same_own b b1" "own_ok b1"
    "e = 0 \<Longrightarrow> btf_is_modifiable b1" using ensure_modifiable_ok [OF own, of "al 0" "base \<noteq> None"] by blast
  note ext1 = extends_same [OF okB e(2,3) below]
  show thesis
  proof (cases "e = 0 \<and> btf_add_type_mem (al 0) b1 sz \<noteq> None")
    case False
    then have "append_words al sz name ws B = Some (- ENOMEM, Obj b1 base)"
      using e(1) B by (cases "btf_add_type_mem (al 0) b1 sz") (auto simp: append_words_def obj_ensure_modifiable_def)
    with that [of "- ENOMEM" "Obj b1 base"] ext1 B show thesis by simp
  next
    case True
    then obtain p b2 where mem: "btf_add_type_mem (al 0) b1 sz = Some (p, b2)" by auto
    from True have e0: "e = 0" by simp
    note a = add_type_mem_ok [OF e(3) e(4) [OF e0] mem]
    have ok1: "obj_ok (Obj b1 base)" using ext1 by (simp add: extends_def)
    from ext1 extends_same [OF ok1 a(2,3) below] have ext2: "extends B (Obj b2 base)" unfolding B by (rule extends_trans)
    then have ok2: "obj_ok (Obj b2 base)" by (simp add: extends_def)
    let ?add = "if name = [] then Some (0, Obj b2 base) else btf__add_str al name (Obj b2 base)"
    obtain r B3 where r: "?add = Some (r, B3)" "extends (Obj b2 base) B3" "0 \<le> r \<longrightarrow> named name (nat r) B3" "r < 0 \<longrightarrow> r = - ENOMEM"
      "bm_types_data (bm B3) = bm_types_data b2" "btf_is_modifiable (bm B3)"
      using add_str_ok [OF ok2 nul, of al] extends_refl [OF ok2] reads_bound(2) True a(4)
      by (cases "name = []") (fastforce simp: named_def extends_def)+
    have run: "append_words al sz name ws B = (if r < 0 then Some (r, B3)
        else Some (0, Obj ((bm B3)\<lparr>bm_types_data := memcpy p (word_bytes (ws (nat r))) (bm_types_data (bm B3))\<rparr>) (bm_base B3)))"
      using e(1) True mem r(1) B by (auto simp: append_words_def obj_ensure_modifiable_def Let_def split: if_splits)
    have ext3: "extends B B3" by (rule extends_trans [OF ext2 r(2)])
    show thesis
    proof (cases "r < 0")
      case True
      with run ext3 r(4) that [of r B3] show thesis by simp
    next
      case False
      obtain b3 base3 where B3: "B3 = Obj b3 base3" by (cases B3)
      from ext3 B3 have ok3: "obj_ok (Obj b3 base3)" by (simp add: extends_def)
      let ?w = "word_bytes (ws (nat r))"
      let ?b = "b3\<lparr>bm_types_data := memcpy p ?w (bm_types_data b3)\<rparr>"
      from r(2) a(2) e(2) B3 same_hdr [of "bm_hdr b3" "bm_hdr b2"] have tl: "bh_type_len (bm_hdr b3) = p"
        by (simp add: extends_def str_grows_def same_own_def a(1))
      have len: "length ?w = sz" using sz [of "nat r"] by simp
      note put = put_obj_ok [OF ok3 _ tl, of ?w]
      have m3: "btf_is_modifiable b3" "p + length ?w \<le> length (bm_types_data b3)" using a(5) r(5,6) B3 len by simp_all
      note put = put [OF m3]
      from ext3 B3 put(1) have ext5: "extends B (Obj ?b base3)" by (blast intro: extends_trans)
      have "named name (nat r) (Obj ?b base3)"
        using r(3) False extends_reads [OF ok3 put(1)] B3 by (simp add: named_def split: if_splits)
      with that [of 0 "Obj ?b base3"] run ext5 False B3 tl put len show thesis by (auto simp: btf_is_modifiable_def)
    qed
  qed
qed

section \<open>Appending types and members\<close>

lemma reads_strs_only:
  assumes "str_sec b' = str_sec b" and "bh_str_len (bm_hdr b') = bh_str_len (bm_hdr b)" and "bm_start_str_off b' = bm_start_str_off b"
  shows "reads (Obj b' base) = reads (Obj b base)"
  using assms by (intro ext) (simp add: reads_def view.simps)

text \<open>A header with nothing between the sections.\<close>

definition plain_hdr :: "btf_header \<Rightarrow> bool" where
  "plain_hdr h \<longleftrightarrow> h = image_hdr (bh_type_len h) (bh_str_len h)"

lemma plain_grow: "plain_hdr h \<Longrightarrow> plain_hdr (grow_hdr sz h)"
  by (cases h) (simp add: plain_hdr_def grow_hdr_def image_hdr_def)

lemma plain_str_len: "h'\<lparr>bh_str_len := 0\<rparr> = h\<lparr>bh_str_len := 0\<rparr> \<Longrightarrow> plain_hdr h \<Longrightarrow> plain_hdr h'"
  by (cases h; cases h') (simp add: plain_hdr_def image_hdr_def)

text \<open>The types of an object have become \<open>cs\<close>; the strings and the objects below are as before.\<close>

definition becomes :: "btf_obj \<Rightarrow> btf_obj \<Rightarrow> nat list list \<Rightarrow> bool" where
  "becomes B B' cs \<longleftrightarrow> obj_ok B' \<and> holds (bm B') cs \<and> (\<forall>v s. reads B v s \<longrightarrow> reads B' v s) \<and>
     below_same (bm_base B) (bm_base B') \<and> bm_start_id (bm B') = bm_start_id (bm B) \<and>
     bm_swapped_endian (bm B') = bm_swapped_endian (bm B) \<and> bm_ptr_sz (bm B') = bm_ptr_sz (bm B) \<and>
     (plain_hdr (bm_hdr (bm B)) \<longrightarrow> plain_hdr (bm_hdr (bm B')))"

lemma extends_becomes: "obj_ok B \<Longrightarrow> extends B B' \<Longrightarrow> holds (bm B) cs \<Longrightarrow> becomes B B' cs"
  using grows_holds extends_reads plain_str_len by (auto simp: becomes_def extends_def str_grows_def)

lemma becomes_trans: "becomes B B' cs \<Longrightarrow> becomes B' B'' cs' \<Longrightarrow> becomes B B'' cs'"
  by (auto simp: becomes_def below_same_def)

lemma becomes_own:
  assumes "obj_ok (Obj b base)" and "own_ok b'" and "holds b' cs"
    and "str_sec b' = str_sec b" "bh_str_len (bm_hdr b') = bh_str_len (bm_hdr b)" "bm_start_str_off b' = bm_start_str_off b"
    and "bm_start_id b' = bm_start_id b" "bm_swapped_endian b' = bm_swapped_endian b" "bm_ptr_sz b' = bm_ptr_sz b"
    and "plain_hdr (bm_hdr b) \<longrightarrow> plain_hdr (bm_hdr b')"
  shows "becomes (Obj b base) (Obj b' base) cs"
  using obj_swap [OF assms(1,2) below_refl [OF assms(1)]] reads_strs_only [OF assms(4-6)] assms below_refl [OF assms(1)]
  by (simp add: becomes_def)

lemma holds_grow:
  assumes "holds b cs" and "chunk_ok c" and "4 * length (concat cs) + 4 * length c \<le> length (bm_types_data b)"
    and "4 * length (concat cs) + 4 * length c < 2 ^ 32"
    and "take (4 * length c) (drop (4 * length (concat cs)) (bm_types_data b)) = word_bytes c"
  shows "take (4 * length (concat (cs @ [c]))) (bm_types_data b) = word_bytes (concat (cs @ [c]))"
proof -
  have "take (4 * length (concat cs) + 4 * length c) (bm_types_data b) =
      take (4 * length (concat cs)) (bm_types_data b) @ take (4 * length c) (drop (4 * length (concat cs)) (bm_types_data b))"
    by (rule take_add)
  with assms show ?thesis by (simp add: holds_def)
qed

lemma idx_entry_ok:
  assumes "holds b cs" and "btf_add_type_idx_entry al b (bh_type_len (bm_hdr b)) = (err, b')"
  shows "err = - ENOMEM \<and> b' = b \<or> err = 0 \<and> (\<exists>offs cap. b' = b\<lparr>bm_type_offs := offs, bm_type_offs_cap := cap\<rparr> \<and>
    length offs = 4 * cap \<and> length cs + 1 \<le> cap \<and> take (4 * (length cs + 1)) offs = word_bytes (offs_from 0 (cs @ [c])))"
proof (cases "btf_add_type_offs_mem al b 1")
  case None
  with assms(2) show ?thesis by (simp add: btf_add_type_idx_entry_def)
next
  case (Some a)
  then obtain p offs cap where
    l: "libbpf_add_mem (al_offs al) (bm_type_offs b) (bm_type_offs_cap b) 4 (bm_nr_types b) BTF_MAX_NR_TYPES 1 = Some (p, offs, cap)"
    and a: "a = (p, b\<lparr>bm_type_offs := offs, bm_type_offs_cap := cap\<rparr>)"
    by (auto simp: btf_add_type_offs_mem_def)
  let ?n = "length cs" and ?t = "4 * length (concat cs)"
  from assms(1) have h: "bm_nr_types b = ?n" "bh_type_len (bm_hdr b) = ?t" "length (bm_type_offs b) = bm_type_offs_cap b * 4"
    "?n \<le> bm_type_offs_cap b" "take (4 * ?n) (bm_type_offs b) = word_bytes (offs_from 0 cs)" by (auto simp: holds_def)
  from libbpf_add_mem_ok [OF l] h obtain z where z: "p = 4 * ?n" "length offs = cap * 4" "?n + 1 \<le> cap" "offs = bm_type_offs b @ z"
    by auto
  let ?offs = "memcpy p (le_bytes 4 ?t) offs"
  have "take (4 * ?n + 4) ?offs = take (4 * ?n) offs @ le_bytes 4 ?t" using z by (simp add: memcpy_def)
  with h z have "take (4 * (?n + 1)) ?offs = word_bytes (offs_from 0 (cs @ [c]))" by (simp add: offs_from_append algebra_simps)
  moreover have "length ?offs = 4 * cap" using z by simp
  moreover have "err = 0 \<and> b' = b\<lparr>bm_type_offs := ?offs, bm_type_offs_cap := cap\<rparr>"
    using assms(2) Some a h(2) by (auto simp: btf_add_type_idx_entry_def)
  ultimately show ?thesis using z(3) by blast
qed

text \<open>The words \<open>w\<close> stand behind the data in use.\<close>

definition pending :: "bmod \<Rightarrow> nat list \<Rightarrow> bool" where
  "pending b w \<longleftrightarrow> btf_is_modifiable b \<and> bh_type_len (bm_hdr b) + 4 * length w \<le> length (bm_types_data b) \<and>
     take (4 * length w) (drop (bh_type_len (bm_hdr b)) (bm_types_data b)) = word_bytes w"

lemma append_words_pending:
  assumes "obj_ok B" and "0 \<notin> set name" and "\<And>v. 4 * length (ws v) = sz"
  obtains err B' where "append_words al sz name ws B = Some (err, B')" "extends B B'" "err = - ENOMEM"
    | B' v where "append_words al sz name ws B = Some (0, B')" "extends B B'" "named name v B'" "pending (bm B') (ws v)"
  by (rule append_words_ok [OF assms(1,2), of ws sz al, OF assms(3)])
    (use assms(3) in \<open>fastforce simp: pending_def\<close>)

lemma pending_room:
  assumes "own_ok b" and "pending b w" and "holds b cs"
  shows "4 * length (concat cs) + 4 * length w < 2 ^ 32" and "4 * length (concat cs) + 4 * length w \<le> length (bm_types_data b)"
proof -
  from assms(2) obtain st where "bm_strs b = Inr st" by (auto simp: pending_def btf_is_modifiable_def split: sum.splits)
  with mods_cap [OF assms(1)] assms(2,3) show "4 * length (concat cs) + 4 * length w < 2 ^ 32"
    "4 * length (concat cs) + 4 * length w \<le> length (bm_types_data b)" by (fastforce simp: holds_def pending_def)+
qed

lemma mods_grow:
  fixes b :: bmod
  defines "b' \<equiv> \<lambda>t offs cap sz n. b\<lparr>bm_types_data := t, bm_type_offs := offs, bm_type_offs_cap := cap,
      bm_hdr := grow_hdr sz (bm_hdr b), bm_nr_types := n\<rparr>"
  assumes "own_ok b" and "holds (b' t offs cap sz n) cs" and "length t = length (bm_types_data b)"
  shows "own_ok (b' t offs cap sz n)" and "str_sec (b' t offs cap sz n) = str_sec b"
proof -
  show sec: "str_sec (b' t offs cap sz n) = str_sec b" by (simp add: b'_def str_sec_def grow_hdr_def btf_strs_data_def)
  from assms(2,4) have "mods_ok (b' t offs cap sz n)" by (auto simp: b'_def own_ok_def mods_ok_def grow_hdr_def split: sum.splits)
  with assms(2,3) sec show "own_ok (b' t offs cap sz n)" by (auto simp: own_ok_def strs_ok_def b'_def grow_hdr_def)
qed

lemma commit_type_ok:
  assumes ok: "obj_ok (Obj b base)" and h: "holds b cs" and c: "chunk_ok c" and p: "pending b c"
  obtains r b' where "btf_commit_type al b (4 * length c) = (r, b')"
    "r = - ENOMEM \<and> b' = b \<or> r = int (bm_start_id b + bm_nr_types b) \<and> becomes (Obj b base) (Obj b' base) (cs @ [c])"
proof -
  note own = obj_own [OF ok]
  obtain e b2 where i: "btf_add_type_idx_entry al b (bh_type_len (bm_hdr b)) = (e, b2)" by fastforce
  show thesis
  proof (cases "e = 0")
    case False
    with idx_entry_ok [OF h i] i that [of e b] show thesis by (auto simp: btf_commit_type_def)
  next
    case e: True
    with idx_entry_ok [OF h i, of c] obtain offs cap where b2: "b2 = b\<lparr>bm_type_offs := offs, bm_type_offs_cap := cap\<rparr>"
      "length offs = 4 * cap" "length cs + 1 \<le> cap" "take (4 * (length cs + 1)) offs = word_bytes (offs_from 0 (cs @ [c]))" by auto
    let ?b = "b\<lparr>bm_types_data := bm_types_data b, bm_type_offs := offs, bm_type_offs_cap := cap,
      bm_hdr := grow_hdr (4 * length c) (bm_hdr b), bm_nr_types := bm_nr_types b + 1\<rparr>"
    note room = pending_room [OF own p h]
    have tk: "take (4 * length (concat (cs @ [c]))) (bm_types_data b) = word_bytes (concat (cs @ [c]))"
      by (rule holds_grow [OF h c room(2,1)]) (use p h in \<open>simp add: holds_def pending_def\<close>)
    have h2: "holds ?b (cs @ [c])" using h c room tk b2 by (auto simp: holds_def grow_hdr_def)
    note g = mods_grow [OF own h2 refl]
    have "becomes (Obj b base) (Obj ?b base) (cs @ [c])"
      using becomes_own [OF ok g(1) h2 g(2)] plain_grow [of "bm_hdr b" "4 * length c"] by (simp add: grow_hdr_def)
    moreover have "btf_commit_type al b (4 * length c) = (int (bm_start_id b + bm_nr_types b), ?b)"
      using i e by (simp add: btf_commit_type_def Let_def b2(1))
    ultimately show thesis using that by blast
  qed
qed

lemma append_type_ok:
  assumes ok: "obj_ok B" and nul: "0 \<notin> set name" and sz: "\<And>v. 4 * length (ws v) = sz" and h: "holds (bm B) cs"
    and chunk: "\<And>v. v < 2 ^ 32 \<Longrightarrow> chunk_ok (ws v)"
  shows "\<exists>r B'. append_type al sz name ws B = Some (r, B') \<and> (r = - ENOMEM \<and> becomes B B' cs \<or>
    r = int (obj_type_cnt B) \<and> (\<exists>v. named name v B' \<and> becomes B B' (cs @ [ws v])))"
proof -
  consider err B1 where "append_words al sz name ws B = Some (err, B1)" "extends B B1" "err = - ENOMEM"
    | B1 v where "append_words al sz name ws B = Some (0, B1)" "extends B B1" "named name v B1" "pending (bm B1) (ws v)"
    by (rule append_words_pending [OF ok nul, of ws sz al, OF sz]) blast+
  then show ?thesis
  proof cases
    case 1
    with extends_becomes [OF ok 1(2) h] show ?thesis by (simp add: append_type_def)
  next
    case 2
    note b1 = extends_becomes [OF ok 2(2) h]
    obtain b base where B1: "B1 = Obj b base" by (cases B1)
    from b1 B1 have ok1: "obj_ok (Obj b base)" and h1: "holds b cs" by (simp_all add: becomes_def)
    have "chunk_ok (ws v)" using 2(3) by (intro chunk) (simp add: named_def)
    then obtain r b' where c: "btf_commit_type (al 0) b sz = (r, b')"
      "r = - ENOMEM \<and> b' = b \<or> r = int (bm_start_id b + bm_nr_types b) \<and> becomes (Obj b base) (Obj b' base) (cs @ [ws v])"
      using commit_type_ok [OF ok1 h1 _ 2(4) [unfolded B1 btf_obj.sel], of "al 0", unfolded sz] by blast
    have run: "append_type al sz name ws B = Some (r, Obj b' base)" using 2(1) c(1) B1 by (simp add: append_type_def)
    from c(2) show ?thesis
    proof
      assume "r = - ENOMEM \<and> b' = b"
      with run b1 B1 show ?thesis by auto
    next
      assume r: "r = int (bm_start_id b + bm_nr_types b) \<and> becomes (Obj b base) (Obj b' base) (cs @ [ws v])"
      moreover have "bm_start_id b + bm_nr_types b = obj_type_cnt B"
        using h h1 b1 B1 by (simp add: obj_type_cnt_def holds_def becomes_def)
      moreover from r b1 B1 have "becomes B (Obj b' base) (cs @ [ws v])" by (blast intro: becomes_trans)
      moreover from r 2(3) B1 have "named name v (Obj b' base)" by (auto simp: named_def becomes_def)
      ultimately show ?thesis using run by auto
    qed
  qed
qed

text \<open>Overwriting a word.\<close>

lemma take_put_word:
  assumes "take (4 * length xs) data = word_bytes xs" and "i < length xs" and "4 * length xs \<le> length data"
  shows "take (4 * length xs) (memcpy (4 * i) (le_bytes 4 w) data) = word_bytes (xs[i := w])"
proof -
  have d: "data = word_bytes (take i xs) @ word_bytes [xs ! i] @ word_bytes (drop (Suc i) xs) @ drop (4 * length xs) data"
    using append_take_drop_id [of "4 * length xs" data] id_take_nth_drop [OF assms(2)]
    unfolding assms(1) by (metis append.assoc append_Cons append_Nil word_bytes_simps(3))
  have "memcpy (4 * i) (le_bytes 4 w) data =
      word_bytes (take i xs) @ le_bytes 4 w @ word_bytes (drop (Suc i) xs) @ drop (4 * length xs) data"
    using assms(2) by (subst d) (simp add: memcpy_def)
  with assms(2) show ?thesis by (simp add: upd_conv_take_nth_drop)
qed

lemma rd_taken:
  assumes "take (4 * length xs) data = word_bytes xs" and "i < length xs" and "xs ! i < 2 ^ 32"
  shows "rd 4 data (4 * i) = Some (xs ! i)"
  using rd_word [OF assms(2,3), of "drop (4 * length xs) data"] append_take_drop_id [of "4 * length xs" data]
  unfolding assms(1) by simp

lemma last_type:
  assumes "holds b (cs @ [c])"
  shows "last_type_off b = Some (4 * length (concat cs))" and "last_type_info b = Some (c ! 1)"
proof -
  let ?o = "offs_from 0 (cs @ [c])"
  have o: "?o ! length cs = 4 * length (concat cs)" by (simp add: offs_from_append nth_append)
  have "rd 4 (bm_type_offs b) (4 * length cs) = Some (?o ! length cs)"
    by (rule rd_taken) (use assms o in \<open>auto simp: holds_def\<close>)
  with assms o show off: "last_type_off b = Some (4 * length (concat cs))" by (simp add: last_type_off_def holds_def)
  let ?i = "length (concat cs) + 1"
  from assms have c: "chunk_ok c" by (simp add: holds_def)
  then have x: "concat (cs @ [c]) ! ?i = c ! 1" "?i < length (concat (cs @ [c]))" "c ! 1 < 2 ^ 32"
    by (auto simp: chunk_ok_def nth_append)
  have "rd 4 (bm_types_data b) (4 * ?i) = Some (concat (cs @ [c]) ! ?i)"
    by (rule rd_taken) (use assms x in \<open>auto simp: holds_def\<close>)
  with x off show "last_type_info b = Some (c ! 1)" by (simp add: last_type_info_def add.commute)
qed

lemma check_last_ok:
  assumes "holds (bm B) cs"
  shows "check_last kinds B = Some None \<or>
    (\<exists>ds c. cs = ds @ [c] \<and> BTF_INFO_KIND (c ! 1) \<in> kinds \<and> check_last kinds B = Some (Some (c ! 1)))"
proof (cases cs rule: rev_cases)
  case Nil
  with assms show ?thesis by (simp add: check_last_def holds_def)
next
  case (snoc ds c)
  with assms last_type(2) [of "bm B" ds c] show ?thesis by (auto simp: check_last_def holds_def)
qed

lemma set_last_info_ok:
  assumes "holds b (cs @ [c])"
  shows "set_last_info info b = Some (b\<lparr>bm_types_data := memcpy (4 * (length (concat cs) + 1)) (le_bytes 4 info) (bm_types_data b)\<rparr>)"
  using last_type [OF assms] by (simp add: set_last_info_def last_type_info_def algebra_simps)

lemma length_put_word:
  assumes "holds b (cs @ [c])"
  shows "length (memcpy (4 * (length (concat cs) + 1)) (le_bytes 4 info) (bm_types_data b)) = length (bm_types_data b)"
  using assms by (intro length_memcpy) (auto simp: holds_def chunk_ok_def)

lemma put_info_ok:
  assumes ok: "obj_ok (Obj b base)" and h: "holds b (cs @ [c])" and c: "chunk_ok (c[1 := info])"
  shows "\<exists>b'. set_last_info info b = Some b' \<and> becomes (Obj b base) (Obj b' base) (cs @ [c[1 := info]])"
proof -
  let ?t = "memcpy (4 * (length (concat cs) + 1)) (le_bytes 4 info) (bm_types_data b)"
  let ?b = "b\<lparr>bm_types_data := ?t\<rparr>"
  from h have i: "length (concat cs) + 1 < length (concat (cs @ [c]))" by (auto simp: holds_def chunk_ok_def)
  have "take (4 * length (concat (cs @ [c]))) ?t = word_bytes ((concat (cs @ [c]))[length (concat cs) + 1 := info])"
    by (rule take_put_word) (use h i in \<open>auto simp: holds_def\<close>)
  then have tk: "take (4 * length (concat (cs @ [c]))) ?t = word_bytes (concat (cs @ [c[1 := info]]))" by (simp add: list_update_append)
  have h2: "holds ?b (cs @ [c[1 := info]])"
    using h c tk length_put_word [OF h] by (auto simp: holds_def offs_from_append)
  have sec: "str_sec ?b = str_sec b" by (simp add: str_sec_def btf_strs_data_def)
  have "mods_ok ?b" using obj_own [OF ok] length_put_word [OF h] by (auto simp: own_ok_def mods_ok_def split: sum.splits)
  then have "own_ok ?b" using obj_own [OF ok] h2 sec by (auto simp: own_ok_def strs_ok_def)
  with becomes_own [OF ok _ h2 sec] set_last_info_ok [OF h] show ?thesis by simp
qed

lemma holds_member:
  assumes h: "holds b (cs @ [c])" and p: "pending b w" and room: "4 * length (concat (cs @ [c])) + 4 * length w < 2 ^ 32"
    and c: "chunk_ok (c[1 := info] @ w)"
  defines "t \<equiv> memcpy (4 * (length (concat cs) + 1)) (le_bytes 4 info) (bm_types_data b)"
  shows "holds (b\<lparr>bm_types_data := t, bm_hdr := grow_hdr (4 * length w) (bm_hdr b)\<rparr>) (cs @ [c[1 := info] @ w])"
proof -
  let ?xs = "concat (cs @ [c]) @ w"
  from h p have l: "4 * length ?xs \<le> length (bm_types_data b)" by (simp add: holds_def pending_def)
  have "take (4 * length ?xs) (bm_types_data b) = take (4 * length (concat (cs @ [c]))) (bm_types_data b) @
      take (4 * length w) (drop (4 * length (concat (cs @ [c]))) (bm_types_data b))"
    by (simp only: length_append distrib_left take_add)
  also have "\<dots> = word_bytes ?xs" using h p by (simp add: holds_def pending_def)
  finally have xs: "take (4 * length ?xs) (bm_types_data b) = word_bytes ?xs" .
  from h have i: "length (concat cs) + 1 < length (concat (cs @ [c]))" "1 < length c" by (auto simp: holds_def chunk_ok_def)
  then have "take (4 * length ?xs) t = word_bytes (?xs[length (concat cs) + 1 := info])"
    unfolding t_def by (intro take_put_word [OF xs]) (use l in auto)
  also have "?xs[length (concat cs) + 1 := info] = concat (cs @ [c[1 := info] @ w])"
    using i by (simp add: list_update_append)
  finally have tk: "take (4 * length ?xs) t = word_bytes (concat (cs @ [c[1 := info] @ w]))" .
  have len: "length t = length (bm_types_data b)" unfolding t_def by (rule length_put_word [OF h])
  from h have o: "take (4 * length (cs @ [c])) (bm_type_offs b) = word_bytes (offs_from 0 (cs @ [c[1 := info] @ w]))"
    by (simp add: holds_def offs_from_append)
  show ?thesis using h c room tk len l o by (auto simp: holds_def grow_hdr_def)
qed

lemma append_member_ok:
  assumes ok: "obj_ok B" and nul: "0 \<notin> set name" and sz: "\<And>v. 4 * length (ws v) = sz" and h: "holds (bm B) (cs @ [c])"
    and chunk: "\<And>v. v < 2 ^ 32 \<Longrightarrow> chunk_ok (c[1 := update (c ! 1)] @ ws v)"
  shows "\<exists>r B'. append_member al sz name ws update B = Some (r, B') \<and> (r = - ENOMEM \<and> becomes B B' (cs @ [c]) \<or>
    r = 0 \<and> (\<exists>v. named name v B' \<and> becomes B B' (cs @ [c[1 := update (c ! 1)] @ ws v])))"
proof -
  consider err B1 where "append_words al sz name ws B = Some (err, B1)" "extends B B1" "err = - ENOMEM"
    | B1 v where "append_words al sz name ws B = Some (0, B1)" "extends B B1" "named name v B1" "pending (bm B1) (ws v)"
    by (rule append_words_pending [OF ok nul, of ws sz al, OF sz]) blast+
  then show ?thesis
  proof cases
    case 1
    with extends_becomes [OF ok 1(2) h] show ?thesis by (simp add: append_member_def)
  next
    case 2
    note b1 = extends_becomes [OF ok 2(2) h]
    obtain b base where B1: "B1 = Obj b base" by (cases B1)
    from b1 B1 have ok1: "obj_ok (Obj b base)" and h1: "holds b (cs @ [c])" by (simp_all add: becomes_def)
    note own = obj_own [OF ok1] and p = 2(4) [unfolded B1 btf_obj.sel]
    let ?info = "update (c ! 1)"
    let ?t = "memcpy (4 * (length (concat cs) + 1)) (le_bytes 4 ?info) (bm_types_data b)"
    let ?b = "b\<lparr>bm_types_data := ?t, bm_hdr := grow_hdr sz (bm_hdr b)\<rparr>"
    have ch: "chunk_ok (c[1 := ?info] @ ws v)" using 2(3) by (intro chunk) (simp add: named_def)
    from holds_member [OF h1 p pending_room(1) [OF own p h1] ch] sz
    have h2: "holds ?b (cs @ [c[1 := ?info] @ ws v])" by simp
    have "own_ok ?b \<and> str_sec ?b = str_sec b"
      using mods_grow [OF own, where t = ?t and offs = "bm_type_offs b" and cap = "bm_type_offs_cap b" and sz = sz and n = "bm_nr_types b"] h2 length_put_word [OF h1] by simp
    with becomes_own [OF ok1 _ h2] have "becomes (Obj b base) (Obj ?b base) (cs @ [c[1 := ?info] @ ws v])"
      using plain_grow [of "bm_hdr b" sz] by (simp add: grow_hdr_def)
    with b1 B1 have "becomes B (Obj ?b base) (cs @ [c[1 := ?info] @ ws v])" "named name v (Obj ?b base)"
      using 2(3) by (blast intro: becomes_trans, auto simp: named_def becomes_def)
    moreover have "append_member al sz name ws update B = Some (0, Obj ?b base)"
      using 2(1) B1 last_type(2) [OF h1] set_last_info_ok [OF h1] by (simp add: append_member_def)
    ultimately show ?thesis by auto
  qed
qed

end
