(* ===== verification/BtfMemory.thy ===== *)
theory BtfMemory
  imports BtfBuild
begin

text \<open>
  Building type information with enough memory: when every allocation succeeds and the limits of the sections
  are not reached, no step of \<open>BtfBuild\<close> runs out of memory.
\<close>

section \<open>Hash map and string set\<close>

lemma insert_succeeds:
  assumes "hm_wf hf m" and "length (hm_entries m) < 2 ^ 59"
    and "hashmap_insert hf eq HASHMAP_ADD True True k v m = (err, ko, vo, m')"
  shows "err = 0 \<or> err = - EEXIST"
proof -
  have grow: "hashmap_needs_to_grow m \<Longrightarrow> fst (hashmap_grow hf True m) = 0"
  proof -
    assume g: "hashmap_needs_to_grow m"
    have "hm_cap_bits m \<le> 59"
    proof (cases "hm_buckets m")
      case None
      with assms(1) show ?thesis by (simp add: hm_wf_def)
    next
      case (Some bs)
      note w = hm_wf_Some [OF assms(1) Some]
      have "(2 :: nat) ^ hm_cap_bits m < 2 ^ 60"
        using g w(2) sz_entries [OF assms(1)] assms(2) by (auto simp: hashmap_needs_to_grow_def)
      then have "hm_cap_bits m < 60" by (rule power_less_imp_less_exp [rotated]) simp
      then show ?thesis by simp
    qed
    then have "(2 :: nat) ^ (hm_cap_bits m + 1) * 8 \<le> 2 ^ 60 * 8" by (intro mult_right_mono power_increasing) auto
    then show ?thesis by (auto simp: hashmap_grow_def calloc_succeeds_def HASHMAP_MIN_CAP_BITS_def Let_def)
  qed
  show ?thesis
    using assms(3) grow by (auto simp: hashmap_insert_def Let_def split: option.splits if_splits prod.splits)
qed

lemma count_map: "count (mset (map f xs)) k = size (filter_mset (\<lambda>e. f e = k) (mset xs))"
  by (induction xs) auto

lemma distinct_counts: "(\<And>k. count (mset xs) k \<le> 1) \<Longrightarrow> distinct xs"
proof (induction xs)
  case (Cons x xs)
  have "count (mset xs) k \<le> count (mset (x # xs)) k" for k by simp
  then have "count (mset xs) k \<le> 1" for k using Cons.prems by (rule le_trans)
  moreover have "count (mset xs) x = 0" using Cons.prems [of x] by simp
  ultimately show ?case using Cons.IH by simp
qed simp

lemma entries_bound:
  assumes "entries_ok data len m" and "hm_unique (strset_equal_fn data) m"
  shows "length (hm_entries m) \<le> len"
proof -
  let ?ks = "map (\<lambda>e. unat (fst e)) (hm_entries m)"
  have "count (mset ?ks) k \<le> 1" for k
  proof -
    have "count (mset ?ks) k = size (filter_mset (\<lambda>e. unat (fst e) = k) (mset (hm_entries m)))" by (rule count_map)
    also have "\<dots> \<le> size (filter_mset (\<lambda>e. strset_equal_fn data (fst e) (of_nat k)) (mset (hm_entries m)))"
      by (intro size_mset_mono filter_mset_mono_strong) (auto simp: strset_equal_fn_def)
    also have "\<dots> \<le> 1" using assms(2) by (simp add: hm_unique_def unique_keys_def)
    finally show ?thesis .
  qed
  then have "distinct ?ks" by (rule distinct_counts)
  moreover have "set ?ks \<subseteq> {..<len}" using assms(1) by (fastforce simp: entries_ok_def)
  ultimately have "length ?ks \<le> card {..<len}" by (metis card_mono distinct_card finite_lessThan)
  then show ?thesis by simp
qed

lemma init_loop_succeeds:
  assumes "init_inv data m" and "data \<noteq> [] \<longrightarrow> last data = 0" and "length data < 2 ^ 59" and "\<forall>n. alloc n = (True, True)"
    and "strset_init_loop alloc data off m = (err, m')"
  shows "err = 0"
  using assms
proof (induction alloc data off m rule: strset_init_loop.induct)
  case (1 alloc data off m)
  show ?case
  proof (cases "off < length data")
    case True
    have al: "alloc off = (True, True)" using "1.prems"(4) by simp
    obtain e1 ko kv m1 where i: "hashmap_insert (strset_hash_fn data) (strset_equal_fn data) HASHMAP_ADD
        (fst (alloc off)) (snd (alloc off)) (of_nat off) (of_nat off) m = (e1, ko, kv, m1)" by (metis prod.collapse)
    have last: "last data = 0" "length data < 2 ^ 63" using True "1.prems"(2,3) by auto
    from "1.prems"(1) have "hm_wf (strset_hash_fn data) m" "length (hm_entries m) \<le> length data"
      by (auto simp: init_inv_def intro: entries_bound)
    with insert_succeeds [OF _ _ i [unfolded al fst_conv snd_conv]] "1.prems"(3) have e: "e1 = - EEXIST \<or> e1 = 0" by auto
    from init_step [OF "1.prems"(1) True last i] have inv1: "init_inv data m1" by blast
    have "strset_init_loop alloc data (off + length (str_at data off) + 1) m1 = (err, m')"
      using "1.prems"(5) True i e by (simp add: strset_init_loop.simps [of alloc data off m])
    with "1.IH" [OF True i [symmetric] refl refl refl e inv1 "1.prems"(2-4)] show ?thesis by blast
  qed (use "1.prems"(5) in \<open>simp add: strset_init_loop.simps\<close>)
qed

lemma new_succeeds:
  assumes "d \<noteq> [] \<longrightarrow> last d = 0" and "length d < 2 ^ 59" and "\<forall>n. alloc n = (True, True)"
  shows "\<exists>st. strset__new True True True alloc mx (Some d) = Inr st"
proof -
  have inv: "init_inv d hashmap__init"
    by (simp add: init_inv_def init_ok entries_ok_def hm_entries_def hashmap__init_def)
      (simp add: hm_wf_def hm_unique_def unique_keys_def hm_entries_def)
  obtain err h where l: "strset_init_loop alloc d 0 hashmap__init = (err, h)" by fastforce
  with init_loop_succeeds [OF inv assms l] show ?thesis by (simp add: strset__new_def hashmap__new_def)
qed

lemma add_mem_succeeds: "cur + add \<le> mx \<Longrightarrow> libbpf_add_mem True data cap sz cur mx add \<noteq> None"
  by (simp add: libbpf_add_mem_def Let_def)

lemma add_str_succeeds:
  assumes ok: "strset_ok st" and nul: "0 \<notin> set s" and room: "strs_data_len st + length s + 1 \<le> strs_data_max_len st"
    and small: "strs_data_len st < 2 ^ 59" and add: "strset__add_str True True True st s = (r, st')"
  shows "0 \<le> r"
proof -
  from room obtain p st1 where a: "strset_add_str_mem True st (length s + 1) = Some (p, st1)"
    using add_mem_succeeds [of "strs_data_len st" "length s + 1" "strs_data_max_len st" "strs_data st" "strs_data_cap st" 1]
    by (auto simp: strset_add_str_mem_def split: option.splits)
  define d2 where "d2 = memcpy p (s @ [0]) (strs_data st1)"
  note m = add_str_mem_ok [OF ok a nul, folded d2_def]
  define st2 where "st2 = st\<lparr>strs_data := d2, strs_data_cap := length d2\<rparr>"
  have ok2: "strset_ok st2" unfolding st2_def using strset_data_ok(1) [OF ok m(3)] m(4,5) by simp
  have st1: "st1\<lparr>strs_data := d2\<rparr> = st2" unfolding st2_def by (rule m(2))
  obtain err ko kv h' where i: "hashmap_insert (strset_hash_fn (strs_data st2)) (strset_equal_fn (strs_data st2)) HASHMAP_ADD
      True True (of_nat (strs_data_len st1)) (of_nat (strs_data_len st1)) (strs_hash st2) = (err, ko, kv, h')" by (metis prod.collapse)
  have "length (hm_entries (strs_hash st2)) < 2 ^ 59"
    using ok2 entries_bound [of "strs_data st2" "strs_data_len st2" "strs_hash st2"] small by (auto simp: strset_ok_def st2_def)
  with insert_succeeds [OF _ _ i] ok2 have "err = 0 \<or> err = - EEXIST" by (auto simp: strset_ok_def)
  with add_str_unfold [OF a st1 [unfolded d2_def] i] add show ?thesis by (auto split: if_splits)
qed

lemma find_str_succeeds:
  assumes "strs_data_len st + length s + 1 \<le> strs_data_max_len st" and "strset__find_str True st s = (r, st')"
  shows "r \<noteq> - ENOMEM"
proof -
  from assms(1) obtain p st1 where a: "strset_add_str_mem True st (length s + 1) = Some (p, st1)"
    using add_mem_succeeds [of "strs_data_len st" "length s + 1" "strs_data_max_len st" "strs_data st" "strs_data_cap st" 1]
    by (auto simp: strset_add_str_mem_def split: option.splits)
  from find_str_unfold [OF a refl] assms(2) have "r = - ENOENT \<or> 0 \<le> r" by (auto split: option.splits)
  then show ?thesis by auto
qed

section \<open>Objects\<close>

definition all_allocs :: "nat \<Rightarrow> btf_allocs" where
  "all_allocs n = \<lparr>al_modify = True, al_set = (True, True, True), al_index = (\<lambda>_. (True, True)), al_types = True, al_offs = True,
     al_strs = (True, True, True)\<rparr>"

lemma all_allocs_Suc: "(\<lambda>n. all_allocs (Suc n)) = all_allocs"
  by (simp add: all_allocs_def fun_eq_iff)

text \<open>Room for \<open>k\<close> bytes of strings in an object and those below it.\<close>

fun room :: "nat \<Rightarrow> btf_obj \<Rightarrow> bool" where
  "room k (Obj b base) \<longleftrightarrow> bh_str_len (bm_hdr b) + k \<le> BTF_MAX_STR_OFFSET \<and> (case base of None \<Rightarrow> True | Some B \<Rightarrow> room k B)"

lemma bind_first: "Option.bind m f = Some y \<Longrightarrow> \<exists>a b. m = Some (a, b)"
  by (cases m) auto

lemma ensure_succeeds:
  assumes "own_ok b" and "btf_ensure_modifiable (all_allocs n) has_base b = Some (e, b')"
  shows "e = 0"
proof (cases "bm_strs b")
  case (Inl d)
  from assms(1) have s: "strs_ok b" and h: "\<not> bh_hdr_len (bm_hdr b) < 24" by (simp_all add: own_ok_def)
  have sec: "str_sec b = take (bh_str_len (bm_hdr b)) d" using Inl by (simp add: str_sec_def btf_strs_data_def)
  have "\<exists>st. strset__new True True True (\<lambda>_. (True, True)) BTF_MAX_STR_OFFSET (Some (str_sec b)) = Inr st"
    using s by (intro new_succeeds) (auto simp: strs_ok_def)
  with assms(2) Inl sec h show ?thesis by (auto simp: btf_ensure_modifiable_def all_allocs_def)
qed (use assms(2) in \<open>simp add: btf_ensure_modifiable_def\<close>)

lemma modified_room:
  assumes "own_ok b" and "bm_strs b = Inr st" and "bh_str_len (bm_hdr b) + k \<le> BTF_MAX_STR_OFFSET"
  shows "strset_ok st" and "strs_data_len st + k \<le> strs_data_max_len st" and "strs_data_len st < 2 ^ 59"
  using mods_cap [OF assms(1,2)] assms(3) by (auto simp: BTF_MAX_STR_OFFSET_def)

lemma find_succeeds:
  assumes "obj_ok B" and nul: "0 \<notin> set s" and "room (length s + 1) B" and "btf__find_str all_allocs s B = Some (r, B')"
  shows "r \<noteq> - ENOMEM"
  using assms(1,3,4)
proof (induction B arbitrary: r B')
  case (Obj b base)
  note own = obj_own [OF Obj.prems(1)]
  from Obj.prems(3) obtain r1 base1 where below: "(case base of None \<Rightarrow> Some (- ENOENT, None)
      | Some B \<Rightarrow> map_option (\<lambda>(off, B). (off, Some B)) (btf__find_str all_allocs s B)) = Some (r1, base1)"
    using bind_first [OF Obj.prems(3) [unfolded btf__find_str.simps all_allocs_Suc]] by blast
  note run = Obj.prems(3) [unfolded btf__find_str.simps all_allocs_Suc below bind.bind_lunit prod.case]
  have r1: "r1 \<noteq> - ENOMEM" using below Obj.IH Obj.prems(1,2) by (cases base) (auto simp: obj_ok.simps)
  show ?case
  proof (cases "r1 = - ENOENT")
    case False
    with run r1 show ?thesis by simp
  next
    case True
    obtain e b1 where e: "btf_ensure_modifiable (all_allocs 0) (base1 \<noteq> None) b = Some (e, b1)" "same_own b b1" "own_ok b1"
      "e = 0 \<Longrightarrow> btf_is_modifiable b1" using ensure_modifiable_ok [OF own, of "all_allocs 0" "base1 \<noteq> None"] by blast
    note e0 = ensure_succeeds [OF own e(1)]
    with e(4) obtain st where st: "bm_strs b1 = Inr st" by (auto simp: btf_is_modifiable_def split: sum.splits)
    obtain off st' where f: "strset__find_str True st s = (off, st')" by fastforce
    have "bh_str_len (bm_hdr b1) + (length s + 1) \<le> BTF_MAX_STR_OFFSET" using Obj.prems(2) e(2) by (simp add: same_own_def)
    from modified_room(2) [OF e(3) st this] find_str_succeeds [OF _ f] have "off \<noteq> - ENOMEM" by simp
    with run True e(1) e0 st f show ?thesis by (auto simp: all_allocs_def Let_def split: if_splits)
  qed
qed

lemma add_succeeds:
  assumes "obj_ok B" and nul: "0 \<notin> set s" and "room (length s + 1) B" and "btf__add_str all_allocs s B = Some (r, B')"
  shows "r \<noteq> - ENOMEM"
proof -
  obtain b base where B: "B = Obj b base" by (cases B)
  note own = obj_own [OF assms(1) [unfolded B]]
  from assms(4) B obtain r1 base1 where below: "(case base of None \<Rightarrow> Some (- ENOENT, None)
      | Some B \<Rightarrow> map_option (\<lambda>(off, B). (off, Some B)) (btf__find_str all_allocs s B)) = Some (r1, base1)"
    using bind_first [OF assms(4) [unfolded btf__add_str_def all_allocs_Suc]] by auto
  note run = assms(4) [unfolded B btf__add_str_def all_allocs_Suc btf_obj.sel below bind.bind_lunit prod.case]
  have r1: "r1 \<noteq> - ENOMEM" using below find_succeeds nul assms(1,3) B by (cases base) (auto simp: obj_ok.simps)
  show ?thesis
  proof (cases "r1 = - ENOENT")
    case False
    with run r1 show ?thesis by simp
  next
    case True
    obtain e b1 where e: "btf_ensure_modifiable (all_allocs 0) (base1 \<noteq> None) b = Some (e, b1)" "same_own b b1" "own_ok b1"
      "e = 0 \<Longrightarrow> btf_is_modifiable b1" using ensure_modifiable_ok [OF own, of "all_allocs 0" "base1 \<noteq> None"] by blast
    note e0 = ensure_succeeds [OF own e(1)]
    with e(4) obtain st where st: "bm_strs b1 = Inr st" by (auto simp: btf_is_modifiable_def split: sum.splits)
    obtain off st' where f: "strset__add_str True True True st s = (off, st')" by fastforce
    have "bh_str_len (bm_hdr b1) + (length s + 1) \<le> BTF_MAX_STR_OFFSET" using assms(3) B e(2) by (simp add: same_own_def)
    note m = modified_room [OF e(3) st this]
    from add_str_succeeds [OF m(1) nul _ m(3) f] m(2) have "0 \<le> off" by simp
    with run True e(1) e0 st f show ?thesis by (auto simp: all_allocs_def Let_def split: if_splits)
  qed
qed

section \<open>Types and members\<close>

lemma type_mem_succeeds: "bh_type_len (bm_hdr b) + sz \<le> UINT32_MAX \<Longrightarrow> \<exists>p b'. btf_add_type_mem (all_allocs n) b sz = Some (p, b')"
  using add_mem_succeeds [of "bh_type_len (bm_hdr b)" sz UINT32_MAX "bm_types_data b" "bm_types_data_cap b" 1]
  by (auto simp: btf_add_type_mem_def all_allocs_def)

lemma words_succeed:
  assumes ok: "obj_ok B" and nul: "0 \<notin> set name" and room: "room (length name + 1) B"
    and sz: "bh_type_len (bm_hdr (bm B)) + sz \<le> UINT32_MAX" and run: "append_words all_allocs sz name ws B = Some (r, B')"
  shows "r = 0"
proof -
  obtain b base where B: "B = Obj b base" by (cases B)
  note okB = ok [unfolded B] and own = obj_own [OF ok [unfolded B]]
  obtain e b1 where e: "btf_ensure_modifiable (all_allocs 0) (base \<noteq> None) b = Some (e, b1)" "same_own b b1" "own_ok b1"
    "e = 0 \<Longrightarrow> btf_is_modifiable b1" using ensure_modifiable_ok [OF own, of "all_allocs 0" "base \<noteq> None"] by blast
  note e0 = ensure_succeeds [OF own e(1)]
  have "bh_type_len (bm_hdr b1) + sz \<le> UINT32_MAX" using sz e(2) B by (simp add: same_own_def)
  from type_mem_succeeds [OF this] obtain p b2 where mem: "btf_add_type_mem (all_allocs 0) b1 sz = Some (p, b2)" by blast
  note a = add_type_mem_ok [OF e(3) e(4) [OF e0] mem]
  from extends_same [OF okB e(2,3) below_refl [OF okB]] have ok1: "obj_ok (Obj b1 base)" by (simp add: extends_def)
  from extends_same [OF ok1 a(2,3) below_refl [OF ok1]] have ok2: "obj_ok (Obj b2 base)" by (simp add: extends_def)
  have room2: "room (length name + 1) (Obj b2 base)" using room B e(2) a(2) by (simp add: same_own_def)
  from add_str_ok [OF ok2 nul, of all_allocs] obtain v B3 where
    v: "btf__add_str all_allocs name (Obj b2 base) = Some (v, B3)" "v < 0 \<longrightarrow> v = - ENOMEM" by blast
  with add_succeeds [OF ok2 nul room2 v(1)] have "0 \<le> v" by auto
  with run B e(1) e0 mem v(1) show ?thesis
    by (auto simp: append_words_def obj_ensure_modifiable_def Let_def split: if_splits)
qed

lemma few_types:
  assumes "holds b cs"
  shows "bm_nr_types b + 1 \<le> BTF_MAX_NR_TYPES"
proof -
  have "3 * length cs \<le> length (concat cs)" if "\<forall>c \<in> set cs. chunk_ok c" for cs :: "nat list list"
    using that by (induction cs) (auto simp: chunk_ok_def)
  with assms have "12 * bm_nr_types b < 2 ^ 32" by (fastforce simp: holds_def)
  then show ?thesis by (simp add: BTF_MAX_NR_TYPES_def)
qed

lemma commit_succeeds:
  assumes "holds b cs" and "btf_commit_type (all_allocs n) b sz = (r, b')"
  shows "0 \<le> r"
  using assms(2) few_types [OF assms(1)]
    add_mem_succeeds [of "bm_nr_types b" 1 BTF_MAX_NR_TYPES "bm_type_offs b" "bm_type_offs_cap b" 4]
  by (auto simp: btf_commit_type_def btf_add_type_idx_entry_def btf_add_type_offs_mem_def all_allocs_def Let_def)

text \<open>A call that has memory and room for a name does not answer with \<open>ENOMEM\<close>.\<close>

definition lives :: "(int \<times> btf_obj) option \<Rightarrow> bool" where
  "lives ro \<longleftrightarrow> (\<forall>r B. ro = Some (r, B) \<longrightarrow> r \<noteq> - ENOMEM)"

definition has_room :: "8 word list \<Rightarrow> btf_obj \<Rightarrow> bool" where
  "has_room name B \<longleftrightarrow> room (length name + 1) B \<and> bh_type_len (bm_hdr (bm B)) + 24 \<le> UINT32_MAX"

lemma append_type_lives:
  assumes ok: "obj_ok B" and nul: "0 \<notin> set name" and room: "has_room name B" and h: "holds (bm B) cs"
    and sz: "sz \<le> 24" "\<And>v. 4 * length (ws v) = sz"
  shows "lives (append_type all_allocs sz name ws B)"
proof -
  have len: "bh_type_len (bm_hdr (bm B)) + sz \<le> UINT32_MAX" "room (length name + 1) B" using room sz(1) by (auto simp: has_room_def)
  obtain e B1 where w: "append_words all_allocs sz name ws B = Some (e, B1)" "extends B B1"
    using append_words_ok [OF ok nul, of ws sz all_allocs, OF sz(2)] by blast
  have e0: "e = 0" by (rule words_succeed [OF ok nul len(2,1) w(1)])
  obtain r b' where c: "btf_commit_type (all_allocs 0) (bm B1) sz = (r, b')" by fastforce
  have "holds (bm B1) cs" using extends_becomes [OF ok w(2) h] by (simp add: becomes_def)
  from commit_succeeds [OF this c] have "r \<noteq> - ENOMEM" by auto
  with w(1) e0 c show ?thesis by (simp add: lives_def append_type_def)
qed

lemma append_member_lives:
  assumes "obj_ok B" and "0 \<notin> set name" and "has_room name B" and "sz \<le> 24"
  shows "lives (append_member all_allocs sz name ws update B)"
proof -
  have len: "bh_type_len (bm_hdr (bm B)) + sz \<le> UINT32_MAX" "room (length name + 1) B" using assms(3,4) by (auto simp: has_room_def)
  show ?thesis
    using words_succeed [OF assms(1,2) len(2,1), of ws]
    by (fastforce simp: lives_def append_member_def split: if_splits elim: bind_eq_Some_conv [THEN iffD1, elim_format])
qed

lemma lives_error: "e \<noteq> - ENOMEM \<Longrightarrow> lives (Some (e, B))"
  by (simp add: lives_def)

lemma lives_info_error: "e \<le> 0 \<Longrightarrow> e \<noteq> - ENOMEM \<Longrightarrow> lives (with_info info (e, B))"
  by (simp add: lives_def with_info_def)

lemma lives_info: "lives ro \<Longrightarrow> lives (Option.bind ro (with_info info))"
  by (cases ro) (auto simp: lives_def with_info_def split: if_splits elim: bind_eq_Some_conv [THEN iffD1, elim_format])

lemma lives_check:
  assumes "\<And>info. lives (f (Some info))" and "lives (f None)"
  shows "lives (Option.bind (check_last kinds B) f)"
  using assms by (cases "check_last kinds B") (auto simp: lives_def, metis option.exhaust)

end
