(* ===== verification/BtfCalls.thy ===== *)
theory BtfCalls
  imports BtfMemory
begin

text \<open>
  What the calls that build type information do (\<^verbatim>\<open>libbpf/src/btf.c\<close>): on the list of types of an object,
  each a list of words, a call appends one type, appends the words of a member to the last type, or is rejected.
  The buffers, the array of offsets and the set of strings of \<open>BtfBuild\<close> refine that description, whatever
  allocations fail.
\<close>

section \<open>What the calls do to the list of types\<close>

datatype btf_call =
    Add_str "8 word list"
  | Add_int "8 word list" nat nat
  | Add_float "8 word list" nat
  | Add_ptr int
  | Add_array int int "32 word"
  | Add_struct "8 word list" "32 word"
  | Add_union "8 word list" "32 word"
  | Add_field "8 word list" int "32 word" "32 word"
  | Add_enum "8 word list" "32 word"
  | Add_enum_value "8 word list" "64 word"
  | Add_enum64 "8 word list" "32 word" bool
  | Add_enum64_value "8 word list" "64 word"
  | Add_fwd "8 word list" btf_fwd_kind
  | Add_typedef "8 word list" int
  | Add_volatile int
  | Add_const int
  | Add_restrict int
  | Add_type_tag "8 word list" int
  | Add_type_attr "8 word list" int
  | Add_func "8 word list" nat int
  | Add_func_proto int
  | Add_func_param "8 word list" int
  | Add_var "8 word list" nat int
  | Add_datasec "8 word list" "32 word"
  | Add_datasec_var_info int "32 word" "32 word"
  | Add_decl_tag "8 word list" int int
  | Add_decl_attr "8 word list" int int

fun run_btf_call :: "(nat \<Rightarrow> btf_allocs) \<Rightarrow> btf_call \<Rightarrow> btf_obj \<Rightarrow> (int \<times> btf_obj) option" where
  "run_btf_call al (Add_str s) = btf__add_str al s"
| "run_btf_call al (Add_int name byte_sz encoding) = btf__add_int al name byte_sz encoding"
| "run_btf_call al (Add_float name byte_sz) = btf__add_float al name byte_sz"
| "run_btf_call al (Add_ptr i) = btf__add_ptr al i"
| "run_btf_call al (Add_array i j n) = btf__add_array al i j n"
| "run_btf_call al (Add_struct name byte_sz) = btf__add_struct al name byte_sz"
| "run_btf_call al (Add_union name byte_sz) = btf__add_union al name byte_sz"
| "run_btf_call al (Add_field name i bit_offset bit_size) = btf__add_field al name i bit_offset bit_size"
| "run_btf_call al (Add_enum name byte_sz) = btf__add_enum al name byte_sz"
| "run_btf_call al (Add_enum_value name val) = btf__add_enum_value al name val"
| "run_btf_call al (Add_enum64 name byte_sz is_signed) = btf__add_enum64 al name byte_sz is_signed"
| "run_btf_call al (Add_enum64_value name val) = btf__add_enum64_value al name val"
| "run_btf_call al (Add_fwd name fwd_kind) = btf__add_fwd al name fwd_kind"
| "run_btf_call al (Add_typedef name i) = btf__add_typedef al name i"
| "run_btf_call al (Add_volatile i) = btf__add_volatile al i"
| "run_btf_call al (Add_const i) = btf__add_const al i"
| "run_btf_call al (Add_restrict i) = btf__add_restrict al i"
| "run_btf_call al (Add_type_tag tag i) = btf__add_type_tag al tag i"
| "run_btf_call al (Add_type_attr tag i) = btf__add_type_attr al tag i"
| "run_btf_call al (Add_func name linkage i) = btf__add_func al name linkage i"
| "run_btf_call al (Add_func_proto i) = btf__add_func_proto al i"
| "run_btf_call al (Add_func_param name i) = btf__add_func_param al name i"
| "run_btf_call al (Add_var name linkage i) = btf__add_var al name linkage i"
| "run_btf_call al (Add_datasec name byte_sz) = btf__add_datasec al name byte_sz"
| "run_btf_call al (Add_datasec_var_info i offset byte_sz) = btf__add_datasec_var_info al i offset byte_sz"
| "run_btf_call al (Add_decl_tag tag i idx) = btf__add_decl_tag al tag i idx"
| "run_btf_call al (Add_decl_attr tag i idx) = btf__add_decl_attr al tag i idx"

fun call_name :: "btf_call \<Rightarrow> 8 word list" where
  "call_name (Add_str s) = s"
| "call_name (Add_int name _ _) = name"
| "call_name (Add_float name _) = name"
| "call_name (Add_struct name _) = name"
| "call_name (Add_union name _) = name"
| "call_name (Add_field name _ _ _) = name"
| "call_name (Add_enum name _) = name"
| "call_name (Add_enum_value name _) = name"
| "call_name (Add_enum64 name _ _) = name"
| "call_name (Add_enum64_value name _) = name"
| "call_name (Add_fwd name _) = name"
| "call_name (Add_typedef name _) = name"
| "call_name (Add_type_tag tag _) = tag"
| "call_name (Add_type_attr tag _) = tag"
| "call_name (Add_func name _ _) = name"
| "call_name (Add_func_param name _) = name"
| "call_name (Add_var name _ _) = name"
| "call_name (Add_datasec name _) = name"
| "call_name (Add_decl_tag tag _ _) = tag"
| "call_name (Add_decl_attr tag _ _) = tag"
| "call_name _ = []"

text \<open>A type with the string \<open>v\<close> as its name, and a member more of the last type.\<close>

definition ty :: "nat \<Rightarrow> nat \<Rightarrow> bool \<Rightarrow> nat \<Rightarrow> nat list \<Rightarrow> nat \<Rightarrow> nat list" where
  "ty kind vlen kflag w extra v = [v, btf_type_info kind vlen kflag, w] @ extra"

definition bump :: "bool \<Rightarrow> nat list \<Rightarrow> nat list" where
  "bump kflag c = c[1 := btf_type_info (BTF_INFO_KIND (c ! 1)) (BTF_INFO_VLEN (c ! 1) + 1) (kflag \<or> BTF_INFO_KFLAG (c ! 1) = 1)]"

definition last_kind :: "nat list list \<Rightarrow> nat option" where
  "last_kind cs = (if cs = [] then None else Some (BTF_INFO_KIND (last cs ! 1)))"

definition member :: "bool \<Rightarrow> nat list \<Rightarrow> nat list list \<Rightarrow> nat list list" where
  "member kflag w cs = butlast cs @ [bump kflag (last cs) @ w]"

definition id_ok :: "int \<Rightarrow> bool" where
  "id_ok i \<longleftrightarrow> 0 \<le> i \<and> i < 2 ^ 31"

text \<open>The effect of a call whose name is the string \<open>v\<close>, or the error it answers with.\<close>

fun spec_call :: "btf_call \<Rightarrow> nat \<Rightarrow> nat list list \<Rightarrow> int + nat list list" where
  "spec_call (Add_str s) v cs = Inr cs"
| "spec_call (Add_int name byte_sz encoding) v cs =
     (if name = [] \<or> byte_sz \<notin> {1, 2, 4, 8, 16} \<or> encoding \<ge> 8 then Inl (- EINVAL)
      else Inr (cs @ [ty BTF_KIND_INT 0 False byte_sz [encoding * 2 ^ 24 + byte_sz * 8] v]))"
| "spec_call (Add_float name byte_sz) v cs =
     (if name = [] \<or> byte_sz \<notin> {2, 4, 8, 12, 16} then Inl (- EINVAL) else Inr (cs @ [ty BTF_KIND_FLOAT 0 False byte_sz [] v]))"
| "spec_call (Add_ptr i) v cs = (if id_ok i then Inr (cs @ [ty BTF_KIND_PTR 0 False (nat i) [] v]) else Inl (- EINVAL))"
| "spec_call (Add_array i j n) v cs =
     (if id_ok i \<and> id_ok j then Inr (cs @ [ty BTF_KIND_ARRAY 0 False 0 [nat j, nat i, unat n] 0]) else Inl (- EINVAL))"
| "spec_call (Add_struct name byte_sz) v cs = Inr (cs @ [ty BTF_KIND_STRUCT 0 False (unat byte_sz) [] v])"
| "spec_call (Add_union name byte_sz) v cs = Inr (cs @ [ty BTF_KIND_UNION 0 False (unat byte_sz) [] v])"
| "spec_call (Add_field name i bit_offset bit_size) v cs =
     (if last_kind cs \<notin> {Some BTF_KIND_STRUCT, Some BTF_KIND_UNION} \<or> \<not> id_ok i \<or>
         is_bitfield bit_offset bit_size \<and> (bit_size = 0 \<or> bit_size > 255 \<or> bit_offset > 0xffffff) \<or>
         last_kind cs = Some BTF_KIND_UNION \<and> bit_offset \<noteq> 0 then Inl (- EINVAL)
      else Inr (member (is_bitfield bit_offset bit_size) [v, nat i, unat (or bit_offset (push_bit 24 bit_size))] cs))"
| "spec_call (Add_enum name byte_sz) v cs =
     (if byte_sz \<notin> {1, 2, 4, 8} then Inl (- EINVAL) else Inr (cs @ [ty BTF_KIND_ENUM 0 False (unat byte_sz) [] v]))"
| "spec_call (Add_enum_value name val) v cs =
     (if last_kind cs \<noteq> Some BTF_KIND_ENUM \<or> name = [] then Inl (- EINVAL)
      else if sint val < - (2 ^ 31) \<or> sint val \<ge> 2 ^ 32 then Inl (- E2BIG)
      else Inr (member (sint val < 0) [v, nat (sint val mod 2 ^ 32)] cs))"
| "spec_call (Add_enum64 name byte_sz is_signed) v cs =
     (if byte_sz \<notin> {1, 2, 4, 8} then Inl (- EINVAL) else Inr (cs @ [ty BTF_KIND_ENUM64 0 is_signed (unat byte_sz) [] v]))"
| "spec_call (Add_enum64_value name val) v cs =
     (if last_kind cs \<noteq> Some BTF_KIND_ENUM64 \<or> name = [] then Inl (- EINVAL)
      else Inr (member False [v, unat val mod 2 ^ 32, unat val div 2 ^ 32] cs))"
| "spec_call (Add_fwd name fwd_kind) v cs =
     (if name = [] \<or> fwd_kind = BTF_FWD_other then Inl (- EINVAL)
      else Inr (cs @ [if fwd_kind = BTF_FWD_ENUM then ty BTF_KIND_ENUM 0 False 4 [] v
                      else ty BTF_KIND_FWD 0 (fwd_kind = BTF_FWD_UNION) 0 [] v]))"
| "spec_call (Add_typedef name i) v cs =
     (if name = [] \<or> \<not> id_ok i then Inl (- EINVAL) else Inr (cs @ [ty BTF_KIND_TYPEDEF 0 False (nat i) [] v]))"
| "spec_call (Add_volatile i) v cs = (if id_ok i then Inr (cs @ [ty BTF_KIND_VOLATILE 0 False (nat i) [] v]) else Inl (- EINVAL))"
| "spec_call (Add_const i) v cs = (if id_ok i then Inr (cs @ [ty BTF_KIND_CONST 0 False (nat i) [] v]) else Inl (- EINVAL))"
| "spec_call (Add_restrict i) v cs = (if id_ok i then Inr (cs @ [ty BTF_KIND_RESTRICT 0 False (nat i) [] v]) else Inl (- EINVAL))"
| "spec_call (Add_type_tag tag i) v cs =
     (if tag = [] \<or> \<not> id_ok i then Inl (- EINVAL) else Inr (cs @ [ty BTF_KIND_TYPE_TAG 0 False (nat i) [] v]))"
| "spec_call (Add_type_attr tag i) v cs =
     (if tag = [] \<or> \<not> id_ok i then Inl (- EINVAL) else Inr (cs @ [ty BTF_KIND_TYPE_TAG 0 True (nat i) [] v]))"
| "spec_call (Add_func name linkage i) v cs =
     (if name = [] \<or> linkage > 2 \<or> \<not> id_ok i then Inl (- EINVAL) else Inr (cs @ [ty BTF_KIND_FUNC linkage False (nat i) [] v]))"
| "spec_call (Add_func_proto i) v cs = (if id_ok i then Inr (cs @ [ty BTF_KIND_FUNC_PROTO 0 False (nat i) [] 0]) else Inl (- EINVAL))"
| "spec_call (Add_func_param name i) v cs =
     (if last_kind cs \<noteq> Some BTF_KIND_FUNC_PROTO \<or> \<not> id_ok i then Inl (- EINVAL) else Inr (member False [v, nat i] cs))"
| "spec_call (Add_var name linkage i) v cs =
     (if name = [] \<or> linkage > 2 \<or> \<not> id_ok i then Inl (- EINVAL) else Inr (cs @ [ty BTF_KIND_VAR 0 False (nat i) [linkage] v]))"
| "spec_call (Add_datasec name byte_sz) v cs =
     (if name = [] then Inl (- EINVAL) else Inr (cs @ [ty BTF_KIND_DATASEC 0 False (unat byte_sz) [] v]))"
| "spec_call (Add_datasec_var_info i offset byte_sz) v cs =
     (if last_kind cs \<noteq> Some BTF_KIND_DATASEC \<or> \<not> id_ok i then Inl (- EINVAL)
      else Inr (member False [nat i, unat offset, unat byte_sz] cs))"
| "spec_call (Add_decl_tag tag i idx) v cs =
     (if tag = [] \<or> idx < - 1 \<or> \<not> id_ok i then Inl (- EINVAL)
      else Inr (cs @ [ty BTF_KIND_DECL_TAG 0 False (nat i) [nat (idx mod 2 ^ 32)] v]))"
| "spec_call (Add_decl_attr tag i idx) v cs =
     (if tag = [] \<or> idx < - 1 \<or> \<not> id_ok i then Inl (- EINVAL)
      else Inr (cs @ [ty BTF_KIND_DECL_TAG 0 True (nat i) [nat (idx mod 2 ^ 32)] v]))"

section \<open>The words of a type\<close>

lemma info_parts [simp]:
  assumes "kind < 32" and "vlen < 65536"
  shows "BTF_INFO_KIND (btf_type_info kind vlen kflag) = kind" "BTF_INFO_VLEN (btf_type_info kind vlen kflag) = vlen"
    "BTF_INFO_KFLAG (btf_type_info kind vlen kflag) = (if kflag then 1 else 0)" "btf_type_info kind vlen kflag < 4294967296"
proof -
  let ?k = "(if kflag then 128 else 0) + kind"
  have e: "btf_type_info kind vlen kflag = ?k * 256 * 65536 + vlen" by (simp add: btf_type_info_def)
  have "(?k * 256 * 65536 + vlen) mod 65536 = vlen" using assms(2) by (simp only: mod_mult_self3 mod_less)
  then show "BTF_INFO_VLEN (btf_type_info kind vlen kflag) = vlen" by (simp add: e BTF_INFO_VLEN_def)
  have e2: "btf_type_info kind vlen kflag = vlen + ?k * 2 ^ 24" by (simp add: btf_type_info_def)
  have "(vlen + ?k * 2 ^ 24) div 2 ^ 24 = ?k" using assms(2) by simp
  moreover have "?k mod 32 = kind" using assms(1) mod_mult_self1 [of kind 4 32] by (simp add: add.commute)
  ultimately show "BTF_INFO_KIND (btf_type_info kind vlen kflag) = kind" unfolding BTF_INFO_KIND_def e2 by metis
  show "BTF_INFO_KFLAG (btf_type_info kind vlen kflag) = (if kflag then 1 else 0)" "btf_type_info kind vlen kflag < 4294967296"
    using assms by (auto simp: btf_type_info_def BTF_INFO_KFLAG_def)
qed

lemma chunk_ty:
  assumes "kind < 32" and "vlen < 2 ^ 16" and "w < 2 ^ 32" and "v < 2 ^ 32" and "\<forall>x \<in> set extra. x < 2 ^ 32"
    and "kind_size kind vlen = 12 + 4 * int (length extra)"
  shows "chunk_ok (ty kind vlen kflag w extra v)"
  using assms by (simp add: chunk_ok_def ty_def)

lemma chunk_bump:
  assumes "chunk_ok c" and "BTF_INFO_VLEN (c ! 1) < 65535" and "\<forall>x \<in> set w. x < 2 ^ 32"
    and "kind_size (BTF_INFO_KIND (c ! 1)) (BTF_INFO_VLEN (c ! 1) + 1) = kind_size (BTF_INFO_KIND (c ! 1)) (BTF_INFO_VLEN (c ! 1)) + 4 * int (length w)"
  shows "chunk_ok (bump kflag c @ w)"
proof -
  have k: "BTF_INFO_KIND (c ! 1) < 32" by (simp add: BTF_INFO_KIND_def)
  let ?i = "btf_type_info (BTF_INFO_KIND (c ! 1)) (BTF_INFO_VLEN (c ! 1) + 1) (kflag \<or> BTF_INFO_KFLAG (c ! 1) = 1)"
  from assms(1) have l: "3 \<le> length c" "1 < length c" by (auto simp: chunk_ok_def)
  then have n: "(c[1 := ?i] @ w) ! 1 = ?i" by (simp add: nth_append)
  have "x < 2 ^ 32" if "x \<in> set (c[1 := ?i])" for x
    using that assms(1,2) info_parts(4) [OF k] set_update_subset_insert [of c 1 ?i] by (auto simp: chunk_ok_def)
  with assms l k show ?thesis unfolding chunk_ok_def bump_def n by auto
qed

section \<open>Results of calls\<close>

definition answers :: "btf_call \<Rightarrow> btf_obj \<Rightarrow> int \<Rightarrow> btf_obj \<Rightarrow> nat \<Rightarrow> bool \<Rightarrow> bool" where
  "answers call B r B' v same_length \<longleftrightarrow>
     (case call of
        Add_str s \<Rightarrow> r = int v \<and> reads B' v s
      | _ \<Rightarrow> named (call_name call) v B' \<and> r = (if same_length then 0 else int (obj_type_cnt B)))"

definition call_result :: "btf_call \<Rightarrow> btf_obj \<Rightarrow> nat list list \<Rightarrow> (int \<times> btf_obj) option \<Rightarrow> bool" where
  "call_result call B cs ro \<longleftrightarrow> (\<exists>r B'. ro = Some (r, B') \<and>
     (case spec_call call 0 cs of
        Inl e \<Rightarrow> r = e \<and> B' = B
      | Inr _ \<Rightarrow> r = - ENOMEM \<and> becomes B B' cs \<or>
          (\<exists>v cs'. spec_call call v cs = Inr cs' \<and> becomes B B' cs' \<and> answers call B r B' v (length cs' = length cs))))"

lemma rejected:
  assumes "spec_call call 0 cs = Inl e" and "ro = Some (e, B)"
  shows "call_result call B cs ro"
  using assms by (simp add: call_result_def)

definition new_type :: "btf_obj \<Rightarrow> nat list list \<Rightarrow> 8 word list \<Rightarrow> (nat \<Rightarrow> nat list) \<Rightarrow> (int \<times> btf_obj) option \<Rightarrow> bool" where
  "new_type B cs name ws ro \<longleftrightarrow> (\<exists>r B'. ro = Some (r, B') \<and> (r = - ENOMEM \<and> becomes B B' cs \<or>
     r = int (obj_type_cnt B) \<and> (\<exists>v. named name v B' \<and> becomes B B' (cs @ [ws v]))))"

lemma added:
  assumes "new_type B cs (call_name call) ws ro" and spec: "\<And>v. spec_call call v cs = Inr (cs @ [ws v])" and "\<forall>s. call \<noteq> Add_str s"
  shows "call_result call B cs ro"
proof -
  have "answers call B (int (obj_type_cnt B)) B' v False" if "named (call_name call) v B'" for v B'
    using that assms(3) by (cases call) (auto simp: answers_def)
  with assms(1) show ?thesis unfolding new_type_def call_result_def spec by fastforce
qed

definition new_member :: "btf_obj \<Rightarrow> nat list list \<Rightarrow> 8 word list \<Rightarrow> bool \<Rightarrow> (nat \<Rightarrow> nat list) \<Rightarrow> (int \<times> btf_obj) option \<Rightarrow> bool" where
  "new_member B cs name kflag ws ro \<longleftrightarrow> (\<exists>r B'. ro = Some (r, B') \<and> (r = - ENOMEM \<and> becomes B B' cs \<or>
     r = 0 \<and> (\<exists>v. named name v B' \<and> becomes B B' (member kflag (ws v) cs))))"

lemma length_member: "cs \<noteq> [] \<Longrightarrow> length (member kflag w cs) = length cs"
  by (simp add: member_def)

lemma extended:
  assumes "new_member B cs (call_name call) kflag ws ro" and spec: "\<And>v. spec_call call v cs = Inr (member kflag (ws v) cs)"
    and "\<forall>s. call \<noteq> Add_str s" and "cs \<noteq> []"
  shows "call_result call B cs ro"
proof -
  have "answers call B 0 B' v True" if "named (call_name call) v B'" for v B'
    using that assms(3) by (cases call) (auto simp: answers_def)
  with assms(1) show ?thesis unfolding new_member_def call_result_def spec using length_member [OF assms(4)] by fastforce
qed

lemma append_new:
  assumes "obj_ok B" and "holds (bm B) cs" and "0 \<notin> set name" and "kind < 32" and "w < 2 ^ 32" and "\<forall>x \<in> set extra. x < 2 ^ 32"
    and "kind_size kind 0 = 12 + 4 * int (length extra)" and "sz = 12 + 4 * length extra" and "\<And>v. g v \<le> v"
  shows "new_type B cs name (\<lambda>v. ty kind 0 kflag w extra (g v)) (append_type al sz name (\<lambda>v. ty kind 0 kflag w extra (g v)) B)"
proof -
  have "chunk_ok (ty kind 0 kflag w extra (g v))" if "v < 2 ^ 32" for v
    using assms(4-7) that assms(9) [of v] by (intro chunk_ty) auto
  then show ?thesis
    unfolding new_type_def using assms(1-3,8) by (intro append_type_ok) (simp_all add: ty_def)
qed

lemma with_info_ok:
  assumes "obj_ok B" and "new_type B cs name ws ro" and "\<And>v. v < 2 ^ 32 \<Longrightarrow> chunk_ok ((ws v)[1 := info])"
  shows "new_type B cs name (\<lambda>v. (ws v)[1 := info]) (Option.bind ro (with_info info))"
proof -
  from assms(2) obtain r B' where ro: "ro = Some (r, B')"
    and r: "r = - ENOMEM \<and> becomes B B' cs \<or> r = int (obj_type_cnt B) \<and> (\<exists>v. named name v B' \<and> becomes B B' (cs @ [ws v]))"
    by (auto simp: new_type_def)
  from r show ?thesis
  proof
    assume "r = - ENOMEM \<and> becomes B B' cs"
    with ro show ?thesis by (simp add: new_type_def with_info_def)
  next
    assume r: "r = int (obj_type_cnt B) \<and> (\<exists>v. named name v B' \<and> becomes B B' (cs @ [ws v]))"
    then obtain v where v: "named name v B'" "becomes B B' (cs @ [ws v])" by blast
    obtain b base where B': "B' = Obj b base" by (cases B')
    with v(2) have "obj_ok (Obj b base)" "holds b (cs @ [ws v])" by (simp_all add: becomes_def)
    from put_info_ok [OF this assms(3)] v(1) obtain b' where
      b': "set_last_info info b = Some b'" "becomes (Obj b base) (Obj b' base) (cs @ [(ws v)[1 := info]])" by (auto simp: named_def)
    with v B' have "becomes B (Obj b' base) (cs @ [(ws v)[1 := info]])" by (blast intro: becomes_trans)
    moreover from v(1) b'(2) B' have "named name v (Obj b' base)" by (auto simp: named_def becomes_def)
    moreover have "0 < r" using r shaped_cnt [OF view_shaped [OF assms(1)]] by simp
    ultimately show ?thesis using ro b'(1) B' r by (auto simp: new_type_def with_info_def)
  qed
qed

lemma append_mem:
  assumes "obj_ok B" and h: "holds (bm B) (ds @ [c])" and "0 \<notin> set name" and "BTF_INFO_VLEN (c ! 1) < 65535"
    and "\<And>v. v < 2 ^ 32 \<Longrightarrow> \<forall>x \<in> set (ws v). x < 2 ^ 32" and sz: "\<And>v. 4 * length (ws v) = sz"
    and "kind_size (BTF_INFO_KIND (c ! 1)) (BTF_INFO_VLEN (c ! 1) + 1) = kind_size (BTF_INFO_KIND (c ! 1)) (BTF_INFO_VLEN (c ! 1)) + int sz"
    and "c[1 := update (c ! 1)] = bump kflag c"
  shows "new_member B (ds @ [c]) name kflag ws (append_member al sz name ws update B)"
proof -
  from h have c: "chunk_ok c" by (simp add: holds_def)
  have "chunk_ok (c[1 := update (c ! 1)] @ ws v)" if "v < 2 ^ 32" for v
    unfolding assms(8) using assms(7) sz [of v] by (intro chunk_bump [OF c assms(4) assms(5) [OF that]]) simp
  from append_member_ok [OF assms(1,3), of ws sz ds c update al, OF sz h this]
  show ?thesis unfolding new_member_def member_def assms(8) by simp
qed

section \<open>Every call\<close>

lemma validate_id [simp]: "validate_type_id i = (if id_ok i then 0 else - EINVAL)"
  by (auto simp: validate_type_id_def id_ok_def BTF_MAX_NR_TYPES_def)

lemma id_word: "id_ok i \<Longrightarrow> nat i < 2 ^ 32"
  by (auto simp: id_ok_def)

lemma power_of_two: "(n = 0 \<or> and n (n - 1) \<noteq> 0 \<or> n > 16) \<longleftrightarrow> n \<notin> {1, 2, 4, 8, 16 :: nat}"
proof (cases "n \<le> 16")
  case True
  then have "n \<in> {0, 1, 2, 3, 4, 5, 6, 7, 8, 9, 10, 11, 12, 13, 14, 15, 16}" unfolding insert_iff empty_iff by presburger
  then show ?thesis by (elim insertE emptyE) simp_all
qed auto

lemma power_of_two_word: "(n = 0 \<or> and n (n - 1) \<noteq> 0 \<or> n > 8) \<longleftrightarrow> n \<notin> {1, 2, 4, 8 :: 32 word}"
proof (cases "n \<le> 8")
  case True
  then have "unat n \<le> 8" by (simp add: word_le_nat_alt)
  then have "unat n \<in> {0, 1, 2, 3, 4, 5, 6, 7, 8}" unfolding insert_iff empty_iff by presburger
  then have "n \<in> of_nat ` {0, 1, 2, 3, 4, 5, 6, 7, 8}" by (metis imageI of_nat_unat ucast_id)
  then have "n \<in> {0, 1, 2, 3, 4, 5, 6, 7, 8}" by simp
  then show ?thesis by (elim insertE emptyE) simp_all
qed auto

lemma low_word: "unat (ucast (val :: 64 word) :: 32 word) = nat (sint val mod 2 ^ 32)"
proof -
  have "uint val mod 2 ^ 32 = sint val mod 2 ^ 32" by (simp add: uint_sint take_bit_eq_mod mod_mod_cancel)
  then show ?thesis by (simp add: unat_eq_nat_uint uint_up_ucast unsigned_ucast_eq take_bit_eq_mod)
qed

lemma low_half: "unat (ucast (val :: 64 word) :: 32 word) = unat val mod 2 ^ 32"
  by (simp add: unsigned_ucast_eq take_bit_eq_mod)

lemma high_half: "unat (ucast (drop_bit 32 (val :: 64 word)) :: 32 word) = unat val div 2 ^ 32"
proof -
  have "unat val < 2 ^ 64" using unat_less [of val] by simp
  then have "unat val div 2 ^ 32 < 2 ^ 32" by (simp add: less_mult_imp_div_less)
  then show ?thesis by (simp add: unsigned_ucast_eq take_bit_eq_mod drop_bit_eq_div unat_div)
qed

lemma new_call:
  assumes "obj_ok B" and "holds (bm B) cs" and "0 \<notin> set (call_name call)" and "\<forall>s. call \<noteq> Add_str s"
    and "run_btf_call al call B = (if bad then Some (- EINVAL, B)
      else append_type al sz (call_name call) (\<lambda>v. ty kind 0 kflag w extra (g v)) B)"
    and "\<And>v. spec_call call v cs = (if bad then Inl (- EINVAL) else Inr (cs @ [ty kind 0 kflag w extra (g v)]))"
    and "kind < 32" and "\<not> bad \<Longrightarrow> w < 2 ^ 32 \<and> (\<forall>x \<in> set extra. x < 2 ^ 32)"
    and "kind_size kind 0 = 12 + 4 * int (length extra)" and "sz = 12 + 4 * length extra" and "\<And>v. g v \<le> v"
  shows "call_result call B cs (run_btf_call al call B)"
proof (cases bad)
  case True
  with assms(5,6) show ?thesis by (intro rejected) auto
next
  case False
  with assms(8) have "new_type B cs (call_name call) (\<lambda>v. ty kind 0 kflag w extra (g v)) (run_btf_call al call B)"
    unfolding assms(5) using append_new [OF assms(1-3,7) _ _ assms(9-11), of w kflag al] by simp
  with False assms(6) show ?thesis by (intro added [OF _ _ assms(4)]) auto
qed

lemma info_call:
  assumes "obj_ok B" and "holds (bm B) cs" and "0 \<notin> set (call_name call)" and "\<forall>s. call \<noteq> Add_str s"
    and "run_btf_call al call B = (if bad then Some (- EINVAL, B)
      else Option.bind (append_type al 12 (call_name call) (\<lambda>v. ty kind 0 False w [] v) B) (with_info (btf_type_info kind vlen kflag)))"
    and "\<And>v. spec_call call v cs = (if bad then Inl (- EINVAL) else Inr (cs @ [ty kind vlen kflag w [] v]))"
    and "kind < 32" and "\<not> bad \<Longrightarrow> w < 2 ^ 32 \<and> vlen < 2 ^ 16" and "kind_size kind 0 = 12" and "kind_size kind vlen = 12"
  shows "call_result call B cs (run_btf_call al call B)"
proof (cases bad)
  case True
  with assms(5,6) show ?thesis by (intro rejected) auto
next
  case False
  have u: "(ty kind 0 False w [] v)[1 := btf_type_info kind vlen kflag] = ty kind vlen kflag w [] v" for v by (simp add: ty_def)
  have "new_type B cs (call_name call) (\<lambda>v. ty kind 0 False w [] v) (append_type al 12 (call_name call) (\<lambda>v. ty kind 0 False w [] v) B)"
    using append_new [OF assms(1-3,7), of w "[]" 12 "\<lambda>v. v" False al] False assms(8,9) by simp
  from with_info_ok [OF assms(1) this, of "btf_type_info kind vlen kflag"]
  have "new_type B cs (call_name call) (\<lambda>v. ty kind vlen kflag w [] v) (run_btf_call al call B)"
    unfolding u assms(5) using False assms(7,8,10) by (simp add: chunk_ty)
  with False assms(6) show ?thesis by (intro added [OF _ _ assms(4)]) auto
qed

lemma member_call:
  assumes "obj_ok B" and h: "holds (bm B) cs" and "0 \<notin> set (call_name call)" and "\<forall>s. call \<noteq> Add_str s"
    and room: "cs \<noteq> [] \<Longrightarrow> BTF_INFO_VLEN (last cs ! 1) < 65535"
    and run: "check_last kinds B = Some None \<Longrightarrow> run_btf_call al call B = Some (- EINVAL, B)"
      "\<And>info. check_last kinds B = Some (Some info) \<Longrightarrow> run_btf_call al call B =
        (case bad (BTF_INFO_KIND info) of Some e \<Rightarrow> Some (e, B) | None \<Rightarrow> append_member al sz (call_name call) ws update B)"
    and spec: "\<And>v. spec_call call v cs = (case last_kind cs of None \<Rightarrow> Inl (- EINVAL)
        | Some k \<Rightarrow> if k \<notin> kinds then Inl (- EINVAL) else case bad k of Some e \<Rightarrow> Inl e | None \<Rightarrow> Inr (member kflag (ws v) cs))"
    and ws: "\<And>k v. bad k = None \<Longrightarrow> v < 2 ^ 32 \<Longrightarrow> \<forall>x \<in> set (ws v). x < 2 ^ 32" "\<And>v. 4 * length (ws v) = sz"
    and kind: "\<And>k n. k \<in> kinds \<Longrightarrow> kind_size k (n + 1) = kind_size k n + int sz"
    and update: "\<And>c. BTF_INFO_KIND (c ! 1) \<in> kinds \<Longrightarrow> BTF_INFO_VLEN (c ! 1) < 65535 \<Longrightarrow> c[1 := update (c ! 1)] = bump kflag c"
  shows "call_result call B cs (run_btf_call al call B)"
proof -
  from check_last_ok [OF h, of kinds] show ?thesis
  proof (elim disjE exE conjE)
    assume n: "check_last kinds B = Some None"
    have "last_kind cs = None \<or> (\<exists>k. last_kind cs = Some k \<and> k \<notin> kinds)"
    proof (cases cs rule: rev_cases)
      case (snoc ds c)
      with n h last_type(2) [of "bm B" ds c] show ?thesis
        by (auto simp: check_last_def last_kind_def holds_def split: if_splits)
    qed (simp add: last_kind_def)
    with n run spec show ?thesis by (intro rejected) auto
  next
    fix ds c
    assume c: "cs = ds @ [c]" "BTF_INFO_KIND (c ! 1) \<in> kinds" "check_last kinds B = Some (Some (c ! 1))"
    then have k: "last_kind cs = Some (BTF_INFO_KIND (c ! 1))" by (simp add: last_kind_def)
    show ?thesis
    proof (cases "bad (BTF_INFO_KIND (c ! 1))")
      case (Some e)
      with c(2,3) k run spec show ?thesis by (intro rejected) auto
    next
      case None
      have "new_member B (ds @ [c]) (call_name call) kflag ws (append_member al sz (call_name call) ws update B)"
        using c room h None ws kind update by (intro append_mem [OF assms(1) _ assms(3)]) auto
      with c k None run spec show ?thesis by (intro extended [OF _ _ assms(4)]) auto
    qed
  qed
qed

text \<open>The calls that append a type.\<close>

lemmas new_simps = ty_def [abs_def] kind_size_def id_ok_def

lemma unat_word: "unat (n :: 32 word) < 4294967296"
  using unat_less [of n] by simp

lemma add_int_alt: "btf__add_int al name byte_sz encoding B =
    (if name = [] \<or> byte_sz \<notin> {1, 2, 4, 8, 16} \<or> encoding \<ge> 8 then Some (- EINVAL, B)
     else append_type al 16 name
       (\<lambda>name_off. [name_off, btf_type_info BTF_KIND_INT 0 False, byte_sz, encoding * 2 ^ 24 + byte_sz * 8]) B)"
  unfolding btf__add_int_def power_of_two by auto

lemma add_enum_alt: "btf_add_enum_common al name byte_sz is_signed kind B =
    (if byte_sz \<notin> {1, 2, 4, 8} then Some (- EINVAL, B)
     else append_type al 12 name (\<lambda>name_off. [name_off, btf_type_info kind 0 is_signed, unat byte_sz]) B)"
  unfolding btf_add_enum_common_def power_of_two_word by auto

lemma call_int:
  assumes "obj_ok B" and "holds (bm B) cs" and "0 \<notin> set (call_name (Add_int name sz enc))"
  shows "call_result (Add_int name sz enc) B cs (run_btf_call al (Add_int name sz enc) B)"
  by (rule new_call [OF assms, where bad = "name = [] \<or> sz \<notin> {1, 2, 4, 8, 16} \<or> enc \<ge> 8" and sz = 16 and kind = BTF_KIND_INT
        and kflag = False and w = "sz" and extra = "[enc * 2 ^ 24 + sz * 8]" and g = "\<lambda>v. v"])
    (auto simp: add_int_alt new_simps unat_word)

lemma call_float:
  assumes "obj_ok B" and "holds (bm B) cs" and "0 \<notin> set (call_name (Add_float name sz))"
  shows "call_result (Add_float name sz) B cs (run_btf_call al (Add_float name sz) B)"
  by (rule new_call [OF assms, where bad = "name = [] \<or> sz \<notin> {2, 4, 8, 12, 16}" and sz = 12 and kind = BTF_KIND_FLOAT
        and kflag = False and w = "sz" and extra = "[]" and g = "\<lambda>v. v"])
    (auto simp: btf__add_float_def new_simps unat_word)

lemma call_ptr:
  assumes "obj_ok B" and "holds (bm B) cs" and "0 \<notin> set (call_name (Add_ptr i))"
  shows "call_result (Add_ptr i) B cs (run_btf_call al (Add_ptr i) B)"
  by (rule new_call [OF assms, where bad = "\<not> id_ok i" and sz = 12 and kind = BTF_KIND_PTR
        and kflag = False and w = "nat i" and extra = "[]" and g = "\<lambda>v. v"])
    (auto simp: btf__add_ptr_def btf_add_ref_kind_def new_simps unat_word)

lemma call_array:
  assumes "obj_ok B" and "holds (bm B) cs" and "0 \<notin> set (call_name (Add_array i j n))"
  shows "call_result (Add_array i j n) B cs (run_btf_call al (Add_array i j n) B)"
  by (rule new_call [OF assms, where bad = "\<not> id_ok i \<or> \<not> id_ok j" and sz = 24 and kind = BTF_KIND_ARRAY
        and kflag = False and w = "0" and extra = "[nat j, nat i, unat n]" and g = "\<lambda>_. 0"])
    (auto simp: btf__add_array_def new_simps unat_word)

lemma call_struct:
  assumes "obj_ok B" and "holds (bm B) cs" and "0 \<notin> set (call_name (Add_struct name sz))"
  shows "call_result (Add_struct name sz) B cs (run_btf_call al (Add_struct name sz) B)"
  by (rule new_call [OF assms, where bad = "False" and sz = 12 and kind = BTF_KIND_STRUCT
        and kflag = False and w = "unat sz" and extra = "[]" and g = "\<lambda>v. v"])
    (auto simp: btf__add_struct_def btf_add_composite_def new_simps unat_word)

lemma call_union:
  assumes "obj_ok B" and "holds (bm B) cs" and "0 \<notin> set (call_name (Add_union name sz))"
  shows "call_result (Add_union name sz) B cs (run_btf_call al (Add_union name sz) B)"
  by (rule new_call [OF assms, where bad = "False" and sz = 12 and kind = BTF_KIND_UNION
        and kflag = False and w = "unat sz" and extra = "[]" and g = "\<lambda>v. v"])
    (auto simp: btf__add_union_def btf_add_composite_def new_simps unat_word)

lemma call_enum:
  assumes "obj_ok B" and "holds (bm B) cs" and "0 \<notin> set (call_name (Add_enum name sz))"
  shows "call_result (Add_enum name sz) B cs (run_btf_call al (Add_enum name sz) B)"
  by (rule new_call [OF assms, where bad = "sz \<notin> {1, 2, 4, 8}" and sz = 12 and kind = BTF_KIND_ENUM
        and kflag = False and w = "unat sz" and extra = "[]" and g = "\<lambda>v. v"])
    (auto simp: btf__add_enum_def add_enum_alt new_simps unat_word)

lemma call_enum64:
  assumes "obj_ok B" and "holds (bm B) cs" and "0 \<notin> set (call_name (Add_enum64 name sz is_signed))"
  shows "call_result (Add_enum64 name sz is_signed) B cs (run_btf_call al (Add_enum64 name sz is_signed) B)"
  by (rule new_call [OF assms, where bad = "sz \<notin> {1, 2, 4, 8}" and sz = 12 and kind = BTF_KIND_ENUM64
        and kflag = is_signed and w = "unat sz" and extra = "[]" and g = "\<lambda>v. v"])
    (auto simp: btf__add_enum64_def add_enum_alt new_simps unat_word)

lemma call_typedef:
  assumes "obj_ok B" and "holds (bm B) cs" and "0 \<notin> set (call_name (Add_typedef name i))"
  shows "call_result (Add_typedef name i) B cs (run_btf_call al (Add_typedef name i) B)"
  by (rule new_call [OF assms, where bad = "name = [] \<or> \<not> id_ok i" and sz = 12 and kind = BTF_KIND_TYPEDEF
        and kflag = False and w = "nat i" and extra = "[]" and g = "\<lambda>v. v"])
    (auto simp: btf__add_typedef_def btf_add_ref_kind_def new_simps unat_word)

lemma call_volatile:
  assumes "obj_ok B" and "holds (bm B) cs" and "0 \<notin> set (call_name (Add_volatile i))"
  shows "call_result (Add_volatile i) B cs (run_btf_call al (Add_volatile i) B)"
  by (rule new_call [OF assms, where bad = "\<not> id_ok i" and sz = 12 and kind = BTF_KIND_VOLATILE
        and kflag = False and w = "nat i" and extra = "[]" and g = "\<lambda>v. v"])
    (auto simp: btf__add_volatile_def btf_add_ref_kind_def new_simps unat_word)

lemma call_const:
  assumes "obj_ok B" and "holds (bm B) cs" and "0 \<notin> set (call_name (Add_const i))"
  shows "call_result (Add_const i) B cs (run_btf_call al (Add_const i) B)"
  by (rule new_call [OF assms, where bad = "\<not> id_ok i" and sz = 12 and kind = BTF_KIND_CONST
        and kflag = False and w = "nat i" and extra = "[]" and g = "\<lambda>v. v"])
    (auto simp: btf__add_const_def btf_add_ref_kind_def new_simps unat_word)

lemma call_restrict:
  assumes "obj_ok B" and "holds (bm B) cs" and "0 \<notin> set (call_name (Add_restrict i))"
  shows "call_result (Add_restrict i) B cs (run_btf_call al (Add_restrict i) B)"
  by (rule new_call [OF assms, where bad = "\<not> id_ok i" and sz = 12 and kind = BTF_KIND_RESTRICT
        and kflag = False and w = "nat i" and extra = "[]" and g = "\<lambda>v. v"])
    (auto simp: btf__add_restrict_def btf_add_ref_kind_def new_simps unat_word)

lemma call_type_tag:
  assumes "obj_ok B" and "holds (bm B) cs" and "0 \<notin> set (call_name (Add_type_tag name i))"
  shows "call_result (Add_type_tag name i) B cs (run_btf_call al (Add_type_tag name i) B)"
  by (rule new_call [OF assms, where bad = "name = [] \<or> \<not> id_ok i" and sz = 12 and kind = BTF_KIND_TYPE_TAG
        and kflag = False and w = "nat i" and extra = "[]" and g = "\<lambda>v. v"])
    (auto simp: btf__add_type_tag_def btf_add_ref_kind_def new_simps unat_word)

lemma call_type_attr:
  assumes "obj_ok B" and "holds (bm B) cs" and "0 \<notin> set (call_name (Add_type_attr name i))"
  shows "call_result (Add_type_attr name i) B cs (run_btf_call al (Add_type_attr name i) B)"
  by (rule new_call [OF assms, where bad = "name = [] \<or> \<not> id_ok i" and sz = 12 and kind = BTF_KIND_TYPE_TAG
        and kflag = True and w = "nat i" and extra = "[]" and g = "\<lambda>v. v"])
    (auto simp: btf__add_type_attr_def btf_add_ref_kind_def new_simps unat_word)

lemma call_func_proto:
  assumes "obj_ok B" and "holds (bm B) cs" and "0 \<notin> set (call_name (Add_func_proto i))"
  shows "call_result (Add_func_proto i) B cs (run_btf_call al (Add_func_proto i) B)"
  by (rule new_call [OF assms, where bad = "\<not> id_ok i" and sz = 12 and kind = BTF_KIND_FUNC_PROTO
        and kflag = False and w = "nat i" and extra = "[]" and g = "\<lambda>_. 0"])
    (auto simp: btf__add_func_proto_def new_simps unat_word)

lemma call_var:
  assumes "obj_ok B" and "holds (bm B) cs" and "0 \<notin> set (call_name (Add_var name linkage i))"
  shows "call_result (Add_var name linkage i) B cs (run_btf_call al (Add_var name linkage i) B)"
  by (rule new_call [OF assms, where bad = "name = [] \<or> linkage > 2 \<or> \<not> id_ok i" and sz = 16 and kind = BTF_KIND_VAR
        and kflag = False and w = "nat i" and extra = "[linkage]" and g = "\<lambda>v. v"])
    (auto simp: btf__add_var_def new_simps unat_word)

lemma call_datasec:
  assumes "obj_ok B" and "holds (bm B) cs" and "0 \<notin> set (call_name (Add_datasec name sz))"
  shows "call_result (Add_datasec name sz) B cs (run_btf_call al (Add_datasec name sz) B)"
  by (rule new_call [OF assms, where bad = "name = []" and sz = 12 and kind = BTF_KIND_DATASEC
        and kflag = False and w = "unat sz" and extra = "[]" and g = "\<lambda>v. v"])
    (auto simp: btf__add_datasec_def new_simps unat_word)

lemma call_decl_tag:
  assumes "obj_ok B" and "holds (bm B) cs" and "0 \<notin> set (call_name (Add_decl_tag name i idx))"
  shows "call_result (Add_decl_tag name i idx) B cs (run_btf_call al (Add_decl_tag name i idx) B)"
  by (rule new_call [OF assms, where bad = "name = [] \<or> idx < - 1 \<or> \<not> id_ok i" and sz = 16 and kind = BTF_KIND_DECL_TAG
        and kflag = False and w = "nat i" and extra = "[nat (idx mod 2 ^ 32)]" and g = "\<lambda>v. v"])
    (auto simp: btf__add_decl_tag_def btf_add_decl_tag_def new_simps unat_word)

lemma call_decl_attr:
  assumes "obj_ok B" and "holds (bm B) cs" and "0 \<notin> set (call_name (Add_decl_attr name i idx))"
  shows "call_result (Add_decl_attr name i idx) B cs (run_btf_call al (Add_decl_attr name i idx) B)"
  by (rule new_call [OF assms, where bad = "name = [] \<or> idx < - 1 \<or> \<not> id_ok i" and sz = 16 and kind = BTF_KIND_DECL_TAG
        and kflag = True and w = "nat i" and extra = "[nat (idx mod 2 ^ 32)]" and g = "\<lambda>v. v"])
    (auto simp: btf__add_decl_attr_def btf_add_decl_tag_def new_simps unat_word)

lemma call_fwd:
  assumes "obj_ok B" and "holds (bm B) cs" and "0 \<notin> set (call_name (Add_fwd name fwd_kind))"
  shows "call_result (Add_fwd name fwd_kind) B cs (run_btf_call al (Add_fwd name fwd_kind) B)"
proof (cases "fwd_kind = BTF_FWD_ENUM")
  case True
  show ?thesis unfolding True
    by (rule new_call [OF assms [unfolded True], where bad = "name = []" and sz = 12 and kind = BTF_KIND_ENUM
          and kflag = False and w = 4 and extra = "[]" and g = "\<lambda>v. v"])
      (auto simp: btf__add_fwd_def btf__add_enum_def add_enum_alt new_simps)
next
  case False
  then show ?thesis
    by (intro info_call [OF assms, where bad = "name = [] \<or> fwd_kind = BTF_FWD_other" and kind = BTF_KIND_FWD and vlen = 0
          and kflag = "fwd_kind = BTF_FWD_UNION" and w = 0])
      (auto simp: btf__add_fwd_def btf_add_ref_kind_def new_simps split: btf_fwd_kind.splits)
qed

lemma call_func:
  assumes "obj_ok B" and "holds (bm B) cs" and "0 \<notin> set (call_name (Add_func name linkage i))"
  shows "call_result (Add_func name linkage i) B cs (run_btf_call al (Add_func name linkage i) B)"
  by (rule info_call [OF assms, where bad = "name = [] \<or> linkage > 2 \<or> \<not> id_ok i" and kind = BTF_KIND_FUNC and vlen = linkage
        and kflag = False and w = "nat i"])
    (auto simp: btf__add_func_def btf_add_ref_kind_def with_info_def new_simps)

text \<open>The calls that append a member.\<close>

lemma bump_inc: "c[Suc 0 := btf_type_inc_vlen (c ! Suc 0)] = bump False c"
  by (simp add: bump_def btf_type_inc_vlen_def)

lemma bump_sign:
  assumes "BTF_INFO_VLEN (c ! Suc 0) < 65535"
  shows "c[Suc 0 := btf_type_info (BTF_INFO_KIND (btf_type_inc_vlen (c ! Suc 0))) (BTF_INFO_VLEN (btf_type_inc_vlen (c ! Suc 0))) True] =
    bump True c"
proof -
  have "BTF_INFO_KIND (c ! Suc 0) < 32" by (simp add: BTF_INFO_KIND_def)
  with assms show ?thesis by (simp add: bump_def btf_type_inc_vlen_def)
qed

lemma add_enum64_alt: "btf__add_enum64_value al name val B =
     do { t \<leftarrow> check_last {BTF_KIND_ENUM64} B;
          case t of
            None \<Rightarrow> Some (- EINVAL, B)
          | Some _ \<Rightarrow>
              (if name = [] then Some (- EINVAL, B)
               else append_member al 12 name (\<lambda>name_off. [name_off, unat val mod 2 ^ 32, unat val div 2 ^ 32]) btf_type_inc_vlen B) }"
  unfolding btf__add_enum64_value_def high_half unfolding low_half by (rule refl)

lemma unat_div_word: "unat (val :: 64 word) div 4294967296 < 4294967296"
  using unat_less [of val] by (simp add: less_mult_imp_div_less)

lemma call_field:
  assumes "obj_ok B" and "holds (bm B) cs" and "0 \<notin> set (call_name (Add_field name i bit_offset bit_size))"
    and "cs \<noteq> [] \<Longrightarrow> BTF_INFO_VLEN (last cs ! 1) < 65535"
  shows "call_result (Add_field name i bit_offset bit_size) B cs (run_btf_call al (Add_field name i bit_offset bit_size) B)"
  by (rule member_call [OF assms(1-3) _ assms(4), where kinds = "{BTF_KIND_STRUCT, BTF_KIND_UNION}" and sz = 12
        and kflag = "is_bitfield bit_offset bit_size"
        and ws = "\<lambda>v. [v, nat i, unat (or bit_offset (push_bit 24 bit_size))]"
        and bad = "\<lambda>k. if \<not> id_ok i \<or> is_bitfield bit_offset bit_size \<and> (bit_size = 0 \<or> bit_size > 255 \<or> bit_offset > 0xffffff) \<or>
           k = BTF_KIND_UNION \<and> bit_offset \<noteq> 0 then Some (- EINVAL) else None"
        and update = "\<lambda>info. btf_type_info (BTF_INFO_KIND info) (BTF_INFO_VLEN info + 1)
                    (is_bitfield bit_offset bit_size \<or> BTF_INFO_KFLAG info = 1)"])
    (auto simp: btf__add_field_def bump_def kind_size_def unat_word id_ok_def split: option.splits if_splits)

lemma call_enum_value:
  assumes "obj_ok B" and "holds (bm B) cs" and "0 \<notin> set (call_name (Add_enum_value name val))"
    and "cs \<noteq> [] \<Longrightarrow> BTF_INFO_VLEN (last cs ! 1) < 65535"
  shows "call_result (Add_enum_value name val) B cs (run_btf_call al (Add_enum_value name val) B)"
  by (rule member_call [OF assms(1-3) _ assms(4), where kinds = "{BTF_KIND_ENUM}" and sz = 8 and kflag = "sint val < 0"
        and ws = "\<lambda>v. [v, unat (ucast val :: 32 word)]"
        and bad = "\<lambda>k. if name = [] then Some (- EINVAL)
           else if sint val < - (2 ^ 31) \<or> sint val \<ge> 2 ^ 32 then Some (- E2BIG) else None"
        and update = "\<lambda>info. let info = btf_type_inc_vlen info
           in if sint val < 0 then btf_type_info (BTF_INFO_KIND info) (BTF_INFO_VLEN info) True else info"])
    (auto simp: btf__add_enum_value_def bump_inc bump_sign Let_def kind_size_def unat_word low_word UINT32_MAX_def split: option.splits if_splits)

lemma call_enum64_value:
  assumes "obj_ok B" and "holds (bm B) cs" and "0 \<notin> set (call_name (Add_enum64_value name val))"
    and "cs \<noteq> [] \<Longrightarrow> BTF_INFO_VLEN (last cs ! 1) < 65535"
  shows "call_result (Add_enum64_value name val) B cs (run_btf_call al (Add_enum64_value name val) B)"
  by (rule member_call [OF assms(1-3) _ assms(4), where kinds = "{BTF_KIND_ENUM64}" and sz = 12 and kflag = False
        and ws = "\<lambda>v. [v, unat val mod 2 ^ 32, unat val div 2 ^ 32]"
        and bad = "\<lambda>k. if name = [] then Some (- EINVAL) else None" and update = btf_type_inc_vlen])
    (auto simp: add_enum64_alt bump_inc kind_size_def unat_div_word split: option.splits if_splits)

lemma call_func_param:
  assumes "obj_ok B" and "holds (bm B) cs" and "0 \<notin> set (call_name (Add_func_param name i))"
    and "cs \<noteq> [] \<Longrightarrow> BTF_INFO_VLEN (last cs ! 1) < 65535"
  shows "call_result (Add_func_param name i) B cs (run_btf_call al (Add_func_param name i) B)"
  by (rule member_call [OF assms(1-3) _ assms(4), where kinds = "{BTF_KIND_FUNC_PROTO}" and sz = 8 and kflag = False
        and ws = "\<lambda>v. [v, nat i]" and bad = "\<lambda>k. if id_ok i then None else Some (- EINVAL)" and update = btf_type_inc_vlen])
    (auto simp: btf__add_func_param_def bump_inc kind_size_def id_ok_def split: option.splits if_splits)

lemma call_datasec_var_info:
  assumes "obj_ok B" and "holds (bm B) cs" and "0 \<notin> set (call_name (Add_datasec_var_info i offset sz))"
    and "cs \<noteq> [] \<Longrightarrow> BTF_INFO_VLEN (last cs ! 1) < 65535"
  shows "call_result (Add_datasec_var_info i offset sz) B cs (run_btf_call al (Add_datasec_var_info i offset sz) B)"
  by (rule member_call [OF assms(1-3) _ assms(4), where kinds = "{BTF_KIND_DATASEC}" and sz = 12 and kflag = False
        and ws = "\<lambda>v. [nat i, unat offset, unat sz]" and bad = "\<lambda>k. if id_ok i then None else Some (- EINVAL)"
        and update = btf_type_inc_vlen])
    (auto simp: btf__add_datasec_var_info_def bump_inc kind_size_def id_ok_def unat_word split: option.splits if_splits)

lemma call_str:
  assumes "obj_ok B" and "holds (bm B) cs" and "0 \<notin> set s"
  shows "call_result (Add_str s) B cs (run_btf_call al (Add_str s) B)"
proof -
  from add_str_ok [OF assms(1,3), of al] obtain r B' where
    r: "btf__add_str al s B = Some (r, B')" "extends B B'" "0 \<le> r \<longrightarrow> reads B' (nat r) s" "r < 0 \<longrightarrow> r = - ENOMEM" by blast
  from extends_becomes [OF assms(1) r(2) assms(2)] r show ?thesis
    by (cases "r < 0") (auto simp: call_result_def answers_def intro: exI [of _ "nat r"])
qed

lemma call_ok:
  assumes "obj_ok B" and "holds (bm B) cs" and "0 \<notin> set (call_name call)"
    and "cs \<noteq> [] \<Longrightarrow> BTF_INFO_VLEN (last cs ! 1) < 65535"
  shows "call_result call B cs (run_btf_call al call B)"
  using assms
  by (cases call)
    (auto intro: call_int call_float call_ptr call_array call_struct call_union call_enum call_enum64 call_typedef call_volatile
      call_const call_restrict call_type_tag call_type_attr call_func_proto call_var call_datasec call_decl_tag call_decl_attr
      call_fwd call_func call_field call_enum_value call_enum64_value call_func_param call_datasec_var_info call_str
      simp del: run_btf_call.simps)

text \<open>No call that has memory and room answers with \<open>ENOMEM\<close>.\<close>

lemma lives_if: "(c \<Longrightarrow> lives x) \<Longrightarrow> (\<not> c \<Longrightarrow> lives y) \<Longrightarrow> lives (if c then x else y)"
  by simp

lemmas lives_bodies = btf__add_int_def btf__add_float_def btf_add_ref_kind_def btf__add_array_def btf_add_composite_def
  btf__add_field_def btf_add_enum_common_def btf__add_enum_value_def btf__add_enum64_value_def btf__add_func_proto_def
  btf__add_func_param_def btf__add_var_def btf__add_datasec_def btf__add_datasec_var_info_def btf_add_decl_tag_def

lemmas lives_calls = btf__add_ptr_def btf__add_struct_def btf__add_union_def btf__add_enum_def btf__add_enum64_def btf__add_fwd_def
  btf__add_typedef_def btf__add_volatile_def btf__add_const_def btf__add_restrict_def btf__add_type_tag_def
  btf__add_type_attr_def btf__add_func_def btf__add_decl_tag_def btf__add_decl_attr_def

lemma call_lives:
  assumes ok: "obj_ok B" and h: "holds (bm B) cs" and nul: "0 \<notin> set (call_name call)" and room: "has_room (call_name call) B"
  shows "lives (run_btf_call all_allocs call B)"
proof (cases call)
  case (Add_str s)
  have "room (length s + 1) B" using room Add_str by (simp add: has_room_def)
  with add_succeeds [OF ok _ this] nul Add_str show ?thesis by (auto simp: lives_def)
qed (use nul room in \<open>auto simp: lives_calls lives_bodies intro!: lives_if lives_error lives_info_error lives_info lives_check
    append_type_lives [OF ok _ _ h] append_member_lives [OF ok] split: btf_fwd_kind.split\<close>)

section \<open>The calls refine lists of types\<close>

text \<open>A new object and a pointer type on it.\<close>

definition empty_obj :: btf_obj where
  "empty_obj = Obj \<lparr>bm_hdr = empty_hdr False, bm_swapped_endian = False, bm_types_data = [], bm_types_data_cap = 0, bm_type_offs = [],
     bm_type_offs_cap = 0, bm_nr_types = 0, bm_named_start_id = 0, bm_start_id = 1, bm_start_str_off = 0, bm_strs = Inl [0],
     bm_strs_deduped = False, bm_ptr_sz = 8\<rparr> None"

lemma empty_new: "btf__new_empty True True = Inr empty_obj"
  by (simp add: btf__new_empty_def btf_new_empty_def empty_obj_def)

lemma empty_ok: "obj_ok empty_obj" "holds (bm empty_obj) []"
proof -
  show h: "holds (bm empty_obj) []" by (simp add: empty_obj_def holds_def empty_hdr_def)
  have "str_sec (bm empty_obj) = [0]" by (simp add: str_sec_def empty_obj_def empty_hdr_def btf_strs_data_def)
  then have "own_ok (bm empty_obj)"
    using h by (auto simp: own_ok_def mods_ok_def strs_ok_def) (simp_all add: empty_obj_def empty_hdr_def)
  then show "obj_ok empty_obj" by (simp add: empty_obj_def obj_ok.simps) (simp add: empty_hdr_def)
qed

lemma empty_ptr: "\<exists>B'. run_btf_call all_allocs (Add_ptr 1) empty_obj = Some (1, B')"
proof -
  obtain st where n: "strset__new True True True (\<lambda>_. (True, True)) BTF_MAX_STR_OFFSET (Some [0]) = Inr st"
    by (simp add: strset__new_def hashmap__new_def strset_init_loop.simps str_at_def hashmap_insert_def hashmap__init_def
        hashmap_find_entry_def hashmap_needs_to_grow_def hashmap_grow_def calloc_succeeds_def HASHMAP_MIN_CAP_BITS_def)
  show ?thesis
    by (simp add: btf__add_ptr_def btf_add_ref_kind_def id_ok_def append_type_def append_words_def obj_ensure_modifiable_def
        btf_ensure_modifiable_def empty_obj_def empty_hdr_def all_allocs_def n btf_add_type_mem_def libbpf_add_mem_def
        btf_commit_type_def btf_add_type_idx_entry_def btf_add_type_offs_mem_def Let_def UINT32_MAX_def BTF_MAX_NR_TYPES_def)
qed

text \<open>C10: every call that adds a string, a type or a member to an object, on top of nothing or of other objects,
  loaded or built before, and whatever allocations fail, stays inside its buffers and does what its line of \<open>spec_call\<close>
  says: a call with arguments that are not allowed answers with the error and changes nothing; a call that
  finds no memory answers \<open>ENOMEM\<close>, and the types are as before; else the list of types has grown by the type,
  whose number is the answer, or the last type by the member, and the name reads back as it was given. Every
  string that could be read before reads the same, and the objects below are as before. When all allocations
  succeed and the sections have room for the type and its name, the answer is never \<open>ENOMEM\<close>. The last type must
  have fewer than 65535 members.\<close>

theorem btf_calls_refine_types:
  assumes "obj_ok B" and "holds (bm B) cs" and "0 \<notin> set (call_name call)"
    and "cs \<noteq> [] \<longrightarrow> BTF_INFO_VLEN (last cs ! 1) < 65535"
  shows "\<exists>r B'. run_btf_call al call B = Some (r, B') \<and>
    (case spec_call call 0 cs of
       Inl e \<Rightarrow> r = e \<and> B' = B
     | Inr _ \<Rightarrow> r = - ENOMEM \<and> becomes B B' cs \<and> \<not> (al = all_allocs \<and> has_room (call_name call) B) \<or>
         (\<exists>v cs'. spec_call call v cs = Inr cs' \<and> becomes B B' cs' \<and> answers call B r B' v (length cs' = length cs)))"
proof -
  from call_ok [OF assms(1-3), of al] assms(4) obtain r B' where run: "run_btf_call al call B = Some (r, B')"
    and c: "case spec_call call 0 cs of Inl e \<Rightarrow> r = e \<and> B' = B
      | Inr _ \<Rightarrow> r = - ENOMEM \<and> becomes B B' cs \<or>
          (\<exists>v cs'. spec_call call v cs = Inr cs' \<and> becomes B B' cs' \<and> answers call B r B' v (length cs' = length cs))"
    by (auto simp: call_result_def)
  have "al = all_allocs \<and> has_room (call_name call) B \<longrightarrow> r \<noteq> - ENOMEM"
    using call_lives [OF assms(1-3)] run by (auto simp: lives_def)
  with run c show ?thesis by (cases "spec_call call 0 cs") auto
qed

theorem btf_calls_refine_types_witness:
  "\<exists>B'. btf__add_ptr all_allocs 1 empty_obj = Some (1, B') \<and> becomes empty_obj B' [[0, 2 * 2 ^ 24, 1]]"
proof -
  obtain B' where run: "run_btf_call all_allocs (Add_ptr 1) empty_obj = Some (1, B')" using empty_ptr by blast
  have "0 \<notin> set (call_name (Add_ptr 1))" "[] \<noteq> [] \<longrightarrow> BTF_INFO_VLEN (last [] ! 1) < 65535" by simp_all
  from btf_calls_refine_types [OF empty_ok this, of all_allocs] run
  have "becomes empty_obj B' [[0, 2 * 2 ^ 24, 1]]"
    by (auto simp: answers_def named_def id_ok_def ty_def btf_type_info_def split: if_splits)
  with run show ?thesis by simp
qed

end
