(* ===== verification/BtfRaw.thy ===== *)
theory BtfRaw
  imports BtfCalls
begin

text \<open>
  The bytes of type information (\<^verbatim>\<open>libbpf/src/btf.c\<close>): what \<^verbatim>\<open>btf__raw_data\<close> makes of an object in the byte order
  of either kind of machine, and that the loader of \<open>BtfData\<close> reads it back. The copies of the bytes that an object
  keeps for its callers are a value of their own. The machine is little endian.
\<close>

section \<open>Byte order\<close>

datatype btf_endianness = BTF_LITTLE_ENDIAN | BTF_BIG_ENDIAN | BTF_ENDIAN_other

definition is_host_big_endian :: bool where "is_host_big_endian = False"

text \<open>The copies: in the order of the machine, and in the other.\<close>

record btf_cache =
  raw_data :: "8 word list option"
  raw_data_swapped :: "8 word list option"

definition btf__endianness :: "bmod \<Rightarrow> btf_endianness" where
  "btf__endianness b =
     (if is_host_big_endian then (if bm_swapped_endian b then BTF_LITTLE_ENDIAN else BTF_BIG_ENDIAN)
      else (if bm_swapped_endian b then BTF_BIG_ENDIAN else BTF_LITTLE_ENDIAN))"

definition btf__set_endianness :: "btf_endianness \<Rightarrow> btf_cache \<Rightarrow> bmod \<Rightarrow> int \<times> btf_cache \<times> bmod" where
  "btf__set_endianness endian c b =
     (if endian \<noteq> BTF_LITTLE_ENDIAN \<and> endian \<noteq> BTF_BIG_ENDIAN then (- EINVAL, c, b)
      else (let swapped = (is_host_big_endian \<noteq> (endian = BTF_BIG_ENDIAN))
            in (0, if swapped then c else c\<lparr>raw_data_swapped := None\<rparr>, b\<lparr>bm_swapped_endian := swapped\<rparr>)))"

section \<open>Raw data\<close>

definition hdr_bytes :: "btf_header \<Rightarrow> 8 word list" where
  "hdr_bytes h = le_bytes 2 (bh_magic h) @ le_bytes 1 (bh_version h) @ le_bytes 1 (bh_flags h) @
     concat (map (le_bytes 4) [bh_hdr_len h, bh_type_off h, bh_type_len h, bh_str_off h, bh_str_len h])"

text \<open>The loop over the types. \<open>Some None\<close>: a type of an unknown kind.\<close>

fun swap_types :: "nat list \<Rightarrow> 8 word list \<Rightarrow> 8 word list option option" where
  "swap_types [] types = Some (Some types)"
| "swap_types (p # ps) types =
     do { (err, types) \<leftarrow> btf_bswap_type_rest p types;
          if err \<noteq> 0 then Some None
          else do { types \<leftarrow> btf_bswap_type_base p types; swap_types ps types } }"

text \<open>\<open>hdr_rest\<close> are the bytes of a header that is longer than its fields. The length of all of it is a 32-bit
  number, and the copies would leave memory of a length that does not fit: \<open>None\<close>, as for a section that is
  shorter than the header says.\<close>

definition btf_get_raw_data :: "bool \<Rightarrow> 8 word list \<Rightarrow> btf_cache \<Rightarrow> bmod \<Rightarrow> bool \<Rightarrow> 8 word list option option" where
  "btf_get_raw_data calloc_ok hdr_rest c b swap_endian =
     (case (if swap_endian then raw_data_swapped c else raw_data c) of
        Some d \<Rightarrow> Some (Some d)
      | None \<Rightarrow>
          (let h = bm_hdr b; hd = hdr_bytes h @ hdr_rest;
               offs = map (\<lambda>i. the (rd 4 (bm_type_offs b) (4 * i))) [0..<bm_nr_types b]
           in if \<not> calloc_ok then Some None
              else if bh_hdr_len h + bh_type_len h + bh_str_len h \<ge> 2 ^ 32 \<or> length hd < bh_hdr_len h \<or>
                  length (bm_types_data b) < bh_type_len h \<or> length (btf_strs_data b) < bh_str_len h \<or>
                  length (bm_type_offs b) < 4 * bm_nr_types b then None
              else do {
                hd \<leftarrow> (let p = take (bh_hdr_len h) hd in if swap_endian then btf_bswap_hdr p else Some p);
                types \<leftarrow> (let p = take (bh_type_len h) (bm_types_data b) in if swap_endian then swap_types offs p else Some (Some p));
                Some (map_option (\<lambda>types. hd @ types @ take (bh_str_len h) (btf_strs_data b)) types) }))"

definition btf__raw_data :: "bool \<Rightarrow> 8 word list \<Rightarrow> btf_cache \<Rightarrow> bmod \<Rightarrow> (8 word list option \<times> btf_cache) option" where
  "btf__raw_data calloc_ok hdr_rest c b =
     map_option (\<lambda>data. (data, case data of
          None \<Rightarrow> c
        | Some _ \<Rightarrow> if bm_swapped_endian b then c\<lparr>raw_data_swapped := data\<rparr> else c\<lparr>raw_data := data\<rparr>))
       (btf_get_raw_data calloc_ok hdr_rest c b (bm_swapped_endian b))"

section \<open>Swapping words\<close>

lemma bswap_mid:
  assumes "length g = k" and "p = length pre"
  shows "bswap_at k p (pre @ g @ r) = Some (pre @ rev g @ r)"
proof -
  have "rd k (pre @ g @ r) p = Some (le_val g)" using assms by (simp add: rd_def)
  moreover have "le_bytes k (bswap k (le_val g)) = rev g" using assms(1) by (simp add: bswap_def le_bytes_le_val)
  ultimately show ?thesis using assms by (simp add: bswap_at_def memcpy_def)
qed

lemma bswap_all_mid:
  assumes "\<forall>g \<in> set gs. length g = 4" and "p = length pre"
  shows "bswap_all (map (\<lambda>i. p + 4 * i) [0..<length gs]) (pre @ concat gs @ r) = Some (pre @ concat (map rev gs) @ r)"
  using assms
proof (induction gs arbitrary: pre p)
  case (Cons g gs)
  have "map (\<lambda>i. p + 4 * i) [0..<length (g # gs)] = p # map (\<lambda>i. p + 4 + 4 * i) [0..<length gs]"
    by (simp add: upt_conv_Cons map_Suc_upt [symmetric] comp_def del: upt_Suc)
  moreover have "bswap_at 4 p (pre @ g @ concat gs @ r) = Some ((pre @ rev g) @ concat gs @ r)"
    using Cons.prems by (subst bswap_mid) auto
  moreover have "bswap_all (map (\<lambda>i. p + 4 + 4 * i) [0..<length gs]) ((pre @ rev g) @ concat gs @ r) =
      Some ((pre @ rev g) @ concat (map rev gs) @ r)" using Cons.prems by (intro Cons.IH) auto
  ultimately show ?case by simp
qed simp

text \<open>The words of a type in one of the byte orders.\<close>

definition words_in :: "bool \<Rightarrow> nat list \<Rightarrow> 8 word list list" where
  "words_in swapped ws = map (\<lambda>w. if swapped then rev (le_bytes 4 w) else le_bytes 4 w) ws"

lemma words_in_simps [simp]:
  "\<forall>g \<in> set (words_in swapped ws). length g = 4" "length (words_in swapped ws) = length ws"
  "map rev (words_in swapped ws) = words_in (\<not> swapped) ws" "words_in s (xs @ ys) = words_in s xs @ words_in s ys"
  "concat (words_in False ws) = word_bytes ws"
  by (auto simp: words_in_def word_bytes_def)

lemma length_words_in [simp]: "length (concat (words_in swapped ws)) = 4 * length ws"
  by (induction ws) (auto simp: words_in_def)

lemma swap_words:
  "p = length pre \<Longrightarrow> n = length ws \<Longrightarrow>
    bswap_all (map (\<lambda>i. p + 4 * i) [0..<n]) (pre @ concat (words_in s ws) @ r) = Some (pre @ concat (words_in (\<not> s) ws) @ r)"
  using bswap_all_mid [of "words_in s ws" p pre r] by simp

text \<open>The words of a type that are swapped are all of them.\<close>

lemma members_fields_8: "members_fields 8 [0, 4] n = map (\<lambda>i. 12 + 4 * i) [0..<2 * n]"
  by (induction n) (auto simp: members_fields_def)

lemma members_fields_12: "members_fields 12 [0, 4, 8] n = map (\<lambda>i. 12 + 4 * i) [0..<3 * n]"
proof (induction n)
  case (Suc n)
  have three: "3 * Suc n = Suc (Suc (Suc (3 * n)))" by simp
  show ?case unfolding three using Suc by (simp add: members_fields_def)
qed (simp add: members_fields_def)

lemma three_words: "map (\<lambda>i. 12 + 4 * i) [0..<3] = [12, 16, 20 :: nat]"
  by (simp add: upt_conv_Cons)

lemma nat_words: "nat (int n * 8) div 4 = 2 * n" "nat (int n * 12) div 4 = 3 * n"
  by linarith+

lemma rest_all:
  "rest_fields kind vlen = (if kind_size kind vlen < 0 then None
     else Some (map (\<lambda>i. 12 + 4 * i) [0..<nat (kind_size kind vlen - 12) div 4]))"
proof -
  show ?thesis
  proof (cases "kind \<le> 19")
    case True
    then have "kind \<in> {0, 1, 2, 3, 4, 5, 6, 7, 8, 9, 10, 11, 12, 13, 14, 15, 16, 17, 18, 19}"
      unfolding insert_iff empty_iff by presburger
    then show ?thesis
      by (elim insertE emptyE) (simp_all add: rest_fields_def kind_size_def members_fields_8 members_fields_12 nat_words three_words)
  next
    case False
    then have "rest_fields kind vlen = None" "kind_size kind vlen = - EINVAL" by (simp_all add: rest_fields_def kind_size_def)
    then show ?thesis by simp
  qed
qed


section \<open>Swapping types\<close>

lemma words_behind: "nat (4 * int n - 12) div 4 = n - 3"
  by linarith

lemma chunk_info: "chunk_ok c \<Longrightarrow> rd 4 (pre @ word_bytes c @ r) (length pre + 4) = Some (c ! 1)"
  using chunk_rd [of c 1 r] by (auto simp: rd_append chunk_ok_def)

lemma word_bytes_split: "concat (words_in s c) = concat (words_in s (take 3 c)) @ concat (words_in s (drop 3 c))"
  by (metis append_take_drop_id concat_append words_in_simps(4))

lemma swap_rest:
  assumes "chunk_ok c" and head: "rd 4 (pre @ concat (words_in s (take 3 c)) @ concat (words_in s' (drop 3 c)) @ r) (length pre + 4) = Some (c ! 1)"
  shows "btf_bswap_type_rest (length pre) (pre @ concat (words_in s (take 3 c)) @ concat (words_in s' (drop 3 c)) @ r) =
    Some (0, pre @ concat (words_in s (take 3 c)) @ concat (words_in (\<not> s') (drop 3 c)) @ r)"
proof -
  let ?h = "concat (words_in s (take 3 c))"
  from assms(1) have c: "3 \<le> length c" "kind_size (BTF_INFO_KIND (c ! 1)) (BTF_INFO_VLEN (c ! 1)) = 4 * int (length c)"
    by (simp_all add: chunk_ok_def)
  then have "rest_fields (BTF_INFO_KIND (c ! 1)) (BTF_INFO_VLEN (c ! 1)) = Some (map (\<lambda>i. 12 + 4 * i) [0..<length c - 3])"
    using words_behind [of "length c"] by (simp add: rest_all)
  moreover have "length pre + 12 = length (pre @ ?h)" using c(1) by simp
  from swap_words [OF this, of "length c - 3" "drop 3 c" s' r]
  have "bswap_all (map (\<lambda>i. length pre + (12 + 4 * i)) [0..<length c - 3]) (pre @ ?h @ concat (words_in s' (drop 3 c)) @ r) =
      Some (pre @ ?h @ concat (words_in (\<not> s') (drop 3 c)) @ r)" by (simp add: add.assoc)
  ultimately show ?thesis using head by (simp add: btf_bswap_type_rest_def btf_kind_def btf_vlen_def comp_def)
qed

lemma swap_base:
  assumes "chunk_ok c"
  shows "btf_bswap_type_base (length pre) (pre @ concat (words_in s (take 3 c)) @ r) =
    Some (pre @ concat (words_in (\<not> s) (take 3 c)) @ r)"
proof -
  from assms have "length (take 3 c) = 3" by (auto simp: chunk_ok_def)
  moreover have "[length pre, length pre + 4, length pre + 8] = map (\<lambda>i. length pre + 4 * i) [0..<3]" by (simp add: upt_conv_Cons)
  ultimately show ?thesis unfolding btf_bswap_type_base_def by (metis swap_words)
qed

lemma swap_types_all:
  assumes "\<forall>c \<in> set cs. chunk_ok c"
  shows "swap_types (offs_from (length pre) cs) (pre @ word_bytes (concat cs) @ r) = Some (Some (pre @ concat (words_in True (concat cs)) @ r))"
  using assms
proof (induction cs arbitrary: pre)
  case (Cons c cs)
  then have c: "chunk_ok c" by simp
  let ?r = "word_bytes (concat cs) @ r"
  have "btf_bswap_type_rest (length pre) (pre @ word_bytes c @ ?r) =
      Some (0, pre @ concat (words_in False (take 3 c)) @ concat (words_in True (drop 3 c)) @ ?r)"
    using swap_rest [OF c, of pre False False ?r] chunk_info [OF c, of pre ?r] word_bytes_split [of False c] by simp
  moreover have "btf_bswap_type_base (length pre) (pre @ concat (words_in False (take 3 c)) @ concat (words_in True (drop 3 c)) @ ?r) =
      Some (pre @ concat (words_in True c) @ ?r)"
    using swap_base [OF c, of pre False] word_bytes_split [of True c] by simp
  moreover from Cons have "swap_types (offs_from (length (pre @ concat (words_in True c))) cs) ((pre @ concat (words_in True c)) @ ?r) =
      Some (Some ((pre @ concat (words_in True c)) @ concat (words_in True (concat cs)) @ r))" by (intro Cons.IH) simp
  ultimately show ?case by simp
qed (simp add: words_in_def)

lemma parse_type_by:
  assumes "(if swapped then btf_bswap_type_base p types else Some types) = Some t1" and "btf_type_size (T_at t1 p) = Some sz"
    and "(if swapped then btf_bswap_type_rest p t1 else Some (0, t1)) = Some (0, t2)" and "0 \<le> sz" and "p + nat sz \<le> length types"
  shows "parse_type swapped True p types = Some (Inr (p + nat sz, t2))"
  unfolding parse_type_def assms(1) bind.bind_lunit assms(2,3) using assms(4,5) by simp

lemma parse_chunk:
  assumes c: "chunk_ok c"
  shows "parse_type swapped True (length pre) (pre @ concat (words_in swapped c) @ r) =
    Some (Inr (length pre + 4 * length c, pre @ word_bytes c @ r))"
proof -
  let ?t = "pre @ concat (words_in False (take 3 c)) @ concat (words_in swapped (drop 3 c)) @ r"
  have i: "rd 4 ?t (length pre + 4) = Some (c ! 1)"
  proof -
    have "chunk_ok c \<Longrightarrow> rd 4 (word_bytes (take 3 c) @ concat (words_in swapped (drop 3 c)) @ r) (4 * 1) = Some (take 3 c ! 1)"
      by (rule rd_word) (auto simp: chunk_ok_def)
    with c show ?thesis by (simp add: rd_append)
  qed
  with c have "btf_type_size (T_at ?t (length pre)) = Some (4 * int (length c))"
    by (simp add: btf_type_size_def btf_kind_def btf_vlen_def chunk_ok_def)
  moreover have "(if swapped then btf_bswap_type_base (length pre) (pre @ concat (words_in swapped c) @ r)
      else Some (pre @ concat (words_in swapped c) @ r)) = Some ?t"
    using swap_base [OF c, of pre True] word_bytes_split [of swapped c] by (cases swapped) simp_all
  moreover have "(if swapped then btf_bswap_type_rest (length pre) ?t else Some (0, ?t)) = Some (0, pre @ word_bytes c @ r)"
    using swap_rest [OF c i] word_bytes_split [of False c] by (cases swapped) simp_all
  ultimately have "parse_type swapped True (length pre) (pre @ concat (words_in swapped c) @ r) =
      Some (Inr (length pre + nat (4 * int (length c)), pre @ word_bytes c @ r))" by (intro parse_type_by) simp_all
  then show ?thesis by (simp add: nat_mult_distrib)
qed

lemma parse_chunks:
  assumes "\<forall>c \<in> set cs. chunk_ok c"
  shows "btf_parse_type_sec swapped (\<lambda>_. True) (length pre) offs (pre @ concat (words_in swapped (concat cs))) =
    Some (Inr (offs @ offs_from (length pre) cs, pre @ word_bytes (concat cs)))"
  using assms
proof (induction cs arbitrary: pre offs)
  case (Cons c cs)
  then have c: "chunk_ok c" "3 \<le> length c" by (auto simp: chunk_ok_def)
  from parse_chunk [OF c(1), of swapped pre "concat (words_in swapped (concat cs))"] c(2)
  have "btf_parse_type_sec swapped (\<lambda>_. True) (length pre) offs (pre @ concat (words_in swapped (concat (c # cs)))) =
      btf_parse_type_sec swapped (\<lambda>_. True) (length (pre @ word_bytes c)) (offs @ [length pre])
        ((pre @ word_bytes c) @ concat (words_in swapped (concat cs)))"
    by (subst btf_parse_type_sec.simps) simp
  also from Cons have "\<dots> = Some (Inr ((offs @ [length pre]) @ offs_from (length (pre @ word_bytes c)) cs,
      (pre @ word_bytes c) @ word_bytes (concat cs)))" by (intro Cons.IH) simp
  finally show ?case by simp
qed (simp add: btf_parse_type_sec.simps words_in_def)

section \<open>The header\<close>

lemma bswap_twice: "n < 256 ^ k \<Longrightarrow> bswap k (bswap k n) = n"
  by (simp add: bswap_def le_bytes_le_val le_val_le_bytes)

text \<open>The bytes of an object in one of the orders, of its words and its strings.\<close>

definition raw_hdr :: "bool \<Rightarrow> nat \<Rightarrow> nat \<Rightarrow> 8 word list" where
  "raw_hdr swapped t s =
     (if swapped then rev (le_bytes 2 BTF_MAGIC) else le_bytes 2 BTF_MAGIC) @ [1, 0] @ concat (words_in swapped [24, 0, t, t, s])"

definition raw_image :: "bool \<Rightarrow> nat list \<Rightarrow> 8 word list \<Rightarrow> 8 word list" where
  "raw_image swapped ws strs = raw_hdr swapped (4 * length ws) (length strs) @ concat (words_in swapped ws) @ strs"

lemma length_raw_hdr [simp]: "length (raw_hdr swapped t s) = 24"
  by (simp add: raw_hdr_def)

lemma raw_hdr_native: "raw_hdr False t s = image_hdr_bytes t s"
  by (simp add: raw_hdr_def image_hdr_bytes_def words_in_def)

lemma hdr_bytes_image: "hdr_bytes (image_hdr t s) = raw_hdr False t s"
  by (simp add: raw_hdr_native hdr_bytes_def image_hdr_def image_hdr_bytes_def)

lemma bswap_hdr: "btf_bswap_hdr (raw_hdr swapped t s @ r) = Some (raw_hdr (\<not> swapped) t s @ r)"
proof -
  let ?m = "\<lambda>sw. if sw then rev (le_bytes 2 BTF_MAGIC) else le_bytes 2 BTF_MAGIC"
  let ?w = "\<lambda>sw. concat (words_in sw [24, 0, t, t, s])"
  have "bswap_at 2 0 ([] @ ?m swapped @ ([1, 0] @ ?w swapped @ r)) = Some ([] @ rev (?m swapped) @ ([1, 0] @ ?w swapped @ r))"
    by (rule bswap_mid) simp_all
  moreover have "rev (?m swapped) = ?m (\<not> swapped)" by simp
  moreover have "[4, 8, 12, 16, 20] = map (\<lambda>i. 4 + 4 * i) [0..<5 :: nat]" by (simp add: upt_conv_Cons)
  moreover have "bswap_all (map (\<lambda>i. 4 + 4 * i) [0..<5]) ((?m (\<not> swapped) @ [1, 0]) @ ?w swapped @ r) =
      Some ((?m (\<not> swapped) @ [1, 0]) @ ?w (\<not> swapped) @ r)" by (rule swap_words) simp_all
  ultimately show ?thesis unfolding btf_bswap_hdr_def raw_hdr_def by simp
qed

lemma hdr_at_raw:
  "24 \<le> length raw \<Longrightarrow> \<exists>h. btf_hdr_at raw = Some h \<and> rd 2 raw 0 = Some (bh_magic h) \<and> rd 4 raw 4 = Some (bh_hdr_len h)"
  by (simp add: btf_hdr_at_def rd_def)

lemma swapped_fields:
  shows "rd 2 (raw_hdr True t s @ r) 0 = Some (bswap 2 BTF_MAGIC)" and "rd 4 (raw_hdr True t s @ r) 4 = Some (bswap 4 24)"
  by (simp_all add: raw_hdr_def words_in_def rd_def bswap_def)

lemma parse_hdr_raw:
  assumes "4 * length ws < 2 ^ 32" and "length strs < 2 ^ 32"
  shows "btf_parse_hdr False (raw_image swapped ws strs) =
    Some (Inr (swapped, btf_image (concat (words_in swapped ws)) strs))"
proof (cases swapped)
  case False
  then show ?thesis using parse_hdr_image [of "word_bytes ws" strs] assms by (simp add: raw_image_def btf_image_def raw_hdr_native)
next
  case True
  let ?raw = "raw_image True ws strs" and ?im = "btf_image (concat (words_in True ws)) strs"
  have len: "24 \<le> length ?raw" by (simp add: raw_image_def)
  from hdr_at_raw [OF len] obtain h0 where h0: "btf_hdr_at ?raw = Some h0" "rd 2 ?raw 0 = Some (bh_magic h0)"
    "rd 4 ?raw 4 = Some (bh_hdr_len h0)" by blast
  have "bh_magic h0 = bswap 2 BTF_MAGIC" "bh_hdr_len h0 = bswap 4 24"
    using h0(2,3) by (simp_all only: raw_image_def swapped_fields option.inject)
  then have f: "bh_magic h0 = bswap 2 BTF_MAGIC" "bswap 4 (bh_hdr_len h0) = 24" by (simp_all add: bswap_twice)
  have s: "btf_bswap_hdr ?raw = Some ?im"
    using bswap_hdr [of True] by (simp add: raw_image_def btf_image_def raw_hdr_native)
  have h: "btf_hdr_at ?im = Some (image_hdr (4 * length ws) (length strs))"
    using image_hdr_read [of "concat (words_in True ws)" strs] assms by simp
  have l: "length ?im = 24 + 4 * length ws + length strs" by (simp add: length_btf_image)
  from len h0(1) f s h True show ?thesis by (simp add: btf_parse_hdr_def l) (simp add: image_hdr_def)
qed

text \<open>Loading an image of either order.\<close>

lemma new_raw:
  assumes "\<forall>c \<in> set cs. chunk_ok c" and "4 * length (concat cs) < 2 ^ 32" and "length strs < 2 ^ 32"
    and "btf_parse_str_sec False strs = Some 0"
  shows "btf__new True True (\<lambda>_. True) (raw_image swapped (concat cs) strs) =
    (let B = btf_object (image_hdr (4 * length (concat cs)) (length strs)) swapped (word_bytes (concat cs)) (offs_from 0 cs) strs None
     in do { err \<leftarrow> btf_sanity_check B; if err \<noteq> 0 then Some (Inl err) else map_option Inr (btf_check_sorted B) })"
proof -
  let ?t = "concat (words_in swapped (concat cs))"
  let ?h = "image_hdr (4 * length (concat cs)) (length strs)"
  have secs: "take (bh_str_len ?h) (drop (bh_hdr_len ?h + bh_str_off ?h) (btf_image ?t strs)) = strs"
    "take (bh_type_len ?h) (drop (bh_hdr_len ?h + bh_type_off ?h) (btf_image ?t strs)) = ?t"
    by (simp_all add: btf_image_def image_hdr_def)
  have h: "btf_hdr_at (btf_image ?t strs) = Some ?h" using image_hdr_read [of ?t strs] assms(2,3) by simp
  have p: "btf_parse_type_sec swapped (\<lambda>_. True) 0 [] ?t = Some (Inr (offs_from 0 cs, word_bytes (concat cs)))"
    using parse_chunks [OF assms(1), of swapped "[]" "[]"] by simp
  have none: "(None \<noteq> (None :: btf option)) = False" by simp
  show ?thesis
    by (simp only: btf__new_def btf_new_def parse_hdr_raw [OF assms(2,3)] h secs assms(4) p none Let_def bind.bind_lunit
        sum.case prod.case simp_thms if_True if_False HOL.refl)
qed

section \<open>Raw data of an object\<close>

lemma get_raw:
  assumes ok: "obj_ok (Obj b base)" and h: "holds b cs" and plain: "plain_hdr (bm_hdr b)"
    and small: "24 + bh_type_len (bm_hdr b) + bh_str_len (bm_hdr b) < 2 ^ 32"
    and c: "(if swapped then raw_data_swapped c else raw_data c) = None"
  shows "btf_get_raw_data True hdr_rest c b swapped = Some (Some (raw_image swapped (concat cs) (str_sec b)))"
proof -
  let ?t = "4 * length (concat cs)" and ?s = "bh_str_len (bm_hdr b)"
  from h have cs: "\<forall>c \<in> set cs. chunk_ok c" "bh_type_len (bm_hdr b) = ?t" "?t \<le> length (bm_types_data b)"
    "take ?t (bm_types_data b) = word_bytes (concat cs)" "4 * bm_nr_types b \<le> length (bm_type_offs b)" by (auto simp: holds_def)
  have s: "length (str_sec b) = ?s" using obj_own [OF ok] by (simp add: own_ok_def strs_ok_def)
  then have s2: "?s \<le> length (btf_strs_data b)" by (simp add: str_sec_def)
  have hd: "take 24 (hdr_bytes (bm_hdr b) @ hdr_rest) = raw_hdr False ?t ?s" "24 \<le> length (hdr_bytes (bm_hdr b) @ hdr_rest)"
    using plain cs(2) hdr_bytes_image [of ?t ?s] by (simp_all add: plain_hdr_def)
  have hl: "bh_hdr_len (bm_hdr b) = 24" using plain by (simp add: plain_hdr_def) (metis btf_header.select_convs(4) image_hdr_def)
  have "swap_types (offs_from 0 cs) (word_bytes (concat cs)) = Some (Some (concat (words_in True (concat cs))))"
    using swap_types_all [OF cs(1), of "[]" "[]"] by simp
  moreover have "btf_bswap_hdr (raw_hdr False ?t ?s) = Some (raw_hdr True ?t ?s)" using bswap_hdr [of False ?t ?s "[]"] by simp
  ultimately show ?thesis
    using small cs s s2 hd hl c unfolding btf_get_raw_data_def holds_offs [OF h]
    by (cases swapped) (simp_all add: raw_image_def str_sec_def Let_def)
qed

definition built_btf :: "btf_obj \<Rightarrow> btf" where
  "built_btf B = Btf ((own (view B))\<lparr>bo_ptr_sz := 0\<rparr>) (base_btf (view B))"

lemma built_object:
  assumes "obj_ok (Obj b None)" and "holds b cs" and "plain_hdr (bm_hdr b)"
  shows "built_btf (Obj b None) =
    btf_object (image_hdr (4 * length (concat cs)) (length (str_sec b))) (bm_swapped_endian b) (word_bytes (concat cs)) (offs_from 0 cs) (str_sec b) None"
proof -
  have s: "length (str_sec b) = bh_str_len (bm_hdr b)" using obj_own [OF assms(1)] by (simp add: own_ok_def strs_ok_def)
  have h: "bh_type_len (bm_hdr b) = 4 * length (concat cs)" "take (4 * length (concat cs)) (bm_types_data b) = word_bytes (concat cs)"
    using assms(2) by (simp_all add: holds_def)
  then have "bm_hdr b = image_hdr (4 * length (concat cs)) (length (str_sec b))" using assms(3) s by (simp add: plain_hdr_def)
  with assms(1) h holds_offs [OF assms(2)] show ?thesis by (simp add: built_btf_def btf_object_def obj_ok.simps view.simps)
qed

lemma first_last:
  assumes "d \<noteq> []"
  shows "rd 1 d 0 = Some (unat (hd d))" and "rd 1 d (length d - 1) = Some (unat (last d))"
proof -
  show "rd 1 d 0 = Some (unat (hd d))" using assms by (cases d) (simp_all add: rd_def)
  have "rd 1 (butlast d @ [last d]) (length (butlast d)) = Some (unat (last d))" by (simp only: rd_append0) (simp add: rd_def)
  with assms show "rd 1 d (length d - 1) = Some (unat (last d))" by simp
qed

lemma raw_loads:
  assumes ok: "obj_ok (Obj b None)" and plain: "plain_hdr (bm_hdr b)"
    and small: "24 + bh_type_len (bm_hdr b) + bh_str_len (bm_hdr b) < 2 ^ 32" and first: "hd (str_sec b) = 0"
  obtains raw err where "btf_get_raw_data True hdr_rest \<lparr>raw_data = None, raw_data_swapped = None\<rparr> b (bm_swapped_endian b) = Some (Some raw)"
    "btf_sanity_check (built_btf (Obj b None)) = Some err"
    "err \<noteq> 0 \<longrightarrow> btf__new True True (\<lambda>_. True) raw = Some (Inl err)"
    "err = 0 \<longrightarrow> wf_btf (built_btf (Obj b None)) \<and>
      (\<exists>n. btf__new True True (\<lambda>_. True) raw = Some (Inr (Btf ((own (built_btf (Obj b None)))\<lparr>bo_named_start_id := n\<rparr>) None)))"
proof -
  let ?L = "built_btf (Obj b None)"
  from obj_own [OF ok] obtain cs where h: "holds b cs" by (auto simp: own_ok_def)
  note obj = built_object [OF ok h plain]
  have s: "length (str_sec b) = bh_str_len (bm_hdr b)" "str_sec b \<noteq> [] \<longrightarrow> last (str_sec b) = 0" "bh_str_len (bm_hdr b) \<le> 2 ^ 31"
    using obj_own [OF ok] by (simp_all add: own_ok_def strs_ok_def)
  have pos: "str_sec b \<noteq> []" using ok s(1) by (auto simp: obj_ok.simps)
  from pos s have len: "0 < bh_str_len (bm_hdr b)" "bh_str_len (bm_hdr b) - Suc 0 \<le> 2147483647" by (cases "str_sec b", auto)
  have t: "4 * length (concat cs) < 2 ^ 32" "\<forall>c \<in> set cs. chunk_ok c" using h by (simp_all add: holds_def)
  have str: "btf_parse_str_sec False (str_sec b) = Some 0"
    using pos s first_last [OF pos] first len by (simp add: btf_parse_str_sec_def BTF_MAX_STR_OFFSET_def)
  have "shaped ?L" using view_shaped [OF ok] by (simp add: built_btf_def view.simps secs_ok_def)
  moreover have L: "?L = Btf (own ?L) None" by (simp add: built_btf_def view.simps)
  ultimately obtain err where err: "btf_sanity_check ?L = Some err" "err = 0 \<longrightarrow> wf_btf ?L"
    using sanity_check_ok [of "own ?L" None] by (metis option.distinct(1))
  have c: "(if bm_swapped_endian b then raw_data_swapped \<lparr>raw_data = None, raw_data_swapped = None\<rparr>
      else raw_data \<lparr>raw_data = None, raw_data_swapped = None\<rparr>) = None" by simp
  note raw = get_raw [OF ok h plain small c]
  have new: "btf__new True True (\<lambda>_. True) (raw_image (bm_swapped_endian b) (concat cs) (str_sec b)) =
      do { err \<leftarrow> btf_sanity_check ?L; if err \<noteq> 0 then Some (Inl err) else map_option Inr (btf_check_sorted ?L) }"
    using new_raw [OF t(2,1) _ str, of "bm_swapped_endian b"] s unfolding Let_def obj by simp
  have "\<exists>n. btf_check_sorted ?L = Some (Btf ((own ?L)\<lparr>bo_named_start_id := n\<rparr>) None)" if "err = 0"
  proof -
    from check_sorted_ok [of "own ?L" None] that err(2) L obtain n where
      "btf_check_sorted ?L = Some (Btf ((own ?L)\<lparr>bo_named_start_id := n\<rparr>) None) \<or> btf_check_sorted ?L = Some (Btf (own ?L) None)" by metis
    moreover have "own ?L = (own ?L)\<lparr>bo_named_start_id := bo_named_start_id (own ?L)\<rparr>" by simp
    ultimately show ?thesis by metis
  qed
  with that [OF raw err(1)] new err show thesis by auto
qed

section \<open>Sequences of calls\<close>

fun run_btf_calls :: "(nat \<Rightarrow> nat \<Rightarrow> btf_allocs) \<Rightarrow> btf_call list \<Rightarrow> btf_obj \<Rightarrow> (int list \<times> btf_obj) option" where
  "run_btf_calls al [] B = Some ([], B)"
| "run_btf_calls al (call # calls) B =
     do { (r, B) \<leftarrow> run_btf_call (al 0) call B; (rs, B) \<leftarrow> run_btf_calls (\<lambda>n. al (Suc n)) calls B; Some (r # rs, B) }"

definition few_members :: "nat \<Rightarrow> nat list list \<Rightarrow> bool" where
  "few_members n cs \<longleftrightarrow> (\<forall>c \<in> set cs. BTF_INFO_VLEN (c ! 1) \<le> n)"

lemma few_ty: "few_members n cs \<Longrightarrow> kind < 32 \<Longrightarrow> vlen \<le> 2 \<Longrightarrow> 2 \<le> n \<Longrightarrow> few_members (Suc n) (cs @ [ty kind vlen kflag w extra v])"
  by (auto simp: few_members_def ty_def)

lemma few_member:
  assumes "few_members n cs" and "cs \<noteq> []" and "\<forall>c \<in> set cs. chunk_ok c" and "n < 65535"
  shows "few_members (Suc n) (member kflag w cs)"
proof -
  have l: "last cs \<in> set cs" using assms(2) by simp
  with assms have "BTF_INFO_VLEN (last cs ! 1) \<le> n" "chunk_ok (last cs)" by (simp_all add: few_members_def)
  then have "BTF_INFO_VLEN (last cs ! 1) \<le> n" "1 < length (last cs)" by (auto simp: chunk_ok_def)
  moreover have "BTF_INFO_KIND (last cs ! 1) < 32" by (simp add: BTF_INFO_KIND_def)
  ultimately show ?thesis using assms(1,4)
    by (auto simp: few_members_def member_def bump_def nth_append dest!: in_set_butlastD intro: le_SucI)
qed

lemma few_same: "few_members n cs \<Longrightarrow> few_members (Suc n) cs"
  by (auto simp: few_members_def)

lemma last_kind_some: "last_kind cs = Some k \<Longrightarrow> cs \<noteq> []"
  by (auto simp: last_kind_def split: if_splits)

lemma spec_few:
  assumes "spec_call call v cs = Inr cs'" and "few_members n cs" and "\<forall>c \<in> set cs. chunk_ok c" and "2 \<le> n" and "n < 65535"
  shows "few_members (Suc n) cs'"
proof (cases call)
  case (Add_str s)
  with assms(1) few_same [OF assms(2)] show ?thesis by simp
qed (use assms(1) in \<open>auto split: if_splits intro!: few_ty [OF assms(2)] few_member [OF assms(2) _ assms(3,5)]
    dest!: last_kind_some simp: assms(4)\<close>)

lemma call_few:
  assumes ok: "obj_ok B" and h: "holds (bm B) cs" and nul: "0 \<notin> set (call_name call)"
    and few: "few_members n cs" and n: "2 \<le> n" "n < 65535"
  obtains r B' cs' where "run_btf_call al call B = Some (r, B')" "becomes B B' cs'" "few_members (Suc n) cs'"
proof -
  have "BTF_INFO_VLEN (last cs ! 1) \<le> n" if "cs \<noteq> []" using few that by (simp add: few_members_def)
  with n(2) have "BTF_INFO_VLEN (last cs ! 1) < 65535" if "cs \<noteq> []" using that by fastforce
  note res = call_ok [OF ok h nul this, of al]
  have cs: "\<forall>c \<in> set cs. chunk_ok c" using h by (simp add: holds_def)
  show thesis
  proof (cases "spec_call call 0 cs")
    case (Inl e)
    with res have "run_btf_call al call B = Some (e, B)" by (simp add: call_result_def)
    from this extends_becomes [OF ok extends_refl [OF ok] h] few_same [OF few] show thesis by (rule that)
  next
    case (Inr x)
    from res obtain r B' where run: "run_btf_call al call B = Some (r, B')"
      and "becomes B B' cs \<or> (\<exists>v cs'. spec_call call v cs = Inr cs' \<and> becomes B B' cs')"
      unfolding call_result_def Inr sum.case by blast
    then show thesis using that [OF run] few_same [OF few] spec_few [OF _ few cs n] by blast
  qed
qed

lemma run_btf_calls_ok:
  assumes "obj_ok B" and "holds (bm B) cs" and "\<forall>call \<in> set calls. 0 \<notin> set (call_name call)"
    and "few_members n cs" and "2 \<le> n" and "n + length calls < 65535"
  shows "\<exists>rs B' cs'. run_btf_calls al calls B = Some (rs, B') \<and> becomes B B' cs'"
  using assms
proof (induction al calls B arbitrary: cs n rule: run_btf_calls.induct)
  case (1 al B)
  from extends_becomes [OF "1.prems"(1) extends_refl [OF "1.prems"(1)] "1.prems"(2)] show ?case by auto
next
  case (2 al call calls B)
  from "2.prems"(3,6) have c: "0 \<notin> set (call_name call)" "n < 65535" by simp_all
  obtain r B1 cs1 where run: "run_btf_call (al 0) call B = Some (r, B1)" and b1: "becomes B B1 cs1" "few_members (Suc n) cs1"
    by (rule call_few [OF "2.prems"(1,2) c(1) "2.prems"(4,5) c(2)])
  from b1(1) have ok1: "obj_ok B1" "holds (bm B1) cs1" by (simp_all add: becomes_def)
  from "2.prems"(3,5,6) have "\<forall>call \<in> set calls. 0 \<notin> set (call_name call)" "2 \<le> Suc n" "Suc n + length calls < 65535" by simp_all
  note ih = "2.IH" [OF run refl ok1 this(1) b1(2) this(2,3)]
  then obtain rs B' cs' where rest: "run_btf_calls (\<lambda>n. al (Suc n)) calls B1 = Some (rs, B')" "becomes B1 B' cs'" by blast
  from run rest(1) have "run_btf_calls al (call # calls) B = Some (r # rs, B')" by simp
  with becomes_trans [OF b1(1) rest(2)] show ?case by blast
qed

section \<open>Building and loading\<close>

lemma empty_in:
  defines "B \<equiv> \<lambda>swapped. Obj ((bm empty_obj)\<lparr>bm_swapped_endian := swapped\<rparr>) None"
  shows "obj_ok (B swapped)" "holds (bm (B swapped)) []" "plain_hdr (bm_hdr (bm (B swapped)))" "reads (B swapped) 0 []"
proof -
  let ?b = "(bm empty_obj)\<lparr>bm_swapped_endian := swapped\<rparr>"
  show h: "holds (bm (B swapped)) []" using empty_ok(2) by (simp add: B_def holds_def)
  show "plain_hdr (bm_hdr (bm (B swapped)))" by (simp add: B_def plain_hdr_def image_hdr_def empty_obj_def empty_hdr_def)
  have sec: "str_sec ?b = [0]" by (simp add: str_sec_def empty_obj_def empty_hdr_def btf_strs_data_def)
  then have "own_ok ?b"
    using h by (auto simp: own_ok_def mods_ok_def strs_ok_def B_def) (simp_all add: empty_obj_def empty_hdr_def)
  then show "obj_ok (B swapped)" by (simp add: B_def obj_ok.simps) (simp add: empty_obj_def empty_hdr_def)
  show "reads (B swapped) 0 []" using sec by (simp add: reads_def B_def view.simps empty_obj_def empty_hdr_def str_at_def)
qed

lemma reads_first:
  assumes "obj_ok (Obj b None)" and "reads (Obj b None) 0 []"
  shows "hd (str_sec b) = 0"
proof -
  from assms have "str_sec b \<noteq> []" "str_at (str_sec b) 0 = []"
    by (auto simp: reads_def view.simps obj_ok.simps split: if_splits)
  then show ?thesis by (cases "str_sec b") (auto simp: str_at_def split: if_splits)
qed

text \<open>C11: a new object is set to the byte order of either kind of machine, and fewer than 65533 calls add strings, types
  and members to it, with any arguments and whatever allocations fail. None of the calls leaves the buffers, and the
  bytes that \<open>btf__raw_data\<close> makes of the result, when their number is a 32-bit number, load again: the loader
  answers with what its sanity check says of the types, and an object that it makes is well-formed and has the
  byte order, the types, their numbers and the strings of the object that was built.\<close>

theorem btf_build_load_roundtrip:
  assumes "\<forall>call \<in> set calls. 0 \<notin> set (call_name call)" and "length calls < 65533"
    and "btf__set_endianness endian cache (bm empty_obj) = (0, cache', b)"
  shows "\<exists>rs B. run_btf_calls al calls (Obj b None) = Some (rs, B) \<and>
    (24 + bh_type_len (bm_hdr (bm B)) + bh_str_len (bm_hdr (bm B)) < 2 ^ 32 \<longrightarrow>
      (\<exists>raw c err. btf__raw_data True hdr_rest \<lparr>raw_data = None, raw_data_swapped = None\<rparr> (bm B) = Some (Some raw, c) \<and>
         btf_sanity_check (built_btf B) = Some err \<and>
         (if err \<noteq> 0 then btf__new True True (\<lambda>_. True) raw = Some (Inl err)
          else wf_btf (built_btf B) \<and> bo_swapped_endian (own (built_btf B)) = (endian = BTF_BIG_ENDIAN) \<and>
            (\<exists>n. btf__new True True (\<lambda>_. True) raw = Some (Inr (Btf ((own (built_btf B))\<lparr>bo_named_start_id := n\<rparr>) None))))))"
proof -
  from assms(3) have b: "b = (bm empty_obj)\<lparr>bm_swapped_endian := (endian = BTF_BIG_ENDIAN)\<rparr>"
    by (auto simp: btf__set_endianness_def is_host_big_endian_def Let_def split: if_splits)
  note start = empty_in [of "endian = BTF_BIG_ENDIAN", folded b]
  have "few_members 2 []" by (simp add: few_members_def)
  from run_btf_calls_ok [OF start(1,2) assms(1) this, of al] assms(2) obtain rs B cs where
    run: "run_btf_calls al calls (Obj b None) = Some (rs, B)" and B: "becomes (Obj b None) B cs" by auto
  then obtain b' where b': "B = Obj b' None" by (cases B) (auto simp: becomes_def below_same_def)
  from B b' start have ok: "obj_ok (Obj b' None)" "plain_hdr (bm_hdr b')" "reads (Obj b' None) 0 []"
    "bm_swapped_endian b' = (endian = BTF_BIG_ENDIAN)" by (auto simp: becomes_def b)
  have order: "bo_swapped_endian (own (built_btf B)) = (endian = BTF_BIG_ENDIAN)" using ok(4) by (simp add: built_btf_def b' view.simps)
  have again: "24 + bh_type_len (bm_hdr (bm B)) + bh_str_len (bm_hdr (bm B)) < 2 ^ 32 \<longrightarrow>
    (\<exists>raw c err. btf__raw_data True hdr_rest \<lparr>raw_data = None, raw_data_swapped = None\<rparr> (bm B) = Some (Some raw, c) \<and>
      btf_sanity_check (built_btf B) = Some err \<and>
      (if err \<noteq> 0 then btf__new True True (\<lambda>_. True) raw = Some (Inl err)
       else wf_btf (built_btf B) \<and> bo_swapped_endian (own (built_btf B)) = (endian = BTF_BIG_ENDIAN) \<and>
         (\<exists>n. btf__new True True (\<lambda>_. True) raw = Some (Inr (Btf ((own (built_btf B))\<lparr>bo_named_start_id := n\<rparr>) None)))))"
  proof
    assume "24 + bh_type_len (bm_hdr (bm B)) + bh_str_len (bm_hdr (bm B)) < 2 ^ 32"
    then have small: "24 + bh_type_len (bm_hdr b') + bh_str_len (bm_hdr b') < 2 ^ 32" by (simp only: b' btf_obj.sel)
    obtain raw err where r: "btf_get_raw_data True hdr_rest \<lparr>raw_data = None, raw_data_swapped = None\<rparr> (bm B) (bm_swapped_endian (bm B)) =
        Some (Some raw)" "btf_sanity_check (built_btf B) = Some err"
      "err \<noteq> 0 \<longrightarrow> btf__new True True (\<lambda>_. True) raw = Some (Inl err)"
      "err = 0 \<longrightarrow> wf_btf (built_btf B) \<and>
        (\<exists>n. btf__new True True (\<lambda>_. True) raw = Some (Inr (Btf ((own (built_btf B))\<lparr>bo_named_start_id := n\<rparr>) None)))"
      by (rule raw_loads [OF ok(1,2) small reads_first [OF ok(1,3)], of hdr_rest]) (simp only: b' btf_obj.sel)
    obtain c where c: "btf__raw_data True hdr_rest \<lparr>raw_data = None, raw_data_swapped = None\<rparr> (bm B) = Some (Some raw, c)"
      using r(1) by (simp add: btf__raw_data_def)
    show "\<exists>raw c err. btf__raw_data True hdr_rest \<lparr>raw_data = None, raw_data_swapped = None\<rparr> (bm B) = Some (Some raw, c) \<and>
      btf_sanity_check (built_btf B) = Some err \<and>
      (if err \<noteq> 0 then btf__new True True (\<lambda>_. True) raw = Some (Inl err)
       else wf_btf (built_btf B) \<and> bo_swapped_endian (own (built_btf B)) = (endian = BTF_BIG_ENDIAN) \<and>
         (\<exists>n. btf__new True True (\<lambda>_. True) raw = Some (Inr (Btf ((own (built_btf B))\<lparr>bo_named_start_id := n\<rparr>) None))))"
      by (rule exI, rule exI, rule exI, rule conjI, rule c, rule conjI, rule r(2)) (use r(3,4) order in auto)
  qed
  show ?thesis by (rule exI, rule exI, rule conjI, rule run, rule again)
qed

theorem btf_build_load_roundtrip_witness:
  "\<exists>rs B raw c err. run_btf_calls (\<lambda>_. all_allocs) [Add_ptr 1] (Obj ((bm empty_obj)\<lparr>bm_swapped_endian := True\<rparr>) None) = Some (rs, B) \<and>
    btf__raw_data True [] \<lparr>raw_data = None, raw_data_swapped = None\<rparr> (bm B) = Some (Some raw, c) \<and>
    btf_sanity_check (built_btf B) = Some err"
proof -
  let ?b = "(bm empty_obj)\<lparr>bm_swapped_endian := True\<rparr>"
  have hyps: "\<forall>call \<in> set [Add_ptr 1]. 0 \<notin> set (call_name call)" "length [Add_ptr 1] < 65533"
    "btf__set_endianness BTF_BIG_ENDIAN \<lparr>raw_data = None, raw_data_swapped = None\<rparr> (bm empty_obj) =
      (0, \<lparr>raw_data = None, raw_data_swapped = None\<rparr>, ?b)"
    by (simp_all add: btf__set_endianness_def is_host_big_endian_def)
  from btf_build_load_roundtrip [OF hyps, of "\<lambda>_. all_allocs" "[]"] obtain rs B where
    run: "run_btf_calls (\<lambda>_. all_allocs) [Add_ptr 1] (Obj ?b None) = Some (rs, B)"
    and again: "24 + bh_type_len (bm_hdr (bm B)) + bh_str_len (bm_hdr (bm B)) < 2 ^ 32 \<longrightarrow>
      (\<exists>raw c err. btf__raw_data True [] \<lparr>raw_data = None, raw_data_swapped = None\<rparr> (bm B) = Some (Some raw, c) \<and>
        btf_sanity_check (built_btf B) = Some err)" by metis
  note start = empty_in [of True]
  have "call_result (Add_ptr 1) (Obj ?b None) [] (run_btf_call all_allocs (Add_ptr 1) (Obj ?b None))"
    by (rule call_ok [OF start(1,2)]) simp_all
  moreover from run obtain r where "run_btf_call all_allocs (Add_ptr 1) (Obj ?b None) = Some (r, B)" by (auto split: bind_splits)
  ultimately obtain cs where cs: "becomes (Obj ?b None) B cs" "length (concat cs) \<le> 3"
    by (fastforce simp: call_result_def id_ok_def ty_def)
  then obtain b' where b': "B = Obj b' None" by (cases B) (auto simp: becomes_def below_same_def)
  with cs have "bh_type_len (bm_hdr b') \<le> 12" "own_ok b'" by (auto simp: becomes_def holds_def obj_ok.simps)
  then have "24 + bh_type_len (bm_hdr b') + bh_str_len (bm_hdr b') < 2 ^ 32" by (simp add: own_ok_def strs_ok_def)
  with again run b' show ?thesis by auto
qed

end
